(* ===== verification/Prelude.thy ===== *)
theory Prelude
  imports Complex_Main "HOL-Library.Word" "HOL-Library.Sublist" "HOL-Library.AList"
begin

text \<open>
  Shared vocabulary of the development: Rust's fixed-width integer operations, byte-string
  operations of the standard library, JSON values, and the generic facts about lists and
  counting that the component theories share.

  Strings are \<open>string\<close> (a list of bytes), the UTF-8 representation Rust's \<open>str\<close> has, so
  \<open>length\<close> is \<open>str::len\<close>. Integers of the source that can saturate or wrap are
  \<open>int\<close> or \<open>nat\<close> with the bound written out, or words.
\<close>

named_theorems rust_arith "unfolding rules of the fixed-width integer operations"
named_theorems json_simps "accessors of JSON values"

section \<open>Machine integers\<close>

definition i64_min :: int where
  "i64_min = - (2 ^ 63)"

definition i64_max :: int where
  "i64_max = 2 ^ 63 - 1"

definition u64_max :: nat where
  "u64_max = 2 ^ 64 - 1"

text \<open>\<open>Ord::clamp(lo, hi)\<close>; the source only calls it with \<open>lo \<le> hi\<close>.\<close>

definition clamp :: "'a::linorder \<Rightarrow> 'a \<Rightarrow> 'a \<Rightarrow> 'a" where
  "clamp lo hi x = (if x < lo then lo else if hi < x then hi else x)"

definition sat_i64 :: "int \<Rightarrow> int" where
  "sat_i64 x = clamp i64_min i64_max x"

definition sat_add :: "int \<Rightarrow> int \<Rightarrow> int" where
  "sat_add a b = sat_i64 (a + b)"

definition sat_sub :: "int \<Rightarrow> int \<Rightarrow> int" where
  "sat_sub a b = sat_i64 (a - b)"

definition sat_mul :: "int \<Rightarrow> int \<Rightarrow> int" where
  "sat_mul a b = sat_i64 (a * b)"

text \<open>Wrap-around of a release-mode \<open>i64\<close> operation (two's complement).\<close>

definition wrap_i64 :: "int \<Rightarrow> int" where
  "wrap_i64 x = (x + 2 ^ 63) mod 2 ^ 64 - 2 ^ 63"

definition i64_ok :: "int \<Rightarrow> bool" where
  "i64_ok x \<longleftrightarrow> i64_min \<le> x \<and> x \<le> i64_max"

definition sat_add_u64 :: "nat \<Rightarrow> nat \<Rightarrow> nat" where
  "sat_add_u64 a b = min u64_max (a + b)"

definition sat_mul_u64 :: "nat \<Rightarrow> nat \<Rightarrow> nat" where
  "sat_mul_u64 a b = min u64_max (a * b)"

lemmas i64_bounds = i64_min_def i64_max_def

lemmas sat_defs [rust_arith] = sat_add_def sat_sub_def sat_mul_def sat_i64_def clamp_def i64_bounds

lemma clamp_bounds [intro, simp]:
  "lo \<le> hi \<Longrightarrow> lo \<le> clamp lo hi x" "lo \<le> hi \<Longrightarrow> clamp lo hi x \<le> hi"
  by (auto simp: clamp_def)

lemma clamp_id [simp]: "lo \<le> x \<Longrightarrow> x \<le> hi \<Longrightarrow> clamp lo hi x = x"
  by (auto simp: clamp_def)

lemma clamp_idem [simp]: "lo \<le> hi \<Longrightarrow> clamp lo hi (clamp lo hi x) = clamp lo hi x"
  by (auto simp: clamp_def)

lemma clamp_mono: "lo \<le> hi \<Longrightarrow> x \<le> y \<Longrightarrow> clamp lo hi x \<le> clamp lo hi y"
  by (auto simp: clamp_def)

lemma sat_i64_ok [simp]: "i64_ok (sat_i64 x)"
  by (simp add: i64_ok_def sat_i64_def clamp_def i64_bounds)

lemma sat_i64_id [simp]: "i64_ok x \<Longrightarrow> sat_i64 x = x"
  by (simp add: i64_ok_def sat_i64_def)

lemma wrap_i64_ok [simp]: "i64_ok (wrap_i64 x)"
proof -
  have "0 \<le> (x + 2 ^ 63) mod (2::int) ^ 64" "(x + 2 ^ 63) mod (2::int) ^ 64 < 2 ^ 64"
    by (simp_all add: pos_mod_bound)
  then show ?thesis by (simp add: i64_ok_def wrap_i64_def i64_bounds)
qed

lemma wrap_i64_id: "i64_ok x \<Longrightarrow> wrap_i64 x = x"
  by (simp add: i64_ok_def wrap_i64_def i64_bounds)

text \<open>Integer division truncating towards zero, for a positive divisor.\<close>

definition trunc_div :: "int \<Rightarrow> int \<Rightarrow> int" where
  "trunc_div a b = (if 0 \<le> a then a div b else - ((- a) div b))"

text \<open>\<open>to_string\<close> of an integer.\<close>

definition digit_char :: "nat \<Rightarrow> char" where
  "digit_char d = char_of (48 + d)"

fun show_nat :: "nat \<Rightarrow> string" where
  "show_nat n = (if n < 10 then [digit_char n] else show_nat (n div 10) @ [digit_char (n mod 10)])"

declare show_nat.simps [simp del]

definition show_int :: "int \<Rightarrow> string" where
  "show_int n = (if n < 0 then CHR ''-'' # show_nat (nat (- n)) else show_nat (nat n))"

section \<open>Lists and counting\<close>

text \<open>
  How many entries of a list satisfy a predicate, and how one update of the list changes the
  count: the arithmetic of every "number of holders" invariant.
\<close>

definition count_if :: "('a \<Rightarrow> bool) \<Rightarrow> 'a list \<Rightarrow> nat" where
  "count_if P xs = length (filter P xs)"

lemma count_if_simps [simp]:
  "count_if P [] = 0"
  "count_if P (x # xs) = (if P x then Suc (count_if P xs) else count_if P xs)"
  "count_if P (xs @ ys) = count_if P xs + count_if P ys"
  by (simp_all add: count_if_def)

lemma count_if_replicate [simp]: "count_if P (replicate n x) = (if P x then n else 0)"
  by (simp add: count_if_def)

lemma count_if_update:
  "i < length xs \<Longrightarrow>
     count_if P (xs[i := x]) + (if P (xs ! i) then 1 else 0) = count_if P xs + (if P x then 1 else 0)"
proof (induction xs arbitrary: i)
  case Nil
  then show ?case by simp
next
  case (Cons y ys)
  then show ?case by (cases i) fastforce+
qed

lemma count_if_le: "count_if P xs \<le> length xs"
  by (simp add: count_if_def)

lemma count_if_pos: "i < length xs \<Longrightarrow> P (xs ! i) \<Longrightarrow> 0 < count_if P xs"
  unfolding count_if_def length_greater_0_conv filter_empty_conv by (meson nth_mem)

lemma count_if_mono: "(\<And>x. P x \<Longrightarrow> Q x) \<Longrightarrow> count_if P xs \<le> count_if Q xs"
  by (induction xs) auto

lemma count_if_add: "(\<And>x. \<not> (P x \<and> Q x)) \<Longrightarrow> count_if (\<lambda>x. P x \<or> Q x) xs = count_if P xs + count_if Q xs"
  by (induction xs) auto

lemma length_update_le: "length (AList.update k v al) \<le> Suc (length al)"
  by (induction al) auto

text \<open>Sorting by a key commutes with a map that keeps the key.\<close>

lemma insort_key_map: "map g (insort_key (\<lambda>x. k (g x)) a xs) = insort_key k (g a) (map g xs)"
  by (induction xs) auto

lemma sort_key_map: "map g (sort_key (\<lambda>x. k (g x)) xs) = sort_key k (map g xs)"
  by (induction xs) (simp_all add: insort_key_map)

section \<open>Byte strings\<close>

definition starts_with :: "'a list \<Rightarrow> 'a list \<Rightarrow> bool" where
  "starts_with s p \<longleftrightarrow> take (length p) s = p"

definition ends_with :: "'a list \<Rightarrow> 'a list \<Rightarrow> bool" where
  "ends_with s p \<longleftrightarrow> starts_with (rev s) (rev p)"

definition strip_prefix :: "'a list \<Rightarrow> 'a list \<Rightarrow> 'a list option" where
  "strip_prefix p s = (if starts_with s p then Some (drop (length p) s) else None)"

definition strip_suffix :: "'a list \<Rightarrow> 'a list \<Rightarrow> 'a list option" where
  "strip_suffix p s = (if ends_with s p then Some (take (length s - length p) s) else None)"

lemma starts_with_iff: "starts_with s p \<longleftrightarrow> (\<exists>r. s = p @ r)"
  by (metis append_eq_conv_conj append_take_drop_id starts_with_def)

lemma ends_with_iff: "ends_with s p \<longleftrightarrow> (\<exists>r. s = r @ p)"
proof
  assume "ends_with s p"
  then obtain r where "rev s = rev p @ r" by (auto simp: ends_with_def starts_with_iff)
  then have "s = rev r @ p" by (metis rev_append rev_rev_ident)
  then show "\<exists>r. s = r @ p" ..
qed (auto simp: ends_with_def starts_with_iff)

lemma starts_with_append [simp]: "starts_with (p @ r) p"
  by (auto simp: starts_with_iff)

lemma starts_with_refl [simp]: "starts_with s s"
  by (simp add: starts_with_def)

lemma starts_with_Nil [simp]: "starts_with s []"
  by (simp add: starts_with_def)

lemma starts_with_trans: "starts_with a b \<Longrightarrow> starts_with b c \<Longrightarrow> starts_with a c"
  by (auto simp: starts_with_iff)

lemma starts_with_length: "starts_with s p \<Longrightarrow> length p \<le> length s"
  by (auto simp: starts_with_iff)

lemma ends_with_append [simp]: "ends_with (r @ p) p"
  by (auto simp: ends_with_iff)

lemma strip_prefix_Some: "strip_prefix p s = Some r \<longleftrightarrow> s = p @ r"
  by (auto simp: strip_prefix_def starts_with_iff split: if_splits)

lemma strip_suffix_Some: "strip_suffix p s = Some r \<longleftrightarrow> s = r @ p"
  by (auto simp: strip_suffix_def ends_with_iff split: if_splits)

text \<open>\<open>str::find\<close>, \<open>rfind\<close> of one byte, \<open>split\<close> and \<open>split_once\<close> at one byte.\<close>

fun find_byte :: "'a \<Rightarrow> 'a list \<Rightarrow> nat option" where
  "find_byte c [] = None"
| "find_byte c (x # xs) = (if x = c then Some 0 else map_option Suc (find_byte c xs))"

definition rfind_byte :: "'a \<Rightarrow> 'a list \<Rightarrow> nat option" where
  "rfind_byte c xs = map_option (\<lambda>i. length xs - 1 - i) (find_byte c (rev xs))"

fun split_byte :: "'a \<Rightarrow> 'a list \<Rightarrow> 'a list list" where
  "split_byte c [] = [[]]"
| "split_byte c (x # xs) =
     (if x = c then [] # split_byte c xs
      else (case split_byte c xs of [] \<Rightarrow> [[x]] | p # ps \<Rightarrow> (x # p) # ps))"

definition split_once :: "'a \<Rightarrow> 'a list \<Rightarrow> ('a list \<times> 'a list) option" where
  "split_once c xs = map_option (\<lambda>i. (take i xs, drop (Suc i) xs)) (find_byte c xs)"

fun join_with :: "'a list \<Rightarrow> 'a list list \<Rightarrow> 'a list" where
  "join_with sep [] = []"
| "join_with sep [x] = x"
| "join_with sep (x # y # ys) = x @ sep @ join_with sep (y # ys)"

lemma find_byte_Some: "find_byte c xs = Some i \<Longrightarrow> i < length xs \<and> xs ! i = c \<and> c \<notin> set (take i xs)"
  by (induction xs arbitrary: i) (auto split: if_splits)

lemma find_byte_None: "find_byte c xs = None \<longleftrightarrow> c \<notin> set xs"
  by (induction xs) auto

lemma find_byte_append: "c \<notin> set xs \<Longrightarrow> find_byte c (xs @ c # ys) = Some (length xs)"
  by (induction xs) auto

lemma split_byte_not_Nil [simp]: "split_byte c xs \<noteq> []"
  by (induction xs) (auto split: list.splits)

lemma split_byte_join: "join_with [c] (split_byte c xs) = xs"
proof (induction xs)
  case Nil
  then show ?case by simp
next
  case (Cons x xs)
  obtain p ps where s: "split_byte c xs = p # ps" by (cases "split_byte c xs") auto
  with Cons show ?case by (cases ps) auto
qed

lemma split_byte_no_sep: "p \<in> set (split_byte c xs) \<Longrightarrow> c \<notin> set p"
proof (induction xs arbitrary: p)
  case Nil
  then show ?case by simp
next
  case (Cons x xs)
  obtain q qs where s: "split_byte c xs = q # qs" by (cases "split_byte c xs") auto
  with Cons show ?case by (auto split: if_splits)
qed

text \<open>
  ASCII case folding and \<open>trim\<close>. Rust trims the characters with the Unicode \<open>White_Space\<close>
  property; \<open>ws_seqs\<close> lists their UTF-8 encodings.
\<close>

definition ascii_lower_byte :: "char \<Rightarrow> char" where
  "ascii_lower_byte c =
     (if 65 \<le> (of_char c :: nat) \<and> (of_char c :: nat) \<le> 90 then char_of ((of_char c :: nat) + 32) else c)"

definition ascii_lower :: "string \<Rightarrow> string" where
  "ascii_lower s = map ascii_lower_byte s"

definition eq_ignore_ascii_case :: "string \<Rightarrow> string \<Rightarrow> bool" where
  "eq_ignore_ascii_case a b \<longleftrightarrow> ascii_lower a = ascii_lower b"

definition ws_seqs :: "string list" where
  "ws_seqs = map (map char_of)
     ([[9], [10], [11], [12], [13], [32], [194, 133], [194, 160], [225, 154, 128]]
      @ map (\<lambda>b. [226, 128, b]) [128, 129, 130, 131, 132, 133, 134, 135, 136, 137, 138, 168, 169, 175]
      @ [[226, 129, 159], [227, 128, 128 :: nat]])"

definition strip_one_of :: "string list \<Rightarrow> string \<Rightarrow> string option" where
  "strip_one_of ps s = Option.bind (find (starts_with s) ps) (\<lambda>p. strip_prefix p s)"

lemma ws_seqs_nonempty: "p \<in> set ws_seqs \<Longrightarrow> p \<noteq> []"
  by (auto simp: ws_seqs_def)

function trim_with :: "string list \<Rightarrow> string \<Rightarrow> string" where
  "trim_with ps s =
     (case strip_one_of ps s of
        None \<Rightarrow> s
      | Some r \<Rightarrow> if length r < length s then trim_with ps r else s)"
  by pat_completeness auto
termination
  by (relation "measure (\<lambda>(ps, s). length s)") auto

declare trim_with.simps [simp del]

definition trim_start :: "string \<Rightarrow> string" where
  "trim_start s = trim_with ws_seqs s"

definition trim_end :: "string \<Rightarrow> string" where
  "trim_end s = rev (trim_with (map rev ws_seqs) (rev s))"

definition trim :: "string \<Rightarrow> string" where
  "trim s = trim_end (trim_start s)"

text \<open>\<open>trim_start_matches\<close>, \<open>trim_end_matches\<close>, \<open>trim_matches\<close> of a byte predicate.\<close>

definition trim_start_matches :: "('a \<Rightarrow> bool) \<Rightarrow> 'a list \<Rightarrow> 'a list" where
  "trim_start_matches P s = dropWhile P s"

definition trim_end_matches :: "('a \<Rightarrow> bool) \<Rightarrow> 'a list \<Rightarrow> 'a list" where
  "trim_end_matches P s = rev (dropWhile P (rev s))"

definition trim_matches :: "('a \<Rightarrow> bool) \<Rightarrow> 'a list \<Rightarrow> 'a list" where
  "trim_matches P s = trim_end_matches P (trim_start_matches P s)"

lemma trim_with_suffix: "\<exists>p. s = p @ trim_with ps s"
proof (induction ps s rule: trim_with.induct)
  case (1 ps s)
  show ?case
  proof (cases "strip_one_of ps s")
    case None
    then have "trim_with ps s = s" by (simp add: trim_with.simps [of ps s])
    then show ?thesis by simp
  next
    case (Some r)
    then obtain q where q: "s = q @ r"
      by (auto simp: strip_one_of_def strip_prefix_Some split: bind_splits)
    show ?thesis
    proof (cases "length r < length s")
      case True
      with "1.IH" [OF Some True] obtain p where "r = p @ trim_with ps r" by blast
      moreover have "trim_with ps s = trim_with ps r"
        using Some True by (simp add: trim_with.simps [of ps s])
      ultimately have "s = (q @ p) @ trim_with ps s" using q by simp
      then show ?thesis by blast
    next
      case False
      with Some have "trim_with ps s = s" by (simp add: trim_with.simps [of ps s])
      then show ?thesis by simp
    qed
  qed
qed

lemma strip_one_of_None:
  "(\<And>p. p \<in> set ps \<Longrightarrow> \<not> starts_with s p) \<Longrightarrow> strip_one_of ps s = None"
proof -
  assume "\<And>p. p \<in> set ps \<Longrightarrow> \<not> starts_with s p"
  then have "find (starts_with s) ps = None" by (simp add: find_None_iff)
  then show ?thesis by (simp add: strip_one_of_def)
qed

lemma trim_with_none:
  "(\<And>p. p \<in> set ps \<Longrightarrow> \<not> starts_with s p) \<Longrightarrow> trim_with ps s = s"
  by (subst trim_with.simps) (simp add: strip_one_of_None)

text \<open>Printable ASCII without blanks has nothing to trim.\<close>

definition printable :: "char \<Rightarrow> bool" where
  "printable c \<longleftrightarrow> 32 < (of_char c :: nat) \<and> (of_char c :: nat) < 128"

lemma ws_not_printable: "p \<in> set ws_seqs \<Longrightarrow> p \<noteq> [] \<and> \<not> printable (hd p) \<and> \<not> printable (last p)"
  by (auto simp: ws_seqs_def printable_def)

lemma trim_printable: "list_all printable s \<Longrightarrow> trim s = s"
proof -
  assume s: "list_all printable s"
  have a: "\<not> starts_with s p" if "p \<in> set ws_seqs" for p
    using ws_not_printable [OF that] s by (cases p) (auto simp: starts_with_iff)
  have b: "\<not> starts_with (rev s) p" if "p \<in> set (map rev ws_seqs)" for p
  proof -
    from that obtain q where q: "q \<in> set ws_seqs" "p = rev q" by auto
    have "\<not> ends_with s q"
      using ws_not_printable [OF q(1)] s by (cases q rule: rev_cases) (auto simp: ends_with_iff)
    then show ?thesis by (simp add: ends_with_def q(2))
  qed
  show ?thesis
    using trim_with_none [of ws_seqs s] trim_with_none [of "map rev ws_seqs" "rev s"] a b
    by (simp add: trim_def trim_start_def trim_end_def)
qed

lemma set_trim_with: "set (trim_with ps s) \<subseteq> set s"
  by (metis Un_upper2 set_append trim_with_suffix)

lemma set_trim: "set (trim s) \<subseteq> set s"
  using set_trim_with unfolding trim_def trim_end_def trim_start_def
  by (metis set_rev subset_trans)

lemma length_trim: "length (trim s) \<le> length s"
proof -
  have le: "length (trim_with ps x) \<le> length x" for ps x
    using trim_with_suffix [of x ps] by (metis le_add2 length_append)
  show ?thesis
    using le [of ws_seqs s] le [of "map rev ws_seqs" "rev (trim_with ws_seqs s)"]
    by (simp add: trim_def trim_start_def trim_end_def)
qed

lemma length_ascii_lower [simp]: "length (ascii_lower s) = length s"
  by (simp add: ascii_lower_def)

lemma ascii_lower_append [simp]: "ascii_lower (s @ t) = ascii_lower s @ ascii_lower t"
  by (simp add: ascii_lower_def)

lemma ascii_lower_byte_idem [simp]: "ascii_lower_byte (ascii_lower_byte c) = ascii_lower_byte c"
proof (cases "65 \<le> (of_char c :: nat) \<and> (of_char c :: nat) \<le> 90")
  case True
  then have "of_char (ascii_lower_byte c) = (of_char c :: nat) + 32"
    by (simp add: ascii_lower_byte_def)
  with True show ?thesis by (simp add: ascii_lower_byte_def [of "ascii_lower_byte c"])
next
  case False
  then have "ascii_lower_byte c = c" by (auto simp: ascii_lower_byte_def)
  then show ?thesis by simp
qed

lemma ascii_lower_idem [simp]: "ascii_lower (ascii_lower s) = ascii_lower s"
  by (simp add: ascii_lower_def comp_def)

text \<open>\<open>str::parse::<i64>\<close>: an optional sign, then at least one digit, within range.\<close>

definition is_digit :: "char \<Rightarrow> bool" where
  "is_digit c \<longleftrightarrow> 48 \<le> (of_char c :: nat) \<and> (of_char c :: nat) \<le> 57"

definition digits_value :: "string \<Rightarrow> int" where
  "digits_value s = foldl (\<lambda>n c. n * 10 + (int (of_char c) - 48)) 0 s"

definition parse_digits :: "string \<Rightarrow> int option" where
  "parse_digits s = (if s \<noteq> [] \<and> list_all is_digit s then Some (digits_value s) else None)"

definition parse_i64 :: "string \<Rightarrow> int option" where
  "parse_i64 s =
     (let v = (case s of
                 CHR ''-'' # r \<Rightarrow> map_option uminus (parse_digits r)
               | CHR ''+'' # r \<Rightarrow> parse_digits r
               | _ \<Rightarrow> parse_digits s)
      in case v of Some n \<Rightarrow> if i64_ok n then Some n else None | None \<Rightarrow> None)"

lemma parse_i64_ok: "parse_i64 s = Some n \<Longrightarrow> i64_ok n"
  by (auto simp: parse_i64_def Let_def split: option.splits if_splits)

text \<open>\<open>position\<close> followed by \<open>remove\<close>, and \<open>find\<close> on a list.\<close>

lemma digit_char_digit: "d < 10 \<Longrightarrow> is_digit (digit_char d)"
  by (simp add: is_digit_def digit_char_def)

lemma show_nat_digits: "show_nat n \<noteq> [] \<and> list_all is_digit (show_nat n)"
proof (induction n rule: show_nat.induct)
  case (1 n)
  show ?case
  proof (cases "n < 10")
    case True
    then show ?thesis by (subst (1 2) show_nat.simps) (simp add: digit_char_digit)
  next
    case False
    then show ?thesis using 1 by (subst (1 2) show_nat.simps) (simp add: digit_char_digit)
  qed
qed

lemma digits_show_nat: "digits_value (show_nat n) = int n"
proof (induction n rule: show_nat.induct)
  case (1 n)
  show ?case
  proof (cases "n < 10")
    case True
    then show ?thesis by (subst show_nat.simps) (simp add: digits_value_def digit_char_def)
  next
    case False
    have "digits_value (show_nat n) = digits_value (show_nat (n div 10)) * 10 + int (n mod 10)"
      using False by (subst show_nat.simps) (simp add: digits_value_def digit_char_def)
    also have "\<dots> = int (n div 10) * 10 + int (n mod 10)" using 1 False by simp
    also have "\<dots> = int n" by (metis div_mult_mod_eq of_nat_add of_nat_mult of_nat_numeral)
    finally show ?thesis .
  qed
qed

lemma show_nat_eq_iff: "show_nat m = show_nat n \<longleftrightarrow> m = n"
  using digits_show_nat by (metis of_nat_eq_iff)

lemma hd_show_nat: "is_digit (hd (show_nat n))"
  using show_nat_digits [of n] by (cases "show_nat n") auto

fun remove_first :: "('a \<Rightarrow> bool) \<Rightarrow> 'a list \<Rightarrow> 'a list" where
  "remove_first P [] = []"
| "remove_first P (x # xs) = (if P x then xs else x # remove_first P xs)"

lemma remove_first_subset: "set (remove_first P xs) \<subseteq> set xs"
  by (induction xs) auto

lemma length_remove_first: "\<exists>x \<in> set xs. P x \<Longrightarrow> Suc (length (remove_first P xs)) = length xs"
  by (induction xs) auto

lemma remove_first_distinct: "distinct (map f xs) \<Longrightarrow> distinct (map f (remove_first P xs))"
  by (induction xs) (use remove_first_subset in fastforce)+

lemma remove_first_keeps: "x \<in> set xs \<Longrightarrow> \<not> P x \<Longrightarrow> x \<in> set (remove_first P xs)"
  by (induction xs) auto

definition unwrap_or :: "'a \<Rightarrow> 'a option \<Rightarrow> 'a" where
  "unwrap_or d x = (case x of None \<Rightarrow> d | Some y \<Rightarrow> y)"

lemma unwrap_or_simps [simp]: "unwrap_or d None = d" "unwrap_or d (Some x) = x"
  by (simp_all add: unwrap_or_def)

text \<open>\<open>str::lines\<close>: a line ends at a line feed, and loses one carriage return before it.\<close>

definition lines :: "string \<Rightarrow> string list" where
  "lines s =
     (let ps = split_byte (char_of (10 :: nat)) s
      in map (\<lambda>l. unwrap_or l (strip_suffix [char_of (13 :: nat)] l)) (butlast ps)
         @ (if last ps = [] then [] else [last ps]))"

text \<open>The encoded length of the first character, from its leading byte, and \<open>str::chars\<close>.\<close>

definition first_char_len :: "string \<Rightarrow> nat" where
  "first_char_len s =
     (case s of
        [] \<Rightarrow> 0
      | c # _ \<Rightarrow>
          let n = of_char c :: nat in if n < 192 then 1 else if n < 224 then 2 else if n < 240 then 3 else 4)"

function utf8_chars :: "string \<Rightarrow> string list" where
  "utf8_chars s = (if s = [] then [] else take (first_char_len s) s # utf8_chars (drop (first_char_len s) s))"
  by pat_completeness auto
termination
  by (relation "measure length") (auto simp: first_char_len_def Let_def split: list.splits)

declare utf8_chars.simps [simp del]

lemma concat_utf8_chars [simp]: "concat (utf8_chars s) = s"
  by (induction s rule: utf8_chars.induct) (subst utf8_chars.simps, simp)

section \<open>Substrings\<close>

text \<open>\<open>str::find\<close> of a string and \<open>contains\<close>.\<close>

fun find_str :: "'a list \<Rightarrow> 'a list \<Rightarrow> nat option" where
  "find_str p s =
     (if starts_with s p then Some 0
      else (case s of [] \<Rightarrow> None | _ # r \<Rightarrow> map_option Suc (find_str p r)))"

declare find_str.simps [simp del]

definition contains_str :: "'a list \<Rightarrow> 'a list \<Rightarrow> bool" where
  "contains_str s p \<longleftrightarrow> find_str p s \<noteq> None"

lemma find_str_Some: "find_str p s = Some i \<Longrightarrow> i + length p \<le> length s \<and> s = take i s @ p @ drop (i + length p) s"
proof (induction s arbitrary: i)
  case Nil
  then show ?case by (subst (asm) find_str.simps) (auto simp: starts_with_iff split: if_splits)
next
  case (Cons c s)
  show ?case
  proof (cases "starts_with (c # s) p")
    case True
    then have "i = 0" using Cons.prems by (subst (asm) find_str.simps) simp
    moreover have "length p \<le> length (c # s)" using True by (rule starts_with_length)
    ultimately show ?thesis using True by (auto simp: starts_with_iff)
  next
    case False
    then obtain j where j: "i = Suc j" "find_str p s = Some j"
      using Cons.prems by (subst (asm) find_str.simps) auto
    then show ?thesis using Cons.IH [OF j(2)] by simp
  qed
qed

lemma find_str_None: "find_str p s = None \<longleftrightarrow> (\<forall>a b. s \<noteq> a @ p @ b)"
proof (induction s)
  case Nil
  show ?case by (subst find_str.simps) (auto simp: starts_with_iff)
next
  case (Cons c s)
  have "(\<forall>a b. c # s \<noteq> a @ p @ b) \<longleftrightarrow> \<not> starts_with (c # s) p \<and> (\<forall>a b. s \<noteq> a @ p @ b)"
    unfolding starts_with_iff by (metis Cons_eq_append_conv append_Cons append_Nil)
  then show ?case using Cons.IH by (subst find_str.simps) simp
qed

lemma contains_str_iff: "contains_str s p \<longleftrightarrow> (\<exists>a b. s = a @ p @ b)"
  using find_str_None [of p s] by (auto simp: contains_str_def)

section \<open>JSON values\<close>

text \<open>
  \<open>serde_json::Value\<close>: the variants the source constructs and matches on. A number is an integer
  (\<open>u64\<close> or \<open>i64\<close>) or a finite float, kept as the rational it denotes; an object is its
  entries in iteration order, with distinct keys.
\<close>

datatype json =
    JNull
  | JBool bool
  | JInt int
  | JFloat rat
  | JStr string
  | JArr "json list"
  | JObj "(string \<times> json) list"

fun json_get :: "string \<Rightarrow> json \<Rightarrow> json option" where
  "json_get k (JObj o') = map_of o' k"
| "json_get k _ = None"

fun as_str :: "json \<Rightarrow> string option" where
  "as_str (JStr s) = Some s"
| "as_str _ = None"

fun as_bool :: "json \<Rightarrow> bool option" where
  "as_bool (JBool b) = Some b"
| "as_bool _ = None"

fun as_i64 :: "json \<Rightarrow> int option" where
  "as_i64 (JInt n) = (if i64_min \<le> n \<and> n \<le> i64_max then Some n else None)"
| "as_i64 _ = None"

fun as_u64 :: "json \<Rightarrow> nat option" where
  "as_u64 (JInt n) = (if 0 \<le> n \<and> n \<le> int u64_max then Some (nat n) else None)"
| "as_u64 _ = None"

fun as_array :: "json \<Rightarrow> json list option" where
  "as_array (JArr xs) = Some xs"
| "as_array _ = None"

fun as_object :: "json \<Rightarrow> (string \<times> json) list option" where
  "as_object (JObj o') = Some o'"
| "as_object _ = None"

text \<open>\<open>v.get(k).and_then(Value::as_str)\<close> and its siblings, the idiom of most readers.\<close>

definition get_str :: "string \<Rightarrow> json \<Rightarrow> string option" where
  "get_str k v = Option.bind (json_get k v) as_str"

definition get_bool :: "string \<Rightarrow> json \<Rightarrow> bool option" where
  "get_bool k v = Option.bind (json_get k v) as_bool"

definition get_i64 :: "string \<Rightarrow> json \<Rightarrow> int option" where
  "get_i64 k v = Option.bind (json_get k v) as_i64"

definition get_array :: "string \<Rightarrow> json \<Rightarrow> json list option" where
  "get_array k v = Option.bind (json_get k v) as_array"

lemmas get_defs [json_simps] = get_str_def get_bool_def get_i64_def get_array_def

lemma as_i64_ok: "as_i64 v = Some n \<Longrightarrow> i64_ok n"
  by (cases v) (auto simp: i64_ok_def split: if_splits)

lemma as_str_Some [simp]: "as_str v = Some s \<longleftrightarrow> v = JStr s"
  by (cases v) auto

lemma as_array_Some [simp]: "as_array v = Some xs \<longleftrightarrow> v = JArr xs"
  by (cases v) auto

lemma as_bool_Some [simp]: "as_bool v = Some b \<longleftrightarrow> v = JBool b"
  by (cases v) auto

text \<open>\<open>Map::insert\<close> of an insertion-ordered map: a present key keeps its place.\<close>

fun map_insert :: "string \<Rightarrow> json \<Rightarrow> (string \<times> json) list \<Rightarrow> (string \<times> json) list" where
  "map_insert k v [] = [(k, v)]"
| "map_insert k v ((k', v') # m) = (if k' = k then (k, v) # m else (k', v') # map_insert k v m)"

section \<open>Transition systems\<close>

text \<open>
  The states a step relation reaches from an initial set. Components with interleaved or
  repeated operations instantiate the locale below with their step relation and invariant, and
  every safety property follows from \<open>reach_inv\<close>.
\<close>

inductive reach :: "('s \<Rightarrow> bool) \<Rightarrow> ('s \<Rightarrow> 's \<Rightarrow> bool) \<Rightarrow> 's \<Rightarrow> bool"
  for init :: "'s \<Rightarrow> bool" and step :: "'s \<Rightarrow> 's \<Rightarrow> bool" where
  reach_init: "init s \<Longrightarrow> reach init step s"
| reach_step: "reach init step s \<Longrightarrow> step s t \<Longrightarrow> reach init step t"

locale invariant_system =
  fixes init :: "'s \<Rightarrow> bool" and step :: "'s \<Rightarrow> 's \<Rightarrow> bool" and inv :: "'s \<Rightarrow> bool"
  assumes init_inv: "init s \<Longrightarrow> inv s"
    and step_inv: "inv s \<Longrightarrow> step s t \<Longrightarrow> inv t"
begin

lemma reach_inv: "reach init step s \<Longrightarrow> inv s"
  by (induction rule: reach.induct) (auto intro: init_inv step_inv)

lemma steps_inv: "step\<^sup>*\<^sup>* s t \<Longrightarrow> inv s \<Longrightarrow> inv t"
  by (induction rule: rtranclp.induct) (auto intro: step_inv)

end

lemma reach_rtranclp: "step\<^sup>*\<^sup>* s t \<Longrightarrow> reach init step s \<Longrightarrow> reach init step t"
  by (induction rule: rtranclp.induct) (auto intro: reach_step)

text \<open>
  Single-use credentials: \<open>claim\<close> succeeds on a live key of a well-formed store and leaves it dead. Codes,
  refresh tokens, consent transactions and tickets are instances; \<open>spent\<close> lists the keys claimed so far.
\<close>

locale one_shot =
  fixes ok :: "'s \<Rightarrow> bool" and live :: "'s \<Rightarrow> 'k set" and claim :: "'t \<Rightarrow> 'k \<Rightarrow> 's \<Rightarrow> ('r \<times> 's) option"
  assumes claim_live: "claim t k s = Some (r, s') \<Longrightarrow> k \<in> live s"
    and claim_kills: "ok s \<Longrightarrow> claim t k s = Some (r, s') \<Longrightarrow> live s' \<subseteq> live s - {k}"
begin

lemma no_replay: "ok s \<Longrightarrow> claim t k s = Some (r, s') \<Longrightarrow> claim t' k s' = None"
  using claim_kills claim_live by (metis Diff_iff insertI1 not_None_eq subsetD surj_pair)

lemma spent_refused: "live s \<inter> set spent = {} \<Longrightarrow> k \<in> set spent \<Longrightarrow> claim t k s = None"
  using claim_live by (metis disjoint_iff not_None_eq surj_pair)

lemma spent_once:
  assumes "ok s" "live s \<inter> set spent = {}" "distinct spent" "claim t k s = Some (r, s')"
  shows "distinct (k # spent) \<and> live s' \<inter> set (k # spent) = {}"
  using claim_live[OF assms(4)] claim_kills[OF assms(1,4)] assms(2,3) by auto

end

text \<open>
  A bounded store: \<open>put\<close> keeps the number of entries within \<open>cap\<close>, and an entry is an old one or made
  from the argument. Every cache and buffer of the program with a cap is an instance.
\<close>

locale bounded_store =
  fixes entries :: "'s \<Rightarrow> 'e list" and put :: "'x \<Rightarrow> 's \<Rightarrow> 's" and cap :: nat
    and made :: "'x \<Rightarrow> 'e \<Rightarrow> bool"
  assumes put_cap: "length (entries s) \<le> cap \<Longrightarrow> length (entries (put x s)) \<le> cap"
    and put_origin: "e \<in> set (entries (put x s)) \<Longrightarrow> e \<in> set (entries s) \<or> made x e"
begin

lemma fold_cap: "length (entries s) \<le> cap \<Longrightarrow> length (entries (fold put xs s)) \<le> cap"
  by (induction xs arbitrary: s) (auto intro: put_cap)

lemma fold_origin:
  "e \<in> set (entries (fold put xs s)) \<Longrightarrow> e \<in> set (entries s) \<or> (\<exists>x \<in> set xs. made x e)"
proof (induction xs arbitrary: s)
  case Nil
  then show ?case by simp
next
  case (Cons x xs)
  then have "e \<in> set (entries (put x s)) \<or> (\<exists>x \<in> set xs. made x e)" by simp
  then show ?case using put_origin by auto
qed

end

end
