(* ===== verification/F64.thy ===== *)
theory F64
  imports Prelude "HOL-Library.Log_Nat"
begin

text \<open>
  Binary64 arithmetic as far as the source uses it: a finite value is the rational it denotes, an
  operation rounds its exact result to the nearest representable value (ties to even). Magnitudes
  stay far below the largest finite value in every use, so rounding to infinity is not modelled;
  the special values are, because numbers cross the wire.
\<close>

datatype f64 = Fin rat | PosInf | NegInf | NaN

definition round_half_even :: "rat \<Rightarrow> int" where
  "round_half_even x =
     (let f = \<lfloor>x\<rfloor>; r = x - of_int f
      in if r < 1 / 2 then f else if 1 / 2 < r then f + 1 else if even f then f else f + 1)"

text \<open>The exponent \<open>e\<close> with \<open>2\<^sup>e \<le> \<bar>x\<bar> < 2\<^sup>e\<^sup>+\<^sup>1\<close>, from the bit lengths of the fraction.\<close>

definition f64_exp :: "rat \<Rightarrow> int" where
  "f64_exp x =
     (let (n, d) = quotient_of \<bar>x\<bar>; k = bitlen n - bitlen d
      in if 2 powi k \<le> \<bar>x\<bar> then k else k - 1)"

definition f64_ulp_exp :: "rat \<Rightarrow> int" where
  "f64_ulp_exp x = max (f64_exp x - 52) (- 1074)"

definition f64_round :: "rat \<Rightarrow> rat" where
  "f64_round x =
     (if x = 0 then 0
      else of_int (round_half_even (x / 2 powi (f64_ulp_exp x))) * 2 powi (f64_ulp_exp x))"

text \<open>\<open>as i64\<close> truncates towards zero and saturates.\<close>

definition rat_trunc :: "rat \<Rightarrow> int" where
  "rat_trunc x = (if 0 \<le> x then \<lfloor>x\<rfloor> else \<lceil>x\<rceil>)"

definition f64_to_i64 :: "f64 \<Rightarrow> int" where
  "f64_to_i64 x =
     (case x of Fin r \<Rightarrow> sat_i64 (rat_trunc r) | PosInf \<Rightarrow> i64_max | NegInf \<Rightarrow> i64_min | NaN \<Rightarrow> 0)"

definition i64_to_f64 :: "int \<Rightarrow> rat" where
  "i64_to_f64 n = f64_round (of_int n)"

definition f64_mul :: "rat \<Rightarrow> rat \<Rightarrow> rat" where
  "f64_mul a b = f64_round (a * b)"

definition f64_div :: "rat \<Rightarrow> rat \<Rightarrow> rat" where
  "f64_div a b = f64_round (a / b)"

definition f64_add :: "rat \<Rightarrow> rat \<Rightarrow> rat" where
  "f64_add a b = f64_round (a + b)"

text \<open>\<open>f64::clamp\<close> on a finite value.\<close>

definition f64_clamp :: "rat \<Rightarrow> rat \<Rightarrow> rat \<Rightarrow> rat" where
  "f64_clamp lo hi x = clamp lo hi x"

lemma round_half_even_ge: "of_int a \<le> x \<Longrightarrow> a \<le> round_half_even x"
  by (auto simp: round_half_even_def Let_def le_floor_iff add_increasing2)

lemma round_half_even_le:
  assumes "x \<le> of_int b"
  shows "round_half_even x \<le> b"
proof (cases "x = of_int b")
  case True
  then show ?thesis by (simp add: round_half_even_def)
next
  case False
  with assms have "x < of_int b" by simp
  then have "\<lfloor>x\<rfloor> < b" by (simp add: floor_less_iff)
  then show ?thesis by (auto simp: round_half_even_def Let_def)
qed

lemma round_half_even_int [simp]: "round_half_even (of_int n) = n"
  by (simp add: round_half_even_def)

lemma f64_exp_le:
  assumes "x \<noteq> 0"
  shows "2 powi (f64_exp x) \<le> \<bar>x\<bar>"
proof -
  obtain n d where q: "quotient_of \<bar>x\<bar> = (n, d)" by (cases "quotient_of \<bar>x\<bar>")
  have d: "0 < d" using q by (rule quotient_of_denom_pos)
  have x: "\<bar>x\<bar> = of_int n / of_int d" using q by (rule quotient_of_div)
  with assms d have n: "0 < n"
    by (metis of_int_0_less_iff zero_less_abs_iff zero_less_divide_iff order_less_asym)
  let ?k = "bitlen n - bitlen d"
  have bn: "2 ^ nat (bitlen n - 1) \<le> n" and bd: "d < 2 ^ nat (bitlen d)"
    using bitlen_bounds [OF n] bitlen_bounds [OF d] by auto
  have pn: "1 \<le> bitlen n" and pd: "1 \<le> bitlen d"
    using n d bitlen_nonneg by (simp_all add: bitlen_def floorlog_def)
  have "(2::rat) powi (?k - 1) = 2 powi (bitlen n - 1) / 2 powi (bitlen d)"
    by (simp add: power_int_diff power_int_add algebra_simps)
  also have "\<dots> = of_int (2 ^ nat (bitlen n - 1)) / of_int (2 ^ nat (bitlen d))"
    using pn pd by (simp add: power_int_def)
  also have "\<dots> \<le> of_int n / of_int d"
    using bn bd d n less_imp_le [OF bd] less_imp_le [OF n]
    by (intro frac_le) (simp_all only: of_int_0_le_iff of_int_le_iff of_int_0_less_iff)
  finally have "(2::rat) powi (?k - 1) \<le> \<bar>x\<bar>" by (simp add: x)
  then show ?thesis by (simp add: f64_exp_def q Let_def)
qed

lemma f64_ulp_exp_nonpos:
  assumes "x \<noteq> 0" "\<bar>x\<bar> < 2 ^ 53"
  shows "f64_ulp_exp x \<le> 0"
proof -
  have "(2::rat) powi (f64_exp x) < 2 powi 53"
    using f64_exp_le [OF assms(1)] assms(2) by simp
  then have "f64_exp x < 53"
    by (meson not_le one_le_numeral power_int_increasing)
  then show ?thesis by (simp add: f64_ulp_exp_def)
qed

text \<open>
  Rounding never crosses an integer that is exactly representable: the fact every use of a scaled
  period rests on.
\<close>

lemma f64_round_int_bounds:
  assumes a: "of_int a \<le> x" and b: "x \<le> of_int b" and small: "\<bar>a\<bar> < 2 ^ 53" "\<bar>b\<bar> < 2 ^ 53"
  shows "of_int a \<le> f64_round x \<and> f64_round x \<le> of_int b"
proof (cases "x = 0")
  case True
  with a b show ?thesis by (simp add: f64_round_def)
next
  case False
  have "\<bar>x\<bar> \<le> of_int (max \<bar>a\<bar> \<bar>b\<bar>)"
    using a b by (simp add: abs_le_iff) linarith
  also have "(of_int (max \<bar>a\<bar> \<bar>b\<bar>) :: rat) < of_int (2 ^ 53)"
    using small by (simp only: of_int_less_iff)
  finally have "\<bar>x\<bar> < 2 ^ 53" by simp
  with False have le: "f64_ulp_exp x \<le> 0" by (rule f64_ulp_exp_nonpos)
  define m where "m = nat (- f64_ulp_exp x)"
  have u: "(2::rat) powi (f64_ulp_exp x) = inverse (2 ^ m)"
    using le by (auto simp: m_def power_int_def power_divide inverse_eq_divide)
  have r: "f64_round x = of_int (round_half_even (x * 2 ^ m)) / 2 ^ m"
    using False by (simp add: f64_round_def u field_simps)
  have "of_int (a * 2 ^ m) \<le> x * 2 ^ m" "x * 2 ^ m \<le> of_int (b * 2 ^ m)"
    using a b by (simp_all add: mult_right_mono)
  then have "a * 2 ^ m \<le> round_half_even (x * 2 ^ m)" "round_half_even (x * 2 ^ m) \<le> b * 2 ^ m"
    by (blast intro: round_half_even_ge round_half_even_le)+
  then have "(of_int (a * 2 ^ m) :: rat) \<le> of_int (round_half_even (x * 2 ^ m))"
    "(of_int (round_half_even (x * 2 ^ m)) :: rat) \<le> of_int (b * 2 ^ m)"
    by (simp_all only: of_int_le_iff)
  then show ?thesis by (simp add: r field_simps)
qed

lemma i64_to_f64_exact: "\<bar>n\<bar> < 2 ^ 53 \<Longrightarrow> i64_to_f64 n = of_int n"
  using f64_round_int_bounds [of n "of_int n" n] by (simp add: i64_to_f64_def)

lemma rat_trunc_bounds: "of_int a \<le> x \<Longrightarrow> x \<le> of_int b \<Longrightarrow> a \<le> rat_trunc x \<and> rat_trunc x \<le> b"
  unfolding rat_trunc_def
  by (auto simp: le_floor_iff floor_le_iff ceiling_le_iff le_ceiling_iff)

text \<open>A period scaled by a factor in the unit interval stays within the period.\<close>

lemma scaled_bounds:
  assumes p: "0 \<le> p" "p < 2 ^ 53" and f: "0 \<le> f" "f \<le> 1"
  shows "0 \<le> f64_to_i64 (Fin (f64_mul (i64_to_f64 p) f)) \<and> f64_to_i64 (Fin (f64_mul (i64_to_f64 p) f)) \<le> p"
proof -
  have e: "i64_to_f64 p = of_int p" using p by (intro i64_to_f64_exact) simp
  have "(of_int p :: rat) * f \<le> of_int p * 1" using p f by (intro mult_left_mono) auto
  then have "of_int 0 \<le> f64_mul (i64_to_f64 p) f \<and> f64_mul (i64_to_f64 p) f \<le> of_int p"
    unfolding f64_mul_def e using p f by (intro f64_round_int_bounds) auto
  from this [THEN conjunct1] this [THEN conjunct2]
  have "0 \<le> rat_trunc (f64_mul (i64_to_f64 p) f) \<and> rat_trunc (f64_mul (i64_to_f64 p) f) \<le> p"
    by (rule rat_trunc_bounds)
  then show ?thesis using p by (auto simp: f64_to_i64_def sat_defs)
qed

end
