(* ===== verification/Governor.thy ===== *)
theory Governor
  imports Prelude
begin

text \<open>
  The resource governor (\<open>src/src/local/governor.rs\<close>): admission of runs under a global
  ceiling, a background sub-ceiling and a soft memory watermark.

  The first part is the code run by one caller: configuration, the cached memory sample, the two
  admission lanes and the release of a permit. The second part is the same operations split at
  their atomic accesses (semaphore acquire and release, the load, the compare-exchange and the
  \<open>fetch_sub\<close> of the gauge) and interleaved over any number of callers.
  The global semaphore is its number of free permits, which is what the code relies on.
\<close>

section \<open>Configuration\<close>

record governor_config =
  max_concurrent_runs :: nat
  max_background_runs :: nat
  rss_soft_watermark_bytes :: nat

definition sanitized :: "governor_config \<Rightarrow> governor_config" where
  "sanitized c =
     (let g = max (max_concurrent_runs c) 1
      in c\<lparr>max_concurrent_runs := g, max_background_runs := clamp 1 g (max_background_runs c)\<rparr>)"

text \<open>\<open>from_local\<close> reads the three tunables of the configuration; megabytes become bytes.\<close>

definition from_local :: "nat \<Rightarrow> nat \<Rightarrow> nat \<Rightarrow> governor_config" where
  "from_local runs bg watermark_mb =
     \<lparr>max_concurrent_runs = runs, max_background_runs = bg,
      rss_soft_watermark_bytes = sat_mul_u64 watermark_mb (1024 * 1024)\<rparr>"

definition max_browser_contexts :: "governor_config \<Rightarrow> nat" where
  "max_browser_contexts c = max (sat_mul_u64 (max_concurrent_runs (sanitized c)) 2) 4"

definition dispatchable_sessions :: "governor_config \<Rightarrow> nat" where
  "dispatchable_sessions c = max_background_runs (sanitized c)"

definition config_ok :: "governor_config \<Rightarrow> bool" where
  "config_ok c \<longleftrightarrow> 1 \<le> max_background_runs c \<and> max_background_runs c \<le> max_concurrent_runs c"

lemma sanitized_ok [simp, intro]: "config_ok (sanitized c)"
  by (auto simp: config_ok_def sanitized_def Let_def)

lemma sanitized_id: "config_ok c \<Longrightarrow> sanitized c = c"
  by (auto simp: config_ok_def sanitized_def Let_def max_absorb1)

lemma sanitized_watermark [simp]: "rss_soft_watermark_bytes (sanitized c) = rss_soft_watermark_bytes c"
  by (simp add: sanitized_def Let_def)

section \<open>The governor run by one caller\<close>

datatype lane = Interactive | Background

datatype governor_reject = BackgroundCeilingReached | MemoryWatermark

datatype run_permit = RunPermit (permit_bg: bool)

record rss_cache =
  rss_bytes :: nat
  rss_taken :: "nat option"

record governor =
  gov_cfg :: governor_config
  global_free :: nat
  background_inflight :: nat
  gov_rss :: rss_cache

definition rss_sample_ttl :: nat where
  "rss_sample_ttl = 750"

definition new_governor :: "governor_config \<Rightarrow> governor" where
  "new_governor c =
     \<lparr>gov_cfg = sanitized c, global_free = max_concurrent_runs (sanitized c),
      background_inflight = 0, gov_rss = \<lparr>rss_bytes = 0, rss_taken = None\<rparr>\<rparr>"

text \<open>
  \<open>current_rss_bytes\<close> at time \<open>now\<close> (milliseconds), where \<open>sample\<close> is what reading the process's
  memory gives at that time. \<open>elapsed\<close> of an instant in the future is zero.
\<close>

definition current_rss_bytes :: "nat \<Rightarrow> nat \<Rightarrow> governor \<Rightarrow> nat \<times> governor" where
  "current_rss_bytes now sample g =
     (let fresh = (case rss_taken (gov_rss g) of None \<Rightarrow> False | Some t \<Rightarrow> now - t < rss_sample_ttl)
      in if fresh then (rss_bytes (gov_rss g), g)
         else (sample, g\<lparr>gov_rss := \<lparr>rss_bytes = sample, rss_taken = Some now\<rparr>\<rparr>))"

definition should_shed_background :: "nat \<Rightarrow> nat \<Rightarrow> governor \<Rightarrow> bool \<times> governor" where
  "should_shed_background now sample g =
     (let limit = rss_soft_watermark_bytes (gov_cfg g)
      in if limit = 0 then (False, g)
         else (let (bytes, g') = current_rss_bytes now sample g in (bytes > limit, g')))"

text \<open>
  \<open>admit_background\<close> with no other caller in between: the compare-exchange succeeds the first time.
\<close>

definition admit_background :: "nat \<Rightarrow> nat \<Rightarrow> governor \<Rightarrow> (governor_reject + run_permit) \<times> governor" where
  "admit_background now sample g =
     (let (shed, g1) = should_shed_background now sample g
      in if shed then (Inl MemoryWatermark, g1)
         else if global_free g1 = 0 then (Inl BackgroundCeilingReached, g1)
         else (let g2 = g1\<lparr>global_free := global_free g1 - 1\<rparr>; cur = background_inflight g2
               in if max_background_runs (gov_cfg g2) \<le> cur
                  then (Inl BackgroundCeilingReached, g2\<lparr>global_free := global_free g2 + 1\<rparr>)
                  else (Inr (RunPermit True), g2\<lparr>background_inflight := cur + 1\<rparr>)))"

text \<open>
  \<open>admit\<close>: the interactive lane awaits a permit; \<open>None\<close> says the caller is still waiting. The
  semaphore is never closed.
\<close>

definition admit :: "lane \<Rightarrow> nat \<Rightarrow> nat \<Rightarrow> governor \<Rightarrow> (governor_reject + run_permit) option \<times> governor" where
  "admit l now sample g =
     (case l of
        Interactive \<Rightarrow>
          if global_free g = 0 then (None, g)
          else (Some (Inr (RunPermit False)), g\<lparr>global_free := global_free g - 1\<rparr>)
      | Background \<Rightarrow> (let (r, g') = admit_background now sample g in (Some r, g')))"

text \<open>
  Dropping a permit: its global slot first (field order), then the background gauge, which the
  guard decrements only when it is positive.
\<close>

definition drop_permit :: "run_permit \<Rightarrow> governor \<Rightarrow> governor" where
  "drop_permit p g =
     (let g1 = g\<lparr>global_free := global_free g + 1\<rparr>
      in if permit_bg p
         then (if background_inflight g1 > 0
               then g1\<lparr>background_inflight := background_inflight g1 - 1\<rparr> else g1)
         else g1)"

definition reject_str :: "governor_reject \<Rightarrow> string" where
  "reject_str r =
     (case r of
        BackgroundCeilingReached \<Rightarrow> ''background concurrency ceiling reached''
      | MemoryWatermark \<Rightarrow> ''memory watermark exceeded (shedding background work)'')"

lemmas governor_ops =
  admit_def admit_background_def should_shed_background_def current_rss_bytes_def drop_permit_def

lemma shed_frame:
  "should_shed_background now sample g = (b, g') \<Longrightarrow>
     gov_cfg g' = gov_cfg g \<and> global_free g' = global_free g \<and>
     background_inflight g' = background_inflight g"
  by (auto simp: governor_ops Let_def split: if_splits prod.splits option.splits)

lemma admit_background_cases:
  assumes "admit_background now sample g = (r, g')"
  obtains (shed) "r = Inl MemoryWatermark" "0 < rss_soft_watermark_bytes (gov_cfg g)"
      "global_free g' = global_free g" "background_inflight g' = background_inflight g"
  | (full) "r = Inl BackgroundCeilingReached"
      "global_free g = 0 \<or> max_background_runs (gov_cfg g) \<le> background_inflight g"
      "global_free g' = global_free g" "background_inflight g' = background_inflight g"
  | (ok) "r = Inr (RunPermit True)" "0 < global_free g"
      "background_inflight g < max_background_runs (gov_cfg g)"
      "global_free g' = global_free g - 1" "background_inflight g' = background_inflight g + 1"
proof -
  obtain b g1 where s: "should_shed_background now sample g = (b, g1)" by (cases "should_shed_background now sample g")
  note f = shed_frame [OF s]
  have pos: "b \<Longrightarrow> 0 < rss_soft_watermark_bytes (gov_cfg g)"
    using s by (auto simp: should_shed_background_def Let_def split: if_splits prod.splits)
  show thesis
    using assms s f pos shed full ok
    by (auto simp: admit_background_def Let_def split: if_splits)
qed

lemma admit_background_cfg:
  "admit_background now sample g = (r, g') \<Longrightarrow> gov_cfg g' = gov_cfg g"
  by (auto simp: governor_ops Let_def split: if_splits prod.splits option.splits)

section \<open>Interleaved callers\<close>

text \<open>
  Where a caller stands between two atomic accesses. \<open>PReserved\<close> and \<open>PLoaded\<close> are inside
  \<open>admit_background\<close> after the global permit was taken; \<open>PGauge\<close> and \<open>PGaugeLoaded\<close> are inside
  the drop of a background permit, after its global slot went back.
\<close>

datatype pc = PIdle | PReserved | PLoaded nat | PRun lane | PGauge | PGaugeLoaded nat

record gov_sys =
  g_free :: nat
  g_bg :: nat
  g_pcs :: "pc list"

text \<open>\<open>fetch_sub(1)\<close> on an \<open>AtomicU64\<close> wraps; the guard's check is a separate load.\<close>

definition fetch_sub_u64 :: "nat \<Rightarrow> nat" where
  "fetch_sub_u64 n = (n + u64_max) mod (u64_max + 1)"

definition gov_init :: "governor_config \<Rightarrow> gov_sys \<Rightarrow> bool" where
  "gov_init c s \<longleftrightarrow>
     g_free s = max_concurrent_runs (sanitized c) \<and> g_bg s = 0 \<and>
     max_background_runs (sanitized c) \<le> u64_max \<and> set (g_pcs s) \<subseteq> {PIdle}"

inductive gov_step :: "governor_config \<Rightarrow> gov_sys \<Rightarrow> gov_sys \<Rightarrow> bool" for c :: governor_config where
  acquire_interactive:
    "i < length (g_pcs s) \<Longrightarrow> g_pcs s ! i = PIdle \<Longrightarrow> 0 < g_free s \<Longrightarrow>
     gov_step c s (s\<lparr>g_free := g_free s - 1, g_pcs := (g_pcs s)[i := PRun Interactive]\<rparr>)"
| reserve_background:
    "i < length (g_pcs s) \<Longrightarrow> g_pcs s ! i = PIdle \<Longrightarrow> 0 < g_free s \<Longrightarrow>
     gov_step c s (s\<lparr>g_free := g_free s - 1, g_pcs := (g_pcs s)[i := PReserved]\<rparr>)"
| load_gauge:
    "i < length (g_pcs s) \<Longrightarrow> g_pcs s ! i = PReserved \<Longrightarrow>
     gov_step c s (s\<lparr>g_pcs := (g_pcs s)[i := PLoaded (g_bg s)]\<rparr>)"
| at_ceiling:
    "i < length (g_pcs s) \<Longrightarrow> g_pcs s ! i = PLoaded cur \<Longrightarrow> max_background_runs (sanitized c) \<le> cur \<Longrightarrow>
     gov_step c s (s\<lparr>g_free := g_free s + 1, g_pcs := (g_pcs s)[i := PIdle]\<rparr>)"
| exchange_ok:
    "i < length (g_pcs s) \<Longrightarrow> g_pcs s ! i = PLoaded cur \<Longrightarrow> cur < max_background_runs (sanitized c) \<Longrightarrow>
     g_bg s = cur \<Longrightarrow>
     gov_step c s (s\<lparr>g_bg := cur + 1, g_pcs := (g_pcs s)[i := PRun Background]\<rparr>)"
| exchange_lost:
    "i < length (g_pcs s) \<Longrightarrow> g_pcs s ! i = PLoaded cur \<Longrightarrow> cur < max_background_runs (sanitized c) \<Longrightarrow>
     g_bg s \<noteq> cur \<Longrightarrow>
     gov_step c s (s\<lparr>g_pcs := (g_pcs s)[i := PReserved]\<rparr>)"
| drop_interactive:
    "i < length (g_pcs s) \<Longrightarrow> g_pcs s ! i = PRun Interactive \<Longrightarrow>
     gov_step c s (s\<lparr>g_free := g_free s + 1, g_pcs := (g_pcs s)[i := PIdle]\<rparr>)"
| drop_background_global:
    "i < length (g_pcs s) \<Longrightarrow> g_pcs s ! i = PRun Background \<Longrightarrow>
     gov_step c s (s\<lparr>g_free := g_free s + 1, g_pcs := (g_pcs s)[i := PGauge]\<rparr>)"
| drop_background_load:
    "i < length (g_pcs s) \<Longrightarrow> g_pcs s ! i = PGauge \<Longrightarrow>
     gov_step c s (s\<lparr>g_pcs := (g_pcs s)[i := PGaugeLoaded (g_bg s)]\<rparr>)"
| drop_background_sub:
    "i < length (g_pcs s) \<Longrightarrow> g_pcs s ! i = PGaugeLoaded prev \<Longrightarrow> 0 < prev \<Longrightarrow>
     gov_step c s (s\<lparr>g_bg := fetch_sub_u64 (g_bg s), g_pcs := (g_pcs s)[i := PIdle]\<rparr>)"
| drop_background_zero:
    "i < length (g_pcs s) \<Longrightarrow> g_pcs s ! i = PGaugeLoaded prev \<Longrightarrow> prev = 0 \<Longrightarrow>
     gov_step c s (s\<lparr>g_pcs := (g_pcs s)[i := PIdle]\<rparr>)"

text \<open>Who holds a global slot, and who is counted by the gauge.\<close>

fun holds_global :: "pc \<Rightarrow> bool" where
  "holds_global PReserved = True"
| "holds_global (PLoaded _) = True"
| "holds_global (PRun _) = True"
| "holds_global _ = False"

fun counted :: "pc \<Rightarrow> bool" where
  "counted (PRun Background) = True"
| "counted PGauge = True"
| "counted (PGaugeLoaded _) = True"
| "counted _ = False"

definition is_run :: "lane \<Rightarrow> pc \<Rightarrow> bool" where
  "is_run l p \<longleftrightarrow> p = PRun l"

definition gov_inv :: "governor_config \<Rightarrow> gov_sys \<Rightarrow> bool" where
  "gov_inv c s \<longleftrightarrow>
     g_free s + count_if holds_global (g_pcs s) = max_concurrent_runs (sanitized c) \<and>
     g_bg s = count_if counted (g_pcs s) \<and>
     g_bg s \<le> max_background_runs (sanitized c) \<and>
     max_background_runs (sanitized c) \<le> u64_max \<and>
     (\<forall>p \<in> set (g_pcs s). \<forall>n. p = PGaugeLoaded n \<longrightarrow> 0 < n)"

lemma fetch_sub_u64_pos: "0 < n \<Longrightarrow> n \<le> u64_max \<Longrightarrow> fetch_sub_u64 n = n - 1"
proof -
  assume n: "0 < n" "n \<le> u64_max"
  then have "n + u64_max = (n - 1) + (u64_max + 1)" by simp
  then have "fetch_sub_u64 n = (n - 1) mod (u64_max + 1)"
    unfolding fetch_sub_u64_def by (metis mod_add_self2)
  with n show ?thesis by simp
qed

lemma gov_init_inv: "gov_init c s \<Longrightarrow> gov_inv c s"
proof -
  assume a: "gov_init c s"
  then have "\<forall>p \<in> set (g_pcs s). p = PIdle" by (auto simp: gov_init_def)
  then have "count_if holds_global (g_pcs s) = 0" "count_if counted (g_pcs s) = 0"
    by (auto simp: count_if_def filter_empty_conv)
  with a show ?thesis by (auto simp: gov_init_def gov_inv_def)
qed

text \<open>
  One caller moving from \<open>g_pcs s ! i\<close> to \<open>p\<close> changes both counts by the difference of the two
  program points; with the gauge's entry condition this is all a step needs.
\<close>

lemma gov_inv_move:
  assumes inv: "gov_inv c s" and i: "i < length (g_pcs s)"
    and free: "free + (if holds_global p then 1 else 0) = g_free s + (if holds_global (g_pcs s ! i) then 1 else 0)"
    and bg: "bg + (if counted (g_pcs s ! i) then 1 else 0) = g_bg s + (if counted p then 1 else 0)"
    and le: "bg \<le> max_background_runs (sanitized c)"
    and pos: "\<And>n. p = PGaugeLoaded n \<Longrightarrow> 0 < n"
  shows "gov_inv c (s\<lparr>g_free := free, g_bg := bg, g_pcs := (g_pcs s)[i := p]\<rparr>)"
proof -
  have "count_if holds_global ((g_pcs s)[i := p]) + (if holds_global (g_pcs s ! i) then 1 else 0) =
      count_if holds_global (g_pcs s) + (if holds_global p then 1 else 0)"
    and "count_if counted ((g_pcs s)[i := p]) + (if counted (g_pcs s ! i) then 1 else 0) =
      count_if counted (g_pcs s) + (if counted p then 1 else 0)"
    using i by (rule count_if_update)+
  moreover have "set ((g_pcs s)[i := p]) \<subseteq> insert p (set (g_pcs s))"
    by (rule set_update_subset_insert)
  ultimately show ?thesis
    using inv free bg le pos unfolding gov_inv_def by (auto split: if_splits)
qed

lemma gov_inv_bg_pos:
  "gov_inv c s \<Longrightarrow> i < length (g_pcs s) \<Longrightarrow> counted (g_pcs s ! i) \<Longrightarrow> 0 < g_bg s"
  by (auto simp: gov_inv_def intro: count_if_pos)

lemma gov_inv_ceiling: "gov_inv c s \<Longrightarrow> g_bg s \<le> max_background_runs (sanitized c)"
  by (simp add: gov_inv_def)

lemma gov_step_inv: "gov_inv c s \<Longrightarrow> gov_step c s t \<Longrightarrow> gov_inv c t"
proof -
  assume inv: "gov_inv c s" and step: "gov_step c s t"
  note move = gov_inv_move [OF inv, where free = "g_free s" and bg = "g_bg s"]
    and move_free = gov_inv_move [OF inv, where bg = "g_bg s"]
    and move_bg = gov_inv_move [OF inv, where free = "g_free s"]
    and pos = gov_inv_bg_pos [OF inv] and le = gov_inv_ceiling [OF inv]
  from step show ?thesis
  proof cases
    case (acquire_interactive i)
    then show ?thesis using move_free [of i "g_free s - 1" "PRun Interactive"] le by simp
  next
    case (reserve_background i)
    then show ?thesis using move_free [of i "g_free s - 1" PReserved] le by simp
  next
    case (load_gauge i)
    then show ?thesis using move [of i "PLoaded (g_bg s)"] le by simp
  next
    case (at_ceiling i cur)
    then show ?thesis using move_free [of i "g_free s + 1" PIdle] le by simp
  next
    case (exchange_ok i cur)
    then show ?thesis using move_bg [of i "PRun Background" "cur + 1"] le by simp
  next
    case (exchange_lost i cur)
    then show ?thesis using move [of i PReserved] le by simp
  next
    case (drop_interactive i)
    then show ?thesis using move_free [of i "g_free s + 1" PIdle] le by simp
  next
    case (drop_background_global i)
    then show ?thesis using move_free [of i "g_free s + 1" PGauge] le by simp
  next
    case (drop_background_load i)
    then show ?thesis using move [of i "PGaugeLoaded (g_bg s)"] le pos [of i] by simp
  next
    case (drop_background_sub i prev)
    then have "0 < g_bg s" using pos [of i] by simp
    moreover have "g_bg s \<le> u64_max" using inv unfolding gov_inv_def by linarith
    ultimately have "fetch_sub_u64 (g_bg s) = g_bg s - 1" "0 < g_bg s"
      by (simp_all add: fetch_sub_u64_pos)
    with drop_background_sub show ?thesis using move_bg [of i PIdle "g_bg s - 1"] le by simp
  next
    case (drop_background_zero i prev)
    then have "g_pcs s ! i \<in> set (g_pcs s)" by (metis nth_mem)
    with drop_background_zero inv show ?thesis by (auto simp: gov_inv_def)
  qed
qed

interpretation gov: invariant_system "gov_init c" "gov_step c" "gov_inv c" for c
  by unfold_locales (auto intro: gov_init_inv gov_step_inv)

text \<open>
  The one-caller operations are runs of the interleaved relation: \<open>gov_abs\<close> reads the caller's
  view off a governor, and \<open>admit\<close> and \<open>drop_permit\<close> take that view to the one of the result.
\<close>

definition gov_abs :: "governor \<Rightarrow> pc list \<Rightarrow> gov_sys" where
  "gov_abs g ps = \<lparr>g_free = global_free g, g_bg = background_inflight g, g_pcs = ps\<rparr>"

definition pc_of :: "(governor_reject + run_permit) option \<Rightarrow> pc" where
  "pc_of r =
     (case r of
        Some (Inr p) \<Rightarrow> PRun (if permit_bg p then Background else Interactive)
      | _ \<Rightarrow> PIdle)"

lemma gov_abs_simps [simp]:
  "g_free (gov_abs g ps) = global_free g" "g_bg (gov_abs g ps) = background_inflight g"
  "g_pcs (gov_abs g ps) = ps"
  by (simp_all add: gov_abs_def)

lemma background_steps:
  assumes i: "i < length ps" "ps ! i = PIdle" and free: "0 < f"
  shows "(gov_step c)\<^sup>*\<^sup>* \<lparr>g_free = f, g_bg = b, g_pcs = ps\<rparr>
     (if b < max_background_runs (sanitized c)
      then \<lparr>g_free = f - 1, g_bg = b + 1, g_pcs = ps[i := PRun Background]\<rparr>
      else \<lparr>g_free = f, g_bg = b, g_pcs = ps\<rparr>)"
proof -
  let ?s = "\<lambda>f b p. \<lparr>g_free = f, g_bg = b, g_pcs = ps[i := p]\<rparr>"
  have s1: "gov_step c \<lparr>g_free = f, g_bg = b, g_pcs = ps\<rparr> (?s (f - 1) b PReserved)"
    using gov_step.reserve_background [of i "\<lparr>g_free = f, g_bg = b, g_pcs = ps\<rparr>" c] i free by simp
  have s2: "gov_step c (?s (f - 1) b PReserved) (?s (f - 1) b (PLoaded b))"
    using gov_step.load_gauge [of i "?s (f - 1) b PReserved" c] i by simp
  have s3: "gov_step c (?s (f - 1) b (PLoaded b))
     (if b < max_background_runs (sanitized c) then ?s (f - 1) (b + 1) (PRun Background) else ?s f b PIdle)"
    using gov_step.exchange_ok [of i "?s (f - 1) b (PLoaded b)" b c]
      gov_step.at_ceiling [of i "?s (f - 1) b (PLoaded b)" b c] i free by auto
  have "ps[i := PIdle] = ps" using i by (metis list_update_id)
  with s1 s2 s3 show ?thesis by (auto intro: converse_rtranclp_into_rtranclp split: if_splits)
qed

lemma admit_steps:
  assumes i: "i < length ps" "ps ! i = PIdle" and c: "gov_cfg g = sanitized c"
    and r: "admit l now sample g = (r, g')"
  shows "(gov_step c)\<^sup>*\<^sup>* (gov_abs g ps) (gov_abs g' (ps[i := pc_of r]))"
proof (cases l)
  case Interactive
  show ?thesis
  proof (cases "global_free g")
    case 0
    with r Interactive i have "r = None" "g' = g" by (auto simp: admit_def)
    with i show ?thesis by (auto simp: pc_of_def) (metis list_update_id rtranclp.rtrancl_refl)
  next
    case (Suc n)
    with r Interactive have "r = Some (Inr (RunPermit False))" "g' = g\<lparr>global_free := n\<rparr>"
      by (auto simp: admit_def)
    moreover have "gov_step c (gov_abs g ps) ((gov_abs g ps)\<lparr>g_free := n, g_pcs := ps[i := PRun Interactive]\<rparr>)"
      using gov_step.acquire_interactive [of i "gov_abs g ps" c] i Suc by simp
    ultimately show ?thesis by (simp add: pc_of_def gov_abs_def r_into_rtranclp)
  qed
next
  case Background
  then obtain r' where a: "admit_background now sample g = (r', g')" "r = Some r'"
    using r by (auto simp: admit_def split: prod.splits)
  have id: "ps[i := PIdle] = ps" using i by (metis list_update_id)
  show ?thesis
    using a(1)
  proof (cases rule: admit_background_cases)
    case shed
    then show ?thesis using a(2) id by (simp add: pc_of_def gov_abs_def)
  next
    case full
    then show ?thesis using a(2) id by (simp add: pc_of_def gov_abs_def)
  next
    case ok
    then show ?thesis
      using a(2) c background_steps [OF i, of "global_free g" c "background_inflight g"]
      by (simp add: pc_of_def gov_abs_def)
  qed
qed

lemma drop_steps:
  assumes i: "i < length ps" "ps ! i = pc_of (Some (Inr p))"
    and inv: "gov_inv c (gov_abs g ps)"
  shows "(gov_step c)\<^sup>*\<^sup>* (gov_abs g ps) (gov_abs (drop_permit p g) (ps[i := PIdle]))"
proof (cases "permit_bg p")
  case False
  with i have "gov_step c (gov_abs g ps) ((gov_abs g ps)\<lparr>g_free := global_free g + 1, g_pcs := ps[i := PIdle]\<rparr>)"
    using gov_step.drop_interactive [of i "gov_abs g ps" c] by (simp add: pc_of_def)
  with False show ?thesis by (simp add: drop_permit_def gov_abs_def r_into_rtranclp)
next
  case True
  with i have bg: "ps ! i = PRun Background" by (simp add: pc_of_def)
  have pos: "0 < background_inflight g"
    using gov_inv_bg_pos [OF inv, of i] i(1) bg by simp
  have le: "background_inflight g \<le> u64_max"
    using inv unfolding gov_inv_def by simp
  let ?s = "\<lambda>b p. \<lparr>g_free = global_free g + 1, g_bg = b, g_pcs = ps[i := p]\<rparr>"
  let ?b = "background_inflight g"
  have "gov_step c (gov_abs g ps) (?s ?b PGauge)"
    using gov_step.drop_background_global [of i "gov_abs g ps" c] i bg by (simp add: gov_abs_def)
  moreover have "gov_step c (?s ?b PGauge) (?s ?b (PGaugeLoaded ?b))"
    using gov_step.drop_background_load [of i "?s ?b PGauge" c] i by simp
  moreover have "gov_step c (?s ?b (PGaugeLoaded ?b)) (?s (?b - 1) PIdle)"
    using gov_step.drop_background_sub [of i "?s ?b (PGaugeLoaded ?b)" ?b c] i pos
      fetch_sub_u64_pos [OF pos le] by simp
  ultimately have "(gov_step c)\<^sup>*\<^sup>* (gov_abs g ps) (?s (?b - 1) PIdle)"
    by (meson converse_rtranclp_into_rtranclp rtranclp.rtrancl_refl)
  with True pos show ?thesis by (simp add: drop_permit_def gov_abs_def Let_def)
qed

section \<open>Properties\<close>

text \<open>
  C5. In every interleaving of callers, at most \<open>max_background_runs\<close> background runs and at most
  \<open>max_concurrent_runs\<close> runs of both lanes hold a permit at the same time, whatever the
  compare-exchange races.
\<close>

theorem governor_ceilings:
  assumes "reach (gov_init c) (gov_step c) s"
  shows "count_if (is_run Background) (g_pcs s) \<le> max_background_runs (sanitized c) \<and>
    count_if (is_run Background) (g_pcs s) + count_if (is_run Interactive) (g_pcs s)
      \<le> max_concurrent_runs (sanitized c)"
proof -
  have inv: "gov_inv c s" using assms by (rule gov.reach_inv)
  have "count_if (is_run Background) (g_pcs s) \<le> count_if counted (g_pcs s)"
    by (rule count_if_mono) (auto simp: is_run_def)
  moreover have "count_if (is_run Background) (g_pcs s) + count_if (is_run Interactive) (g_pcs s)
      = count_if (\<lambda>p. is_run Background p \<or> is_run Interactive p) (g_pcs s)"
    by (rule count_if_add [symmetric]) (auto simp: is_run_def)
  moreover have "\<dots> \<le> count_if holds_global (g_pcs s)"
    by (rule count_if_mono) (auto simp: is_run_def)
  ultimately show ?thesis using inv unfolding gov_inv_def by linarith
qed

definition example_config :: governor_config where
  "example_config = \<lparr>max_concurrent_runs = 2, max_background_runs = 1, rss_soft_watermark_bytes = 100\<rparr>"

lemma example_reach:
  "reach (gov_init example_config) (gov_step example_config)
     \<lparr>g_free = 1, g_bg = 1, g_pcs = [PRun Background, PIdle]\<rparr>"
proof -
  have "reach (gov_init example_config) (gov_step example_config) \<lparr>g_free = 2, g_bg = 0, g_pcs = [PIdle, PIdle]\<rparr>"
    by (rule reach_init) (simp add: gov_init_def sanitized_def example_config_def u64_max_def)
  from reach_rtranclp [OF background_steps [of 0 "[PIdle, PIdle]" 2 example_config 0] this]
  show ?thesis by (simp add: sanitized_def example_config_def split: if_splits)
qed

theorem governor_ceilings_witness:
  "count_if (is_run Background) [PRun Background, PIdle] \<le> max_background_runs (sanitized example_config)"
  using governor_ceilings [OF example_reach] by simp

text \<open>
  C33. No permit and no gauge count leaks: once every caller is idle again, all global slots are
  free and the background gauge is zero, and the gauge never wraps below zero on the way.
\<close>

theorem governor_no_leak:
  assumes "reach (gov_init c) (gov_step c) s" and "set (g_pcs s) \<subseteq> {PIdle}"
  shows "g_free s = max_concurrent_runs (sanitized c) \<and> g_bg s = 0"
proof -
  have inv: "gov_inv c s" using assms(1) by (rule gov.reach_inv)
  from assms(2) have "\<forall>p \<in> set (g_pcs s). p = PIdle" by auto
  then have "count_if holds_global (g_pcs s) = 0" "count_if counted (g_pcs s) = 0"
    by (auto simp: count_if_def filter_empty_conv)
  with inv show ?thesis unfolding gov_inv_def by simp
qed

theorem governor_no_leak_witness:
  "\<exists>s. (gov_step example_config)\<^sup>*\<^sup>* \<lparr>g_free = 1, g_bg = 1, g_pcs = [PRun Background, PIdle]\<rparr> s \<and>
     g_free s = max_concurrent_runs (sanitized example_config) \<and> g_bg s = 0"
proof -
  let ?g = "\<lparr>gov_cfg = sanitized example_config, global_free = 1, background_inflight = 1,
             gov_rss = \<lparr>rss_bytes = 0, rss_taken = None\<rparr>\<rparr>"
  let ?s = "gov_abs ?g [PRun Background, PIdle]" and ?t = "gov_abs (drop_permit (RunPermit True) ?g) [PIdle, PIdle]"
  have s: "?s = \<lparr>g_free = 1, g_bg = 1, g_pcs = [PRun Background, PIdle]\<rparr>" by (simp add: gov_abs_def)
  have "(gov_step example_config)\<^sup>*\<^sup>* ?s ?t"
    using drop_steps [of 0 "[PRun Background, PIdle]" "RunPermit True" example_config ?g]
      gov.reach_inv [OF example_reach, folded s] by (simp add: pc_of_def)
  moreover from reach_rtranclp [OF this] have "reach (gov_init example_config) (gov_step example_config) ?t"
    using example_reach [folded s] .
  from governor_no_leak [OF this] have "g_free ?t = max_concurrent_runs (sanitized example_config) \<and> g_bg ?t = 0"
    by simp
  ultimately show ?thesis unfolding s by blast
qed

text \<open>
  C34. The admission code refines the interleaved system: from a consistent state, \<open>admit\<close> by an
  idle caller and \<open>drop_permit\<close> of its permit are sequences of atomic steps between the states
  they abstract to.
\<close>

theorem admit_drop_refine:
  assumes "i < length ps" and "ps ! i = PIdle" and "gov_cfg g = sanitized c"
    and "gov_inv c (gov_abs g ps)" and "admit l now sample g = (r, g')"
  shows "(gov_step c)\<^sup>*\<^sup>* (gov_abs g ps) (gov_abs g' (ps[i := pc_of r])) \<and>
    (\<forall>p. r = Some (Inr p) \<longrightarrow>
       (gov_step c)\<^sup>*\<^sup>* (gov_abs g' (ps[i := pc_of r])) (gov_abs (drop_permit p g') ps))"
proof (intro conjI allI impI)
  show st: "(gov_step c)\<^sup>*\<^sup>* (gov_abs g ps) (gov_abs g' (ps[i := pc_of r]))"
    using assms(1,2,3,5) by (rule admit_steps)
  fix p assume r: "r = Some (Inr p)"
  have "gov_inv c (gov_abs g' (ps[i := pc_of r]))"
    using gov.steps_inv [OF st assms(4)] .
  moreover have "ps[i := PIdle] = ps" using assms(1,2) by (metis list_update_id)
  ultimately show "(gov_step c)\<^sup>*\<^sup>* (gov_abs g' (ps[i := pc_of r])) (gov_abs (drop_permit p g') ps)"
    using drop_steps [of i "ps[i := pc_of r]" p c g'] assms(1) r by simp
qed

theorem admit_drop_refine_witness:
  "(gov_step example_config)\<^sup>*\<^sup>* (gov_abs (new_governor example_config) [PIdle])
     (gov_abs (new_governor example_config \<lparr>global_free := 1, background_inflight := 1,
        gov_rss := \<lparr>rss_bytes = 60, rss_taken = Some 5\<rparr>\<rparr>) [PRun Background])"
proof -
  let ?g = "new_governor example_config"
  have inv: "gov_inv example_config (gov_abs ?g [PIdle])"
    by (simp add: gov_inv_def new_governor_def sanitized_def example_config_def u64_max_def)
  have a: "admit Background 5 60 ?g = (Some (Inr (RunPermit True)),
      ?g\<lparr>global_free := 1, background_inflight := 1, gov_rss := \<lparr>rss_bytes = 60, rss_taken = Some 5\<rparr>\<rparr>)"
    by (simp add: governor_ops new_governor_def sanitized_def example_config_def Let_def)
  from admit_drop_refine [of 0 "[PIdle]" ?g example_config, OF _ _ _ inv a]
  show ?thesis by (simp add: pc_of_def new_governor_def)
qed

text \<open>
  Memory pressure sheds background work only: with a fresh sample above a non-zero watermark
  a background admission is refused with \<open>MemoryWatermark\<close> and takes nothing, while an interactive
  caller is served whenever a slot is free; a zero watermark never refuses for memory.
\<close>

theorem memory_shed_background_only:
  "(0 < rss_soft_watermark_bytes (gov_cfg g) \<and> rss_taken (gov_rss g) = None \<and>
     rss_soft_watermark_bytes (gov_cfg g) < sample \<longrightarrow>
     fst (admit Background now sample g) = Some (Inl MemoryWatermark) \<and>
     global_free (snd (admit Background now sample g)) = global_free g \<and>
     background_inflight (snd (admit Background now sample g)) = background_inflight g) \<and>
   (0 < global_free g \<longrightarrow> fst (admit Interactive now sample g) = Some (Inr (RunPermit False))) \<and>
   (rss_soft_watermark_bytes (gov_cfg g) = 0 \<longrightarrow>
     fst (admit Background now sample g) \<noteq> Some (Inl MemoryWatermark))"
  by (auto simp: governor_ops Let_def)

theorem memory_shed_background_only_witness:
  "fst (admit Background 0 200 (new_governor example_config)) = Some (Inl MemoryWatermark) \<and>
   fst (admit Interactive 0 200 (new_governor example_config)) = Some (Inr (RunPermit False))"
  using memory_shed_background_only [of "new_governor example_config" 200 0]
  by (simp add: new_governor_def sanitized_def example_config_def)

end
