(* ===== verification/MonModels.thy ===== *)
theory MonModels
  imports Prelude
begin

text \<open>
  The monitoring data model (\<open>src/src/monitor/models.rs\<close>): targets and selectors as the
  coordinator hands them down, and the routing decision between the browser and the HTTP path.
\<close>

record selector =
  sel_id :: "int option"
  sel_name :: "string option"
  selector_css :: string
  content_type :: string
  ignore_regex :: "string option"
  baseline_hash :: "string option"
  baseline_content :: "string option"
  visual_region :: "json option"

record target =
  target_id :: "int option"
  target_url :: string
  check_type :: string
  check_period_ms :: "int option"
  requires_playwright :: bool
  pre_check_workflow :: "json option"
  auth_session :: "json option"
  timeout_ms :: "int option"
  expected_status_code :: "int option"
  check_ssl :: bool
  selectors :: "selector list"

definition needs_browser :: "target \<Rightarrow> bool" where
  "needs_browser t =
     (if check_type t = ''uptime'' then False
      else requires_playwright t
         \<or> pre_check_workflow t \<noteq> None
         \<or> auth_session t \<noteq> None
         \<or> (\<exists>s \<in> set (selectors t). content_type s = ''visual'' \<and> visual_region s \<noteq> None))"

definition plain_target :: "int \<Rightarrow> string \<Rightarrow> int option \<Rightarrow> target" where
  "plain_target i url period =
     \<lparr>target_id = Some i, target_url = url, check_type = ''content'', check_period_ms = period,
      requires_playwright = False, pre_check_workflow = None, auth_session = None,
      timeout_ms = None, expected_status_code = None, check_ssl = True, selectors = []\<rparr>"

lemma needs_browser_uptime: "check_type t = ''uptime'' \<Longrightarrow> \<not> needs_browser t"
  by (simp add: needs_browser_def)

lemma needs_browser_visual:
  "check_type t \<noteq> ''uptime'' \<Longrightarrow> s \<in> set (selectors t) \<Longrightarrow> content_type s = ''visual'' \<Longrightarrow>
   visual_region s \<noteq> None \<Longrightarrow> needs_browser t"
  by (auto simp: needs_browser_def)

end
