(* ===== verification/TimeSlots.thy ===== *)
theory TimeSlots
  imports F64 MonModels "HOL-Library.Multiset"
begin

unbundle bit_operations_syntax

text \<open>
  The periodic schedulers (\<open>src/src/monitor/scheduler.rs\<close>) and the distribution of targets over
  time slots (\<open>src/src/monitor/grouping.rs\<close>). Every operation takes the clock reading \<open>now\<close> (in
  milliseconds) as an argument; \<open>i64\<close> values are integers, with saturation and wrap-around where
  the source has them, and the jitter seed is a 64-bit word.
\<close>

definition min_period_ms :: int where
  "min_period_ms = 1000"

definition max_period_ms :: int where
  "max_period_ms = 365 * 24 * 60 * 60 * 1000"

definition max_epoch_ms :: int where
  "max_epoch_ms = 4102444800000"

lemmas sched_bounds = min_period_ms_def max_period_ms_def max_epoch_ms_def

section \<open>The simple scheduler\<close>

record scheduler =
  period_ms :: int
  jitter_ms :: int
  last_run_ts :: "int option"
  next_run_ts :: int
  jitter_seed :: "64 word"

definition xorshift :: "64 word \<Rightarrow> 64 word" where
  "xorshift x0 =
     (let x1 = x0 XOR push_bit 13 x0; x2 = x1 XOR drop_bit 7 x1 in x2 XOR push_bit 17 x2)"

definition next_jitter :: "int \<Rightarrow> scheduler \<Rightarrow> int \<times> scheduler" where
  "next_jitter mx s =
     (if mx \<le> 0 then (0, s)
      else (let x = xorshift (jitter_seed s)
            in (int (unat x mod (nat mx + 1)), s\<lparr>jitter_seed := x\<rparr>)))"

definition sched_calculate_next_run :: "int \<Rightarrow> scheduler \<Rightarrow> scheduler" where
  "sched_calculate_next_run now s =
     (let nxt = wrap_i64 (now + period_ms s)
      in if 0 < jitter_ms s
         then (let (j, s1) = next_jitter (jitter_ms s) s in s1\<lparr>next_run_ts := wrap_i64 (nxt + j)\<rparr>)
         else s\<lparr>next_run_ts := nxt\<rparr>)"

definition new_scheduler :: "int \<Rightarrow> int \<Rightarrow> int \<Rightarrow> scheduler" where
  "new_scheduler now period jitter =
     sched_calculate_next_run now
       \<lparr>period_ms = clamp min_period_ms max_period_ms period,
        jitter_ms = clamp 0 max_period_ms jitter, last_run_ts = None, next_run_ts = 0,
        jitter_seed = word_of_int now XOR 0x9E3779B97F4A7C15\<rparr>"

definition sched_should_run :: "int \<Rightarrow> scheduler \<Rightarrow> bool" where
  "sched_should_run now s \<longleftrightarrow> next_run_ts s \<le> now"

definition sched_mark_completed :: "int \<Rightarrow> scheduler \<Rightarrow> scheduler" where
  "sched_mark_completed now s = sched_calculate_next_run now (s\<lparr>last_run_ts := Some now\<rparr>)"

definition sched_update_period :: "int \<Rightarrow> int \<Rightarrow> scheduler \<Rightarrow> scheduler" where
  "sched_update_period now period s = sched_calculate_next_run now (s\<lparr>period_ms := period\<rparr>)"

definition time_until_next_run_ms :: "int \<Rightarrow> scheduler \<Rightarrow> int" where
  "time_until_next_run_ms now s = max (wrap_i64 (next_run_ts s - now)) 0"

lemma next_jitter_bounds:
  "next_jitter mx s = (j, s') \<Longrightarrow> 0 \<le> j \<and> j \<le> max mx 0 \<and> period_ms s' = period_ms s \<and>
     jitter_ms s' = jitter_ms s \<and> last_run_ts s' = last_run_ts s"
proof -
  assume a: "next_jitter mx s = (j, s')"
  have "int (n mod (nat mx + 1)) \<le> mx" if "0 < mx" for n
  proof -
    have "n mod (nat mx + 1) < nat mx + 1" by simp
    with that show ?thesis by linarith
  qed
  with a show ?thesis by (auto simp: next_jitter_def Let_def split: if_splits)
qed

section \<open>The adaptive scheduler\<close>

record adaptive_scheduler =
  base :: scheduler
  min_period :: int
  max_period :: int
  increase_factor :: rat
  decrease_factor :: rat
  change_count :: nat
  no_change_count :: nat

definition new_adaptive :: "int \<Rightarrow> int \<Rightarrow> int \<Rightarrow> int \<Rightarrow> adaptive_scheduler" where
  "new_adaptive now initial mn mx =
     \<lparr>base = new_scheduler now initial 0, min_period = mn, max_period = mx,
      increase_factor = 3 / 2, decrease_factor = 3 / 4, change_count = 0, no_change_count = 0\<rparr>"

definition scale_period :: "int \<Rightarrow> rat \<Rightarrow> int" where
  "scale_period p f = f64_to_i64 (Fin (f64_mul (i64_to_f64 p) f))"

definition report_change_detected :: "int \<Rightarrow> adaptive_scheduler \<Rightarrow> adaptive_scheduler" where
  "report_change_detected now a =
     (let a1 = a\<lparr>change_count := change_count a + 1, no_change_count := 0\<rparr>;
          p = max (scale_period (period_ms (base a)) (decrease_factor a)) (min_period a)
      in if p \<noteq> period_ms (base a) then a1\<lparr>base := sched_update_period now p (base a)\<rparr> else a1)"

definition report_no_change :: "int \<Rightarrow> adaptive_scheduler \<Rightarrow> adaptive_scheduler" where
  "report_no_change now a =
     (let a1 = a\<lparr>no_change_count := no_change_count a + 1\<rparr>
      in if 5 \<le> no_change_count a1
         then (let p = min (scale_period (period_ms (base a)) (increase_factor a)) (max_period a)
               in if p \<noteq> period_ms (base a)
                  then a1\<lparr>base := sched_update_period now p (base a), no_change_count := 0\<rparr>
                  else a1)
         else a1)"

section \<open>The time-slot scheduler\<close>

record time_slot_scheduler =
  ts_period_ms :: int
  time_slot_offset_ms :: int
  sync_epoch_ms :: int
  jitter_percent :: f64
  ts_last_run :: "int option"
  ts_next_run :: int
  ts_seed :: "64 word"

definition next_signed_jitter :: "int \<Rightarrow> time_slot_scheduler \<Rightarrow> int \<times> time_slot_scheduler" where
  "next_signed_jitter rng s =
     (if rng \<le> 0 then (0, s)
      else (let x = xorshift (ts_seed s)
            in (int (unat x mod (nat rng * 2 + 1)) - rng, s\<lparr>ts_seed := x\<rparr>)))"

text \<open>
  The aligned start of the next run, before jitter: the slot start of the current period while it
  is ahead, else the next one, moved past \<open>now\<close> by whole periods.
\<close>

definition base_next_run :: "int \<Rightarrow> int \<Rightarrow> int \<Rightarrow> int \<Rightarrow> int" where
  "base_next_run now epoch offset period =
     (let since = sat_sub now epoch;
          elapsed = since div period;
          span = sat_mul elapsed period;
          current = sat_add (sat_add epoch span) offset;
          next = sat_add current period;
          b = (if now < current then current else next)
      in if b \<le> now
         then (let behind = sat_sub now b; jumps = sat_add (behind div period) 1
               in sat_add b (sat_mul jumps period))
         else b)"

definition jitter_pct :: "f64 \<Rightarrow> rat" where
  "jitter_pct f = (case f of Fin r \<Rightarrow> f64_clamp 0 100 r | _ \<Rightarrow> 0)"

definition ts_calculate_next_run :: "int \<Rightarrow> int \<Rightarrow> time_slot_scheduler \<Rightarrow> time_slot_scheduler" where
  "ts_calculate_next_run now coord s =
     (if ts_period_ms s \<le> 0 then s\<lparr>ts_next_run := i64_max\<rparr>
      else (let b = base_next_run now (sync_epoch_ms s) (time_slot_offset_ms s) (ts_period_ms s);
                (j, s1) =
                  (if coord \<noteq> 0
                   then (let safe = scale_period (ts_period_ms s) (f64_round (4 / 5))
                         in (clamp (- safe) safe coord, s))
                   else next_signed_jitter
                          (scale_period (ts_period_ms s) (f64_div (jitter_pct (jitter_percent s)) 100)) s)
            in s1\<lparr>ts_next_run := max now (sat_add b j)\<rparr>))"

definition new_time_slot_scheduler ::
    "int \<Rightarrow> int \<Rightarrow> int \<Rightarrow> int option \<Rightarrow> bool \<Rightarrow> f64 \<Rightarrow> int option \<Rightarrow> time_slot_scheduler" where
  "new_time_slot_scheduler now period offset epoch immediate pct last_run =
     (let off = clamp (- max_period_ms) max_period_ms offset;
          s = \<lparr>ts_period_ms = clamp min_period_ms max_period_ms period,
               time_slot_offset_ms = off,
               sync_epoch_ms = (case epoch of None \<Rightarrow> now | Some e \<Rightarrow> clamp 0 max_epoch_ms e),
               jitter_percent = pct, ts_last_run = last_run, ts_next_run = 0,
               ts_seed = word_of_int now XOR (word_of_int off * 0x2545F4914F6CDD1D) XOR 0x9E3779B97F4A7C15\<rparr>
      in if immediate then s\<lparr>ts_next_run := now\<rparr> else ts_calculate_next_run now 0 s)"

definition ts_should_run :: "int \<Rightarrow> time_slot_scheduler \<Rightarrow> bool" where
  "ts_should_run now s \<longleftrightarrow> ts_next_run s \<le> now"

definition ts_mark_completed :: "int \<Rightarrow> int \<Rightarrow> time_slot_scheduler \<Rightarrow> time_slot_scheduler" where
  "ts_mark_completed now coord s = ts_calculate_next_run now coord (s\<lparr>ts_last_run := Some now\<rparr>)"

definition ts_update_period :: "int \<Rightarrow> int \<Rightarrow> time_slot_scheduler \<Rightarrow> time_slot_scheduler" where
  "ts_update_period now period s = ts_calculate_next_run now 0 (s\<lparr>ts_period_ms := period\<rparr>)"

definition ts_update_time_slot :: "int \<Rightarrow> int \<Rightarrow> time_slot_scheduler \<Rightarrow> time_slot_scheduler" where
  "ts_update_time_slot now offset s = ts_calculate_next_run now 0 (s\<lparr>time_slot_offset_ms := offset\<rparr>)"

definition ts_time_until_next_run_ms :: "int \<Rightarrow> time_slot_scheduler \<Rightarrow> int" where
  "ts_time_until_next_run_ms now s = max (wrap_i64 (ts_next_run s - now)) 0"

section \<open>Alignment of the time slots\<close>

text \<open>The values the constructor admits, and clock readings up to the year 73,000,000.\<close>

definition slot_params_ok :: "int \<Rightarrow> int \<Rightarrow> int \<Rightarrow> int \<Rightarrow> bool" where
  "slot_params_ok now epoch offset period \<longleftrightarrow>
     0 \<le> now \<and> now \<le> 2 ^ 61 \<and> 0 \<le> epoch \<and> epoch \<le> 2 ^ 61 \<and>
     \<bar>offset\<bar> \<le> max_period_ms \<and> 0 < period \<and> period \<le> max_period_ms"

lemma sat_i64_small: "\<bar>x\<bar> \<le> 2 ^ 62 \<Longrightarrow> sat_i64 x = x"
  by (intro sat_i64_id) (auto simp: i64_ok_def i64_bounds abs_le_iff)

lemma base_next_run_exact:
  assumes "slot_params_ok now epoch offset period"
  shows "base_next_run now epoch offset period =
    (let c = epoch + (now - epoch) div period * period + offset;
         b = (if now < c then c else c + period)
     in if b \<le> now then b + ((now - b) div period + 1) * period else b)"
proof -
  let ?q = "(now - epoch) div period"
  have p: "0 < period" "period \<le> 31536000000" and o: "\<bar>offset\<bar> \<le> 31536000000"
    and ne: "0 \<le> now" "now \<le> 2 ^ 61" "0 \<le> epoch" "epoch \<le> 2 ^ 61"
    using assms by (auto simp: slot_params_ok_def max_period_ms_def)
  have eq: "(x::int) div period * period = x - x mod period" for x
    by (simp add: minus_mod_eq_div_mult)
  have m: "0 \<le> (x::int) mod period" "x mod period < period" for x
    using p by simp_all
  have s1: "sat_sub now epoch = now - epoch"
    unfolding sat_sub_def using ne by (intro sat_i64_small) simp
  have s2: "sat_mul ?q period = ?q * period"
    unfolding sat_mul_def eq using ne p m [of "now - epoch"] by (intro sat_i64_small) simp
  have s3: "sat_add epoch (?q * period) = epoch + ?q * period"
    unfolding sat_add_def eq using ne p m [of "now - epoch"] by (intro sat_i64_small) simp
  define c where "c = epoch + ?q * period + offset"
  have c: "c \<le> now + 31536000000" "now - 63072000000 \<le> c"
    unfolding c_def eq using m [of "now - epoch"] p o by linarith+
  have s4: "sat_add (epoch + ?q * period) offset = c"
    unfolding sat_add_def using c ne by (subst sat_i64_small) (auto simp: c_def)
  have s5: "sat_add c period = c + period"
    unfolding sat_add_def using c ne p by (intro sat_i64_small) simp
  define b where "b = (if now < c then c else c + period)"
  have b: "b \<le> now + 31536000000" "now - 63072000000 \<le> b"
    using c p by (auto simp: b_def)
  show ?thesis
  proof (cases "b \<le> now")
    case False
    then show ?thesis
      unfolding base_next_run_def Let_def s1 s2 s3 s4 s5 c_def [symmetric] b_def [symmetric] by simp
  next
    case True
    let ?r = "(now - b) div period"
    have s6: "sat_sub now b = now - b"
      unfolding sat_sub_def using b ne True by (intro sat_i64_small) simp
    have r0: "0 \<le> ?r" using True p by (simp add: pos_imp_zdiv_nonneg_iff)
    have "?r * 1 \<le> ?r * period" using r0 p by (intro mult_left_mono) auto
    then have r: "0 \<le> ?r" "?r \<le> now - b"
      unfolding eq using r0 m [of "now - b"] by linarith+
    have s7: "sat_add ?r 1 = ?r + 1"
      unfolding sat_add_def using r b by (intro sat_i64_small) simp
    define d where "d = (now - b) mod period"
    have d: "0 \<le> d" "d < period" using m [of "now - b"] by (simp_all add: d_def)
    have rp: "(?r + 1) * period = now - b - d + period"
      by (simp add: distrib_right eq d_def)
    have s8: "sat_mul (?r + 1) period = (?r + 1) * period"
      unfolding sat_mul_def rp using d b p True by (intro sat_i64_small) simp
    have s9: "sat_add b ((?r + 1) * period) = b + (?r + 1) * period"
      unfolding sat_add_def rp using d b p ne by (intro sat_i64_small) simp
    show ?thesis
      unfolding base_next_run_def Let_def s1 s2 s3 s4 s5 c_def [symmetric] b_def [symmetric]
      using True s6 s7 s8 s9 by simp
  qed
qed

lemma base_next_run_cases:
  assumes "slot_params_ok now epoch offset period"
  obtains k where "base_next_run now epoch offset period = epoch + offset + k * period"
    "now < base_next_run now epoch offset period"
    "base_next_run now epoch offset period \<le> now + max period (max offset 0)"
proof -
  let ?q = "(now - epoch) div period"
  let ?c = "epoch + ?q * period + offset"
  let ?b = "if now < ?c then ?c else ?c + period"
  have p: "0 < period" using assms by (simp add: slot_params_ok_def)
  have eq: "(x::int) div period * period = x - x mod period" for x
    by (simp add: minus_mod_eq_div_mult)
  have m: "0 \<le> (x::int) mod period" "x mod period < period" for x
    using p by simp_all
  note e = base_next_run_exact [OF assms, unfolded Let_def]
  show thesis
  proof (cases "?b \<le> now")
    case True
    then have c: "?b = ?c + period" "base_next_run now epoch offset period = ?b + ((now - ?b) div period + 1) * period"
      using e by (auto split: if_splits)
    have "base_next_run now epoch offset period = epoch + offset + (?q + 1 + (now - ?b) div period + 1) * period"
      unfolding c(2) using c(1) by (simp add: algebra_simps)
    moreover have "base_next_run now epoch offset period = now - (now - ?b) mod period + period"
      unfolding c(2) by (simp add: distrib_right eq)
    ultimately show thesis
      using that [of "?q + 1 + (now - ?b) div period + 1"] m [of "now - ?b"] by linarith
  next
    case False
    then have b: "base_next_run now epoch offset period = ?b" using e by auto
    show thesis
    proof (cases "now < ?c")
      case True
      then have "base_next_run now epoch offset period = epoch + offset + ?q * period"
        using b by simp
      moreover have "?c \<le> now + max period (max offset 0)"
        unfolding eq using m [of "now - epoch"] by auto
      ultimately show thesis using that [of ?q] b True by simp
    next
      case c: False
      then have "base_next_run now epoch offset period = epoch + offset + (?q + 1) * period"
        using b by (simp add: algebra_simps)
      moreover have "base_next_run now epoch offset period \<le> now + max period (max offset 0)"
        using b c by simp
      ultimately show thesis using that [of "?q + 1"] b False by simp
    qed
  qed
qed

lemma f64_four_fifths: "0 \<le> f64_round (4 / 5)" "f64_round (4 / 5) \<le> 1"
  using f64_round_int_bounds [of 0 "4 / 5" 1] by auto

lemma jitter_fraction: "0 \<le> f64_div (jitter_pct f) 100" "f64_div (jitter_pct f) 100 \<le> 1"
proof -
  have "0 \<le> jitter_pct f" "jitter_pct f \<le> 100"
    by (auto simp: jitter_pct_def f64_clamp_def split: f64.split)
  then show "0 \<le> f64_div (jitter_pct f) 100" "f64_div (jitter_pct f) 100 \<le> 1"
    using f64_round_int_bounds [of 0 "jitter_pct f / 100" 1] by (auto simp: f64_div_def)
qed

lemma scale_period_bounds:
  "0 \<le> p \<Longrightarrow> p < 2 ^ 53 \<Longrightarrow> 0 \<le> f \<Longrightarrow> f \<le> 1 \<Longrightarrow> 0 \<le> scale_period p f \<and> scale_period p f \<le> p"
  unfolding scale_period_def by (rule scaled_bounds)

lemma next_signed_jitter_bounds:
  assumes "next_signed_jitter r s = (j, s')" "0 \<le> r"
  shows "\<bar>j\<bar> \<le> r" "ts_period_ms s' = ts_period_ms s" "time_slot_offset_ms s' = time_slot_offset_ms s"
    "sync_epoch_ms s' = sync_epoch_ms s" "ts_last_run s' = ts_last_run s" "jitter_percent s' = jitter_percent s"
proof -
  have "n mod (nat r * 2 + 1) \<le> nat r * 2" for n :: nat
    by (simp add: less_Suc_eq_le [symmetric])
  then have "int (n mod (nat r * 2 + 1)) \<le> 2 * r" for n
    using assms(2) by (metis int_nat_eq mult.commute of_nat_mono of_nat_mult of_nat_numeral)
  with assms show "\<bar>j\<bar> \<le> r" "ts_period_ms s' = ts_period_ms s" "time_slot_offset_ms s' = time_slot_offset_ms s"
    "sync_epoch_ms s' = sync_epoch_ms s" "ts_last_run s' = ts_last_run s" "jitter_percent s' = jitter_percent s"
    by (auto simp: next_signed_jitter_def Let_def abs_le_iff split: if_splits)
qed

lemma ts_calculate_next_run_spec:
  assumes ok: "slot_params_ok now (sync_epoch_ms s) (time_slot_offset_ms s) (ts_period_ms s)"
  obtains j where "\<bar>j\<bar> \<le> ts_period_ms s"
    "ts_next_run (ts_calculate_next_run now coord s) =
       max now (base_next_run now (sync_epoch_ms s) (time_slot_offset_ms s) (ts_period_ms s) + j)"
proof -
  let ?p = "ts_period_ms s" and ?b = "base_next_run now (sync_epoch_ms s) (time_slot_offset_ms s) (ts_period_ms s)"
  have p: "0 < ?p" "?p < 2 ^ 53" and n: "0 \<le> now" "now \<le> 2 ^ 61" and o: "\<bar>time_slot_offset_ms s\<bar> \<le> max_period_ms"
    and mp: "?p \<le> max_period_ms"
    using ok by (auto simp: slot_params_ok_def sched_bounds)
  have b: "now < ?b" "?b \<le> now + max ?p (max (time_slot_offset_ms s) 0)"
    using base_next_run_cases [OF ok] by blast+
  have sat: "sat_add ?b j = ?b + j" if "\<bar>j\<bar> \<le> ?p" for j
    unfolding sat_add_def using b n p o mp that by (intro sat_i64_small) (auto simp: sched_bounds)
  show thesis
  proof (cases "coord = 0")
    case False
    let ?m = "scale_period ?p (f64_round (4 / 5))"
    have m: "0 \<le> ?m" "?m \<le> ?p"
      using scale_period_bounds [OF _ p(2) f64_four_fifths] p by auto
    have "\<bar>clamp (- ?m) ?m coord\<bar> \<le> ?p"
      using m by (auto simp: clamp_def abs_le_iff)
    then show thesis using that [of "clamp (- ?m) ?m coord"] False p sat
      by (auto simp: ts_calculate_next_run_def Let_def)
  next
    case True
    let ?m = "scale_period ?p (f64_div (jitter_pct (jitter_percent s)) 100)"
    have m: "0 \<le> ?m" "?m \<le> ?p"
      using scale_period_bounds [OF _ p(2) jitter_fraction] p by auto
    obtain j s1 where j: "next_signed_jitter ?m s = (j, s1)" by (cases "next_signed_jitter ?m s")
    note nj = next_signed_jitter_bounds [OF j m(1)]
    show thesis using that [of j] True p m nj sat j
      by (auto simp: ts_calculate_next_run_def Let_def)
  qed
qed

lemma ts_calculate_frame [simp]:
  "ts_period_ms (ts_calculate_next_run now coord s) = ts_period_ms s"
  "time_slot_offset_ms (ts_calculate_next_run now coord s) = time_slot_offset_ms s"
  "sync_epoch_ms (ts_calculate_next_run now coord s) = sync_epoch_ms s"
  by (auto simp: ts_calculate_next_run_def next_signed_jitter_def Let_def split: prod.splits if_splits)

lemma new_time_slot_period [simp]:
  "ts_period_ms (new_time_slot_scheduler now period offset epoch immediate pct last_run)
     = clamp min_period_ms max_period_ms period"
  by (simp add: new_time_slot_scheduler_def Let_def)

text \<open>What the coordinator sends is clamped into the admitted values.\<close>

lemma constructor_params_ok:
  assumes "0 \<le> now" "now \<le> 2 ^ 61"
  shows "slot_params_ok now (case epoch of None \<Rightarrow> now | Some e \<Rightarrow> clamp 0 max_epoch_ms e)
    (clamp (- max_period_ms) max_period_ms offset) (clamp min_period_ms max_period_ms period)"
  using assms by (auto simp: slot_params_ok_def sched_bounds clamp_def abs_le_iff split: option.split)

section \<open>Grouping of targets\<close>

definition min_check_interval_ms :: int where
  "min_check_interval_ms = 60000"

record resolved =
  offsets :: "int list"
  effective_period_ms :: int

definition i64_list :: "json list \<Rightarrow> int list" where
  "i64_list xs = List.map_filter as_i64 xs"

text \<open>
  \<open>resolve\<close>: rolling mode reads the object entry of the period, legacy mode a flat list of base
  offsets shifted per period group. The arithmetic of the legacy mode is plain \<open>i64\<close>.
\<close>

definition resolve_offsets :: "json \<Rightarrow> int \<Rightarrow> nat \<Rightarrow> nat \<Rightarrow> resolved" where
  "resolve_offsets tso period idx groups =
     (let floor = (\<lambda>p. max p min_check_interval_ms) in
      case tso of
        JObj obj \<Rightarrow>
          (case unwrap_or JNull (map_of obj (show_int period)) of
             JObj m \<Rightarrow>
               \<lparr>offsets = [unwrap_or 0 (get_i64 ''offset_ms'' (JObj m))],
                effective_period_ms = floor (unwrap_or period (get_i64 ''effective_period_ms'' (JObj m)))\<rparr>
           | JArr xs \<Rightarrow>
               \<lparr>offsets = (if i64_list xs = [] then [0] else i64_list xs),
                effective_period_ms = floor period\<rparr>
           | _ \<Rightarrow> \<lparr>offsets = [0], effective_period_ms = floor period\<rparr>)
      | _ \<Rightarrow>
          (let b0 = (case tso of JArr xs \<Rightarrow> i64_list xs | _ \<Rightarrow> []);
               b = (if b0 = [] then [0] else b0);
               shift_per_period =
                 (if 1 < length b \<and> 1 < groups
                  then trunc_div (wrap_i64 (b ! 1 - b ! 0)) (int groups + 1) else 0);
               offs =
                 (if 0 < shift_per_period
                  then map (\<lambda>o'. wrap_i64 (o' + wrap_i64 (int idx * shift_per_period))) b else b)
           in \<lparr>offsets = offs, effective_period_ms = floor period\<rparr>))"

record slot =
  slot_scheduler :: time_slot_scheduler
  slot_targets :: "target list"
  slot_index :: nat
  offset_ms :: int

record period_group =
  group_period :: int
  slots :: "slot list"

text \<open>\<open>by_period.entry(k).or_default().push(t)\<close> on the ordered map, an ascending association list.\<close>

fun btree_push :: "'k::linorder \<Rightarrow> 'v \<Rightarrow> ('k \<times> 'v list) list \<Rightarrow> ('k \<times> 'v list) list" where
  "btree_push k v [] = [(k, [v])]"
| "btree_push k v ((k', vs) # m) =
     (if k < k' then (k, [v]) # (k', vs) # m
      else if k = k' then (k', vs @ [v]) # m
      else (k', vs) # btree_push k v m)"

definition group_by_period :: "target list \<Rightarrow> int \<Rightarrow> (int \<times> target list) list" where
  "group_by_period ts global =
     foldl (\<lambda>m t. btree_push (unwrap_or global (check_period_ms t)) t m) [] ts"

definition round_robin :: "nat \<Rightarrow> nat \<Rightarrow> 'a list \<Rightarrow> 'a list" where
  "round_robin n k xs = map snd (filter (\<lambda>(i, _). i mod n = k) (enumerate 0 xs))"

definition build_slots :: "int \<Rightarrow> int option \<Rightarrow> resolved \<Rightarrow> target list \<Rightarrow> slot list" where
  "build_slots now epoch r ts =
     (let n = max (length (offsets r)) 1
      in List.map_filter
           (\<lambda>(k, off).
              (let st = round_robin n k ts
               in if st = [] then None
                  else Some \<lparr>slot_scheduler =
                               new_time_slot_scheduler now (effective_period_ms r) off epoch False (Fin 0) None,
                             slot_targets = st, slot_index = k, offset_ms = off\<rparr>))
           (enumerate 0 (offsets r)))"

definition group_targets :: "int \<Rightarrow> target list \<Rightarrow> int \<Rightarrow> int option \<Rightarrow> json \<Rightarrow> period_group list" where
  "group_targets now ts global epoch tso =
     (let by = group_by_period ts global; n = length by
      in map (\<lambda>(idx, period, pts).
                \<lparr>group_period = period, slots = build_slots now epoch (resolve_offsets tso period idx n) pts\<rparr>)
             (enumerate 0 by))"

text \<open>All targets a list of groups schedules, slot by slot.\<close>

definition scheduled_targets :: "period_group list \<Rightarrow> target list" where
  "scheduled_targets gs = concat (map (\<lambda>g. concat (map slot_targets (slots g))) gs)"

lemma btree_push_concat:
  "mset (concat (map snd (btree_push k v m))) = mset (concat (map snd m)) + {#v#}"
  by (induction k v m rule: btree_push.induct) auto

lemma group_by_period_mset: "mset (concat (map snd (group_by_period ts global))) = mset ts"
proof -
  have "mset (concat (map snd (foldl (\<lambda>m t. btree_push (unwrap_or global (check_period_ms t)) t m) m ts)))
      = mset (concat (map snd m)) + mset ts" for m
    by (induction ts arbitrary: m) (simp_all add: btree_push_concat)
  then show ?thesis by (simp add: group_by_period_def)
qed

lemma btree_push_entry:
  "(a, vs) \<in> set (btree_push k v m) \<Longrightarrow> x \<in> set vs \<Longrightarrow>
     (a = k \<and> x = v) \<or> (\<exists>ws. (a, ws) \<in> set m \<and> x \<in> set ws)"
  by (induction k v m rule: btree_push.induct) (auto split: if_splits)

lemma group_by_period_period:
  assumes "(p, vs) \<in> set (group_by_period ts global)" "t \<in> set vs"
  shows "p = unwrap_or global (check_period_ms t)"
proof -
  let ?f = "\<lambda>m t. btree_push (unwrap_or global (check_period_ms t)) t m"
  have "(p, vs) \<in> set (foldl ?f m ts) \<Longrightarrow> \<forall>a ws x. (a, ws) \<in> set m \<longrightarrow> x \<in> set ws \<longrightarrow> a = unwrap_or global (check_period_ms x)
      \<Longrightarrow> p = unwrap_or global (check_period_ms t)" for m
  proof (induction ts arbitrary: m)
    case Nil
    then show ?case using assms(2) by auto
  next
    case (Cons u us)
    show ?case
      by (rule Cons.IH [of "?f m u"]) (use Cons.prems in \<open>auto dest!: btree_push_entry\<close>)
  qed
  with assms(1) show ?thesis by (auto simp: group_by_period_def)
qed

lemma btree_push_sorted:
  "sorted_wrt (<) (map fst m) \<Longrightarrow>
     sorted_wrt (<) (map fst (btree_push k v m)) \<and> set (map fst (btree_push k v m)) = insert k (set (map fst m))"
  by (induction k v m rule: btree_push.induct) auto

lemma group_by_period_sorted: "sorted_wrt (<) (map fst (group_by_period ts global))"
proof -
  let ?f = "\<lambda>m t. btree_push (unwrap_or global (check_period_ms t)) t m"
  have "sorted_wrt (<) (map fst m) \<Longrightarrow> sorted_wrt (<) (map fst (foldl ?f m ts))" for m
    by (induction ts arbitrary: m) (auto dest: btree_push_sorted)
  then show ?thesis by (simp add: group_by_period_def)
qed

text \<open>Round robin splits a list: the residues below \<open>n\<close> partition the positions.\<close>

lemma round_robin_mset:
  assumes "0 < n"
  shows "(\<Sum>k = 0..<n. mset (round_robin n k xs)) = mset xs"
proof -
  have one: "(\<Sum>k = 0..<n. if i mod n = k then {#x#} else {#}) = {#x#}" for i and x :: 'a
    using assms by (simp add: sum.delta)
  have "(\<Sum>k = 0..<n. mset (map snd (filter (\<lambda>(i, _). i mod n = k) (enumerate m xs)))) = mset xs" for m
  proof (induction xs arbitrary: m)
    case Nil
    then show ?case by simp
  next
    case (Cons x xs)
    have "(\<Sum>k = 0..<n. mset (map snd (filter (\<lambda>(i, _). i mod n = k) (enumerate m (x # xs))))) =
        (\<Sum>k = 0..<n. (if m mod n = k then {#x#} else {#}) +
           mset (map snd (filter (\<lambda>(i, _). i mod n = k) (enumerate (Suc m) xs))))"
      by (rule sum.cong) auto
    also have "\<dots> = {#x#} + mset xs"
      unfolding sum.distrib one Cons.IH ..
    finally show ?case by simp
  qed
  then show ?thesis by (simp add: round_robin_def)
qed

lemma resolve_offsets_nonempty: "offsets (resolve_offsets tso period idx n) \<noteq> []"
  by (auto simp: resolve_offsets_def Let_def split: json.splits)

lemma resolve_period_floor: "min_check_interval_ms \<le> effective_period_ms (resolve_offsets tso period idx n)"
  by (auto simp: resolve_offsets_def Let_def split: json.splits)

lemma concat_map_filter:
  "concat (map f (List.map_filter g xs)) = concat (map (\<lambda>x. case g x of None \<Rightarrow> [] | Some y \<Rightarrow> f y) xs)"
  by (induction xs) (auto simp: List.map_filter_simps split: option.split)

lemma mset_concat_sum: "mset (concat (map f (enumerate m xs))) = (\<Sum>k = 0..<length xs. mset (f (m + k, xs ! k)))"
proof (induction xs arbitrary: m)
  case Nil
  then show ?case by simp
next
  case (Cons x xs)
  have "(\<Sum>k = 0..<length (x # xs). mset (f (m + k, (x # xs) ! k))) =
      mset (f (m, x)) + (\<Sum>k = 0..<length xs. mset (f (Suc m + k, xs ! k)))"
    by (simp only: length_Cons sum.atLeast0_lessThan_Suc_shift) simp
  with Cons.IH [of "Suc m"] show ?case by simp
qed

lemma build_slots_mset:
  assumes "offsets r \<noteq> []"
  shows "mset (concat (map slot_targets (build_slots now epoch r ts))) = mset ts"
proof -
  let ?n = "length (offsets r)"
  have n: "max ?n 1 = ?n" "0 < ?n" using assms by (cases "offsets r"; simp)+
  have "mset (concat (map slot_targets (build_slots now epoch r ts))) =
      mset (concat (map (\<lambda>(k, off). round_robin ?n k ts) (enumerate 0 (offsets r))))"
    unfolding build_slots_def Let_def concat_map_filter n(1)
    by (intro arg_cong [where f = mset] arg_cong [where f = concat] map_cong) auto
  also have "\<dots> = (\<Sum>k = 0..<?n. mset (round_robin ?n k ts))"
    by (simp add: mset_concat_sum)
  finally show ?thesis using round_robin_mset [OF n(2)] by simp
qed

lemma set_map_filter_iff: "y \<in> set (List.map_filter f xs) \<longleftrightarrow> (\<exists>x \<in> set xs. f x = Some y)"
  by (force simp: List.map_filter_def)

lemma build_slots_slot:
  "sl \<in> set (build_slots now epoch r ts) \<Longrightarrow> slot_targets sl \<noteq> [] \<and>
     (\<exists>off. slot_scheduler sl = new_time_slot_scheduler now (effective_period_ms r) off epoch False (Fin 0) None)"
  by (clarsimp simp: build_slots_def Let_def set_map_filter_iff split: if_splits) blast

lemma enumerate_mem: "(i, x) \<in> set (enumerate m xs) \<Longrightarrow> x \<in> set xs"
  by (auto simp: in_set_enumerate_eq)

section \<open>Properties\<close>

text \<open>
  A time-slot scheduler never drifts: whatever the clock, the seed and the coordinator's
  jitter, the next run lies within one period of a slot start that is the epoch plus the offset
  plus a whole number of periods, that start is in the future and at most one period (or the
  offset, if larger) ahead, and the run itself is never in the past.
\<close>

theorem time_slot_aligned:
  assumes "slot_params_ok now (sync_epoch_ms s) (time_slot_offset_ms s) (ts_period_ms s)"
  shows "\<exists>k j. \<bar>j\<bar> \<le> ts_period_ms s \<and>
      ts_next_run (ts_calculate_next_run now coord s)
        = max now (sync_epoch_ms s + time_slot_offset_ms s + k * ts_period_ms s + j) \<and>
      now < sync_epoch_ms s + time_slot_offset_ms s + k * ts_period_ms s \<and>
      sync_epoch_ms s + time_slot_offset_ms s + k * ts_period_ms s
        \<le> now + max (ts_period_ms s) (max (time_slot_offset_ms s) 0)"
proof -
  obtain j where "\<bar>j\<bar> \<le> ts_period_ms s" "ts_next_run (ts_calculate_next_run now coord s) =
      max now (base_next_run now (sync_epoch_ms s) (time_slot_offset_ms s) (ts_period_ms s) + j)"
    using assms by (rule ts_calculate_next_run_spec)
  moreover obtain k where "base_next_run now (sync_epoch_ms s) (time_slot_offset_ms s) (ts_period_ms s)
        = sync_epoch_ms s + time_slot_offset_ms s + k * ts_period_ms s"
    "now < base_next_run now (sync_epoch_ms s) (time_slot_offset_ms s) (ts_period_ms s)"
    "base_next_run now (sync_epoch_ms s) (time_slot_offset_ms s) (ts_period_ms s)
        \<le> now + max (ts_period_ms s) (max (time_slot_offset_ms s) 0)"
    using assms by (rule base_next_run_cases)
  ultimately show ?thesis by (metis (no_types, lifting))
qed

definition example_tss :: time_slot_scheduler where
  "example_tss =
     \<lparr>ts_period_ms = 60000, time_slot_offset_ms = 5000, sync_epoch_ms = 1000, jitter_percent = Fin 0,
      ts_last_run = None, ts_next_run = 0, ts_seed = 1\<rparr>"

theorem time_slot_aligned_witness:
  "\<exists>k j. \<bar>j\<bar> \<le> 60000 \<and>
     ts_next_run (ts_calculate_next_run 1000000 0 example_tss) = max 1000000 (6000 + k * 60000 + j) \<and>
     1000000 < 6000 + k * 60000 \<and> 6000 + k * 60000 \<le> 1060000"
  using time_slot_aligned [of 1000000 example_tss 0]
  by (simp add: example_tss_def slot_params_ok_def sched_bounds)

text \<open>
  No value on the wire can park or stall a time-slot scheduler: for any period, offset, epoch,
  jitter percentage and last run, the constructed scheduler has a positive period and its next run
  is at or after \<open>now\<close> and at most two maximal periods ahead.
\<close>

theorem time_slot_constructor_total:
  assumes "0 \<le> now" and "now \<le> 2 ^ 61"
    and "s = new_time_slot_scheduler now period offset epoch immediate pct last_run"
  shows "min_period_ms \<le> ts_period_ms s \<and> ts_period_ms s \<le> max_period_ms \<and>
    now \<le> ts_next_run s \<and> ts_next_run s \<le> now + 2 * max_period_ms"
proof -
  define s0 where "s0 = \<lparr>ts_period_ms = clamp min_period_ms max_period_ms period,
      time_slot_offset_ms = clamp (- max_period_ms) max_period_ms offset,
      sync_epoch_ms = (case epoch of None \<Rightarrow> now | Some e \<Rightarrow> clamp 0 max_epoch_ms e),
      jitter_percent = pct, ts_last_run = last_run, ts_next_run = 0,
      ts_seed = word_of_int now XOR
        (word_of_int (clamp (- max_period_ms) max_period_ms offset) * 0x2545F4914F6CDD1D) XOR 0x9E3779B97F4A7C15\<rparr>"
  have s: "s = (if immediate then s0\<lparr>ts_next_run := now\<rparr> else ts_calculate_next_run now 0 s0)"
    unfolding assms(3) new_time_slot_scheduler_def s0_def Let_def ..
  have ok: "slot_params_ok now (sync_epoch_ms s0) (time_slot_offset_ms s0) (ts_period_ms s0)"
    using constructor_params_ok [OF assms(1,2)] by (simp add: s0_def)
  have p: "min_period_ms \<le> ts_period_ms s0" "ts_period_ms s0 \<le> max_period_ms"
    and o: "time_slot_offset_ms s0 \<le> max_period_ms"
    by (auto simp: s0_def sched_bounds clamp_def)
  show ?thesis
  proof (cases immediate)
    case True
    with s p show ?thesis by (simp add: sched_bounds)
  next
    case False
    obtain j where "\<bar>j\<bar> \<le> ts_period_ms s0" "ts_next_run (ts_calculate_next_run now 0 s0) =
        max now (base_next_run now (sync_epoch_ms s0) (time_slot_offset_ms s0) (ts_period_ms s0) + j)"
      using ok by (rule ts_calculate_next_run_spec)
    moreover have "base_next_run now (sync_epoch_ms s0) (time_slot_offset_ms s0) (ts_period_ms s0)
        \<le> now + max (ts_period_ms s0) (max (time_slot_offset_ms s0) 0)"
      using ok by (rule base_next_run_cases)
    ultimately show ?thesis using False s p o by (auto simp: sched_bounds)
  qed
qed

theorem time_slot_constructor_total_witness:
  "1000 \<le> ts_next_run (new_time_slot_scheduler 1000 0 (- (2 ^ 63)) (Some (2 ^ 63 - 1)) False NaN None)"
  using time_slot_constructor_total [of 1000 _ 0 "- (2 ^ 63)" "Some (2 ^ 63 - 1)" False NaN None, OF _ _ refl]
  by simp

text \<open>
  Grouping distributes every assigned target to exactly one slot: the slots of all groups
  together hold the assigned targets as a multiset, each group holds the targets of its own
  period, the groups are in strictly ascending period order, and no slot is empty.
\<close>

theorem group_targets_partition:
  "mset (scheduled_targets (group_targets now ts global epoch tso)) = mset ts \<and>
   sorted_wrt (<) (map group_period (group_targets now ts global epoch tso)) \<and>
   (\<forall>g sl t. g \<in> set (group_targets now ts global epoch tso) \<and> sl \<in> set (slots g) \<longrightarrow>
      slot_targets sl \<noteq> [] \<and>
      (t \<in> set (slot_targets sl) \<longrightarrow> group_period g = unwrap_or global (check_period_ms t)))"
proof (intro conjI allI impI)
  let ?by = "group_by_period ts global"
  let ?grp = "\<lambda>(idx, period, pts). \<lparr>group_period = period,
      slots = build_slots now epoch (resolve_offsets tso period idx (length ?by)) pts\<rparr>"
  have g: "group_targets now ts global epoch tso = map ?grp (enumerate 0 ?by)"
    by (simp add: group_targets_def Let_def)
  have slots_mset: "mset (concat (map slot_targets (slots (?grp (i, p))))) = mset (snd p)" for i p
    by (cases p) (simp add: build_slots_mset [OF resolve_offsets_nonempty])
  have "mset (concat (map (\<lambda>x. concat (map slot_targets (slots (?grp x)))) (enumerate m xs))) = mset (concat (map snd xs))" for m xs
    by (induction xs arbitrary: m) (use slots_mset in auto)
  then show "mset (scheduled_targets (group_targets now ts global epoch tso)) = mset ts"
    by (simp add: scheduled_targets_def g comp_def group_by_period_mset)
  have "map group_period (map ?grp (enumerate m xs)) = map fst xs" for m xs
    by (induction xs arbitrary: m) auto
  then show "sorted_wrt (<) (map group_period (group_targets now ts global epoch tso))"
    by (simp only: g group_by_period_sorted)
  fix grp sl t
  assume a: "grp \<in> set (group_targets now ts global epoch tso) \<and> sl \<in> set (slots grp)"
  then obtain i p pts where i: "(i, p, pts) \<in> set (enumerate 0 ?by)" and grp: "grp = ?grp (i, p, pts)"
    by (auto simp: g)
  have mem: "(p, pts) \<in> set ?by" using i by (rule enumerate_mem)
  have sl: "sl \<in> set (build_slots now epoch (resolve_offsets tso p i (length ?by)) pts)"
    using a grp by simp
  show "slot_targets sl \<noteq> []"
    using build_slots_slot [OF sl] by simp
  assume t: "t \<in> set (slot_targets sl)"
  have "t \<in> set (concat (map slot_targets (build_slots now epoch (resolve_offsets tso p i (length ?by)) pts)))"
    using sl t by auto
  then have "t \<in> set pts"
    using build_slots_mset [OF resolve_offsets_nonempty] by (metis mset_eq_setD)
  with mem have "p = unwrap_or global (check_period_ms t)" by (rule group_by_period_period)
  then show "group_period grp = unwrap_or global (check_period_ms t)" by (simp add: grp)
qed

theorem group_targets_partition_witness:
  "mset (scheduled_targets (group_targets 0
      [plain_target 1 ''a'' None, plain_target 2 ''b'' (Some 90000)] 60000 None (JArr [JInt 0, JInt 30000])))
   = {#plain_target 1 ''a'' None, plain_target 2 ''b'' (Some 90000)#}"
  using group_targets_partition [of 0 "[plain_target 1 ''a'' None, plain_target 2 ''b'' (Some 90000)]"
      60000 None "JArr [JInt 0, JInt 30000]"] by simp

text \<open>
  No agent checks a site faster than the anti-detection floor: every slot of every group runs
  on a scheduler whose period is at least 60 seconds, whatever the coordinator's periods say.
\<close>

theorem group_targets_floor:
  assumes "g \<in> set (group_targets now ts global epoch tso)" and "sl \<in> set (slots g)"
  shows "min_check_interval_ms \<le> ts_period_ms (slot_scheduler sl)"
proof -
  obtain r :: resolved and off where s: "slot_scheduler sl = new_time_slot_scheduler now (effective_period_ms r) off epoch False (Fin 0) None"
    and r: "min_check_interval_ms \<le> effective_period_ms r"
  proof -
    obtain i p pts where "g = \<lparr>group_period = p,
        slots = build_slots now epoch (resolve_offsets tso p i (length (group_by_period ts global))) pts\<rparr>"
      using assms(1) by (auto simp: group_targets_def Let_def)
    with assms(2) have "sl \<in> set (build_slots now epoch (resolve_offsets tso p i (length (group_by_period ts global))) pts)"
      by simp
    from build_slots_slot [OF this] obtain off where
      "slot_scheduler sl = new_time_slot_scheduler now
         (effective_period_ms (resolve_offsets tso p i (length (group_by_period ts global)))) off epoch False (Fin 0) None"
      by blast
    then show thesis by (rule that) (rule resolve_period_floor)
  qed
  show ?thesis unfolding s using r by (auto simp: sched_bounds min_check_interval_ms_def clamp_def)
qed

theorem group_targets_floor_witness:
  "\<exists>g sl. g \<in> set (group_targets 0 [plain_target 1 ''a'' (Some 1000)] 60000 None JNull) \<and>
     sl \<in> set (slots g) \<and> 60000 \<le> ts_period_ms (slot_scheduler sl)"
proof -
  let ?gs = "group_targets 0 [plain_target 1 ''a'' (Some 1000)] 60000 None JNull"
  have "scheduled_targets ?gs \<noteq> []"
    using group_targets_partition [of 0 "[plain_target 1 ''a'' (Some 1000)]" 60000 None JNull]
    by (metis list.discI mset.simps(1) mset_zero_iff)
  then obtain g sl where "g \<in> set ?gs" "sl \<in> set (slots g)"
    by (auto simp: scheduled_targets_def)
  moreover from group_targets_floor [OF this] have "60000 \<le> ts_period_ms (slot_scheduler sl)"
    by (simp add: min_check_interval_ms_def)
  ultimately show ?thesis by blast
qed

end
