(* ===== verification/MonUpdates.thy ===== *)
theory MonUpdates
  imports TimeSlots
begin

text \<open>
  Live changes to the monitor's work: the versioned queue of incremental target updates
  (\<open>src/src/monitor/incremental.rs\<close>) and the scheduled workflows
  (\<open>src/src/monitor/workflow_scheduler.rs\<close>). Decoding a JSON target is derived code, a parameter
  \<open>parse\<close>. The clock is an argument, read once per operation.
\<close>

section \<open>Incremental updates\<close>

record incremental_update =
  version :: int
  changes :: "json list"
  full_rebuild_required :: bool

definition update_from_json :: "json \<Rightarrow> incremental_update option" where
  "update_from_json v =
     (case get_i64 ''version'' v of
        None \<Rightarrow> None
      | Some n \<Rightarrow>
          Some \<lparr>version = n, changes = unwrap_or [] (get_array ''changes'' v),
                full_rebuild_required = unwrap_or False (get_bool ''full_rebuild_required'' v)\<rparr>)"

datatype pending = Full_Rebuild incremental_update | Incremental incremental_update

record apply_result =
  needs_regroup :: bool
  full_rebuild :: bool
  changes_applied :: nat

record update_manager =
  pending_updates :: "pending list"
  current_version :: int
  highest_queued_version :: int

definition new_manager :: update_manager where
  "new_manager = \<lparr>pending_updates = [], current_version = 0, highest_queued_version = 0\<rparr>"

definition queue_update :: "incremental_update \<Rightarrow> update_manager \<Rightarrow> bool \<times> update_manager" where
  "queue_update u m =
     (if version u \<le> max (current_version m) (highest_queued_version m) then (False, m)
      else (True, m\<lparr>highest_queued_version := version u,
                    pending_updates := (if full_rebuild_required u then [Full_Rebuild u]
                                        else pending_updates m @ [Incremental u])\<rparr>))"

definition has_pending :: "update_manager \<Rightarrow> bool" where
  "has_pending m \<longleftrightarrow> pending_updates m \<noteq> []"

fun replace_first :: "('a \<Rightarrow> bool) \<Rightarrow> 'a \<Rightarrow> 'a list \<Rightarrow> 'a list option" where
  "replace_first P y [] = None"
| "replace_first P y (x # xs) = (if P x then Some (y # xs) else map_option (Cons x) (replace_first P y xs))"

definition apply_change :: "(json \<Rightarrow> target option) \<Rightarrow> json \<Rightarrow> target list \<Rightarrow> bool \<times> target list" where
  "apply_change parse change ts =
     (let op = unwrap_or '''' (get_str ''operation'' change);
          tid = get_i64 ''target_id'' change
      in if op = ''add'' then
           (case Option.bind (json_get ''target_data'' change) parse of
              Some t \<Rightarrow> (True, filter (\<lambda>x. target_id x \<noteq> target_id t \<or> target_url x \<noteq> target_url t) ts @ [t])
            | None \<Rightarrow> (False, ts))
         else if op = ''remove'' then
           (let ts' = (case tid of
                         Some i \<Rightarrow> filter (\<lambda>x. target_id x \<noteq> Some i) ts
                       | None \<Rightarrow>
                           (case Option.bind (json_get ''target_data'' change) (get_str ''url'') of
                              Some url \<Rightarrow> filter (\<lambda>x. target_url x \<noteq> url) ts
                            | None \<Rightarrow> ts))
            in (length ts' \<noteq> length ts, ts'))
         else if op = ''modify'' then
           (case Option.bind (json_get ''target_data'' change) parse of
              Some t \<Rightarrow>
                (case replace_first (\<lambda>x. (tid \<noteq> None \<and> target_id x = tid) \<or> target_url x = target_url t) t ts of
                   Some ts' \<Rightarrow> (True, ts')
                 | None \<Rightarrow> (True, ts @ [t]))
            | None \<Rightarrow> (False, ts))
         else (False, ts))"

definition count_change ::
    "(json \<Rightarrow> target option) \<Rightarrow> target list \<times> apply_result \<Rightarrow> json \<Rightarrow> target list \<times> apply_result" where
  "count_change parse st c =
     (let (ok, ts) = apply_change parse c (fst st); r = snd st
      in (ts, if ok then r\<lparr>changes_applied := changes_applied r + 1, needs_regroup := True\<rparr> else r))"

text \<open>The draining loop: the manager's version, the targets and the result so far.\<close>

fun apply_loop ::
    "(json \<Rightarrow> target option) \<Rightarrow> pending list \<Rightarrow> int \<Rightarrow> target list \<times> apply_result \<Rightarrow> int \<times> target list \<times> apply_result" where
  "apply_loop parse [] v st = (v, st)"
| "apply_loop parse (Full_Rebuild u # ps) v st =
     (max (version u) v, fst st, (snd st)\<lparr>full_rebuild := True, needs_regroup := True\<rparr>)"
| "apply_loop parse (Incremental u # ps) v st =
     apply_loop parse ps (max (version u) v) (foldl (count_change parse) st (changes u))"

definition no_result :: apply_result where
  "no_result = \<lparr>needs_regroup = False, full_rebuild = False, changes_applied = 0\<rparr>"

definition apply_updates ::
    "(json \<Rightarrow> target option) \<Rightarrow> update_manager \<Rightarrow> target list \<Rightarrow> apply_result \<times> update_manager \<times> target list" where
  "apply_updates parse m ts =
     (let (v, ts', r) = apply_loop parse (pending_updates m) (current_version m) (ts, no_result)
      in (r, m\<lparr>pending_updates := [], current_version := v\<rparr>, ts'))"

section \<open>Scheduled workflows\<close>

record workflow_entry =
  wf_scheduler :: time_slot_scheduler
  wf_interval_ms :: int
  wf_offset_ms :: int
  wf_data :: json

record workflow_scheduler =
  wf_epoch_ms :: int
  entries :: "(int \<times> workflow_entry) list"
  running :: "int set"

definition new_workflow_scheduler :: workflow_scheduler where
  "new_workflow_scheduler = \<lparr>wf_epoch_ms = 0, entries = [], running = {}\<rparr>"

definition wf_interval :: "json \<Rightarrow> int" where
  "wf_interval w = clamp min_period_ms max_period_ms (unwrap_or 60000 (get_i64 ''schedule_interval_ms'' w))"

definition wf_offset :: "json \<Rightarrow> int" where
  "wf_offset w = clamp (- max_period_ms) max_period_ms (unwrap_or 0 (get_i64 ''time_slot_offset_ms'' w))"

definition update_workflow ::
    "int \<Rightarrow> int \<Rightarrow> (int \<times> workflow_entry) list \<Rightarrow> json \<Rightarrow> (int \<times> workflow_entry) list" where
  "update_workflow now epoch es w =
     (case get_i64 ''id'' w of
        None \<Rightarrow> es
      | Some i \<Rightarrow>
          (let fresh = \<lparr>wf_scheduler = new_time_slot_scheduler now (wf_interval w) (wf_offset w) (Some epoch) False (Fin 0) None,
                        wf_interval_ms = wf_interval w, wf_offset_ms = wf_offset w, wf_data = w\<rparr>
           in case map_of es i of
                Some e \<Rightarrow>
                  if wf_interval_ms e = wf_interval w \<and> wf_offset_ms e = wf_offset w
                  then AList.update i (e\<lparr>wf_data := w\<rparr>) es
                  else AList.update i fresh es
              | None \<Rightarrow> AList.update i fresh es))"

definition active_ids :: "json list \<Rightarrow> int set" where
  "active_ids wfs = set (List.map_filter (get_i64 ''id'') wfs)"

definition update_workflows :: "int \<Rightarrow> json list \<Rightarrow> int \<Rightarrow> workflow_scheduler \<Rightarrow> workflow_scheduler" where
  "update_workflows now wfs epoch0 s =
     (let epoch = clamp 0 max_epoch_ms epoch0
      in \<lparr>wf_epoch_ms = epoch,
          entries = filter (\<lambda>e. fst e \<in> active_ids wfs) (foldl (update_workflow now epoch) (entries s) wfs),
          running = running s \<inter> active_ids wfs\<rparr>)"

definition idle_entries :: "workflow_scheduler \<Rightarrow> (int \<times> workflow_entry) list" where
  "idle_entries s = filter (\<lambda>e. fst e \<notin> running s) (entries s)"

definition next_due_in_ms :: "int \<Rightarrow> workflow_scheduler \<Rightarrow> int" where
  "next_due_in_ms now s =
     (let ds = map (\<lambda>e. ts_time_until_next_run_ms now (wf_scheduler (snd e))) (idle_entries s)
      in if ds = [] then i64_max else Min (set ds))"

definition due :: "int \<Rightarrow> workflow_scheduler \<Rightarrow> int list" where
  "due now s = map fst (filter (\<lambda>e. fst e \<notin> running s \<and> ts_should_run now (wf_scheduler (snd e))) (entries s))"

definition workflow_data :: "int \<Rightarrow> workflow_scheduler \<Rightarrow> json option" where
  "workflow_data i s = map_option wf_data (map_of (entries s) i)"

definition mark_running :: "int \<Rightarrow> workflow_scheduler \<Rightarrow> workflow_scheduler" where
  "mark_running i s = s\<lparr>running := insert i (running s)\<rparr>"

definition wf_mark_completed :: "int \<Rightarrow> int \<Rightarrow> workflow_scheduler \<Rightarrow> workflow_scheduler" where
  "wf_mark_completed now i s =
     s\<lparr>running := running s - {i},
       entries := (case map_of (entries s) i of
                     Some e \<Rightarrow> AList.update i (e\<lparr>wf_scheduler := ts_mark_completed now 0 (wf_scheduler e)\<rparr>) (entries s)
                   | None \<Rightarrow> entries s)\<rparr>"

section \<open>Updates are applied in version order\<close>

fun pending_version :: "pending \<Rightarrow> int" where
  "pending_version (Full_Rebuild u) = version u"
| "pending_version (Incremental u) = version u"

text \<open>The versions one drain applies: up to and including a full rebuild.\<close>

fun drained :: "pending list \<Rightarrow> int list" where
  "drained [] = []"
| "drained (Full_Rebuild u # ps) = [version u]"
| "drained (Incremental u # ps) = version u # drained ps"

record update_run =
  manager :: update_manager
  live_targets :: "target list"
  applied :: "int list"

inductive update_step :: "(json \<Rightarrow> target option) \<Rightarrow> update_run \<Rightarrow> update_run \<Rightarrow> bool"
  for parse :: "json \<Rightarrow> target option" where
  step_queue: "queue_update u (manager w) = (b, m) \<Longrightarrow> update_step parse w (w\<lparr>manager := m\<rparr>)"
| step_apply: "apply_updates parse (manager w) (live_targets w) = (r, m, ts) \<Longrightarrow>
    update_step parse w (w\<lparr>manager := m, live_targets := ts, applied := applied w @ drained (pending_updates (manager w))\<rparr>)"

definition update_init :: "update_run \<Rightarrow> bool" where
  "update_init w \<longleftrightarrow> (\<exists>ts. w = \<lparr>manager = new_manager, live_targets = ts, applied = []\<rparr>)"

definition update_inv :: "update_run \<Rightarrow> bool" where
  "update_inv w \<longleftrightarrow>
     (let m = manager w; vs = applied w @ map pending_version (pending_updates m)
      in sorted_wrt (<) vs \<and> (\<forall>v \<in> set vs. 0 < v \<and> v \<le> highest_queued_version m) \<and>
         current_version m = (if applied w = [] then 0 else last (applied w)) \<and> 0 \<le> highest_queued_version m)"

lemma drained_prefix: "\<exists>rest. map pending_version ps = drained ps @ rest"
  by (induction ps rule: drained.induct) auto

lemma drained_Nil [simp]: "drained ps = [] \<longleftrightarrow> ps = []"
  by (cases ps rule: drained.cases) auto

lemma apply_loop_version:
  "fst (apply_loop parse ps v st) = foldl max v (drained ps)"
  by (induction parse ps v st rule: apply_loop.induct) (simp_all add: max.commute)

lemma foldl_max_sorted:
  "sorted_wrt (<) vs \<Longrightarrow> (\<forall>x \<in> set vs. v < x) \<Longrightarrow> foldl max v vs = (if vs = [] then v else last (vs :: int list))"
  by (induction vs arbitrary: v) auto

lemma apply_updates_manager:
  "apply_updates parse m ts = (r, m', ts') \<Longrightarrow>
     m' = m\<lparr>pending_updates := [], current_version := foldl max (current_version m) (drained (pending_updates m))\<rparr>"
  using apply_loop_version [of parse "pending_updates m" "current_version m" "(ts, no_result)"]
  by (auto simp: apply_updates_def split: prod.splits)

lemma queue_update_inv:
  assumes "update_inv w" "queue_update u (manager w) = (b, m)"
  shows "update_inv (w\<lparr>manager := m\<rparr>)"
proof (cases "version u \<le> max (current_version (manager w)) (highest_queued_version (manager w))")
  case True
  then have "m = manager w" using assms(2) by (simp add: queue_update_def)
  then show ?thesis using assms(1) by (simp add: update_inv_def)
next
  case False
  let ?m = "manager w"
  have m: "m = ?m\<lparr>highest_queued_version := version u,
      pending_updates := (if full_rebuild_required u then [Full_Rebuild u] else pending_updates ?m @ [Incremental u])\<rparr>"
    using False assms(2) by (simp add: queue_update_def)
  have i: "sorted_wrt (<) (applied w @ map pending_version (pending_updates ?m))"
    "\<forall>v \<in> set (applied w @ map pending_version (pending_updates ?m)). 0 < v \<and> v \<le> highest_queued_version ?m"
    "current_version ?m = (if applied w = [] then 0 else last (applied w))" "0 \<le> highest_queued_version ?m"
    using assms(1) unfolding update_inv_def Let_def by blast+
  have lt: "v < version u" if "v \<in> set (applied w @ map pending_version (pending_updates ?m))" for v
    using i(2) that False by fastforce
  have p: "0 < version u" using False i(4) by linarith
  show ?thesis
    unfolding update_inv_def Let_def
  proof (intro conjI ballI)
    show "sorted_wrt (<) (applied (w\<lparr>manager := m\<rparr>) @ map pending_version (pending_updates (manager (w\<lparr>manager := m\<rparr>))))"
      using i(1) lt by (auto simp: m sorted_wrt_append)
    fix v assume "v \<in> set (applied (w\<lparr>manager := m\<rparr>) @ map pending_version (pending_updates (manager (w\<lparr>manager := m\<rparr>))))"
    then have "v = version u \<or> v \<in> set (applied w @ map pending_version (pending_updates ?m))"
      by (auto simp: m split: if_splits)
    then show "0 < v" "v \<le> highest_queued_version (manager (w\<lparr>manager := m\<rparr>))"
      using p i(2) lt by (auto simp: m less_imp_le)
  qed (use i(3) p in \<open>simp_all add: m\<close>)
qed

lemma update_step_inv:
  assumes "update_inv w" "update_step parse w w'"
  shows "update_inv w'"
  using assms(2)
proof cases
  case (step_queue u b m)
  then show ?thesis using queue_update_inv [OF assms(1)] by simp
next
  case (step_apply r m ts)
  let ?m = "manager w" and ?d = "drained (pending_updates (manager w))"
  note m = apply_updates_manager [OF step_apply(2)]
  obtain rest where rest: "map pending_version (pending_updates ?m) = ?d @ rest" using drained_prefix by blast
  have i: "sorted_wrt (<) (applied w @ ?d @ rest)"
    "\<forall>v \<in> set (applied w @ ?d @ rest). 0 < v \<and> v \<le> highest_queued_version ?m"
    "current_version ?m = (if applied w = [] then 0 else last (applied w))" "0 \<le> highest_queued_version ?m"
    using assms(1) unfolding update_inv_def Let_def rest by blast+
  have s: "sorted_wrt (<) ?d" using i(1) by (simp add: sorted_wrt_append)
  have gt: "\<forall>x \<in> set ?d. current_version ?m < x"
    using i by (auto simp: sorted_wrt_append split: if_splits)
  have c: "current_version m = (if ?d = [] then current_version ?m else last ?d)"
    unfolding m using foldl_max_sorted [OF s gt] by simp
  have "sorted_wrt (<) (applied w @ ?d)" using i(1) by (auto simp: sorted_wrt_append)
  then show ?thesis
    unfolding step_apply(1) update_inv_def Let_def using i c by (auto simp: m)
qed

lemma update_init_inv: "update_init w \<Longrightarrow> update_inv w"
  by (auto simp: update_init_def update_inv_def new_manager_def)

interpretation upd: invariant_system update_init "update_step parse" update_inv for parse
  by unfold_locales (blast intro: update_init_inv update_step_inv)+

text \<open>Target updates are applied in strictly increasing version order, each at most once, in
  whatever order and however often they arrive between drains; the manager's version is the newest
  applied one, and an update is accepted only if it is newer than all applied and queued ones.\<close>

theorem updates_in_version_order:
  assumes "reach update_init (update_step parse) w"
  shows "sorted_wrt (<) (applied w) \<and>
    current_version (manager w) = (if applied w = [] then 0 else last (applied w)) \<and>
    (fst (queue_update u (manager w)) \<longrightarrow>
       (\<forall>v \<in> set (applied w @ map pending_version (pending_updates (manager w))). v < version u))"
proof -
  have i: "update_inv w" by (rule upd.reach_inv [OF assms])
  have "v < version u" if "fst (queue_update u (manager w))"
    "v \<in> set (applied w @ map pending_version (pending_updates (manager w)))" for v
  proof -
    from that(1) have "highest_queued_version (manager w) < version u"
      by (simp add: queue_update_def split: if_splits)
    moreover have "v \<le> highest_queued_version (manager w)"
      using i that(2) by (simp only: update_inv_def Let_def)
    ultimately show ?thesis by linarith
  qed
  then show ?thesis
    using i by (auto simp: update_inv_def Let_def sorted_wrt_append)
qed

theorem updates_in_version_order_witness:
  "current_version (manager \<lparr>manager = new_manager, live_targets = [], applied = []\<rparr>) = 0"
proof -
  have "reach update_init (update_step (\<lambda>_. None)) \<lparr>manager = new_manager, live_targets = [], applied = []\<rparr>"
    by (rule reach_init) (auto simp: update_init_def)
  from updates_in_version_order [OF this] show ?thesis by simp
qed

section \<open>A drain reports every change\<close>

lemma replace_first_None: "replace_first P y xs = None \<longleftrightarrow> (\<forall>x \<in> set xs. \<not> P x)"
  by (induction xs) auto

lemma length_filter_same: "length (filter P xs) = length xs \<Longrightarrow> filter P xs = xs"
  by (metis filter_id_conv length_filter_less nat_neq_iff)

lemma apply_change_False: "fst (apply_change parse c ts) = False \<Longrightarrow> snd (apply_change parse c ts) = ts"
  by (auto simp: apply_change_def Let_def length_filter_same split: if_splits option.splits)

definition result_consistent :: "target list \<Rightarrow> target list \<times> apply_result \<Rightarrow> bool" where
  "result_consistent ts0 st \<longleftrightarrow>
     (needs_regroup (snd st) \<longleftrightarrow> full_rebuild (snd st) \<or> 0 < changes_applied (snd st)) \<and>
     (\<not> needs_regroup (snd st) \<longrightarrow> fst st = ts0)"

lemma count_changes_consistent:
  "result_consistent ts0 st \<Longrightarrow> result_consistent ts0 (foldl (count_change parse) st cs)"
proof (induction cs arbitrary: st)
  case (Cons c cs)
  have "result_consistent ts0 (count_change parse st c)"
    using Cons.prems apply_change_False [of parse c "fst st"]
    by (auto simp: count_change_def result_consistent_def Let_def split: prod.splits)
  then show ?case using Cons.IH by simp
qed simp

lemma apply_loop_consistent:
  "result_consistent ts0 st \<Longrightarrow> result_consistent ts0 (snd (apply_loop parse ps v st))"
proof (induction parse ps v st rule: apply_loop.induct)
  case (2 parse u ps v st)
  then show ?case by (simp add: result_consistent_def)
next
  case (3 parse u ps v st)
  then show ?case by (simp add: count_changes_consistent)
qed simp

text \<open>A drain empties the queue and reports every change: a regroup is requested exactly when a
  full rebuild was asked for or some change applied, and without that request the targets are the
  ones before.\<close>

theorem drain_reports_changes:
  assumes "apply_updates parse m ts = (r, m', ts')"
  shows "\<not> has_pending m' \<and> (needs_regroup r \<longleftrightarrow> full_rebuild r \<or> 0 < changes_applied r) \<and>
    (\<not> needs_regroup r \<longrightarrow> ts' = ts)"
proof -
  obtain v where l: "apply_loop parse (pending_updates m) (current_version m) (ts, no_result) = (v, ts', r)"
    and m: "m' = m\<lparr>pending_updates := [], current_version := v\<rparr>"
    using assms by (auto simp: apply_updates_def split: prod.splits)
  have "result_consistent ts (ts, no_result)" by (simp add: result_consistent_def no_result_def)
  from apply_loop_consistent [OF this, of parse "pending_updates m" "current_version m"] show ?thesis
    by (simp add: l m result_consistent_def has_pending_def)
qed

theorem drain_reports_changes_witness:
  "\<exists>r m'. apply_updates (\<lambda>_. None) new_manager [] = (r, m', []) \<and> \<not> needs_regroup r"
proof -
  have "apply_updates (\<lambda>_. None) new_manager [] = (no_result, new_manager, [])"
    by (simp add: apply_updates_def new_manager_def)
  moreover from drain_reports_changes [OF this] have "\<not> needs_regroup no_result" by (simp add: no_result_def)
  ultimately show ?thesis by blast
qed

text \<open>An "add" replaces a target only when both its id and its URL agree: one with the same id and
  another URL stays beside the new one.\<close>

lemma add_keeps_same_id:
  assumes "parse (JStr ''d'') = Some t'" "target_id t' = target_id t" "target_url t' \<noteq> target_url t"
  shows "snd (apply_change parse (JObj [(''operation'', JStr ''add''), (''target_data'', JStr ''d'')]) [t]) = [t, t']"
  using assms by (simp add: apply_change_def get_str_def)

section \<open>Reconciling scheduled workflows\<close>

definition workflow_inv :: "workflow_scheduler \<Rightarrow> bool" where
  "workflow_inv s \<longleftrightarrow>
     distinct (map fst (entries s)) \<and>
     (\<forall>(i, e) \<in> set (entries s). min_period_ms \<le> wf_interval_ms e \<and> wf_interval_ms e \<le> max_period_ms \<and>
        ts_period_ms (wf_scheduler e) = wf_interval_ms e)"

lemma ts_calculate_period [simp]: "ts_period_ms (ts_calculate_next_run now c s) = ts_period_ms s"
  by (auto simp: ts_calculate_next_run_def next_signed_jitter_def Let_def split: prod.splits if_splits)

lemma new_tss_period: "ts_period_ms (new_time_slot_scheduler now p o' e im pct lr) = clamp min_period_ms max_period_ms p"
  by (simp add: new_time_slot_scheduler_def Let_def)

lemma min_le_max_period: "min_period_ms \<le> max_period_ms"
  by (simp add: sched_bounds)

lemma wf_interval_bounds: "min_period_ms \<le> wf_interval w" "wf_interval w \<le> max_period_ms"
  using min_le_max_period by (simp_all add: wf_interval_def)

definition entry_ok :: "workflow_entry \<Rightarrow> bool" where
  "entry_ok e \<longleftrightarrow> min_period_ms \<le> wf_interval_ms e \<and> wf_interval_ms e \<le> max_period_ms \<and>
     ts_period_ms (wf_scheduler e) = wf_interval_ms e"

lemma workflow_inv_map_of:
  "workflow_inv s \<longleftrightarrow> distinct (map fst (entries s)) \<and> (\<forall>i e. map_of (entries s) i = Some e \<longrightarrow> entry_ok e)"
  by (auto simp: workflow_inv_def entry_ok_def dest: map_of_SomeD)

lemma update_workflow_keys:
  "distinct (map fst es) \<Longrightarrow> distinct (map fst (update_workflow now ep es w))"
  by (auto simp: update_workflow_def Let_def distinct_update split: option.split)

lemma update_workflow_dom:
  "dom (map_of (update_workflow now ep es w)) = dom (map_of es) \<union> set_option (get_i64 ''id'' w)"
  by (auto simp: update_workflow_def Let_def update_conv' split: option.split if_splits)

lemma update_workflow_ok:
  assumes "\<forall>i e. map_of es i = Some e \<longrightarrow> entry_ok e"
  shows "\<forall>i e. map_of (update_workflow now ep es w) i = Some e \<longrightarrow> entry_ok e"
proof -
  have "entry_ok \<lparr>wf_scheduler = new_time_slot_scheduler now (wf_interval w) (wf_offset w) (Some ep) False (Fin 0) None,
      wf_interval_ms = wf_interval w, wf_offset_ms = wf_offset w, wf_data = w\<rparr>"
    by (simp add: entry_ok_def new_tss_period wf_interval_bounds)
  moreover have "entry_ok (e\<lparr>wf_data := w\<rparr>) = entry_ok e" for e by (simp add: entry_ok_def)
  ultimately show ?thesis
    using assms by (auto simp: update_workflow_def Let_def update_conv' split: option.splits if_splits)
qed

definition same_schedule :: "workflow_entry \<Rightarrow> json \<Rightarrow> bool" where
  "same_schedule e w \<longleftrightarrow> wf_interval_ms e = wf_interval w \<and> wf_offset_ms e = wf_offset w"

text \<open>An entry the frame leaves unchanged keeps its scheduler through the whole frame.\<close>

lemma update_workflow_keeps:
  assumes "map_of es i = Some e" "get_i64 ''id'' w = Some i \<Longrightarrow> same_schedule e w"
  shows "\<exists>d. map_of (update_workflow now ep es w) i = Some (e\<lparr>wf_data := d\<rparr>)"
proof (cases "get_i64 ''id'' w = Some i")
  case True
  then show ?thesis using assms by (auto simp: update_workflow_def same_schedule_def update_conv')
next
  case False
  then have "map_of (update_workflow now ep es w) i = Some (e\<lparr>wf_data := wf_data e\<rparr>)"
    using assms(1) by (auto simp: update_workflow_def Let_def update_conv' split: option.split)
  then show ?thesis ..
qed

lemma update_workflows_fold:
  "distinct (map fst es) \<Longrightarrow> distinct (map fst (foldl (update_workflow now ep) es ws))"
  "dom (map_of (foldl (update_workflow now ep) es ws)) = dom (map_of es) \<union> active_ids ws"
  "(\<forall>i e. map_of es i = Some e \<longrightarrow> entry_ok e) \<Longrightarrow>
     \<forall>i e. map_of (foldl (update_workflow now ep) es ws) i = Some e \<longrightarrow> entry_ok e"
proof (induction ws arbitrary: es)
  case (Cons w ws)
  {
    case 1
    then show ?case using Cons(1) [OF update_workflow_keys] by simp
  next
    case 2
    have "active_ids (w # ws) = set_option (get_i64 ''id'' w) \<union> active_ids ws"
      by (auto simp: active_ids_def map_filter_simps split: option.split)
    then show ?case by (simp add: Cons(2) update_workflow_dom Un_assoc)
  next
    case 3
    then show ?case using Cons(3) [OF update_workflow_ok] by simp
  }
qed (simp_all add: active_ids_def map_filter_simps)

lemma update_workflows_keeps:
  assumes "map_of es i = Some e" "\<And>w. w \<in> set ws \<Longrightarrow> get_i64 ''id'' w = Some i \<Longrightarrow> same_schedule e w"
  shows "\<exists>d. map_of (foldl (update_workflow now ep) es ws) i = Some (e\<lparr>wf_data := d\<rparr>)"
  using assms
proof (induction ws arbitrary: es e)
  case Nil
  then have "map_of (foldl (update_workflow now ep) es []) i = Some (e\<lparr>wf_data := wf_data e\<rparr>)" by simp
  then show ?case ..
next
  case (Cons w ws)
  obtain d where d: "map_of (update_workflow now ep es w) i = Some (e\<lparr>wf_data := d\<rparr>)"
    using update_workflow_keeps [OF Cons.prems(1)] Cons.prems(2) by fastforce
  have "\<exists>d'. map_of (foldl (update_workflow now ep) (update_workflow now ep es w) ws) i = Some (e\<lparr>wf_data := d\<rparr>\<lparr>wf_data := d'\<rparr>)"
    by (rule Cons.IH [OF d]) (use Cons.prems(2) in \<open>auto simp: same_schedule_def\<close>)
  then show ?case by simp
qed

lemma map_of_filter_fst: "map_of (filter (\<lambda>e. fst e \<in> A) es) = map_of es |` A"
  by (induction es) (auto simp: restrict_map_def)

lemma mark_completed_inv: "workflow_inv s \<Longrightarrow> workflow_inv (wf_mark_completed now i s)"
  by (auto simp: workflow_inv_map_of wf_mark_completed_def distinct_update update_conv' entry_ok_def
      ts_mark_completed_def simp del: map_of_eq_Some_iff split: option.splits if_splits)

text \<open>An assignment frame leaves exactly its own workflows scheduled, at intervals within the
  floor and ceiling, forgets the running marks of the others, and does not disturb the timing of a
  workflow whose interval and offset are unchanged, so a repeated frame cannot delay a run.\<close>

theorem workflows_reconciled:
  assumes "workflow_inv s"
  shows "workflow_inv (update_workflows now ws epoch s) \<and>
    fst ` set (entries (update_workflows now ws epoch s)) = active_ids ws \<and>
    running (update_workflows now ws epoch s) = running s \<inter> active_ids ws \<and>
    (\<forall>i e. i \<in> active_ids ws \<and> map_of (entries s) i = Some e \<and>
       (\<forall>w \<in> set ws. get_i64 ''id'' w = Some i \<longrightarrow> same_schedule e w) \<longrightarrow>
       (\<exists>d. map_of (entries (update_workflows now ws epoch s)) i = Some (e\<lparr>wf_data := d\<rparr>)))"
proof -
  define ep where "ep = clamp 0 max_epoch_ms epoch"
  define es where "es = foldl (update_workflow now ep) (entries s) ws"
  have s': "entries (update_workflows now ws epoch s) = filter (\<lambda>e. fst e \<in> active_ids ws) es"
    "running (update_workflows now ws epoch s) = running s \<inter> active_ids ws"
    by (simp_all add: update_workflows_def es_def ep_def Let_def)
  have a: "distinct (map fst (entries s))" "\<forall>i e. map_of (entries s) i = Some e \<longrightarrow> entry_ok e"
    using assms unfolding workflow_inv_map_of by blast+
  have d: "distinct (map fst es)" "dom (map_of es) = dom (map_of (entries s)) \<union> active_ids ws"
    "\<forall>i e. map_of es i = Some e \<longrightarrow> entry_ok e"
    unfolding es_def
    using update_workflows_fold(1) [OF a(1)] update_workflows_fold(2) update_workflows_fold(3) [OF a(2)] by blast+
  have "workflow_inv (update_workflows now ws epoch s)"
    unfolding workflow_inv_map_of s' map_of_filter_fst
    using d(1,3) by (auto simp: distinct_map_filter restrict_map_def split: if_splits)
  moreover have "fst ` set (filter (\<lambda>e. fst e \<in> active_ids ws) es) = active_ids ws"
    using d(2) by (auto simp: dom_map_of_conv_image_fst image_iff)
  moreover have "\<exists>d. map_of (filter (\<lambda>e. fst e \<in> active_ids ws) es) i = Some (e\<lparr>wf_data := d\<rparr>)"
    if "i \<in> active_ids ws" "map_of (entries s) i = Some e"
      "\<forall>w \<in> set ws. get_i64 ''id'' w = Some i \<longrightarrow> same_schedule e w" for i e
    unfolding map_of_filter_fst es_def
    using update_workflows_keeps [OF that(2), of ws now ep] that(1,3) by simp
  ultimately show ?thesis unfolding s' by blast
qed

theorem workflows_reconciled_witness:
  "fst ` set (entries (update_workflows 0 [JObj [(''id'', JInt 7)]] 0 new_workflow_scheduler)) = {7}"
proof -
  have "workflow_inv new_workflow_scheduler" by (simp add: workflow_inv_def new_workflow_scheduler_def)
  moreover have "active_ids [JObj [(''id'', JInt 7)]] = {7}"
    by (simp add: active_ids_def map_filter_simps get_i64_def i64_bounds)
  ultimately show ?thesis using workflows_reconciled [of new_workflow_scheduler 0 "[JObj [(''id'', JInt 7)]]" 0] by simp
qed

lemma due_not_running: "i \<in> set (due now s) \<Longrightarrow> i \<notin> running s"
  by (auto simp: due_def)

lemma due_after_mark: "set (due now (mark_running i s)) = set (due now s) - {i}"
  by (auto simp: due_def mark_running_def)

end
