(* ===== verification/NetAddr.thy ===== *)
theory NetAddr
  imports Prelude
begin

unbundle bit_operations_syntax

text \<open>
  IP addresses as the standard library has them (\<open>std::net::IpAddr\<close>): an IPv4 address is a 32-bit
  word, an IPv6 address a 128-bit word, with the predicates and the textual parser of the library
  that the URL guard uses. Nothing here is code of the repository, so nothing here is mapped.
\<close>

datatype ip_addr = V4 "32 word" | V6 "128 word"

section \<open>Octets and segments\<close>

definition octet :: "nat \<Rightarrow> 32 word \<Rightarrow> nat" where
  "octet i a = unat a div 256 ^ (3 - i) mod 256"

definition segment :: "nat \<Rightarrow> 128 word \<Rightarrow> 16 word" where
  "segment i a = ucast (drop_bit (16 * (7 - i)) a)"

definition v4_of :: "nat \<Rightarrow> nat \<Rightarrow> nat \<Rightarrow> nat \<Rightarrow> 32 word" where
  "v4_of a b c d = of_nat (((a * 256 + b) * 256 + c) * 256 + d)"

definition v6_of :: "nat list \<Rightarrow> 128 word" where
  "v6_of segs = of_nat (foldl (\<lambda>n s. n * 65536 + s) 0 segs)"

section \<open>Classification\<close>

definition v4_loopback :: "32 word \<Rightarrow> bool" where
  "v4_loopback a \<longleftrightarrow> octet 0 a = 127"

definition v4_multicast :: "32 word \<Rightarrow> bool" where
  "v4_multicast a \<longleftrightarrow> 224 \<le> octet 0 a \<and> octet 0 a \<le> 239"

definition v4_private :: "32 word \<Rightarrow> bool" where
  "v4_private a \<longleftrightarrow>
     octet 0 a = 10 \<or> (octet 0 a = 172 \<and> 16 \<le> octet 1 a \<and> octet 1 a \<le> 31) \<or>
     (octet 0 a = 192 \<and> octet 1 a = 168)"

definition v4_link_local :: "32 word \<Rightarrow> bool" where
  "v4_link_local a \<longleftrightarrow> octet 0 a = 169 \<and> octet 1 a = 254"

definition ip_loopback :: "ip_addr \<Rightarrow> bool" where
  "ip_loopback ip = (case ip of V4 a \<Rightarrow> v4_loopback a | V6 a \<Rightarrow> a = 1)"

definition ip_multicast :: "ip_addr \<Rightarrow> bool" where
  "ip_multicast ip = (case ip of V4 a \<Rightarrow> v4_multicast a | V6 a \<Rightarrow> drop_bit 120 a = 255)"

definition ip_unspecified :: "ip_addr \<Rightarrow> bool" where
  "ip_unspecified ip = (case ip of V4 a \<Rightarrow> a = 0 | V6 a \<Rightarrow> a = 0)"

text \<open>\<open>Ipv6Addr::to_ipv4_mapped\<close>: \<open>::ffff:a.b.c.d\<close>.\<close>

definition to_ipv4_mapped :: "128 word \<Rightarrow> 32 word option" where
  "to_ipv4_mapped a = (if drop_bit 32 a = 0xffff then Some (ucast a) else None)"

section \<open>Textual addresses\<close>

text \<open>
  The recursive-descent parser of \<open>core::net::parser\<close>: a reader consumes a prefix of its input or
  fails; \<open>read_number\<close> fails on overflow of \<open>mx\<close>, on more than \<open>digits\<close> digits and, where leading
  zeros are refused, on them.
\<close>

definition hex_value :: "char \<Rightarrow> nat option" where
  "hex_value c =
     (let n = of_char c :: nat in
      if 48 \<le> n \<and> n \<le> 57 then Some (n - 48)
      else if 97 \<le> n \<and> n \<le> 102 then Some (n - 87)
      else if 65 \<le> n \<and> n \<le> 70 then Some (n - 55) else None)"

definition digit_value :: "nat \<Rightarrow> char \<Rightarrow> nat option" where
  "digit_value radix c = (case hex_value c of Some d \<Rightarrow> if d < radix then Some d else None | None \<Rightarrow> None)"

fun read_digits :: "nat \<Rightarrow> nat \<Rightarrow> nat \<Rightarrow> nat \<Rightarrow> nat \<Rightarrow> string \<Rightarrow> (nat \<times> nat \<times> string) option" where
  "read_digits radix digits mx count acc [] = Some (count, acc, [])"
| "read_digits radix digits mx count acc (c # r) =
     (case digit_value radix c of
        None \<Rightarrow> Some (count, acc, c # r)
      | Some d \<Rightarrow>
          if mx < acc * radix + d \<or> digits < count + 1 then None
          else read_digits radix digits mx (count + 1) (acc * radix + d) r)"

definition read_number :: "nat \<Rightarrow> nat \<Rightarrow> nat \<Rightarrow> bool \<Rightarrow> string \<Rightarrow> (nat \<times> string) option" where
  "read_number radix digits mx allow_zero s =
     (case read_digits radix digits mx 0 0 s of
        None \<Rightarrow> None
      | Some (count, v, r) \<Rightarrow>
          if count = 0 then None
          else if \<not> allow_zero \<and> take 1 s = ''0'' \<and> 1 < count then None
          else Some (v, r))"

definition read_char :: "char \<Rightarrow> string \<Rightarrow> string option" where
  "read_char c s = (case s of x # r \<Rightarrow> if x = c then Some r else None | [] \<Rightarrow> None)"

definition read_separator :: "char \<Rightarrow> nat \<Rightarrow> string \<Rightarrow> string option" where
  "read_separator sep i s = (if 0 < i then read_char sep s else Some s)"

fun read_v4_octets :: "nat \<Rightarrow> nat \<Rightarrow> string \<Rightarrow> (nat list \<times> string) option" where
  "read_v4_octets i 0 s = Some ([], s)"
| "read_v4_octets i (Suc n) s =
     Option.bind (read_separator CHR ''.'' i s) (\<lambda>s1.
     Option.bind (read_number 10 3 255 False s1) (\<lambda>(v, s2).
     map_option (\<lambda>(vs, s3). (v # vs, s3)) (read_v4_octets (Suc i) n s2)))"

definition read_v4 :: "string \<Rightarrow> (nat list \<times> string) option" where
  "read_v4 s = read_v4_octets 0 4 s"

text \<open>\<open>read_groups\<close> with \<open>limit\<close> groups left, the flag saying that an embedded IPv4 ended the run.\<close>

fun read_groups :: "nat \<Rightarrow> nat \<Rightarrow> string \<Rightarrow> nat list \<times> bool \<times> string" where
  "read_groups i 0 s = ([], False, s)"
| "read_groups i (Suc n) s =
     (let v4 = (if 0 < n then Option.bind (read_separator CHR '':'' i s) read_v4 else None)
      in case v4 of
           Some (os, r) \<Rightarrow> ([os ! 0 * 256 + os ! 1, os ! 2 * 256 + os ! 3], True, r)
         | None \<Rightarrow>
             (case Option.bind (read_separator CHR '':'' i s) (read_number 16 4 65535 True) of
                None \<Rightarrow> ([], False, s)
              | Some (g, r) \<Rightarrow> (let (gs, b, r') = read_groups (Suc i) n r in (g # gs, b, r'))))"

definition read_v6 :: "string \<Rightarrow> (nat list \<times> string) option" where
  "read_v6 s =
     (let (head, v4, r) = read_groups 0 8 s in
      if length head = 8 then Some (head, r)
      else if v4 then None
      else Option.bind (read_char CHR '':'' r) (\<lambda>r1.
           map_option (\<lambda>r2.
             (let (tail, _, r3) = read_groups 0 (7 - length head) r2
              in (head @ replicate (8 - length head - length tail) 0 @ tail, r3)))
           (read_char CHR '':'' r1)))"

definition parse_ip_addr :: "string \<Rightarrow> ip_addr option" where
  "parse_ip_addr s =
     (case read_v4 s of
        Some (os, r) \<Rightarrow> if r = [] then Some (V4 (v4_of (os ! 0) (os ! 1) (os ! 2) (os ! 3))) else None
      | None \<Rightarrow>
          (case read_v6 s of
             Some (gs, r) \<Rightarrow> if r = [] then Some (V6 (v6_of gs)) else None
           | None \<Rightarrow> None))"

lemmas parser_numerals =
  read_groups.simps(2) [where n = "pred_numeral k" for k, folded numeral_eq_Suc]
  read_v4_octets.simps(2) [where n = "pred_numeral k" for k, folded numeral_eq_Suc]

lemma foldl_zeros [simp]: "foldl (\<lambda>n s. n * 65536 + s) 0 (replicate k (0::nat)) = 0"
  by (induction k) auto

lemmas parse_ip_defs =
  parse_ip_addr_def read_v4_def read_v6_def read_separator_def read_char_def read_number_def
  digit_value_def hex_value_def v4_of_def v6_of_def parser_numerals

lemma parse_ip_examples:
  "parse_ip_addr ''127.0.0.1'' = Some (V4 0x7f000001)"
  "parse_ip_addr ''127.0.0.01'' = None"
  "parse_ip_addr ''::1'' = Some (V6 1)"
  "parse_ip_addr ''::ffff:10.0.0.1'' = Some (V6 0xffff0a000001)"
  "parse_ip_addr ''example.com'' = None"
  by (simp_all add: parse_ip_defs Let_def)

lemma octet_less [simp]: "octet i a < 256"
  by (simp add: octet_def)

end
