(* ===== verification/UrlGuard.thy ===== *)
theory UrlGuard
  imports NetAddr
begin

unbundle bit_operations_syntax

text \<open>
  The SSRF guard (\<open>src/src/security/url_guard.rs\<close>): which addresses are internal, the synchronous
  and asynchronous URL checks, the redirect check, and the cache of DNS verdicts.

  URL parsing (the \<open>url\<close> crate) and name resolution are parameters: \<open>parse\<close> gives the scheme and
  the host of a URL it accepts, \<open>dns\<close> the addresses of a host or \<open>None\<close> for an error or a timeout.
  Host names that parser returns are ASCII, so lower-casing is \<open>ascii_lower\<close>.
\<close>

section \<open>Blocked addresses\<close>

definition blocked_hosts :: "string list" where
  "blocked_hosts =
     [''localhost'', ''127.0.0.1'', ''0.0.0.0'', ''[::]'', ''[::1]'', ''metadata.google.internal'',
      ''metadata.goog'', ''kubernetes.default.svc'', ''kubernetes.default'', ''kubernetes'']"

record cidr_block =
  cidr_addr :: ip_addr
  prefix_len :: nat

definition cidr_v4 :: "nat \<Rightarrow> nat \<Rightarrow> nat \<Rightarrow> nat \<Rightarrow> nat \<Rightarrow> cidr_block" where
  "cidr_v4 a b c d p = \<lparr>cidr_addr = V4 (v4_of a b c d), prefix_len = p\<rparr>"

definition cidr_v6 :: "nat list \<Rightarrow> nat \<Rightarrow> cidr_block" where
  "cidr_v6 segs p = \<lparr>cidr_addr = V6 (v6_of segs), prefix_len = p\<rparr>"

definition cidr_contains :: "cidr_block \<Rightarrow> ip_addr \<Rightarrow> bool" where
  "cidr_contains c ip =
     (case (cidr_addr c, ip) of
        (V4 net, V4 addr) \<Rightarrow>
          (let mask = (if 32 \<le> prefix_len c then - 1 else push_bit (32 - prefix_len c) (- 1))
           in net AND mask = addr AND mask)
      | (V6 net, V6 addr) \<Rightarrow>
          (let mask = (if 128 \<le> prefix_len c then - 1 else push_bit (128 - prefix_len c) (- 1))
           in net AND mask = addr AND mask)
      | _ \<Rightarrow> False)"

definition cloud_metadata_cidrs :: "cidr_block list" where
  "cloud_metadata_cidrs =
     [cidr_v4 169 254 169 254 32, cidr_v4 100 100 100 200 32,
      cidr_v6 [0xfd00, 0x0ec2, 0, 0, 0, 0, 0, 0x0254] 128,
      cidr_v6 [0x0064, 0xff9b, 0, 0, 0, 0, 0, 0] 96,
      cidr_v6 [0x2002, 0, 0, 0, 0, 0, 0, 0] 16]"

definition safe_internal_prefixes :: "string list" where
  "safe_internal_prefixes = [''about:'']"

text \<open>The embedded IPv4 of \<open>::a.b.c.d\<close>, except \<open>::\<close> and \<open>::1\<close>.\<close>

definition ipv4_compatible :: "128 word \<Rightarrow> 32 word option" where
  "ipv4_compatible a =
     (if \<exists>i \<in> set [0 ..< 6]. segment i a \<noteq> 0 then None
      else (let v4 = (ucast a :: 32 word) in if v4 \<le> 1 then None else Some v4))"

function is_blocked_ip :: "ip_addr \<Rightarrow> bool" where
  "is_blocked_ip (V4 a) =
     (if ip_loopback (V4 a) \<or> ip_multicast (V4 a) \<or> ip_unspecified (V4 a) then True
      else if v4_private a \<or> v4_link_local a then True
      else if octet 0 a = 100 \<and> 64 \<le> octet 1 a \<and> octet 1 a \<le> 127 then True
      else if 240 \<le> octet 0 a then True
      else (\<exists>c \<in> set cloud_metadata_cidrs. cidr_contains c (V4 a)))"
| "is_blocked_ip (V6 a) =
     (case (case to_ipv4_mapped a of Some v4 \<Rightarrow> Some v4 | None \<Rightarrow> ipv4_compatible a) of
        Some v4 \<Rightarrow> is_blocked_ip (V4 v4)
      | None \<Rightarrow>
          if ip_loopback (V6 a) \<or> ip_multicast (V6 a) \<or> ip_unspecified (V6 a) then True
          else if segment 0 a AND 0xffc0 = 0xfe80 then True
          else if segment 0 a AND 0xfe00 = 0xfc00 then True
          else if segment 0 a AND 0xffc0 = 0xfec0 then True
          else (\<exists>c \<in> set cloud_metadata_cidrs. cidr_contains c (V6 a)))"
  by pat_completeness auto
termination
  by (relation "measure (\<lambda>ip. case ip of V4 _ \<Rightarrow> 0 | V6 _ \<Rightarrow> Suc 0)") auto

section \<open>The URL checks\<close>

record parsed_url =
  scheme :: string
  host_str :: "string option"

definition is_bracket :: "char \<Rightarrow> bool" where
  "is_bracket c \<longleftrightarrow> c = CHR ''['' \<or> c = CHR '']''"

definition parse_ip :: "string \<Rightarrow> ip_addr option" where
  "parse_ip s = parse_ip_addr (trim_matches is_bracket s)"

text \<open>The normalised host, and the host without trailing dots.\<close>

definition hostname_clean :: "string \<Rightarrow> string" where
  "hostname_clean h = trim_matches is_bracket (ascii_lower h)"

definition hostname_no_dot :: "string \<Rightarrow> string" where
  "hostname_no_dot h = trim_end_matches (\<lambda>c. c = CHR ''.'') (hostname_clean h)"

definition host_blocked :: "string \<Rightarrow> bool" where
  "host_blocked h \<longleftrightarrow> (\<exists>b \<in> set blocked_hosts. hostname_clean h = b \<or> hostname_no_dot h = b)"

definition literal_blocked :: "string \<Rightarrow> bool" where
  "literal_blocked h \<longleftrightarrow> (case parse_ip (hostname_clean h) of Some ip \<Rightarrow> is_blocked_ip ip | None \<Rightarrow> False)"

definition is_redirect_target_safe :: "(string \<Rightarrow> parsed_url option) \<Rightarrow> string \<Rightarrow> bool" where
  "is_redirect_target_safe parse url =
     (case parse url of
        None \<Rightarrow> False
      | Some u \<Rightarrow>
          if scheme u \<noteq> ''http'' \<and> scheme u \<noteq> ''https'' then False
          else (case host_str u of
                  None \<Rightarrow> False
                | Some h \<Rightarrow> if host_blocked h then False else \<not> literal_blocked h))"

definition is_url_safe_inner ::
    "(string \<Rightarrow> parsed_url option) \<Rightarrow> (string \<Rightarrow> ip_addr list option) \<Rightarrow> string \<Rightarrow> bool \<Rightarrow> bool" where
  "is_url_safe_inner parse dns url fail_closed =
     (if url = [] then False
      else if \<exists>p \<in> set safe_internal_prefixes. starts_with url p then True
      else if starts_with url ''/'' \<and> \<not> starts_with url ''//'' then True
      else (case parse url of
              None \<Rightarrow> False
            | Some u \<Rightarrow>
                if scheme u \<noteq> ''http'' \<and> scheme u \<noteq> ''https'' then False
                else (case host_str u of
                        None \<Rightarrow> False
                      | Some h \<Rightarrow>
                          if host_blocked h then False
                          else if literal_blocked h then False
                          else (case dns h of
                                  Some addrs \<Rightarrow> \<not> (\<exists>ip \<in> set addrs. is_blocked_ip ip)
                                | None \<Rightarrow> \<not> fail_closed))))"

definition is_url_safe where
  "is_url_safe parse dns url = is_url_safe_inner parse dns url False"

definition is_navigation_url_safe where
  "is_navigation_url_safe parse dns url = is_url_safe_inner parse dns url True"

section \<open>The cached, asynchronous check\<close>

datatype host_verdict = Safe | Internal | Unresolved

text \<open>The cache maps a host to its verdict and the time (ms) it was decided.\<close>

type_synonym dns_cache = "(string \<times> host_verdict \<times> nat) list"

definition dns_verdict_ttl :: nat where
  "dns_verdict_ttl = 60000"

definition dns_cache_max_entries :: nat where
  "dns_cache_max_entries = 4096"

definition fresh_verdict :: "nat \<Rightarrow> string \<Rightarrow> dns_cache \<Rightarrow> host_verdict option" where
  "fresh_verdict now key cache =
     (case map_of cache key of
        Some (v, t) \<Rightarrow> if now - t < dns_verdict_ttl then Some v else None
      | None \<Rightarrow> None)"

definition resolve_host_verdict ::
    "(string \<Rightarrow> ip_addr list option) \<Rightarrow> nat \<Rightarrow> string \<Rightarrow> string \<Rightarrow> dns_cache \<Rightarrow> host_verdict \<times> dns_cache" where
  "resolve_host_verdict dns now key host cache =
     (case fresh_verdict now key cache of
        Some v \<Rightarrow> (v, cache)
      | None \<Rightarrow>
          (case dns host of
             None \<Rightarrow> (Unresolved, cache)
           | Some addrs \<Rightarrow>
               (let v = (if \<exists>ip \<in> set addrs. is_blocked_ip ip then Internal else Safe);
                    c = (if dns_cache_max_entries \<le> length cache then [] else cache)
                in (v, AList.update key (v, now) c))))"

datatype refusal =
    EmptyUrl | InvalidUrl | SchemeNotAllowed | NoHostname | HostnameBlocked | PrivateAddress
  | ResolvesInternal | NotResolved

definition refusal_reason_inner ::
    "(string \<Rightarrow> parsed_url option) \<Rightarrow> (string \<Rightarrow> ip_addr list option) \<Rightarrow> nat \<Rightarrow> string \<Rightarrow> bool \<Rightarrow> dns_cache
     \<Rightarrow> refusal option \<times> dns_cache" where
  "refusal_reason_inner parse dns now url fail_closed cache =
     (if url = [] then (Some EmptyUrl, cache)
      else if \<exists>p \<in> set safe_internal_prefixes. starts_with url p then (None, cache)
      else if starts_with url ''/'' \<and> \<not> starts_with url ''//'' then (None, cache)
      else (case parse url of
              None \<Rightarrow> (Some InvalidUrl, cache)
            | Some u \<Rightarrow>
                if scheme u \<noteq> ''http'' \<and> scheme u \<noteq> ''https'' then (Some SchemeNotAllowed, cache)
                else (case host_str u of
                        None \<Rightarrow> (Some NoHostname, cache)
                      | Some h \<Rightarrow>
                          if host_blocked h then (Some HostnameBlocked, cache)
                          else if literal_blocked h then (Some PrivateAddress, cache)
                          else (let (v, cache') = resolve_host_verdict dns now (hostname_no_dot h) h cache
                                in case v of
                                     Safe \<Rightarrow> (None, cache')
                                   | Internal \<Rightarrow> (Some ResolvesInternal, cache')
                                   | Unresolved \<Rightarrow>
                                       (if fail_closed then Some NotResolved else None, cache')))))"

definition is_url_safe_async where
  "is_url_safe_async parse dns now url cache =
     (let (r, c) = refusal_reason_inner parse dns now url False cache in (r = None, c))"

definition is_navigation_url_safe_async where
  "is_navigation_url_safe_async parse dns now url cache =
     (let (r, c) = refusal_reason_inner parse dns now url True cache in (r = None, c))"

definition navigation_refusal where
  "navigation_refusal parse dns now url cache = refusal_reason_inner parse dns now url True cache"


section \<open>The IPv4 ranges as an abstract specification\<close>

text \<open>
  The internal IPv4 space as closed intervals of addresses: 0.0.0.0, 10/8, 100.64/10, 127/8,
  169.254/16, 172.16/12, 192.168/16 and 224.0.0.0 upwards (multicast and reserved).
\<close>

definition internal_v4_ranges :: "(nat \<times> nat) list" where
  "internal_v4_ranges =
     [(0, 0), (0x0a000000, 0x0affffff), (0x64400000, 0x647fffff), (0x7f000000, 0x7fffffff),
      (0xa9fe0000, 0xa9feffff), (0xac100000, 0xac1fffff), (0xc0a80000, 0xc0a8ffff),
      (0xe0000000, 0xffffffff)]"

definition in_ranges :: "(nat \<times> nat) list \<Rightarrow> nat \<Rightarrow> bool" where
  "in_ranges rs n \<longleftrightarrow> (\<exists>(lo, hi) \<in> set rs. lo \<le> n \<and> n \<le> hi)"

lemma unat_v4_less [simp]: "unat (a :: 32 word) < 4294967296"
  using unsigned_less [of a, where ?'a = nat] by simp

lemma octet_div:
  "octet 0 a = unat a div 16777216" "octet 1 a = unat a div 65536 mod 256"
proof -
  have "unat a div 16777216 < 256" using unat_v4_less [of a] by (simp add: less_mult_imp_div_less)
  then show "octet 0 a = unat a div 16777216" by (simp add: octet_def)
  show "octet 1 a = unat a div 65536 mod 256" by (simp add: octet_def)
qed

lemma two_octets: "octet 0 a * 256 + octet 1 a = unat a div 65536"
proof -
  have "unat a div 65536 div 256 = unat a div 16777216"
    by (metis div_mult2_eq numeral_times_numeral semiring_norm(13) semiring_norm(6) mult_num_simps)
  then show ?thesis unfolding octet_div by (metis div_mult_mod_eq)
qed

text \<open>An address with first octet \<open>p\<close>, or with first two octets between \<open>lo\<close> and \<open>hi\<close>, is an interval.\<close>

lemma octet0_iff: "octet 0 a = p \<longleftrightarrow> p * 16777216 \<le> unat a \<and> unat a < (p + 1) * 16777216"
proof -
  have "unat a div 16777216 = p \<longleftrightarrow> p \<le> unat a div 16777216 \<and> unat a div 16777216 < p + 1" by auto
  also have "\<dots> \<longleftrightarrow> p * 16777216 \<le> unat a \<and> unat a < (p + 1) * 16777216"
    by (simp only: less_eq_div_iff_mult_less_eq div_less_iff_less_mult zero_less_numeral)
  finally show ?thesis by (simp only: octet_div)
qed

lemma octets_iff:
  assumes "q \<le> 255"
  shows "octet 0 a = p \<and> o1 \<le> octet 1 a \<and> octet 1 a \<le> q \<longleftrightarrow>
    p * 16777216 + o1 * 65536 \<le> unat a \<and> unat a < p * 16777216 + (q + 1) * 65536"
proof -
  define x y where "x = octet 0 a" and "y = octet 1 a"
  have k: "k * 65536 \<le> unat a \<longleftrightarrow> k \<le> x * 256 + y" "unat a < k * 65536 \<longleftrightarrow> x * 256 + y < k" for k
    unfolding x_def y_def two_octets by (simp_all add: less_eq_div_iff_mult_less_eq div_less_iff_less_mult)
  have y: "y < 256" by (simp add: y_def octet_def)
  have "p * 16777216 + o1 * 65536 = (p * 256 + o1) * 65536"
    "p * 16777216 + (q + 1) * 65536 = (p * 256 + q + 1) * 65536" by simp_all
  then have "p * 16777216 + o1 * 65536 \<le> unat a \<and> unat a < p * 16777216 + (q + 1) * 65536 \<longleftrightarrow>
      p * 256 + o1 \<le> x * 256 + y \<and> x * 256 + y < p * 256 + q + 1"
    by (simp only: k)
  also have "\<dots> \<longleftrightarrow> x = p \<and> o1 \<le> y \<and> y \<le> q" using y assms by (cases x p rule: linorder_cases) auto
  finally show ?thesis by (simp only: x_def y_def)
qed

declare is_blocked_ip.simps [simp del]

lemma v4_cidrs: "(\<exists>c \<in> set cloud_metadata_cidrs. cidr_contains c (V4 a)) \<longleftrightarrow> a = 0xa9fea9fe \<or> a = 0x646464c8"
  by (auto simp: cloud_metadata_cidrs_def cidr_contains_def cidr_v4_def cidr_v6_def v4_of_def)

lemma blocked_v4_disj: "is_blocked_ip (V4 a) \<longleftrightarrow>
    (ip_loopback (V4 a) \<or> ip_multicast (V4 a) \<or> ip_unspecified (V4 a)) \<or> v4_private a \<or> v4_link_local a \<or>
    (octet 0 a = 100 \<and> 64 \<le> octet 1 a \<and> octet 1 a \<le> 127) \<or> 240 \<le> octet 0 a \<or> a = 0xa9fea9fe \<or> a = 0x646464c8"
  unfolding is_blocked_ip.simps v4_cidrs by argo

lemma blocked_v4_iff: "is_blocked_ip (V4 a) \<longleftrightarrow> in_ranges internal_v4_ranges (unat a)"
proof -
  have cg: "octet 0 a = 100 \<and> 64 \<le> octet 1 a \<and> octet 1 a \<le> 127 \<longleftrightarrow> 0x64400000 \<le> unat a \<and> unat a < 0x64800000"
    using octets_iff [of 127 a 100 64] by simp
  have pv: "octet 0 a = 172 \<and> 16 \<le> octet 1 a \<and> octet 1 a \<le> 31 \<longleftrightarrow> 0xac100000 \<le> unat a \<and> unat a < 0xac200000"
    using octets_iff [of 31 a 172 16] by simp
  have ll: "octet 0 a = 169 \<and> octet 1 a = 254 \<longleftrightarrow> 0xa9fe0000 \<le> unat a \<and> unat a < 0xa9ff0000"
    using octets_iff [of 254 a 169 254] by (simp add: eq_iff [of _ "254::nat"]) blast
  have pr: "octet 0 a = 192 \<and> octet 1 a = 168 \<longleftrightarrow> 0xc0a80000 \<le> unat a \<and> unat a < 0xc0a90000"
    using octets_iff [of 168 a 192 168] by (simp add: eq_iff [of _ "168::nat"]) blast
  have h: "k \<le> octet 0 a \<longleftrightarrow> k * 16777216 \<le> unat a" for k
    by (simp add: octet_div less_eq_div_iff_mult_less_eq)
  have hi: "240 \<le> octet 0 a \<longleftrightarrow> 4026531840 \<le> unat a" "224 \<le> octet 0 a \<longleftrightarrow> 3758096384 \<le> unat a"
    "octet 0 a \<le> 239 \<longleftrightarrow> unat a < 4026531840"
    using h [of 240] h [of 224] by auto
  have u: "a = 0 \<longleftrightarrow> unat a = 0" "a = 0xa9fea9fe \<longleftrightarrow> unat a = 0xa9fea9fe" "a = 0x646464c8 \<longleftrightarrow> unat a = 0x646464c8"
    by (simp_all add: word_unat_eq_iff)
  have l: "unat a \<le> 0xffffffff" using unat_v4_less [of a] by linarith
  have o: "octet 0 a = 127 \<longleftrightarrow> 2130706432 \<le> unat a \<and> unat a < 2147483648"
    "octet 0 a = 10 \<longleftrightarrow> 167772160 \<le> unat a \<and> unat a < 184549376"
    by (simp_all add: octet0_iff)
  define n where "n = unat a"
  have "is_blocked_ip (V4 a) \<longleftrightarrow>
      ((2130706432 \<le> n \<and> n < 2147483648) \<or> (3758096384 \<le> n \<and> n < 4026531840) \<or> n = 0) \<or>
      ((167772160 \<le> n \<and> n < 184549376) \<or> (0xac100000 \<le> n \<and> n < 0xac200000) \<or>
      (0xc0a80000 \<le> n \<and> n < 0xc0a90000)) \<or> (0xa9fe0000 \<le> n \<and> n < 0xa9ff0000) \<or>
      (0x64400000 \<le> n \<and> n < 0x64800000) \<or> 4026531840 \<le> n \<or> n = 0xa9fea9fe \<or> n = 0x646464c8"
    unfolding blocked_v4_disj u ip_loopback_def ip_multicast_def ip_unspecified_def
      v4_loopback_def v4_multicast_def v4_private_def v4_link_local_def ip_addr.case cg pv ll pr hi o
      n_def disj_assoc by (rule refl)
  also have "\<dots> \<longleftrightarrow> in_ranges internal_v4_ranges n"
  proof -
    have "n \<le> 4294967295" using l by (simp add: n_def)
    then show ?thesis
      unfolding in_ranges_def internal_v4_ranges_def by (simp, arith)
  qed
  finally show ?thesis by (simp only: n_def)
qed

section \<open>Embedded IPv4 forms\<close>

definition mapped_v6 :: "32 word \<Rightarrow> 128 word" where
  "mapped_v6 a = push_bit 32 0xffff OR ucast a"

lemma drop_mapped: "drop_bit 32 (mapped_v6 a) = 0xffff"
  by (rule bit_word_eqI) (auto simp: mapped_v6_def bit_simps dest: bit_imp_le_length)

lemma ucast_mapped: "ucast (mapped_v6 a) = a"
proof -
  define m :: "128 word" where "m = 0xffff"
  have "bit (push_bit 32 m) n \<longleftrightarrow> False" if "n < 32" for n
    using that by (simp add: bit_simps)
  then show ?thesis
    unfolding mapped_v6_def m_def [symmetric] by (intro bit_word_eqI) (auto simp: bit_simps)
qed

lemma mapped_to_v4 [simp]: "to_ipv4_mapped (mapped_v6 a) = Some a"
  by (simp add: to_ipv4_mapped_def drop_mapped ucast_mapped)

text \<open>A CIDR test is equality of the leading bits.\<close>

lemma and_mask_iff:
  fixes a b :: "'a :: len word"
  shows "a AND push_bit k (- 1) = b AND push_bit k (- 1) \<longleftrightarrow> drop_bit k a = drop_bit k b"
proof
  assume e: "a AND push_bit k (- 1) = b AND push_bit k (- 1)"
  have "bit a (k + n) = bit b (k + n)" for n
    using arg_cong [OF e, of "\<lambda>w. bit w (k + n)"]
    by (cases "k + n < LENGTH('a)") (auto simp: bit_simps dest: bit_imp_le_length)
  then show "drop_bit k a = drop_bit k b" by (intro bit_word_eqI) (simp add: bit_simps)
next
  assume e: "drop_bit k a = drop_bit k b"
  have "bit a n = bit b n" if "k \<le> n" for n
    using arg_cong [OF e, of "\<lambda>w. bit w (n - k)"] that by (simp add: bit_simps)
  then show "a AND push_bit k (- 1) = b AND push_bit k (- 1)"
    by (intro bit_word_eqI) (auto simp: bit_simps)
qed

lemma drop_bit_eq_iff:
  fixes a b :: "'a :: len word"
  shows "drop_bit k a = drop_bit k b \<longleftrightarrow> unat a div 2 ^ k = unat b div 2 ^ k"
  unfolding word_unat_eq_iff unat_drop_bit_eq by (simp add: drop_bit_eq_div)

lemma cidr_contains_prefix:
  "cidr_contains \<lparr>cidr_addr = V4 n4, prefix_len = p\<rparr> (V4 a) \<longleftrightarrow>
     unat n4 div 2 ^ (32 - p) = unat a div 2 ^ (32 - p)"
  "cidr_contains \<lparr>cidr_addr = V6 n6, prefix_len = p\<rparr> (V6 b) \<longleftrightarrow>
     unat n6 div 2 ^ (128 - p) = unat b div 2 ^ (128 - p)"
proof -
  have m: "(if w \<le> p then - 1 else push_bit (w - p) (- 1)) = (push_bit (w - p) (- 1) :: 'a :: len word)" for w
    by auto
  show "cidr_contains \<lparr>cidr_addr = V4 n4, prefix_len = p\<rparr> (V4 a) \<longleftrightarrow>
     unat n4 div 2 ^ (32 - p) = unat a div 2 ^ (32 - p)"
    "cidr_contains \<lparr>cidr_addr = V6 n6, prefix_len = p\<rparr> (V6 b) \<longleftrightarrow>
     unat n6 div 2 ^ (128 - p) = unat b div 2 ^ (128 - p)"
    unfolding cidr_contains_def by (simp_all only: m Let_def and_mask_iff drop_bit_eq_iff cidr_block.simps ip_addr.case prod.case)
qed

lemma div_range_iff:
  fixes n :: nat
  assumes "0 < d"
  shows "n div d = p \<longleftrightarrow> p * d \<le> n \<and> n < (p + 1) * d"
proof -
  have "n div d = p \<longleftrightarrow> p \<le> n div d \<and> n div d < p + 1" by auto
  also have "\<dots> \<longleftrightarrow> p * d \<le> n \<and> n < (p + 1) * d"
    using assms by (simp only: less_eq_div_iff_mult_less_eq div_less_iff_less_mult)
  finally show ?thesis .
qed

lemma unat_segment0: "unat (segment 0 a) = unat a div 2 ^ 112"
proof -
  have "unat a < 2 ^ 128" using unsigned_less [of a, where ?'a = nat] by simp
  then have "unat a div 2 ^ 112 < 65536" by (simp add: less_mult_imp_div_less)
  then show ?thesis unfolding segment_def unsigned_ucast_eq unat_drop_bit_eq
    by (simp add: drop_bit_eq_div take_bit_eq_mod)
qed

lemma segment0_masks:
  "segment 0 a AND 0xffc0 = 0xfe80 \<longleftrightarrow> unat a div 2 ^ 118 = 0x3fa"
  "segment 0 a AND 0xfe00 = 0xfc00 \<longleftrightarrow> unat a div 2 ^ 121 = 0x7e"
  "segment 0 a AND 0xffc0 = 0xfec0 \<longleftrightarrow> unat a div 2 ^ 118 = 0x3fb"
proof -
  have k: "w AND push_bit k (- 1) = v \<longleftrightarrow> unat w div 2 ^ k = unat v div 2 ^ k"
    if "v AND push_bit k (- 1) = v" for w v :: "16 word" and k
    using and_mask_iff [of w k v] that unfolding drop_bit_eq_iff by (simp only:)
  have m: "(0xffc0 :: 16 word) = push_bit 6 (- 1)" "(0xfe00 :: 16 word) = push_bit 9 (- 1)" by code_simp+
  have c: "(0xfe80 :: 16 word) AND push_bit 6 (- 1) = 0xfe80" "(0xfc00 :: 16 word) AND push_bit 9 (- 1) = 0xfc00"
    "(0xfec0 :: 16 word) AND push_bit 6 (- 1) = 0xfec0" by code_simp+
  have d: "unat (segment 0 a) div 2 ^ 6 = unat a div 2 ^ 118" "unat (segment 0 a) div 2 ^ 9 = unat a div 2 ^ 121"
    by (simp_all add: unat_segment0 div_mult2_eq [symmetric])
  show "segment 0 a AND 0xffc0 = 0xfe80 \<longleftrightarrow> unat a div 2 ^ 118 = 0x3fa"
    unfolding m d [symmetric] using k [OF c(1), of "segment 0 a"] by simp
  show "segment 0 a AND 0xfe00 = 0xfc00 \<longleftrightarrow> unat a div 2 ^ 121 = 0x7e"
    unfolding m d [symmetric] using k [OF c(2), of "segment 0 a"] by simp
  show "segment 0 a AND 0xffc0 = 0xfec0 \<longleftrightarrow> unat a div 2 ^ 118 = 0x3fb"
    unfolding m d [symmetric] using k [OF c(3), of "segment 0 a"] by simp
qed

text \<open>The internal IPv6 space that holds no embedded IPv4 address, as intervals.\<close>

definition internal_v6_ranges :: "(nat \<times> nat) list" where
  "internal_v6_ranges =
     [(0, 1), (0xfe80 * 2 ^ 112, 0xfec0 * 2 ^ 112 - 1), (0xfc00 * 2 ^ 112, 0xfe00 * 2 ^ 112 - 1),
      (0xfec0 * 2 ^ 112, 0xff00 * 2 ^ 112 - 1), (0xff00 * 2 ^ 112, 2 ^ 128 - 1),
      (0x64ff9b * 2 ^ 96, 0x64ff9b * 2 ^ 96 + 2 ^ 32 - 1), (0x2002 * 2 ^ 112, 0x2003 * 2 ^ 112 - 1)]"

definition embedded_v4 :: "128 word \<Rightarrow> 32 word option" where
  "embedded_v4 a = (case to_ipv4_mapped a of Some v \<Rightarrow> Some v | None \<Rightarrow> ipv4_compatible a)"

lemma v6_cidrs: "(\<exists>c \<in> set cloud_metadata_cidrs. cidr_contains c (V6 a)) \<longleftrightarrow>
    unat a = 0xfd000ec2000000000000000000000254 \<or> unat a div 2 ^ 32 = 0x64ff9b * 2 ^ 64 \<or> unat a div 2 ^ 112 = 0x2002"
proof -
  have v: "cidr_contains (cidr_v4 p q r s t) (V6 a) \<longleftrightarrow> False" for p q r s t
    by (simp add: cidr_contains_def cidr_v4_def)
  have n: "unat (v6_of [0xfd00, 0x0ec2, 0, 0, 0, 0, 0, 0x0254]) = 0xfd000ec2000000000000000000000254"
    "unat (v6_of [0x0064, 0xff9b, 0, 0, 0, 0, 0, 0]) = 0x64ff9b * 2 ^ 96"
    "unat (v6_of [0x2002, 0, 0, 0, 0, 0, 0, 0]) = 0x2002 * 2 ^ 112"
    by (simp_all add: v6_of_def)
  show ?thesis
    unfolding cloud_metadata_cidrs_def cidr_v6_def
    by (simp add: v cidr_contains_prefix n)
qed

lemma blocked_v6_iff: "is_blocked_ip (V6 a) \<longleftrightarrow>
    (case embedded_v4 a of Some v \<Rightarrow> in_ranges internal_v4_ranges (unat v)
     | None \<Rightarrow> in_ranges internal_v6_ranges (unat a))"
proof (cases "embedded_v4 a")
  case (Some v)
  then show ?thesis
    using blocked_v4_iff [of v] unfolding embedded_v4_def by (simp only: is_blocked_ip.simps(2) option.case)
next
  case None
  have n: "(case to_ipv4_mapped a of Some v4 \<Rightarrow> Some v4 | None \<Rightarrow> ipv4_compatible a) = None"
    using None by (simp only: embedded_v4_def)
  have l: "unat a < 2 ^ 128" using unsigned_less [of a, where ?'a = nat] by simp
  have m: "drop_bit 120 a = 255 \<longleftrightarrow> unat a div 2 ^ 120 = 255"
    unfolding word_unat_eq_iff unat_drop_bit_eq by (simp add: drop_bit_eq_div)
  have u: "a = 1 \<longleftrightarrow> unat a = 1" "a = 0 \<longleftrightarrow> unat a = 0" by (simp_all add: word_unat_eq_iff)
  define x where "x = unat a"
  have "is_blocked_ip (V6 a) \<longleftrightarrow> (x = 1 \<or> x div 2 ^ 120 = 255 \<or> x = 0) \<or> x div 2 ^ 118 = 0x3fa \<or>
      x div 2 ^ 121 = 0x7e \<or> x div 2 ^ 118 = 0x3fb \<or>
      x = 0xfd000ec2000000000000000000000254 \<or> x div 2 ^ 32 = 0x64ff9b * 2 ^ 64 \<or> x div 2 ^ 112 = 0x2002"
    unfolding is_blocked_ip.simps n option.case ip_loopback_def ip_multicast_def ip_unspecified_def
      ip_addr.case m u segment0_masks v6_cidrs x_def by argo
  also have "\<dots> \<longleftrightarrow> in_ranges internal_v6_ranges x"
  proof -
    have "x < 2 ^ 128" using l by (simp add: x_def)
    then show ?thesis
      unfolding in_ranges_def internal_v6_ranges_def by (simp add: div_range_iff, arith)
  qed
  finally show ?thesis using None by (simp add: x_def)
qed

section \<open>Properties of the address classification\<close>

text \<open>The address check is exactly membership in the documented internal ranges: for an IPv4
  address the eight intervals of \<open>internal_v4_ranges\<close>; for an IPv6 address that embeds an IPv4 one
  (mapped or compatible form) the ranges of the embedded address, and otherwise the seven intervals
  of \<open>internal_v6_ranges\<close>. Nothing outside them is refused and nothing inside them passes.\<close>

theorem blocked_ranges: "is_blocked_ip ip \<longleftrightarrow>
    (case ip of
       V4 a \<Rightarrow> in_ranges internal_v4_ranges (unat a)
     | V6 a \<Rightarrow> (case embedded_v4 a of
                  Some v \<Rightarrow> in_ranges internal_v4_ranges (unat v)
                | None \<Rightarrow> in_ranges internal_v6_ranges (unat a)))"
  by (cases ip) (simp_all only: blocked_v4_iff blocked_v6_iff ip_addr.case)

text \<open>No IPv6 spelling launders an IPv4 address: \<open>::ffff:a.b.c.d\<close>, and \<open>::a.b.c.d\<close> for an
  address above 0.0.0.1, are refused exactly when \<open>a.b.c.d\<close> is.\<close>

theorem v6_spellings_agree:
  assumes "1 < a"
  shows "is_blocked_ip (V6 (mapped_v6 a)) = is_blocked_ip (V4 a) \<and>
    is_blocked_ip (V6 (ucast a)) = is_blocked_ip (V4 a)"
proof
  show "is_blocked_ip (V6 (mapped_v6 a)) = is_blocked_ip (V4 a)"
    by (simp add: blocked_v4_iff blocked_v6_iff embedded_v4_def)
  have m: "drop_bit 32 (ucast a :: 128 word) = 0"
    by (rule bit_word_eqI) (auto simp: bit_simps dest: bit_imp_le_length)
  have s: "segment i (ucast a) = 0" if "i < 6" for i
    by (rule bit_word_eqI) (use that in \<open>auto simp: segment_def bit_simps dest: bit_imp_le_length\<close>)
  have u: "ucast (ucast a :: 128 word) = a" by (rule bit_word_eqI) (auto simp: bit_simps)
  have "embedded_v4 (ucast a) = Some a"
    using assms by (simp add: embedded_v4_def to_ipv4_mapped_def m ipv4_compatible_def u s not_le)
  then show "is_blocked_ip (V6 (ucast a)) = is_blocked_ip (V4 a)"
    by (simp add: blocked_v4_iff blocked_v6_iff)
qed

theorem v6_spellings_agree_witness:
  "is_blocked_ip (V6 (mapped_v6 0x0a000001)) \<and> \<not> is_blocked_ip (V6 (ucast (0x08080808 :: 32 word)))"
  using v6_spellings_agree [of "0x0a000001"] v6_spellings_agree [of "0x08080808"]
  by (simp add: blocked_v4_iff in_ranges_def internal_v4_ranges_def)

section \<open>Properties of the URL checks\<close>

text \<open>
  What the guard is to keep out, written out on its own: the names of this machine and of metadata and cluster
  services, and the address ranges above. Pages of the browser and paths of the site at hand name no host.
\<close>

definition internal_page :: "string \<Rightarrow> bool" where
  "internal_page url \<longleftrightarrow> (\<exists>rest. url = ''about:'' @ rest) \<or> (\<exists>rest. url = ''/'' @ rest \<and> \<not> (\<exists>more. rest = ''/'' @ more))"

definition internal_names :: "string set" where
  "internal_names = {''localhost'', ''127.0.0.1'', ''0.0.0.0'', ''[::]'', ''[::1]'', ''metadata.google.internal'', ''metadata.goog'',
     ''kubernetes.default.svc'', ''kubernetes.default'', ''kubernetes''}"

definition internal_address :: "ip_addr \<Rightarrow> bool" where
  "internal_address ip \<longleftrightarrow>
     (case ip of
        V4 a \<Rightarrow> in_ranges internal_v4_ranges (unat a)
      | V6 a \<Rightarrow> (case embedded_v4 a of
                   Some v \<Rightarrow> in_ranges internal_v4_ranges (unat v)
                 | None \<Rightarrow> in_ranges internal_v6_ranges (unat a)))"

definition outside_host :: "string \<Rightarrow> ip_addr list \<Rightarrow> bool" where
  "outside_host h addrs \<longleftrightarrow> {hostname_clean h, hostname_no_dot h} \<inter> internal_names = {} \<and>
     (\<forall>ip. parse_ip (hostname_clean h) = Some ip \<longrightarrow> \<not> internal_address ip) \<and> (\<forall>ip \<in> set addrs. \<not> internal_address ip)"

lemma blocked_internal: "is_blocked_ip ip = internal_address ip"
  unfolding internal_address_def by (rule blocked_ranges)

lemma host_blocked_names: "host_blocked h \<longleftrightarrow> {hostname_clean h, hostname_no_dot h} \<inter> internal_names \<noteq> {}"
proof -
  have "set blocked_hosts = internal_names" unfolding blocked_hosts_def internal_names_def by (simp only: list.set)
  then show ?thesis by (auto simp: host_blocked_def)
qed

lemma internal_page_iff:
  "internal_page url \<longleftrightarrow> (\<exists>p \<in> set safe_internal_prefixes. starts_with url p) \<or> (starts_with url ''/'' \<and> \<not> starts_with url ''//'')"
proof -
  have p: "starts_with url p \<longleftrightarrow> (\<exists>rest. url = p @ rest)" for p by (rule starts_with_iff)
  show ?thesis unfolding internal_page_def p safe_internal_prefixes_def by auto
qed

text \<open>
  C7. The navigation check fails closed: besides the pages that name no host (\<open>about:\<close> and paths of the site at hand),
  it accepts exactly the http and https addresses with a host that is none of the internal names, is no literal in an
  internal range, and whose resolution answered, with no address in an internal range (an answer without addresses
  passes). An address that does not parse, has another scheme, has no host or does not resolve is refused.
\<close>

theorem navigation_fail_closed:
  "is_navigation_url_safe parse dns url \<longleftrightarrow> url \<noteq> [] \<and> (internal_page url \<or>
     (\<exists>u h addrs. parse url = Some u \<and> scheme u \<in> {''http'', ''https''} \<and> host_str u = Some h \<and>
        dns h = Some addrs \<and> outside_host h addrs))"
  unfolding is_navigation_url_safe_def is_url_safe_inner_def internal_page_iff host_blocked_names literal_blocked_def
    outside_host_def blocked_internal
  by (auto split: option.splits)

definition sample_parse :: "string \<Rightarrow> parsed_url option" where
  "sample_parse url = Some \<lparr>scheme = ''https'', host_str = Some ''example.com''\<rparr>"

definition sample_dns :: "string \<Rightarrow> ip_addr list option" where
  "sample_dns h = Some [V4 0x08080808]"

lemma sample_parts:
  "\<not> host_blocked ''example.com''" "\<not> literal_blocked ''example.com''" "\<not> is_blocked_ip (V4 0x08080808)"
proof -
  show "\<not> host_blocked ''example.com''" by code_simp
  have c: "hostname_clean ''example.com'' = ''example.com''"
    by (simp add: hostname_clean_def ascii_lower_def ascii_lower_byte_def trim_matches_def
        trim_start_matches_def trim_end_matches_def is_bracket_def)
  have p: "parse_ip ''example.com'' = parse_ip_addr ''example.com''"
    by (simp add: parse_ip_def trim_matches_def trim_start_matches_def trim_end_matches_def is_bracket_def)
  show "\<not> literal_blocked ''example.com''"
    by (simp only: literal_blocked_def c p parse_ip_examples option.case not_False_eq_True)
  show "\<not> is_blocked_ip (V4 0x08080808)"
    by (simp add: blocked_v4_iff in_ranges_def internal_v4_ranges_def)
qed

lemma sample_public: "is_navigation_url_safe sample_parse sample_dns ''https://example.com/''"
  "\<not> internal_page ''https://example.com/''"
  using sample_parts
  by (auto simp: is_navigation_url_safe_def is_url_safe_inner_def sample_parse_def sample_dns_def
      internal_page_iff safe_internal_prefixes_def starts_with_def)

theorem navigation_fail_closed_witness: "outside_host ''example.com'' [V4 0x08080808]"
proof -
  have "\<exists>u h addrs. sample_parse ''https://example.com/'' = Some u \<and> scheme u \<in> {''http'', ''https''} \<and> host_str u = Some h \<and>
      sample_dns h = Some addrs \<and> outside_host h addrs"
    using navigation_fail_closed [THEN iffD1, OF sample_public(1)] sample_public(2) by blast
  then show ?thesis by (simp add: sample_parse_def sample_dns_def)
qed

section \<open>Properties of the cached check\<close>

lemma resolve_fresh:
  "fresh_verdict now key cache = Some v \<Longrightarrow> resolve_host_verdict dns now key host cache = (v, cache)"
  by (simp add: resolve_host_verdict_def)

lemma resolve_stale:
  "fresh_verdict now key cache = None \<Longrightarrow> fst (resolve_host_verdict dns now key host cache) =
     (case dns host of None \<Rightarrow> Unresolved
      | Some addrs \<Rightarrow> if \<exists>ip \<in> set addrs. is_blocked_ip ip then Internal else Safe)"
  by (auto simp: resolve_host_verdict_def Let_def split: option.splits)

text \<open>With no fresh cache entry for the host, the asynchronous checks decide exactly as the
  synchronous ones, failing open for resources and closed for navigation.\<close>

theorem async_agrees_with_sync:
  assumes "\<And>u h. parse url = Some u \<Longrightarrow> host_str u = Some h \<Longrightarrow> fresh_verdict now (hostname_no_dot h) cache = None"
  shows "fst (is_navigation_url_safe_async parse dns now url cache) = is_navigation_url_safe parse dns url \<and>
    fst (is_url_safe_async parse dns now url cache) = is_url_safe parse dns url"
proof -
  have "fst (refusal_reason_inner parse dns now url fc cache) = None \<longleftrightarrow> is_url_safe_inner parse dns url fc" for fc
  proof (cases "parse url")
    case None
    then show ?thesis by (simp add: refusal_reason_inner_def is_url_safe_inner_def)
  next
    case (Some u)
    show ?thesis
    proof (cases "host_str u")
      case None
      then show ?thesis using Some by (simp add: refusal_reason_inner_def is_url_safe_inner_def)
    next
      case h: (Some h)
      note s = resolve_stale [OF assms [OF Some h], of dns h]
      show ?thesis
        using Some h s
        by (cases "resolve_host_verdict dns now (hostname_no_dot h) h cache"; cases "dns h")
          (simp_all add: refusal_reason_inner_def is_url_safe_inner_def split: if_splits)
    qed
  qed
  then show ?thesis
    by (simp add: is_navigation_url_safe_async_def is_url_safe_async_def is_navigation_url_safe_def
        is_url_safe_def split_beta)
qed

theorem async_agrees_with_sync_witness:
  "fst (is_navigation_url_safe_async sample_parse sample_dns 0 ''https://example.com/'' [])"
proof -
  have f: "fresh_verdict 0 k [] = None" for k by (simp add: fresh_verdict_def)
  show ?thesis using async_agrees_with_sync [OF f] sample_public(1) by blast
qed

text \<open>The cache with the lookups that were performed, newest first: time, host name asked, answer.\<close>

record dns_world =
  verdicts :: dns_cache
  answers :: "(nat \<times> string \<times> ip_addr list) list"

inductive dns_step :: "dns_world \<Rightarrow> dns_world \<Rightarrow> bool" where
  dns_hit: "fresh_verdict now (hostname_no_dot h) (verdicts w) \<noteq> None \<Longrightarrow>
    dns_step w (w\<lparr>verdicts := snd (resolve_host_verdict dns now (hostname_no_dot h) h (verdicts w))\<rparr>)"
| dns_fail: "fresh_verdict now (hostname_no_dot h) (verdicts w) = None \<Longrightarrow> dns h = None \<Longrightarrow>
    dns_step w (w\<lparr>verdicts := snd (resolve_host_verdict dns now (hostname_no_dot h) h (verdicts w))\<rparr>)"
| dns_answer: "fresh_verdict now (hostname_no_dot h) (verdicts w) = None \<Longrightarrow> dns h = Some addrs \<Longrightarrow>
    dns_step w (w\<lparr>verdicts := snd (resolve_host_verdict dns now (hostname_no_dot h) h (verdicts w)),
                  answers := (now, h, addrs) # answers w\<rparr>)"

definition dns_init :: "dns_world \<Rightarrow> bool" where
  "dns_init w \<longleftrightarrow> w = \<lparr>verdicts = [], answers = []\<rparr>"

definition verdict_of :: "ip_addr list \<Rightarrow> host_verdict" where
  "verdict_of addrs = (if \<exists>ip \<in> set addrs. is_blocked_ip ip then Internal else Safe)"

definition dns_inv :: "dns_world \<Rightarrow> bool" where
  "dns_inv w \<longleftrightarrow>
     distinct (map fst (verdicts w)) \<and> length (verdicts w) \<le> dns_cache_max_entries \<and>
     (\<forall>k v t. map_of (verdicts w) k = Some (v, t) \<longrightarrow>
        (\<exists>h addrs. (t, h, addrs) \<in> set (answers w) \<and> hostname_no_dot h = k \<and> v = verdict_of addrs))"

lemma resolve_answer:
  assumes "fresh_verdict now key cache = None" "dns h = Some addrs"
  shows "resolve_host_verdict dns now key h cache =
    (verdict_of addrs,
     AList.update key (verdict_of addrs, now) (if dns_cache_max_entries \<le> length cache then [] else cache))"
  using assms by (simp add: resolve_host_verdict_def verdict_of_def Let_def)

lemma dns_step_inv:
  assumes "dns_inv w" "dns_step w w'"
  shows "dns_inv w'"
  using assms(2,1)
proof cases
  case (dns_hit now h dns)
  then show ?thesis using assms(1) by (auto simp: resolve_fresh)
next
  case (dns_fail now h dns)
  then show ?thesis using assms(1) by (simp add: resolve_host_verdict_def)
next
  case (dns_answer now h dns addrs)
  define c where "c = (if dns_cache_max_entries \<le> length (verdicts w) then [] else verdicts w)"
  let ?c = "AList.update (hostname_no_dot h) (verdict_of addrs, now) c"
  have w': "w' = w\<lparr>verdicts := ?c, answers := (now, h, addrs) # answers w\<rparr>"
    using dns_answer by (simp add: resolve_answer c_def)
  have c: "distinct (map fst c)" "length c < dns_cache_max_entries"
    "map_of c k = Some x \<Longrightarrow> map_of (verdicts w) k = Some x" for k x
    using assms(1) by (auto simp: c_def dns_inv_def dns_cache_max_entries_def split: if_splits)
  have "distinct (map fst ?c)" using c(1) by (simp add: distinct_update)
  moreover have "length ?c \<le> dns_cache_max_entries" using c(2) length_update_le [of "hostname_no_dot h" "(verdict_of addrs, now)" c] by linarith
  moreover have "\<exists>h' as. (t, h', as) \<in> set ((now, h, addrs) # answers w) \<and> hostname_no_dot h' = k \<and> v = verdict_of as"
    if "map_of ?c k = Some (v, t)" for k v t
  proof (cases "k = hostname_no_dot h")
    case True
    then show ?thesis using that by (auto simp: update_conv')
  next
    case False
    then have "map_of (verdicts w) k = Some (v, t)" using that c(3) by (simp add: update_conv')
    then obtain h' as where "(t, h', as) \<in> set (answers w)" "hostname_no_dot h' = k" "v = verdict_of as"
      using assms(1) unfolding dns_inv_def by blast
    then show ?thesis by (intro exI [of _ h'] exI [of _ as]) simp
  qed
  ultimately show ?thesis unfolding dns_inv_def w' by simp
qed

lemma dns_init_inv: "dns_init w \<Longrightarrow> dns_inv w"
  by (simp add: dns_init_def dns_inv_def)

interpretation dns: invariant_system dns_init dns_step dns_inv
  by unfold_locales (blast intro: dns_init_inv dns_step_inv)+

text \<open>The cache of verdicts stays within its bound with one entry per key, and a host reported
  Safe always rests on a lookup under a minute old, of a name with the same cache key, that
  answered with public addresses only.\<close>

theorem safe_verdict_rests_on_lookup:
  assumes "reach dns_init dns_step w"
    and "fst (resolve_host_verdict dns now (hostname_no_dot h) h (verdicts w)) = Safe"
  shows "length (verdicts w) \<le> 4096 \<and> distinct (map fst (verdicts w)) \<and>
    ((\<exists>addrs. dns h = Some addrs \<and> (\<forall>ip \<in> set addrs. \<not> is_blocked_ip ip)) \<or>
     (\<exists>t h' addrs. (t, h', addrs) \<in> set (answers w) \<and> now - t < 60000 \<and>
        hostname_no_dot h' = hostname_no_dot h \<and> (\<forall>ip \<in> set addrs. \<not> is_blocked_ip ip)))"
proof -
  have inv: "dns_inv w" by (rule dns.reach_inv [OF assms(1)])
  then have b: "length (verdicts w) \<le> 4096" "distinct (map fst (verdicts w))"
    by (simp_all add: dns_inv_def dns_cache_max_entries_def)
  show ?thesis
  proof (cases "fresh_verdict now (hostname_no_dot h) (verdicts w)")
    case None
    show ?thesis using assms(2) b unfolding resolve_stale [OF None]
      by (auto split: option.splits if_splits)
  next
    case (Some v)
    then have "v = Safe" using assms(2) by (simp add: resolve_fresh)
    then obtain t where t: "map_of (verdicts w) (hostname_no_dot h) = Some (Safe, t)" "now - t < 60000"
      using Some by (auto simp: fresh_verdict_def dns_verdict_ttl_def split: option.splits if_splits)
    then obtain h' addrs where "(t, h', addrs) \<in> set (answers w)" "hostname_no_dot h' = hostname_no_dot h"
      "Safe = verdict_of addrs"
      using inv unfolding dns_inv_def by blast
    moreover from this have "\<forall>ip \<in> set addrs. \<not> is_blocked_ip ip" by (auto simp: verdict_of_def split: if_splits)
    ultimately show ?thesis using b t(2) by blast
  qed
qed

theorem safe_verdict_rests_on_lookup_witness:
  "length (verdicts \<lparr>verdicts = [], answers = []\<rparr>) \<le> 4096 \<and> \<not> is_blocked_ip (V4 0x08080808)"
proof -
  let ?w = "\<lparr>verdicts = [], answers = []\<rparr>"
  have r: "reach dns_init dns_step ?w" by (rule reach_init) (simp add: dns_init_def)
  have "fst (resolve_host_verdict sample_dns 0 (hostname_no_dot ''a'') ''a'' (verdicts ?w)) = Safe"
    using sample_parts(3) by (simp add: resolve_stale fresh_verdict_def sample_dns_def)
  from safe_verdict_rests_on_lookup [OF r this] show ?thesis by (simp add: sample_dns_def)
qed

text \<open>The cache key drops case and trailing dots, the lookup does not: two spellings share a verdict.\<close>

lemma dns_key_conflates: "hostname_no_dot ''h.'' = hostname_no_dot ''h''"
  by (simp add: hostname_no_dot_def hostname_clean_def ascii_lower_def ascii_lower_byte_def trim_matches_def
        trim_start_matches_def trim_end_matches_def is_bracket_def)

end
