(* ===== verification/CookieJar.thy ===== *)
theory CookieJar
  imports F64 "HOL-Library.Multiset"
begin

text \<open>
  The cookie jar of the browserless HTTP lane (\<open>src/src/automation/http_lane/jar.rs\<close>): the stored
  cookies with their eviction policy, the RFC 6265 matching rules, the \<open>Cookie:\<close> header, the
  treatment of \<open>Set-Cookie:\<close> headers and the persisted session format.

  A parsed URL (\<open>url\<close> crate) is a record of the three parts the code reads. The date parsers of
  \<open>chrono\<close> and the Unicode upper-casing of a non-ASCII character are parameters. The wall clock is an
  argument. Every \<open>f64\<close> here is finite, so it is a rational rounded as \<open>F64\<close> says.
\<close>

section \<open>State\<close>

record stored_cookie =
  ck_name :: string
  ck_value :: string
  ck_domain :: string
  ck_path :: string
  ck_expires :: rat
  ck_http_only :: bool
  ck_secure :: bool
  ck_same_site :: "string option"
  ck_index :: nat

definition max_cookies :: nat where
  "max_cookies = 512"

record cookie_jar =
  cookies :: "stored_cookie list"
  next_index :: nat

definition empty_jar :: cookie_jar where
  "empty_jar = \<lparr>cookies = [], next_index = 0\<rparr>"

record request_url =
  url_host :: "string option"
  url_scheme :: string
  url_path :: string

definition cookie_expired :: "rat \<Rightarrow> stored_cookie \<Rightarrow> bool" where
  "cookie_expired now c \<longleftrightarrow> ck_expires c \<noteq> - 1 \<and> ck_expires c \<le> now"

text \<open>Eviction: the first expired cookie, else the oldest one.\<close>

definition make_room :: "rat \<Rightarrow> stored_cookie list \<Rightarrow> stored_cookie list" where
  "make_room now cs =
     (if length cs < max_cookies then cs
      else if \<exists>c \<in> set cs. cookie_expired now c then remove_first (cookie_expired now) cs
      else remove_first (\<lambda>c. ck_index c = Min (ck_index ` set cs)) cs)"

definition same_slot :: "string \<Rightarrow> string \<Rightarrow> string \<Rightarrow> stored_cookie \<Rightarrow> bool" where
  "same_slot name domain path c \<longleftrightarrow> ck_name c = name \<and> ck_domain c = domain \<and> ck_path c = path"

text \<open>The common tail of \<open>set_cookie\<close> and \<open>store_set_cookie\<close>: replace, make room, append.\<close>

definition put_cookie :: "rat \<Rightarrow> (nat \<Rightarrow> stored_cookie) \<Rightarrow> cookie_jar \<Rightarrow> cookie_jar" where
  "put_cookie now mk jar =
     (let c = mk (next_index jar);
          kept = filter (\<lambda>x. \<not> same_slot (ck_name c) (ck_domain c) (ck_path c) x) (cookies jar)
      in \<lparr>cookies = make_room now kept @ [c], next_index = next_index jar + 1\<rparr>)"

section \<open>The persisted session\<close>

definition ascii_upper_byte :: "char \<Rightarrow> char" where
  "ascii_upper_byte c =
     (if 97 \<le> (of_char c :: nat) \<and> (of_char c :: nat) \<le> 122 then char_of ((of_char c :: nat) - 32) else c)"

definition normalize_same_site :: "(string \<Rightarrow> string) \<Rightarrow> string \<Rightarrow> string" where
  "normalize_same_site upper v =
     (let t = ascii_lower (trim v)
      in if t = ''strict'' then ''Strict''
         else if t = ''lax'' then ''Lax''
         else if t = ''none'' then ''None''
         else (let k = first_char_len t; f = take k t
               in (if k = 1 then map ascii_upper_byte f else upper f) @ drop k t))"

definition as_f64 :: "json \<Rightarrow> rat option" where
  "as_f64 v = (case v of JInt n \<Rightarrow> Some (i64_to_f64 n) | JFloat r \<Rightarrow> Some r | _ \<Rightarrow> None)"

definition cookie_of_json :: "(string \<Rightarrow> string) \<Rightarrow> nat \<Rightarrow> json \<Rightarrow> stored_cookie option" where
  "cookie_of_json upper idx v =
     (case (get_str ''name'' v, get_str ''value'' v) of
        (Some n, Some x) \<Rightarrow>
          Some \<lparr>ck_name = n, ck_value = x, ck_domain = unwrap_or '''' (get_str ''domain'' v),
                ck_path = unwrap_or ''/'' (get_str ''path'' v),
                ck_expires = unwrap_or (- 1) (Option.bind (json_get ''expires'' v) as_f64),
                ck_http_only = unwrap_or False (get_bool ''httpOnly'' v),
                ck_secure = unwrap_or False (get_bool ''secure'' v),
                ck_same_site = map_option (normalize_same_site upper) (get_str ''sameSite'' v),
                ck_index = idx\<rparr>
      | _ \<Rightarrow> None)"

fun seed_cookies :: "(string \<Rightarrow> string) \<Rightarrow> json list \<Rightarrow> cookie_jar \<Rightarrow> cookie_jar" where
  "seed_cookies upper [] jar = jar"
| "seed_cookies upper (v # vs) jar =
     (case cookie_of_json upper (next_index jar) v of
        None \<Rightarrow> seed_cookies upper vs jar
      | Some c \<Rightarrow>
          if max_cookies \<le> length (cookies jar) then jar
          else seed_cookies upper vs \<lparr>cookies = cookies jar @ [c], next_index = next_index jar + 1\<rparr>)"

definition from_session_cookies :: "(string \<Rightarrow> string) \<Rightarrow> json list \<Rightarrow> cookie_jar" where
  "from_session_cookies upper vs = seed_cookies upper vs empty_jar"

definition cookie_to_json :: "stored_cookie \<Rightarrow> json" where
  "cookie_to_json c =
     JObj [(''name'', JStr (ck_name c)), (''value'', JStr (ck_value c)), (''domain'', JStr (ck_domain c)),
           (''path'', JStr (ck_path c)),
           (''expires'', if ck_expires c = - 1 then JInt (- 1) else JFloat (ck_expires c)),
           (''httpOnly'', JBool (ck_http_only c)), (''secure'', JBool (ck_secure c)),
           (''sameSite'', case ck_same_site c of Some s \<Rightarrow> JStr s | None \<Rightarrow> JNull)]"

definition to_session_cookies :: "cookie_jar \<Rightarrow> json list" where
  "to_session_cookies jar = map cookie_to_json (cookies jar)"

section \<open>Lookups and direct stores\<close>

definition is_empty_jar :: "cookie_jar \<Rightarrow> bool" where
  "is_empty_jar jar \<longleftrightarrow> cookies jar = []"

text \<open>\<open>max_by_key\<close> keeps the last maximum.\<close>

definition value_of :: "cookie_jar \<Rightarrow> string \<Rightarrow> string option" where
  "value_of jar name =
     (let cs = filter (\<lambda>c. ck_name c = name) (cookies jar)
      in if cs = [] then None
         else map_option ck_value (find (\<lambda>c. ck_index c = Max (ck_index ` set cs)) (rev cs)))"

definition set_cookie :: "rat \<Rightarrow> string \<Rightarrow> string \<Rightarrow> string \<Rightarrow> string \<Rightarrow> cookie_jar \<Rightarrow> cookie_jar" where
  "set_cookie now name val domain path jar =
     put_cookie now (\<lambda>idx. \<lparr>ck_name = name, ck_value = val, ck_domain = domain, ck_path = path,
       ck_expires = - 1, ck_http_only = False, ck_secure = False, ck_same_site = None, ck_index = idx\<rparr>) jar"

definition clear_jar :: "cookie_jar \<Rightarrow> cookie_jar" where
  "clear_jar jar = jar\<lparr>cookies := []\<rparr>"

section \<open>Matching and the Cookie header\<close>

definition domain_matches :: "string \<Rightarrow> string \<Rightarrow> bool" where
  "domain_matches host d =
     (if d = [] then False
      else case strip_prefix ''.'' d of
             Some bare \<Rightarrow> host = bare \<or> ends_with host (CHR ''.'' # bare)
           | None \<Rightarrow> host = d)"

definition path_matches :: "string \<Rightarrow> string \<Rightarrow> bool" where
  "path_matches req p =
     (if p = req then True
      else case strip_prefix p req of
             Some rest \<Rightarrow> ends_with p ''/'' \<or> starts_with rest ''/''
           | None \<Rightarrow> False)"

definition default_path :: "request_url \<Rightarrow> string" where
  "default_path u =
     (let p = url_path u
      in if \<not> starts_with p ''/'' then ''/''
         else case rfind_byte CHR ''/'' p of
                None \<Rightarrow> ''/''
              | Some i \<Rightarrow> if i = 0 then ''/'' else take i p)"

text \<open>The comparison of \<open>sort_by\<close>: longer paths first, then earlier creation.\<close>

datatype send_order = Send_Order (order_path_len: nat) (order_index: nat)

instantiation send_order :: linorder
begin

definition less_eq_send_order :: "send_order \<Rightarrow> send_order \<Rightarrow> bool" where
  "less_eq_send_order a b \<longleftrightarrow>
     order_path_len b < order_path_len a \<or>
     (order_path_len b = order_path_len a \<and> order_index a \<le> order_index b)"

definition less_send_order :: "send_order \<Rightarrow> send_order \<Rightarrow> bool" where
  "less_send_order a b \<longleftrightarrow> a \<le> b \<and> \<not> b \<le> (a :: send_order)"

instance
  by intro_classes (auto simp: less_eq_send_order_def less_send_order_def intro: send_order.expand)

end

definition send_key :: "stored_cookie \<Rightarrow> send_order" where
  "send_key c = Send_Order (length (ck_path c)) (ck_index c)"

definition cookie_sendable :: "string \<Rightarrow> bool \<Rightarrow> string \<Rightarrow> rat \<Rightarrow> stored_cookie \<Rightarrow> bool" where
  "cookie_sendable host is_https req_path now c =
     (if ck_expires c \<noteq> - 1 \<and> ck_expires c \<le> now then False
      else if ck_secure c \<and> \<not> is_https then False
      else if \<not> domain_matches host (ck_domain c) then False
      else path_matches req_path (ck_path c))"

definition matching_cookies :: "cookie_jar \<Rightarrow> request_url \<Rightarrow> rat \<Rightarrow> stored_cookie list" where
  "matching_cookies jar u now =
     (case url_host u of
        None \<Rightarrow> []
      | Some h \<Rightarrow>
          sort_key send_key
            (filter (cookie_sendable (ascii_lower h) (url_scheme u = ''https'')
                       (if url_path u = [] then ''/'' else url_path u) now) (cookies jar)))"

definition cookie_header_for :: "cookie_jar \<Rightarrow> request_url \<Rightarrow> rat \<Rightarrow> string option" where
  "cookie_header_for jar u now =
     (let ms = matching_cookies jar u now
      in if ms = [] then None
         else Some (join_with ''; '' (map (\<lambda>c. ck_name c @ ''='' @ ck_value c) ms)))"

section \<open>Set-Cookie\<close>

record cookie_attrs =
  at_domain :: "string option"
  at_path :: "string option"
  at_expires :: "rat option"
  at_max_age :: "rat option"
  at_http_only :: bool
  at_secure :: bool
  at_same_site :: "string option"

definition no_attrs :: cookie_attrs where
  "no_attrs = \<lparr>at_domain = None, at_path = None, at_expires = None, at_max_age = None,
               at_http_only = False, at_secure = False, at_same_site = None\<rparr>"

definition cookie_attr ::
    "(string \<Rightarrow> string) \<Rightarrow> (string \<Rightarrow> int option) \<Rightarrow> cookie_attrs \<Rightarrow> string \<Rightarrow> cookie_attrs" where
  "cookie_attr upper parse_date a attr0 =
     (let attr = trim attr0;
          kv = (case split_once CHR ''='' attr of Some (k, v) \<Rightarrow> (trim k, trim v) | None \<Rightarrow> (attr, ''''));
          k = ascii_lower (fst kv); v = snd kv
      in if k = ''domain'' \<and> v \<noteq> [] then
           a\<lparr>at_domain := Some (ascii_lower (trim_start_matches (\<lambda>c. c = CHR ''.'') v))\<rparr>
         else if k = ''path'' \<and> starts_with v ''/'' then a\<lparr>at_path := Some v\<rparr>
         else if k = ''expires'' then
           (case parse_date v of Some t \<Rightarrow> a\<lparr>at_expires := Some (i64_to_f64 t)\<rparr> | None \<Rightarrow> a)
         else if k = ''max-age'' then
           (case parse_i64 v of Some n \<Rightarrow> a\<lparr>at_max_age := Some (i64_to_f64 n)\<rparr> | None \<Rightarrow> a)
         else if k = ''httponly'' then a\<lparr>at_http_only := True\<rparr>
         else if k = ''secure'' then a\<lparr>at_secure := True\<rparr>
         else if k = ''samesite'' \<and> v \<noteq> [] then a\<lparr>at_same_site := Some (normalize_same_site upper v)\<rparr>
         else a)"

definition cookie_domain :: "string \<Rightarrow> cookie_attrs \<Rightarrow> string option" where
  "cookie_domain host a =
     (case at_domain a of
        Some d \<Rightarrow> if host = d \<or> ends_with host (CHR ''.'' # d) then Some (CHR ''.'' # d) else None
      | None \<Rightarrow> Some host)"

definition cookie_expiry :: "rat \<Rightarrow> cookie_attrs \<Rightarrow> rat" where
  "cookie_expiry now a =
     (case at_max_age a of Some ma \<Rightarrow> f64_add now ma | None \<Rightarrow> unwrap_or (- 1) (at_expires a))"

definition store_set_cookie ::
    "(string \<Rightarrow> string) \<Rightarrow> (string \<Rightarrow> int option) \<Rightarrow> rat \<Rightarrow> request_url \<Rightarrow> string \<Rightarrow> cookie_jar \<Rightarrow> cookie_jar" where
  "store_set_cookie upper parse_date now u sc jar =
     (case url_host u of
        None \<Rightarrow> jar
      | Some h \<Rightarrow>
          (let host = ascii_lower h; parts = split_byte CHR '';'' sc
           in case split_once CHR ''='' (hd parts) of
                None \<Rightarrow> jar
              | Some (n0, v0) \<Rightarrow>
                  (let name = trim n0; val = trim v0
                   in if name = [] then jar
                      else (let a = foldl (cookie_attr upper parse_date) no_attrs (tl parts)
                            in case cookie_domain host a of
                                 None \<Rightarrow> jar
                               | Some d \<Rightarrow>
                                   put_cookie now (\<lambda>idx.
                                     \<lparr>ck_name = name, ck_value = val, ck_domain = d,
                                      ck_path = unwrap_or (default_path u) (at_path a),
                                      ck_expires = cookie_expiry now a, ck_http_only = at_http_only a,
                                      ck_secure = at_secure a, ck_same_site = at_same_site a,
                                      ck_index = idx\<rparr>) jar))))"

section \<open>The eviction policy\<close>

definition jar_inv :: "cookie_jar \<Rightarrow> bool" where
  "jar_inv jar \<longleftrightarrow>
     length (cookies jar) \<le> max_cookies \<and> sorted_wrt (<) (map ck_index (cookies jar)) \<and>
     (\<forall>c \<in> set (cookies jar). ck_index c < next_index jar)"

lemma make_room_subset: "set (make_room now cs) \<subseteq> set cs"
  unfolding make_room_def using remove_first_subset [of _ cs] by (auto split: if_splits)

lemma sorted_wrt_remove_first: "sorted_wrt R (map f xs) \<Longrightarrow> sorted_wrt R (map f (remove_first P xs))"
proof (induction xs)
  case (Cons x xs)
  then show ?case using remove_first_subset [of P xs] by auto
qed simp

lemma sorted_wrt_make_room: "sorted_wrt R (map f cs) \<Longrightarrow> sorted_wrt R (map f (make_room now cs))"
  by (simp add: make_room_def sorted_wrt_remove_first)

lemma oldest_exists: "cs \<noteq> [] \<Longrightarrow> \<exists>c \<in> set cs. ck_index c = Min (ck_index ` set cs)"
  by (metis (mono_tags, lifting) List.finite_set Min_in finite_imageI image_iff image_is_empty set_empty)

lemma length_make_room:
  "length (make_room now cs) = (if length cs < max_cookies then length cs else length cs - 1)"
proof (cases "length cs < max_cookies")
  case False
  then have "cs \<noteq> []" by (auto simp: max_cookies_def)
  note old = length_remove_first [OF oldest_exists [OF this]]
  show ?thesis
  proof (cases "\<exists>c \<in> set cs. cookie_expired now c")
    case True
    from length_remove_first [OF this] show ?thesis using True False by (simp add: make_room_def)
  next
    case noexp: False
    show ?thesis unfolding make_room_def if_not_P [OF False] if_not_P [OF noexp] using old by linarith
  qed
qed (simp add: make_room_def)

text \<open>A cookie that making room drops: the jar is full, and it is expired or there is no expired
  cookie and it is the oldest.\<close>

lemma remove_first_lost: "c \<in> set cs \<Longrightarrow> c \<notin> set (remove_first P cs) \<Longrightarrow> P c"
  using remove_first_keeps by metis

lemma make_room_lost:
  assumes "c \<in> set cs" "c \<notin> set (make_room now cs)"
  shows "max_cookies \<le> length cs \<and>
    (cookie_expired now c \<or>
     (\<forall>d \<in> set cs. \<not> cookie_expired now d \<and> ck_index c \<le> ck_index d))"
  using assms by (auto simp: make_room_def dest: remove_first_lost split: if_splits)

lemma sorted_wrt_filter_map: "sorted_wrt R (map f xs) \<Longrightarrow> sorted_wrt R (map f (filter P xs))"
  by (induction xs) auto

lemma put_cookie_inv:
  assumes "jar_inv jar" "\<And>i. ck_index (mk i) = i"
  shows "jar_inv (put_cookie now mk jar)"
proof -
  define kept where "kept = filter (\<lambda>x. \<not> same_slot (ck_name (mk (next_index jar)))
    (ck_domain (mk (next_index jar))) (ck_path (mk (next_index jar))) x) (cookies jar)"
  have p: "put_cookie now mk jar = \<lparr>cookies = make_room now kept @ [mk (next_index jar)], next_index = next_index jar + 1\<rparr>"
    by (simp add: put_cookie_def kept_def Let_def)
  have k: "set kept \<subseteq> set (cookies jar)" "length kept \<le> max_cookies"
    "sorted_wrt (<) (map ck_index kept)"
    using assms(1) by (auto simp: kept_def jar_inv_def intro: sorted_wrt_filter_map le_trans [OF length_filter_le])
  have i: "ck_index c < next_index jar" if "c \<in> set (make_room now kept)" for c
    using that make_room_subset k(1) assms(1) unfolding jar_inv_def by blast
  have "length (make_room now kept) < max_cookies"
    using k(2) by (auto simp: length_make_room max_cookies_def)
  moreover have "sorted_wrt (<) (map ck_index (make_room now kept @ [mk (next_index jar)]))"
    using sorted_wrt_make_room [OF k(3)] i assms(2) by (auto simp: sorted_wrt_append)
  ultimately show ?thesis
    using i assms(2) unfolding p jar_inv_def by (auto simp: less_Suc_eq)
qed

lemma put_cookie_entries:
  "set (cookies (put_cookie now mk jar)) \<subseteq> insert (mk (next_index jar)) (set (cookies jar))"
  using make_room_subset by (fastforce simp: put_cookie_def Let_def)

lemma set_cookie_inv: "jar_inv jar \<Longrightarrow> jar_inv (set_cookie now n v d p jar)"
  unfolding set_cookie_def by (rule put_cookie_inv) simp_all

lemma store_set_cookie_inv: "jar_inv jar \<Longrightarrow> jar_inv (store_set_cookie upper pd now u sc jar)"
  unfolding store_set_cookie_def Let_def
  by (auto split: option.split prod.split intro: put_cookie_inv)

lemma clear_jar_inv: "jar_inv jar \<Longrightarrow> jar_inv (clear_jar jar)"
  by (simp add: jar_inv_def clear_jar_def)

lemma cookie_of_json_index: "cookie_of_json upper i v = Some c \<Longrightarrow> ck_index c = i"
  by (auto simp: cookie_of_json_def split: option.splits)

lemma seed_cookies_inv: "jar_inv jar \<Longrightarrow> jar_inv (seed_cookies upper vs jar)"
proof (induction vs arbitrary: jar)
  case (Cons v vs)
  show ?case
  proof (cases "cookie_of_json upper (next_index jar) v")
    case None
    then show ?thesis using Cons by simp
  next
    case (Some c)
    show ?thesis
    proof (cases "max_cookies \<le> length (cookies jar)")
      case True
      then show ?thesis using Some Cons.prems by simp
    next
      case False
      then have "jar_inv \<lparr>cookies = cookies jar @ [c], next_index = next_index jar + 1\<rparr>"
        using Cons.prems cookie_of_json_index [OF Some]
        by (auto simp: jar_inv_def sorted_wrt_append less_Suc_eq)
      then show ?thesis using Cons.IH Some False by simp
    qed
  qed
qed simp

lemma from_session_inv: "jar_inv (from_session_cookies upper vs)"
  unfolding from_session_cookies_def
  by (rule seed_cookies_inv) (simp add: jar_inv_def empty_jar_def)

text \<open>Storing a cookie keeps the jar within 512 entries in creation order, the new cookie is
  there, and any other cookie that disappears either has its name, domain and path, or was evicted
  because 512 others were stored: an expired one, or, when none is expired, the oldest.\<close>

theorem cookie_eviction:
  assumes "jar_inv jar"
  shows "jar_inv (set_cookie now n v d p jar) \<and>
    (\<exists>c \<in> set (cookies (set_cookie now n v d p jar)). same_slot n d p c \<and> ck_value c = v) \<and>
    (\<forall>c \<in> set (cookies jar). c \<notin> set (cookies (set_cookie now n v d p jar)) \<longrightarrow>
       same_slot n d p c \<or>
       (length (cookies jar) = 512 \<and>
        (cookie_expired now c \<or>
         (\<forall>e \<in> set (cookies jar). \<not> same_slot n d p e \<longrightarrow> \<not> cookie_expired now e \<and> ck_index c \<le> ck_index e))))"
proof (intro conjI ballI impI)
  show "jar_inv (set_cookie now n v d p jar)" using assms by (rule set_cookie_inv)
  show "\<exists>c \<in> set (cookies (set_cookie now n v d p jar)). same_slot n d p c \<and> ck_value c = v"
    by (simp add: set_cookie_def put_cookie_def same_slot_def)
next
  fix c assume c: "c \<in> set (cookies jar)" "c \<notin> set (cookies (set_cookie now n v d p jar))"
  define kept where "kept = filter (\<lambda>x. \<not> same_slot n d p x) (cookies jar)"
  have lk: "length kept \<le> length (cookies jar)" by (simp add: kept_def)
  have lj: "length (cookies jar) \<le> 512" using assms by (simp add: jar_inv_def max_cookies_def)
  show "same_slot n d p c \<or> (length (cookies jar) = 512 \<and> (cookie_expired now c \<or>
         (\<forall>e \<in> set (cookies jar). \<not> same_slot n d p e \<longrightarrow> \<not> cookie_expired now e \<and> ck_index c \<le> ck_index e)))"
  proof (cases "same_slot n d p c")
    case False
    then have "c \<in> set kept" "c \<notin> set (make_room now kept)"
      using c by (simp_all add: set_cookie_def put_cookie_def kept_def)
    from make_room_lost [OF this] have e: "512 \<le> length kept"
      "cookie_expired now c \<or> (\<forall>e \<in> set kept. \<not> cookie_expired now e \<and> ck_index c \<le> ck_index e)"
      by (simp_all add: max_cookies_def)
    then have "length (cookies jar) = 512" using lk lj by linarith
    with e(2) show ?thesis by (auto simp: kept_def)
  qed simp
qed

theorem cookie_eviction_witness: "jar_inv (set_cookie 0 ''a'' ''b'' ''h'' ''/'' empty_jar)"
  using cookie_eviction [of empty_jar 0 "''a''" "''b''" "''h''" "''/''"] by (simp add: jar_inv_def empty_jar_def)

section \<open>Which cookies reach which hosts\<close>

definition set_by :: "string \<Rightarrow> string \<Rightarrow> bool" where
  "set_by host d \<longleftrightarrow> d = host \<or> (\<exists>e. d = CHR ''.'' # e \<and> (host = e \<or> ends_with host (CHR ''.'' # e)))"

lemma cookie_domain_set_by: "cookie_domain host a = Some d \<Longrightarrow> set_by host d"
  by (auto simp: cookie_domain_def set_by_def split: option.splits if_splits)

lemma put_cookie_origin:
  "c \<in> set (cookies (put_cookie now mk jar)) \<Longrightarrow> c \<in> set (cookies jar) \<or> c = mk (next_index jar)"
  using put_cookie_entries by fastforce

text \<open>A response: the URL it came from, its \<open>Set-Cookie\<close> header and the time it arrived.\<close>

type_synonym response = "request_url \<times> string \<times> rat"

definition receive :: "(string \<Rightarrow> string) \<Rightarrow> (string \<Rightarrow> int option) \<Rightarrow> response \<Rightarrow> cookie_jar \<Rightarrow> cookie_jar" where
  "receive upper pd r jar = (case r of (u, sc, now) \<Rightarrow> store_set_cookie upper pd now u sc jar)"

definition response_made :: "response \<Rightarrow> stored_cookie \<Rightarrow> bool" where
  "response_made r c \<longleftrightarrow> (\<exists>h. url_host (fst r) = Some h \<and> set_by (ascii_lower h) (ck_domain c))"

lemma receive_origin:
  "c \<in> set (cookies (receive upper pd r jar)) \<Longrightarrow> c \<in> set (cookies jar) \<or> response_made r c"
  by (auto simp: receive_def store_set_cookie_def Let_def response_made_def cookie_domain_set_by
      split: prod.splits option.splits if_splits dest!: put_cookie_origin)

lemma receive_cap: "length (cookies jar) \<le> max_cookies \<Longrightarrow> length (cookies (receive upper pd r jar)) \<le> max_cookies"
proof -
  assume l: "length (cookies jar) \<le> max_cookies"
  have "length (cookies (put_cookie now mk jar)) \<le> max_cookies" for now mk
  proof -
    define kept where "kept = filter (\<lambda>x. \<not> same_slot (ck_name (mk (next_index jar)))
      (ck_domain (mk (next_index jar))) (ck_path (mk (next_index jar))) x) (cookies jar)"
    have "length kept \<le> max_cookies" unfolding kept_def by (rule le_trans [OF length_filter_le l])
    then have "length (make_room now kept) + 1 \<le> max_cookies" by (auto simp: length_make_room max_cookies_def)
    then show ?thesis by (simp add: put_cookie_def Let_def kept_def)
  qed
  then show ?thesis
    using l by (auto simp: receive_def store_set_cookie_def Let_def split: prod.split option.split)
qed

interpretation jar: bounded_store cookies "receive upper pd" max_cookies response_made for upper pd
  by unfold_locales (use receive_cap receive_origin in blast)+

lemma set_by_matches: "set_by host d \<Longrightarrow> d \<noteq> [] \<Longrightarrow> domain_matches host d"
  by (auto simp: set_by_def domain_matches_def strip_prefix_Some split: option.splits)
    (auto simp: strip_prefix_def starts_with_iff ends_with_iff split: if_splits)

lemma cookie_sendable_iff: "cookie_sendable h s p now c \<longleftrightarrow>
    \<not> cookie_expired now c \<and> (ck_secure c \<longrightarrow> s) \<and> domain_matches h (ck_domain c) \<and> path_matches p (ck_path c)"
  by (simp add: cookie_sendable_def cookie_expired_def)

lemma matching_cookiesD:
  assumes "c \<in> set (matching_cookies jar u now)"
  obtains h where "url_host u = Some h" "c \<in> set (cookies jar)" "domain_matches (ascii_lower h) (ck_domain c)"
    "\<not> cookie_expired now c" "ck_secure c \<longrightarrow> url_scheme u = ''https''"
    "path_matches (if url_path u = [] then ''/'' else url_path u) (ck_path c)"
proof (cases "url_host u")
  case None
  then show ?thesis using assms by (simp add: matching_cookies_def)
next
  case (Some h)
  then show ?thesis
    using assms that [of h] by (simp add: matching_cookies_def cookie_sendable_iff)
qed

text \<open>C8. Cookie isolation over a whole run: whatever responses a jar received, a cookie it sends to a
  host was set by a response of a host that the cookie's domain covers too (the same host, for a
  host-only cookie); it is unexpired, a \<open>Secure\<close> one goes over https only, and its path covers the
  request's.\<close>

theorem cookie_isolation:
  assumes "c \<in> set (matching_cookies (fold (receive upper pd) rs empty_jar) u now)"
  shows "\<exists>h r h'. url_host u = Some h \<and> r \<in> set rs \<and> url_host (fst r) = Some h' \<and>
    domain_matches (ascii_lower h) (ck_domain c) \<and> domain_matches (ascii_lower h') (ck_domain c) \<and>
    (\<not> starts_with (ck_domain c) ''.'' \<longrightarrow> ascii_lower h = ascii_lower h') \<and>
    \<not> cookie_expired now c \<and> (ck_secure c \<longrightarrow> url_scheme u = ''https'') \<and>
    path_matches (if url_path u = [] then ''/'' else url_path u) (ck_path c)"
proof -
  from assms obtain h where h: "url_host u = Some h" "c \<in> set (cookies (fold (receive upper pd) rs empty_jar))"
    "domain_matches (ascii_lower h) (ck_domain c)" "\<not> cookie_expired now c"
    "ck_secure c \<longrightarrow> url_scheme u = ''https''"
    "path_matches (if url_path u = [] then ''/'' else url_path u) (ck_path c)"
    by (rule matching_cookiesD)
  from jar.fold_origin [OF h(2)] obtain r h' where r: "r \<in> set rs" "url_host (fst r) = Some h'"
    "set_by (ascii_lower h') (ck_domain c)"
    by (auto simp: empty_jar_def response_made_def)
  have "ck_domain c \<noteq> []" using h(3) by (auto simp: domain_matches_def)
  then have m: "domain_matches (ascii_lower h') (ck_domain c)" using r(3) by (rule set_by_matches [rotated])
  have "ascii_lower h = ascii_lower h'" if "\<not> starts_with (ck_domain c) ''.''"
    using that h(3) m by (auto simp: domain_matches_def strip_prefix_def split: if_splits)
  with h r m show ?thesis by blast
qed

definition sample_url :: "string \<Rightarrow> request_url" where
  "sample_url h = \<lparr>url_host = Some h, url_scheme = ''https'', url_path = ''/x''\<rparr>"

definition sample_cookie :: stored_cookie where
  "sample_cookie = \<lparr>ck_name = ''a'', ck_value = ''b'', ck_domain = ''h'', ck_path = ''/'', ck_expires = - 1,
     ck_http_only = False, ck_secure = False, ck_same_site = None, ck_index = 0\<rparr>"

lemma sample_received: "sample_cookie \<in> set (matching_cookies
    (fold (receive id (\<lambda>_. None)) [(sample_url ''h'', ''a=b'', 0)] empty_jar) (sample_url ''h'') 5)"
  by (simp add: receive_def sample_url_def store_set_cookie_def split_once_def trim_printable
      printable_def cookie_domain_def no_attrs_def put_cookie_def empty_jar_def make_room_def
      max_cookies_def default_path_def rfind_byte_def starts_with_def cookie_expiry_def sample_cookie_def
      matching_cookies_def cookie_sendable_def domain_matches_def strip_prefix_def path_matches_def
      ends_with_def ascii_lower_def ascii_lower_byte_def)

theorem cookie_isolation_witness: "domain_matches ''h'' (ck_domain sample_cookie)"
  using cookie_isolation [OF sample_received]
  by (auto simp: sample_url_def ascii_lower_def ascii_lower_byte_def)

section \<open>The Cookie header and the persisted session\<close>

definition by_path :: "stored_cookie \<Rightarrow> int" where
  "by_path c = - int (length (ck_path c))"

text \<open>In a list in creation order, the header's order is a stable sort by path length alone.\<close>

lemma sort_send_key:
  assumes "sorted_wrt (<) (map ck_index cs)"
  shows "sort_key send_key cs = sort_key by_path cs"
proof (rule sym, rule properties_for_sort_key)
  show "mset (sort_key send_key cs) = mset cs" by simp
  have "sorted (map send_key (sort_key send_key cs))" by simp
  then show "sorted (map by_path (sort_key send_key cs))"
    unfolding sorted_map
    by (rule sorted_wrt_mono_rel [rotated]) (auto simp: send_key_def less_eq_send_order_def by_path_def)
next
  fix k assume "k \<in> set (sort_key send_key cs)"
  have "sorted_wrt (\<lambda>x y. ck_index x < ck_index y) (filter (\<lambda>x. by_path k = by_path x) cs)"
    using assms by (auto simp: sorted_wrt_map intro: sorted_wrt_filter)
  then have "sorted_wrt (\<lambda>x y. send_key x \<le> send_key y) (filter (\<lambda>x. by_path k = by_path x) cs)"
    by (rule sorted_wrt_mono_rel [rotated]) (auto simp: send_key_def less_eq_send_order_def by_path_def)
  then show "filter (\<lambda>x. by_path k = by_path x) (sort_key send_key cs) = filter (\<lambda>x. by_path k = by_path x) cs"
    by (simp add: filter_sort sort_key_id_if_sorted sorted_map)
qed

definition request_path :: "request_url \<Rightarrow> string" where
  "request_path u = (if url_path u = [] then ''/'' else url_path u)"

lemma matching_by_path:
  assumes "sorted_wrt (<) (map ck_index (cookies jar))"
  shows "matching_cookies jar u now =
    (case url_host u of None \<Rightarrow> []
     | Some h \<Rightarrow> sort_key by_path (filter (cookie_sendable (ascii_lower h) (url_scheme u = ''https'') (request_path u) now) (cookies jar)))"
  using sort_send_key [OF sorted_wrt_filter_map [OF assms]]
  by (simp add: matching_cookies_def request_path_def split: option.split)

text \<open>The header lists exactly the cookies the matching rules select, once each, longer paths
  first and older cookies first among equals.\<close>

theorem cookie_header_exact:
  assumes "jar_inv jar" "url_host u = Some h"
  shows "\<exists>ms. cookie_header_for jar u now =
      (if ms = [] then None else Some (join_with ''; '' (map (\<lambda>c. ck_name c @ ''='' @ ck_value c) ms))) \<and>
    mset ms = mset (filter (\<lambda>c. \<not> cookie_expired now c \<and> (ck_secure c \<longrightarrow> url_scheme u = ''https'') \<and>
      domain_matches (ascii_lower h) (ck_domain c) \<and> path_matches (request_path u) (ck_path c)) (cookies jar)) \<and>
    sorted_wrt (\<lambda>a b. length (ck_path b) < length (ck_path a) \<or>
      (length (ck_path a) = length (ck_path b) \<and> ck_index a \<le> ck_index b)) ms"
proof (intro exI conjI)
  let ?ms = "matching_cookies jar u now"
  show "cookie_header_for jar u now =
      (if ?ms = [] then None else Some (join_with ''; '' (map (\<lambda>c. ck_name c @ ''='' @ ck_value c) ?ms)))"
    by (simp add: cookie_header_for_def Let_def)
  show "mset ?ms = mset (filter (\<lambda>c. \<not> cookie_expired now c \<and> (ck_secure c \<longrightarrow> url_scheme u = ''https'') \<and>
      domain_matches (ascii_lower h) (ck_domain c) \<and> path_matches (request_path u) (ck_path c)) (cookies jar))"
    unfolding matching_cookies_def assms(2) option.case mset_sort
    by (simp add: cookie_sendable_iff request_path_def cong: filter_cong)
  have "sorted (map send_key ?ms)" by (simp add: matching_cookies_def split: option.split)
  then show "sorted_wrt (\<lambda>a b. length (ck_path b) < length (ck_path a) \<or>
      (length (ck_path a) = length (ck_path b) \<and> ck_index a \<le> ck_index b)) ?ms"
    unfolding sorted_map
    by (rule sorted_wrt_mono_rel [rotated]) (auto simp: send_key_def less_eq_send_order_def)
qed

theorem cookie_header_exact_witness:
  "cookie_header_for \<lparr>cookies = [sample_cookie], next_index = 1\<rparr> (sample_url ''h'') 0 = Some ''a=b''"
proof -
  let ?jar = "\<lparr>cookies = [sample_cookie], next_index = 1\<rparr>"
  have j: "jar_inv ?jar" by (simp add: jar_inv_def sample_cookie_def max_cookies_def)
  have h: "url_host (sample_url ''h'') = Some ''h''" by (simp add: sample_url_def)
  have sendable: "\<not> cookie_expired 0 sample_cookie" "\<not> ck_secure sample_cookie"
    "domain_matches (ascii_lower ''h'') (ck_domain sample_cookie)"
    "path_matches (request_path (sample_url ''h'')) (ck_path sample_cookie)"
    by (simp_all add: sample_cookie_def cookie_expired_def ascii_lower_def ascii_lower_byte_def request_path_def
        sample_url_def domain_matches_def path_matches_def strip_prefix_def starts_with_def ends_with_def)
  obtain ms where ms: "cookie_header_for ?jar (sample_url ''h'') 0 =
      (if ms = [] then None else Some (join_with ''; '' (map (\<lambda>c. ck_name c @ ''='' @ ck_value c) ms)))"
    "mset ms = {#sample_cookie#}"
    using cookie_header_exact [OF j h, of 0] sendable by auto
  from ms(2) have "ms = [sample_cookie]" by (cases ms) auto
  then show ?thesis using ms(1) by (simp add: sample_cookie_def)
qed

section \<open>Persisting and restoring a session\<close>

definition plain_same_site :: "stored_cookie \<Rightarrow> bool" where
  "plain_same_site c \<longleftrightarrow> ck_same_site c \<in> {None, Some ''Strict'', Some ''Lax'', Some ''None''}"

lemma normalize_plain:
  "normalize_same_site upper ''Strict'' = ''Strict''" "normalize_same_site upper ''Lax'' = ''Lax''"
  "normalize_same_site upper ''None'' = ''None''"
proof -
  have l: "ascii_lower ''Strict'' = ''strict''" "ascii_lower ''Lax'' = ''lax''" "ascii_lower ''None'' = ''none''"
    by code_simp+
  show "normalize_same_site upper ''Strict'' = ''Strict''" "normalize_same_site upper ''Lax'' = ''Lax''"
    "normalize_same_site upper ''None'' = ''None''"
    by (simp_all add: normalize_same_site_def trim_printable printable_def l)
qed

lemma i64_to_f64_minus_one: "i64_to_f64 (- 1) = - 1"
  using i64_to_f64_exact [of "- 1"] by simp

lemma cookie_json_roundtrip:
  assumes "plain_same_site c"
  shows "cookie_of_json upper i (cookie_to_json c) = Some (c\<lparr>ck_index := i\<rparr>)"
proof -
  have "map_option (normalize_same_site upper)
      (get_str ''sameSite'' (cookie_to_json c)) = ck_same_site c"
    using assms
    by (auto simp: plain_same_site_def get_str_def cookie_to_json_def normalize_plain)
  moreover have "Option.bind (json_get ''expires'' (cookie_to_json c)) as_f64 = Some (ck_expires c)"
    by (simp add: cookie_to_json_def as_f64_def i64_to_f64_minus_one)
  ultimately show ?thesis
    by (simp add: cookie_of_json_def get_str_def get_bool_def cookie_to_json_def)
qed

fun renumber :: "nat \<Rightarrow> stored_cookie list \<Rightarrow> stored_cookie list" where
  "renumber i [] = []"
| "renumber i (c # cs) = c\<lparr>ck_index := i\<rparr> # renumber (i + 1) cs"

lemma seed_roundtrip:
  assumes "list_all plain_same_site cs" "length (cookies jar) + length cs \<le> max_cookies"
  shows "cookies (seed_cookies upper (map cookie_to_json cs) jar) = cookies jar @ renumber (next_index jar) cs"
  using assms by (induction cs arbitrary: jar) (auto simp: cookie_json_roundtrip)

lemma renumber_index: "map ck_index (renumber i cs) = [i ..< i + length cs]"
  by (induction cs arbitrary: i) (simp_all add: upt_rec)

definition same_cookie :: "stored_cookie \<Rightarrow> stored_cookie \<Rightarrow> bool" where
  "same_cookie a b \<longleftrightarrow> a\<lparr>ck_index := 0\<rparr> = b\<lparr>ck_index := 0\<rparr>"

lemma renumber_map:
  assumes "\<And>c i. f (c\<lparr>ck_index := i\<rparr>) = f c"
  shows "map f (renumber i cs) = map f cs"
  using assms by (induction cs arbitrary: i) auto

lemma map_filter_renumber:
  assumes "\<And>c i. P (c\<lparr>ck_index := i\<rparr>) = P c" "\<And>c i. f (c\<lparr>ck_index := i\<rparr>) = f c"
  shows "map f (filter P (renumber i cs)) = map f (filter P cs)"
  using assms by (induction cs arbitrary: i) auto

definition sent_as :: "stored_cookie \<Rightarrow> int \<times> string" where
  "sent_as c = (by_path c, ck_name c @ ''='' @ ck_value c)"

lemma header_of_sent:
  assumes "sorted_wrt (<) (map ck_index (cookies jar))" "url_host u = Some h"
  shows "cookie_header_for jar u now =
    (let ps = sort_key fst (map sent_as (filter (cookie_sendable (ascii_lower h) (url_scheme u = ''https'')
                (request_path u) now) (cookies jar)))
     in if ps = [] then None else Some (join_with ''; '' (map snd ps)))"
proof -
  have b: "by_path = (\<lambda>c. fst (sent_as c))" by (simp add: sent_as_def)
  have s: "(\<lambda>c. ck_name c @ ''='' @ ck_value c) = snd \<circ> sent_as" by (auto simp: sent_as_def)
  show ?thesis
    unfolding cookie_header_for_def Let_def matching_by_path [OF assms(1)] assms(2) option.case
      s map_map [symmetric] sort_key_map [symmetric] b
    by simp
qed

text \<open>Session round trip: a jar written to the session format and read back holds the same
  cookies in the same order, and sends exactly the same \<open>Cookie\<close> header to every URL at every time.\<close>

theorem session_roundtrip:
  assumes "jar_inv jar" "list_all plain_same_site (cookies jar)"
  shows "map (\<lambda>c. c\<lparr>ck_index := 0\<rparr>) (cookies (from_session_cookies upper (to_session_cookies jar))) =
      map (\<lambda>c. c\<lparr>ck_index := 0\<rparr>) (cookies jar) \<and>
    cookie_header_for (from_session_cookies upper (to_session_cookies jar)) u now = cookie_header_for jar u now"
proof -
  let ?jar = "from_session_cookies upper (to_session_cookies jar)"
  have c: "cookies ?jar = renumber 0 (cookies jar)"
    using seed_roundtrip [OF assms(2), of empty_jar upper] assms(1)
    by (simp add: from_session_cookies_def to_session_cookies_def empty_jar_def jar_inv_def)
  have i: "sorted_wrt (<) (map ck_index (cookies ?jar))" "sorted_wrt (<) (map ck_index (cookies jar))"
    using assms(1) by (simp_all add: c renumber_index jar_inv_def)
  show ?thesis
  proof (cases "url_host u")
    case None
    then show ?thesis by (simp add: cookie_header_for_def matching_cookies_def c renumber_map)
  next
    case (Some h)
    then show ?thesis
      by (simp add: header_of_sent [OF i(1) Some] header_of_sent [OF i(2) Some] c renumber_map
          map_filter_renumber cookie_sendable_def sent_as_def by_path_def)
  qed
qed

lemma sample_jar_ok: "jar_inv \<lparr>cookies = [sample_cookie], next_index = 1\<rparr>"
  "list_all plain_same_site (cookies \<lparr>cookies = [sample_cookie], next_index = 1\<rparr>)"
  by (simp_all add: jar_inv_def sample_cookie_def max_cookies_def plain_same_site_def)

theorem session_roundtrip_witness:
  "length (cookies (from_session_cookies id (to_session_cookies \<lparr>cookies = [sample_cookie], next_index = 1\<rparr>))) = 1"
  using session_roundtrip [OF sample_jar_ok, of id, THEN conjunct1, THEN arg_cong [where f = length]] by simp

text \<open>An \<open>Expires\<close> one second before the epoch, a common way to delete a cookie, coincides with the
  sentinel of a session cookie: the cookie is stored as one that never expires.\<close>

lemma expires_sentinel_collision:
  "cookie_expiry now (no_attrs\<lparr>at_expires := Some (i64_to_f64 (- 1))\<rparr>) = cookie_expiry now no_attrs"
  by (simp add: cookie_expiry_def no_attrs_def i64_to_f64_minus_one)

end
