(* ===== verification/Robots.thy ===== *)
theory Robots
  imports Prelude
begin

text \<open>
  robots.txt admission of the crawler (\<open>src/src/crawl_shard/robots.rs\<close>): the rules of the star group,
  the longest-match decision, the line parser with its rule cap, and the per-origin cache. URL parsing
  and the HTTP fetch are parameters; a fetch that fails, is refused or exceeds the size cap is \<open>None\<close>.
\<close>

definition max_rules :: nat where
  "max_rules = 4000"

record robots_rules =
  allow :: "string list"
  disallow :: "string list"

definition no_rules :: robots_rules where
  "no_rules = \<lparr>allow = [], disallow = []\<rparr>"

definition rule_matches :: "string \<Rightarrow> string \<Rightarrow> bool" where
  "rule_matches path rule = starts_with path (unwrap_or rule (strip_suffix ''*'' rule))"

text \<open>The two loops over the rules, with the best length so far and the decision.\<close>

definition allow_step :: "string \<Rightarrow> int \<times> bool \<Rightarrow> string \<Rightarrow> int \<times> bool" where
  "allow_step path st a =
     (if rule_matches path a \<and> fst st \<le> int (length a) then (int (length a), True) else st)"

definition disallow_step :: "string \<Rightarrow> int \<times> bool \<Rightarrow> string \<Rightarrow> int \<times> bool" where
  "disallow_step path st d =
     (if d = [] then st
      else if rule_matches path d \<and> fst st < int (length d) then (int (length d), False) else st)"

definition rules_allow :: "robots_rules \<Rightarrow> string \<Rightarrow> bool" where
  "rules_allow r path0 =
     (let path = (if path0 = [] then ''/'' else path0);
          st = foldl (allow_step path) (- 1, True) (allow r)
      in snd (foldl (disallow_step path) st (disallow r)))"

section \<open>Parsing\<close>

record robots_parser =
  rules :: robots_rules
  group_is_star :: bool
  in_agent_block :: bool

definition robots_line :: "string \<Rightarrow> (string \<times> string) option" where
  "robots_line raw =
     (let line = trim (hd (split_byte CHR ''#'' raw))
      in if line = [] then None
         else map_option (\<lambda>(f, v). (ascii_lower (trim f), trim v)) (split_once CHR '':'' line))"

definition rules_count :: "robots_rules \<Rightarrow> nat" where
  "rules_count r = length (allow r) + length (disallow r)"

definition parse_field :: "robots_parser \<Rightarrow> string \<times> string \<Rightarrow> robots_parser" where
  "parse_field p fv =
     (case fv of (field, val) \<Rightarrow>
        if field = ''user-agent'' then
          (let star = (if in_agent_block p then group_is_star p else False)
           in p\<lparr>in_agent_block := True, group_is_star := (if val = ''*'' then True else star)\<rparr>)
        else if field = ''disallow'' then
          p\<lparr>in_agent_block := False,
            rules := (if group_is_star p \<and> rules_count (rules p) < max_rules
                      then (rules p)\<lparr>disallow := disallow (rules p) @ [val]\<rparr> else rules p)\<rparr>
        else if field = ''allow'' then
          p\<lparr>in_agent_block := False,
            rules := (if group_is_star p \<and> rules_count (rules p) < max_rules
                      then (rules p)\<lparr>allow := allow (rules p) @ [val]\<rparr> else rules p)\<rparr>
        else p\<lparr>in_agent_block := False\<rparr>)"

definition parse_line :: "robots_parser \<Rightarrow> string \<Rightarrow> robots_parser" where
  "parse_line p raw = (case robots_line raw of None \<Rightarrow> p | Some fv \<Rightarrow> parse_field p fv)"

definition parse_robots :: "string \<Rightarrow> robots_rules" where
  "parse_robots body =
     rules (foldl parse_line \<lparr>rules = no_rules, group_is_star = False, in_agent_block = False\<rparr> (lines body))"

section \<open>The cache\<close>

record crawl_url =
  cu_scheme :: string
  cu_host :: "string option"
  cu_port :: "nat option"
  cu_path :: string

definition crawl_origin :: "crawl_url \<Rightarrow> string option" where
  "crawl_origin u =
     (case cu_host u of
        None \<Rightarrow> None
      | Some h \<Rightarrow>
          Some (cu_scheme u @ ''://'' @ h @ unwrap_or '''' (map_option (\<lambda>p. CHR '':'' # show_nat p) (cu_port u))))"

definition fetch_rules :: "(string \<Rightarrow> string option) \<Rightarrow> string \<Rightarrow> robots_rules" where
  "fetch_rules fetch origin =
     (case fetch (origin @ ''/robots.txt'') of Some body \<Rightarrow> parse_robots body | None \<Rightarrow> no_rules)"

type_synonym robots_cache = "string \<rightharpoonup> robots_rules"

definition cache_allowed ::
    "(string \<Rightarrow> crawl_url option) \<Rightarrow> (string \<Rightarrow> string option) \<Rightarrow> string \<Rightarrow> robots_cache \<Rightarrow> bool \<times> robots_cache" where
  "cache_allowed parse fetch url cache =
     (case parse url of
        None \<Rightarrow> (True, cache)
      | Some u \<Rightarrow>
          (case crawl_origin u of
             None \<Rightarrow> (True, cache)
           | Some origin \<Rightarrow>
               (let cache' = (case cache origin of
                                Some _ \<Rightarrow> cache
                              | None \<Rightarrow> cache(origin \<mapsto> fetch_rules fetch origin))
                in (case cache' origin of
                      Some r \<Rightarrow> (rules_allow r (cu_path u), cache')
                    | None \<Rightarrow> (True, cache')))))"

section \<open>The longest match decides\<close>

definition best_allow :: "string \<Rightarrow> string list \<Rightarrow> int" where
  "best_allow path as = foldl (\<lambda>b a. if rule_matches path a \<and> b \<le> int (length a) then int (length a) else b) (- 1) as"

lemma allow_fold:
  assumes "d"
  shows "foldl (allow_step path) (b, d) as =
    (foldl (\<lambda>b a. if rule_matches path a \<and> b \<le> int (length a) then int (length a) else b) b as, True)"
  using assms by (induction as arbitrary: b d) (auto simp: allow_step_def)

lemma best_fold_less:
  "foldl (\<lambda>b a. if rule_matches path a \<and> b \<le> int (length a) then int (length a) else b) b as < n \<longleftrightarrow>
     b < n \<and> (\<forall>a \<in> set as. rule_matches path a \<longrightarrow> int (length a) < n)"
  by (induction as arbitrary: b) auto

lemma disallow_fold:
  "snd (foldl (disallow_step path) (b, e) ds) \<longleftrightarrow>
     (if \<exists>d \<in> set ds. d \<noteq> [] \<and> rule_matches path d \<and> b < int (length d) then False else e)"
proof (induction ds arbitrary: b e)
  case (Cons d ds)
  show ?case
  proof (cases "d \<noteq> [] \<and> rule_matches path d \<and> b < int (length d)")
    case True
    then show ?thesis using Cons [of "int (length d)" False] by (auto simp: disallow_step_def)
  next
    case False
    then have "disallow_step path (b, e) d = (b, e)" by (auto simp: disallow_step_def)
    then show ?thesis using Cons [of b e] False by auto
  qed
qed simp

text \<open>C37. The longest matching rule decides and an Allow wins a tie: a path is refused exactly when a
  non-empty matching Disallow is longer than every matching Allow. In particular a path that no
  Disallow matches is allowed.\<close>

theorem robots_longest_match:
  "rules_allow r path \<longleftrightarrow>
     (\<forall>d \<in> set (disallow r). d \<noteq> [] \<and> rule_matches (if path = [] then ''/'' else path) d \<longrightarrow>
        (\<exists>a \<in> set (allow r). rule_matches (if path = [] then ''/'' else path) a \<and> length d \<le> length a))"
proof -
  define p where "p = (if path = [] then ''/'' else path)"
  define b where "b = foldl (\<lambda>b a. if rule_matches p a \<and> b \<le> int (length a) then int (length a) else b) (- 1) (allow r)"
  have "b < int (length d) \<longleftrightarrow> (\<forall>a \<in> set (allow r). rule_matches p a \<longrightarrow> length a < length d)" for d :: string
    unfolding b_def best_fold_less by simp
  then have "rules_allow r path \<longleftrightarrow>
      \<not> (\<exists>d \<in> set (disallow r). d \<noteq> [] \<and> rule_matches p d \<and>
           (\<forall>a \<in> set (allow r). rule_matches p a \<longrightarrow> length a < length d))"
    by (simp add: rules_allow_def Let_def p_def [symmetric] allow_fold b_def [symmetric] disallow_fold) blast
  also have "\<dots> \<longleftrightarrow> (\<forall>d \<in> set (disallow r). d \<noteq> [] \<and> rule_matches p d \<longrightarrow>
      (\<exists>a \<in> set (allow r). rule_matches p a \<and> length d \<le> length a))"
    by (meson not_less)
  finally show ?thesis by (simp only: p_def)
qed

theorem robots_longest_match_witness:
  "\<not> rules_allow \<lparr>allow = [''/a''], disallow = [''/a/*'']\<rparr> ''/a/b''"
  unfolding robots_longest_match
  by (simp add: rule_matches_def strip_suffix_def ends_with_def starts_with_def)

section \<open>The rules of the star groups\<close>

text \<open>
  The specification: the fields of the file fall into groups, a run of \<open>User-agent\<close> lines followed by
  the lines up to the next such run; the directives that count are those of the groups that name \<open>*\<close>.
\<close>

definition is_agent :: "string \<times> string \<Rightarrow> bool" where
  "is_agent fv \<longleftrightarrow> fst fv = ''user-agent''"

definition is_rule :: "string \<times> string \<Rightarrow> bool" where
  "is_rule fv \<longleftrightarrow> fst fv = ''allow'' \<or> fst fv = ''disallow''"

lemma dropWhile_less:
  assumes "dropWhile (\<lambda>f. \<not> is_agent f) fs \<noteq> []"
  shows "length (dropWhile (\<lambda>f. \<not> is_agent f) (dropWhile is_agent (dropWhile (\<lambda>f. \<not> is_agent f) fs))) < length fs"
proof -
  define g where "g = dropWhile (\<lambda>f. \<not> is_agent f) fs"
  obtain x xs where g: "g = x # xs" "is_agent x"
    using assms hd_dropWhile [of "\<lambda>f. \<not> is_agent f" fs] by (cases g) (auto simp: g_def)
  have "length (dropWhile (\<lambda>f. \<not> is_agent f) (dropWhile is_agent g)) \<le> length (dropWhile is_agent g)"
    by (rule length_dropWhile_le)
  moreover have "length (dropWhile is_agent g) < length g"
    using g length_dropWhile_le [of is_agent xs] by simp
  moreover have "length g \<le> length fs" unfolding g_def by (rule length_dropWhile_le)
  ultimately show ?thesis by (simp add: g_def)
qed

function star_directives :: "(string \<times> string) list \<Rightarrow> (string \<times> string) list" where
  "star_directives fs =
     (let group = dropWhile (\<lambda>f. \<not> is_agent f) fs;
          agents = takeWhile is_agent group;
          body = dropWhile is_agent group
      in if group = [] then []
         else (if \<exists>a \<in> set agents. snd a = ''*'' then filter is_rule (takeWhile (\<lambda>f. \<not> is_agent f) body) else [])
              @ star_directives (dropWhile (\<lambda>f. \<not> is_agent f) body))"
  by pat_completeness auto

termination
  by (relation "measure length") (auto intro: dropWhile_less)

declare star_directives.simps [simp del]

definition add_rule :: "robots_rules \<Rightarrow> string \<times> string \<Rightarrow> robots_rules" where
  "add_rule r fv =
     (if rules_count r < max_rules then
        (if fst fv = ''disallow'' then r\<lparr>disallow := disallow r @ [snd fv]\<rparr> else r\<lparr>allow := allow r @ [snd fv]\<rparr>)
      else r)"

definition rules_of :: "(string \<times> string) list \<Rightarrow> robots_rules" where
  "rules_of ds =
     \<lparr>allow = map snd (filter (\<lambda>d. fst d \<noteq> ''disallow'') ds), disallow = map snd (filter (\<lambda>d. fst d = ''disallow'') ds)\<rparr>"

lemma rules_count_of: "rules_count (rules_of ds) = length ds"
  by (induction ds) (auto simp: rules_count_def rules_of_def)

lemma add_rules_of: "foldl add_rule (rules_of (take max_rules es)) ds = rules_of (take max_rules (es @ ds))"
proof (induction ds arbitrary: es)
  case (Cons d ds)
  have "add_rule (rules_of (take max_rules es)) d = rules_of (take max_rules (es @ [d]))"
    by (simp add: add_rule_def rules_count_of) (auto simp: rules_of_def)
  then show ?case using Cons [of "es @ [d]"] by simp
qed simp

lemma body_fold:
  assumes "\<forall>f \<in> set fs. \<not> is_agent f"
  shows "foldl parse_field \<lparr>rules = r, group_is_star = s, in_agent_block = b\<rparr> fs =
    \<lparr>rules = foldl add_rule r (if s then filter is_rule fs else []), group_is_star = s,
     in_agent_block = (if fs = [] then b else False)\<rparr>"
  using assms
proof (induction fs arbitrary: r b)
  case (Cons f fs)
  have "parse_field \<lparr>rules = r, group_is_star = s, in_agent_block = b\<rparr> f =
    \<lparr>rules = (if s \<and> is_rule f then add_rule r f else r), group_is_star = s, in_agent_block = False\<rparr>"
    using Cons.prems by (cases f) (auto simp: parse_field_def is_agent_def is_rule_def add_rule_def)
  then show ?case using Cons by (simp add: is_rule_def)
qed simp

lemma agents_fold:
  assumes "\<forall>f \<in> set fs. is_agent f" "fs \<noteq> []"
  shows "foldl parse_field \<lparr>rules = r, group_is_star = s, in_agent_block = b\<rparr> fs =
    \<lparr>rules = r, group_is_star = ((b \<and> s) \<or> (\<exists>a \<in> set fs. snd a = ''*'')), in_agent_block = True\<rparr>"
  using assms
proof (induction fs arbitrary: s b)
  case (Cons f fs)
  have "parse_field \<lparr>rules = r, group_is_star = s, in_agent_block = b\<rparr> f =
    \<lparr>rules = r, group_is_star = ((b \<and> s) \<or> snd f = ''*''), in_agent_block = True\<rparr>"
    using Cons.prems by (cases f) (auto simp: parse_field_def is_agent_def)
  then show ?case using Cons by (cases "fs = []") auto
qed simp

lemma parse_fields_groups:
  assumes "fs = [] \<or> \<not> b \<and> (\<not> s \<or> is_agent (hd fs))"
  shows "rules (foldl parse_field \<lparr>rules = r, group_is_star = s, in_agent_block = b\<rparr> fs) =
    foldl add_rule r (star_directives fs)"
  using assms
proof (induction fs arbitrary: r s b rule: star_directives.induct)
  case (1 fs)
  define pre where "pre = takeWhile (\<lambda>f. \<not> is_agent f) fs"
  define g where "g = dropWhile (\<lambda>f. \<not> is_agent f) fs"
  define as where "as = takeWhile is_agent g"
  define rest where "rest = dropWhile is_agent g"
  define body where "body = takeWhile (\<lambda>f. \<not> is_agent f) rest"
  define tl where "tl = dropWhile (\<lambda>f. \<not> is_agent f) rest"
  have fs: "fs = pre @ g" "g = as @ rest" "rest = body @ tl"
    by (simp_all add: pre_def g_def as_def rest_def body_def tl_def)
  have pre: "\<forall>f \<in> set pre. \<not> is_agent f" and as: "\<forall>f \<in> set as. is_agent f"
    and body: "\<forall>f \<in> set body. \<not> is_agent f"
    by (auto simp: pre_def as_def body_def dest: set_takeWhileD)
  have s: "s \<Longrightarrow> pre = []" using "1.prems" by (cases fs) (auto simp: pre_def)
  have first: "foldl parse_field \<lparr>rules = r, group_is_star = s, in_agent_block = b\<rparr> pre =
      \<lparr>rules = r, group_is_star = s, in_agent_block = (if pre = [] then b else False)\<rparr>"
    using body_fold [OF pre] s by auto
  show ?case
  proof (cases "g = []")
    case True
    have "star_directives fs = []" using True by (subst star_directives.simps) (simp add: g_def)
    moreover have "fs = pre" using fs True by simp
    ultimately show ?thesis using first by simp
  next
    case False
    have hg: "is_agent (hd g)" using False hd_dropWhile [of "\<lambda>f. \<not> is_agent f" fs] by (simp add: g_def)
    then have as0: "as \<noteq> []" using False by (cases g) (auto simp: as_def)
    define star where "star = (\<exists>a \<in> set as. snd a = ''*'')"
    have nb: "\<not> b" using "1.prems" False fs by auto
    have second: "foldl parse_field \<lparr>rules = r, group_is_star = s, in_agent_block = b\<rparr> (pre @ as @ body) =
      \<lparr>rules = foldl add_rule r (if star then filter is_rule body else []), group_is_star = star,
       in_agent_block = (if body = [] then True else False)\<rparr>"
      unfolding foldl_append first agents_fold [OF as as0] body_fold [OF body]
      using nb by (simp add: star_def)
    have tail: "tl = [] \<or> body \<noteq> [] \<and> is_agent (hd tl)"
    proof (cases "tl = []")
      case False
      then have "is_agent (hd tl)" using hd_dropWhile [of "\<lambda>f. \<not> is_agent f" rest] by (simp add: tl_def)
      moreover have "body \<noteq> []"
      proof
        assume "body = []"
        then have "rest = tl" using fs by simp
        moreover have "\<not> is_agent (hd rest)" using False \<open>rest = tl\<close> hd_dropWhile [of is_agent g] by (simp add: rest_def)
        ultimately show False using \<open>is_agent (hd tl)\<close> by simp
      qed
      ultimately show ?thesis by simp
    qed simp
    have IH: "rules (foldl parse_field \<lparr>rules = r', group_is_star = star, in_agent_block = (if body = [] then True else False)\<rparr> tl)
        = foldl add_rule r' (star_directives tl)" for r'
      using "1.IH" [OF g_def as_def rest_def False, of "if body = [] then True else False" star r'] tail
      by (auto simp: tl_def)
    have "fs = (pre @ as @ body) @ tl" using fs by simp
    then have "rules (foldl parse_field \<lparr>rules = r, group_is_star = s, in_agent_block = b\<rparr> fs) =
        rules (foldl parse_field (foldl parse_field \<lparr>rules = r, group_is_star = s, in_agent_block = b\<rparr> (pre @ as @ body)) tl)"
      by (metis foldl_append)
    also have "\<dots> = foldl add_rule r ((if star then filter is_rule body else []) @ star_directives tl)"
      unfolding second IH by simp
    also have "(if star then filter is_rule body else []) @ star_directives tl = star_directives fs"
      using False by (simp add: star_directives.simps [of fs] Let_def g_def [symmetric] as_def [symmetric]
          rest_def [symmetric] body_def [symmetric] tl_def [symmetric] star_def)
    finally show ?thesis .
  qed
qed

definition robots_fields :: "string \<Rightarrow> (string \<times> string) list" where
  "robots_fields body = List.map_filter robots_line (lines body)"

lemma parse_lines_fields: "foldl parse_line p ls = foldl parse_field p (List.map_filter robots_line ls)"
  by (induction ls arbitrary: p) (simp_all add: parse_line_def map_filter_simps split: option.split)

text \<open>Parsing keeps exactly the first 4000 Allow and Disallow directives of the groups that name
  the star agent, in file order, whatever the file holds; consecutive agent lines form one group
  header, and directives before any header belong to no group.\<close>

theorem robots_parse_star_groups:
  "parse_robots body = rules_of (take 4000 (star_directives (robots_fields body)))"
  using parse_fields_groups [of "robots_fields body" False False no_rules]
    add_rules_of [of "[]" "star_directives (robots_fields body)"]
  by (simp add: parse_robots_def parse_lines_fields robots_fields_def rules_of_def no_rules_def max_rules_def)

section \<open>The cache is stable\<close>

text \<open>Once an origin was asked for, later answers of its server do not change the decision.\<close>

lemma cache_allowed_stable:
  "cache_allowed parse fetch' url (snd (cache_allowed parse fetch url cache)) = cache_allowed parse fetch url cache"
  by (auto simp: cache_allowed_def Let_def split: option.splits)

lemma cache_allowed_fail_open:
  assumes "\<And>u. fetch u = None" "\<And>o' r. cache o' = Some r \<Longrightarrow> r = no_rules"
  shows "fst (cache_allowed parse fetch url cache)"
proof -
  have n: "rules_allow no_rules p" for p by (simp add: rules_allow_def no_rules_def Let_def)
  show ?thesis
    using assms(1) assms(2) [THEN sym] n
    by (auto simp: cache_allowed_def Let_def fetch_rules_def split: option.splits)
qed

end
