(* ===== verification/SessionRelay.thy ===== *)
theory SessionRelay
  imports F64
begin

text \<open>
  The in-process session relay and the shared transport bookkeeping of the bridges
  (\<open>src/src/bridge/session_relay.rs\<close>): the bounded inbound queue with its un-read stack, the outgoing
  frames, the coalescing of scroll backlogs (\<open>src/src/bridge/saas_bridge.rs\<close>), the WebSocket liveness
  probe and the shedding of an outgoing backlog.

  A tokio channel is its queue: \<open>try_send\<close> on a full bounded channel gives the message back, and a
  blocking \<open>recv\<close> on an empty open channel is the outcome \<open>Waiting\<close>. Time is in milliseconds.
\<close>

section \<open>The relay\<close>

definition max_session_id_bytes :: nat where
  "max_session_id_bytes = 128"

definition incoming_cap :: nat where
  "incoming_cap = 512"

definition pushback_cap :: nat where
  "pushback_cap = 16"

datatype outgoing = Json json | Binary "8 word list"

record relay =
  session_id :: string
  incoming :: "json list"
  pushback :: "json list"
  bridge_out :: "outgoing list"
  is_closed :: bool

text \<open>The character-safe truncation: characters are kept while the running byte count fits.\<close>

fun scan_chars :: "nat \<Rightarrow> string list \<Rightarrow> string" where
  "scan_chars acc [] = []"
| "scan_chars acc (c # cs) =
     (if acc + length c \<le> max_session_id_bytes then c @ scan_chars (acc + length c) cs else [])"

definition new_relay :: "string \<Rightarrow> relay" where
  "new_relay sid =
     \<lparr>session_id = (if max_session_id_bytes < length sid then scan_chars 0 (utf8_chars sid) else sid),
      incoming = [], pushback = [], bridge_out = [], is_closed = False\<rparr>"

definition send_json :: "json \<Rightarrow> relay \<Rightarrow> relay" where
  "send_json data r =
     (if is_closed r then r
      else r\<lparr>bridge_out := bridge_out r @
        [Json (JObj [(''channel'', JStr ''session''), (''session_id'', JStr (session_id r)), (''msg'', data)])]\<rparr>)"

definition send_json_toplevel :: "json \<Rightarrow> relay \<Rightarrow> relay" where
  "send_json_toplevel data r = (if is_closed r then r else r\<lparr>bridge_out := bridge_out r @ [Json data]\<rparr>)"

definition be32 :: "nat \<Rightarrow> 8 word list" where
  "be32 n = map of_nat [n div 16777216 mod 256, n div 65536 mod 256, n div 256 mod 256, n mod 256]"

definition str_bytes :: "string \<Rightarrow> 8 word list" where
  "str_bytes s = map (\<lambda>c. of_nat (of_char c)) s"

definition frame_bytes :: "string \<Rightarrow> 8 word list \<Rightarrow> 8 word list" where
  "frame_bytes sid data = 1 # be32 (length sid) @ str_bytes sid @ data"

definition send_bytes :: "8 word list \<Rightarrow> relay \<Rightarrow> relay" where
  "send_bytes data r =
     (if is_closed r then r
      else if 2 ^ 32 \<le> length (session_id r) then r
      else r\<lparr>bridge_out := bridge_out r @ [Binary (frame_bytes (session_id r) data)]\<rparr>)"

datatype received = Msg json | Ended | Waiting

definition pop_pushback :: "relay \<Rightarrow> (json \<times> relay) option" where
  "pop_pushback r = (case pushback r of [] \<Rightarrow> None | m # q \<Rightarrow> Some (m, r\<lparr>pushback := q\<rparr>))"

definition receive_json :: "relay \<Rightarrow> received \<times> relay" where
  "receive_json r =
     (case pop_pushback r of
        Some (m, r') \<Rightarrow> (Msg m, r')
      | None \<Rightarrow>
          (case incoming r of
             m # q \<Rightarrow> (Msg m, r\<lparr>incoming := q\<rparr>)
           | [] \<Rightarrow> if is_closed r then (Ended, r) else (Waiting, r)))"

definition try_receive_json :: "relay \<Rightarrow> json option \<times> relay" where
  "try_receive_json r =
     (case pop_pushback r of
        Some (m, r') \<Rightarrow> (Some m, r')
      | None \<Rightarrow>
          (case incoming r of
             m # q \<Rightarrow> (Some m, r\<lparr>incoming := q\<rparr>)
           | [] \<Rightarrow> (None, r)))"

definition push_back :: "json \<Rightarrow> relay \<Rightarrow> relay" where
  "push_back m r =
     (let q = (if pushback_cap \<le> length (pushback r) then butlast (pushback r) else pushback r)
      in r\<lparr>pushback := m # q\<rparr>)"

definition dispatch_incoming :: "json \<Rightarrow> relay \<Rightarrow> relay" where
  "dispatch_incoming m r =
     (if length (incoming r) < incoming_cap then r\<lparr>incoming := incoming r @ [m]\<rparr> else r)"

definition closed_sentinel :: json where
  "closed_sentinel = JObj [(''type'', JStr ''__session_closed__'')]"

definition close_relay :: "relay \<Rightarrow> relay" where
  "close_relay r = dispatch_incoming closed_sentinel (r\<lparr>is_closed := True\<rparr>)"

section \<open>Coalescing a scroll backlog\<close>

definition is_scroll :: "json \<Rightarrow> bool" where
  "is_scroll m \<longleftrightarrow> get_str ''type'' m = Some ''action'' \<and> get_str ''action'' m = Some ''scroll''"

definition json_f64 :: "string \<Rightarrow> json \<Rightarrow> rat" where
  "json_f64 k m =
     (case json_get k m of Some (JInt n) \<Rightarrow> i64_to_f64 n | Some (JFloat r) \<Rightarrow> r | _ \<Rightarrow> 0)"

record scroll_acc =
  dx :: rat
  dy :: rat
  last_x :: "json option"
  last_y :: "json option"
  merged :: nat

definition scroll_first :: "json \<Rightarrow> scroll_acc" where
  "scroll_first m =
     \<lparr>dx = json_f64 ''deltaX'' m, dy = json_f64 ''deltaY'' m, last_x = json_get ''x'' m,
      last_y = json_get ''y'' m, merged = 0\<rparr>"

definition scroll_merge :: "scroll_acc \<Rightarrow> json \<Rightarrow> scroll_acc" where
  "scroll_merge a m =
     \<lparr>dx = f64_add (dx a) (json_f64 ''deltaX'' m), dy = f64_add (dy a) (json_f64 ''deltaY'' m),
      last_x = (case json_get ''x'' m of Some x \<Rightarrow> Some x | None \<Rightarrow> last_x a),
      last_y = (case json_get ''y'' m of Some y \<Rightarrow> Some y | None \<Rightarrow> last_y a),
      merged = merged a + 1\<rparr>"

definition queued :: "relay \<Rightarrow> json list" where
  "queued r = pushback r @ incoming r"

lemma try_receive_queued:
  "queued (snd (try_receive_json r)) = tl (queued r)"
  "fst (try_receive_json r) = (if queued r = [] then None else Some (hd (queued r)))"
  by (auto simp: try_receive_json_def pop_pushback_def queued_def split: list.splits)

function coalesce :: "scroll_acc \<Rightarrow> relay \<Rightarrow> scroll_acc \<times> relay" where
  "coalesce a r =
     (case fst (try_receive_json r) of
        None \<Rightarrow> (a, snd (try_receive_json r))
      | Some m \<Rightarrow>
          if is_scroll m then coalesce (scroll_merge a m) (snd (try_receive_json r))
          else (a, push_back m (snd (try_receive_json r))))"
  by pat_completeness auto
termination
  by (relation "measure (\<lambda>(a, r). length (queued r))")
    (auto simp: try_receive_queued split: if_splits)

declare coalesce.simps [simp del]

text \<open>An object's \<open>insert\<close> replaces the value of a key it has.\<close>

definition json_insert :: "string \<Rightarrow> json \<Rightarrow> json \<Rightarrow> json" where
  "json_insert k v m = (case m of JObj o' \<Rightarrow> JObj (AList.update k v o') | _ \<Rightarrow> m)"

definition coalesce_action :: "json \<Rightarrow> relay \<Rightarrow> json \<times> relay" where
  "coalesce_action m r =
     (if get_str ''action'' m = Some ''scroll'' then
        (let (a, r') = coalesce (scroll_first m) r
         in if 0 < merged a then
              (let m1 = json_insert ''deltaY'' (JFloat (dy a)) (json_insert ''deltaX'' (JFloat (dx a)) m);
                   m2 = (case last_x a of Some x \<Rightarrow> json_insert ''x'' x m1 | None \<Rightarrow> m1);
                   m3 = (case last_y a of Some y \<Rightarrow> json_insert ''y'' y m2 | None \<Rightarrow> m2)
               in (m3, r'))
            else (m, r'))
      else (m, r))"

section \<open>The liveness probe\<close>

datatype probe_action = SendPing | PeerDead

record ws_liveness =
  idle :: nat
  pong_grace :: nat
  pong_deadline :: "nat option"

definition new_liveness :: "nat \<Rightarrow> nat \<Rightarrow> ws_liveness" where
  "new_liveness i g = \<lparr>idle = i, pong_grace = g, pong_deadline = None\<rparr>"

definition liveness_timeout :: "nat \<Rightarrow> ws_liveness \<Rightarrow> nat" where
  "liveness_timeout now l = (case pong_deadline l of Some d \<Rightarrow> d - now | None \<Rightarrow> idle l)"

definition on_frame :: "ws_liveness \<Rightarrow> ws_liveness" where
  "on_frame l = l\<lparr>pong_deadline := None\<rparr>"

definition on_idle :: "nat \<Rightarrow> ws_liveness \<Rightarrow> probe_action \<times> ws_liveness" where
  "on_idle now l =
     (case pong_deadline l of
        Some _ \<Rightarrow> (PeerDead, l)
      | None \<Rightarrow> (SendPing, l\<lparr>pong_deadline := Some (now + pong_grace l)\<rparr>))"

definition probe_outstanding :: "ws_liveness \<Rightarrow> bool" where
  "probe_outstanding l \<longleftrightarrow> pong_deadline l \<noteq> None"

section \<open>Shedding an outgoing backlog\<close>

datatype 'a shed_outcome = Shed "'a list" nat | Overflow nat

fun shed_loop :: "('a \<Rightarrow> bool) \<Rightarrow> nat \<Rightarrow> 'a list \<Rightarrow> nat \<Rightarrow> 'a list \<Rightarrow> 'a shed_outcome" where
  "shed_loop droppable cap keep dropped [] = Shed keep dropped"
| "shed_loop droppable cap keep dropped (x # rx) =
     (let keep' = (if droppable x then keep else keep @ [x]);
          dropped' = (if droppable x then dropped + 1 else dropped)
      in if cap < length keep' then Overflow (length keep') else shed_loop droppable cap keep' dropped' rx)"

definition shed_backlog :: "('a \<Rightarrow> bool) \<Rightarrow> nat \<Rightarrow> 'a list \<Rightarrow> 'a shed_outcome" where
  "shed_backlog droppable cap rx = shed_loop droppable cap [] 0 rx"

section \<open>A queue with un-read\<close>

text \<open>
  What a coalescing drain relies on: reading takes the first message, a message that was just read
  can be returned and is then the first again.
\<close>

locale unget_queue =
  fixes contents :: "'s \<Rightarrow> 'a list" and ok :: "'s \<Rightarrow> bool"
    and recv :: "'s \<Rightarrow> 'a option \<times> 's" and unget :: "'a \<Rightarrow> 's \<Rightarrow> 's"
  assumes recv_contents: "contents (snd (recv s)) = tl (contents s)"
    and recv_result: "fst (recv s) = (if contents s = [] then None else Some (hd (contents s)))"
    and recv_ok: "ok s \<Longrightarrow> ok (snd (recv s))"
    and unget_contents: "ok s \<Longrightarrow> fst (recv s) = Some m \<Longrightarrow> contents (unget m (snd (recv s))) = m # contents (snd (recv s))"
    and unget_ok: "ok s \<Longrightarrow> ok (unget m s)"
begin

lemma unget_restores: "ok s \<Longrightarrow> fst (recv s) = Some m \<Longrightarrow> contents (unget m (snd (recv s))) = contents s"
  using unget_contents recv_contents recv_result by (auto split: if_splits)

lemma recv_None: "fst (recv s) = None \<longleftrightarrow> contents s = []"
  by (simp add: recv_result)

lemma recv_Some: "fst (recv s) = Some m \<Longrightarrow> contents s = m # contents (snd (recv s))"
  by (auto simp: recv_result recv_contents split: if_splits)

end

definition relay_ok :: "relay \<Rightarrow> bool" where
  "relay_ok r \<longleftrightarrow> length (incoming r) \<le> incoming_cap \<and> length (pushback r) \<le> pushback_cap"

lemma try_receive_ok: "relay_ok r \<Longrightarrow> relay_ok (snd (try_receive_json r))"
  by (auto simp: try_receive_json_def pop_pushback_def relay_ok_def split: list.splits)

lemma push_back_ok: "relay_ok r \<Longrightarrow> relay_ok (push_back m r)"
  by (auto simp: push_back_def relay_ok_def pushback_cap_def)

lemma push_back_queued:
  "relay_ok r \<Longrightarrow> fst (try_receive_json r) = Some m \<Longrightarrow>
     queued (push_back m (snd (try_receive_json r))) = m # queued (snd (try_receive_json r))"
  by (auto simp: try_receive_json_def pop_pushback_def push_back_def queued_def relay_ok_def pushback_cap_def
      split: list.splits)

interpretation rq: unget_queue queued relay_ok try_receive_json push_back
  by unfold_locales (simp_all only: try_receive_queued try_receive_ok push_back_ok push_back_queued)

lemma coalesce_exact:
  assumes "relay_ok r"
  shows "fst (coalesce a r) = foldl scroll_merge a (takeWhile is_scroll (queued r)) \<and>
    queued (snd (coalesce a r)) = dropWhile is_scroll (queued r) \<and> relay_ok (snd (coalesce a r))"
  using assms
proof (induction a r rule: coalesce.induct)
  case (1 a r)
  show ?case
  proof (cases "fst (try_receive_json r)")
    case None
    then have "queued r = []" by (simp add: rq.recv_None)
    then show ?thesis using None 1(2)
      by (simp add: coalesce.simps [of a r] try_receive_queued rq.recv_ok)
  next
    case (Some m)
    note q = rq.recv_Some [OF Some]
    show ?thesis
    proof (cases "is_scroll m")
      case True
      have c: "coalesce a r = coalesce (scroll_merge a m) (snd (try_receive_json r))"
        using Some True by (simp add: coalesce.simps [of a r])
      have "takeWhile is_scroll (queued r) = m # takeWhile is_scroll (queued (snd (try_receive_json r)))"
        "dropWhile is_scroll (queued r) = dropWhile is_scroll (queued (snd (try_receive_json r)))"
        using True by (simp_all add: q)
      then show ?thesis using 1(1) [OF Some True rq.recv_ok [OF 1(2)]] by (simp add: c)
    next
      case False
      have c: "coalesce a r = (a, push_back m (snd (try_receive_json r)))"
        using Some False by (simp add: coalesce.simps [of a r])
      have "takeWhile is_scroll (queued r) = []" "dropWhile is_scroll (queued r) = queued r"
        using False by (simp_all add: q)
      then show ?thesis
        using rq.unget_restores [OF 1(2) Some] rq.unget_ok [OF rq.recv_ok [OF 1(2)]] by (simp add: c)
    qed
  qed
qed

section \<open>Runs of a relay\<close>

text \<open>A relay with the messages it accepted and those its session loop consumed, oldest first.\<close>

record relay_run =
  relay_of :: relay
  accepted :: "json list"
  consumed :: "json list"

definition accept :: "json \<Rightarrow> relay \<Rightarrow> json list" where
  "accept m r = (if length (incoming r) < incoming_cap then [m] else [])"

inductive relay_step :: "relay_run \<Rightarrow> relay_run \<Rightarrow> bool" where
  step_dispatch: "relay_step w (w\<lparr>relay_of := dispatch_incoming m (relay_of w),
    accepted := accepted w @ accept m (relay_of w)\<rparr>)"
| step_receive: "receive_json (relay_of w) = (Msg m, r) \<Longrightarrow>
    relay_step w (w\<lparr>relay_of := r, consumed := consumed w @ [m]\<rparr>)"
| step_coalesce: "coalesce_action m (relay_of w) = (m', r) \<Longrightarrow> get_str ''action'' m = Some ''scroll'' \<Longrightarrow>
    relay_step w (w\<lparr>relay_of := r, consumed := consumed w @ takeWhile is_scroll (queued (relay_of w))\<rparr>)"
| step_send: "relay_step w (w\<lparr>relay_of := send_bytes b (send_json j (relay_of w))\<rparr>)"
| step_close: "relay_step w (w\<lparr>relay_of := close_relay (relay_of w),
    accepted := accepted w @ accept closed_sentinel (relay_of w)\<rparr>)"

definition relay_run_init :: "relay_run \<Rightarrow> bool" where
  "relay_run_init w \<longleftrightarrow> (\<exists>sid. w = \<lparr>relay_of = new_relay sid, accepted = [], consumed = []\<rparr>)"

definition relay_run_inv :: "relay_run \<Rightarrow> bool" where
  "relay_run_inv w \<longleftrightarrow> relay_ok (relay_of w) \<and> consumed w @ queued (relay_of w) = accepted w"

lemma dispatch_queued: "queued (dispatch_incoming m r) = queued r @ accept m r"
  by (simp add: dispatch_incoming_def queued_def accept_def)

lemma dispatch_ok: "relay_ok r \<Longrightarrow> relay_ok (dispatch_incoming m r)"
  by (simp add: dispatch_incoming_def relay_ok_def)

lemma receive_Msg: "receive_json r = (Msg m, r') \<Longrightarrow> try_receive_json r = (Some m, r')"
  by (auto simp: receive_json_def try_receive_json_def split: option.splits list.splits if_splits)

lemma coalesce_action_relay:
  "get_str ''action'' m = Some ''scroll'' \<Longrightarrow> snd (coalesce_action m r) = snd (coalesce (scroll_first m) r)"
  by (simp add: coalesce_action_def split_beta Let_def)

lemma relay_step_inv:
  assumes "relay_run_inv w" "relay_step w w'"
  shows "relay_run_inv w'"
  using assms(2,1)
proof cases
  case (step_receive m r)
  note t = receive_Msg [OF step_receive(2)]
  have "queued (relay_of w) = m # queued r" using rq.recv_Some [of "relay_of w" m] t by simp
  moreover have "relay_ok r" using rq.recv_ok [of "relay_of w"] t assms(1) by (simp add: relay_run_inv_def)
  ultimately show ?thesis using assms(1) step_receive(1) by (simp add: relay_run_inv_def)
next
  case (step_coalesce m m' r)
  have r: "r = snd (coalesce (scroll_first m) (relay_of w))"
    using coalesce_action_relay [OF step_coalesce(3), of "relay_of w"] step_coalesce(2) by simp
  have ok: "relay_ok (relay_of w)" using assms(1) by (simp add: relay_run_inv_def)
  have "takeWhile is_scroll (queued (relay_of w)) @ queued r = queued (relay_of w)"
    using coalesce_exact [OF ok, of "scroll_first m"] by (simp add: r)
  then show ?thesis
    using assms(1) coalesce_exact [OF ok, of "scroll_first m"] step_coalesce(1) by (simp add: relay_run_inv_def r)
next
  case step_close
  then show ?thesis
    using assms(1) dispatch_queued [of closed_sentinel "relay_of w\<lparr>is_closed := True\<rparr>"]
      dispatch_ok [of "relay_of w\<lparr>is_closed := True\<rparr>" closed_sentinel]
    by (simp add: relay_run_inv_def close_relay_def queued_def relay_ok_def accept_def)
next
  case (step_send b j)
  then show ?thesis using assms(1)
    by (auto simp: relay_run_inv_def send_bytes_def send_json_def relay_ok_def queued_def)
qed (simp add: relay_run_inv_def dispatch_queued dispatch_ok)

lemma relay_init_inv: "relay_run_init w \<Longrightarrow> relay_run_inv w"
  by (auto simp: relay_run_init_def relay_run_inv_def new_relay_def relay_ok_def queued_def)

interpretation rr: invariant_system relay_run_init relay_step relay_run_inv
  by unfold_locales (blast intro: relay_init_inv relay_step_inv)+

text \<open>C36. A relay neither loses nor reorders nor invents an accepted message, through reads, scroll
  coalescing with its un-reads, sends and closing: what was consumed followed by what is queued is what
  was accepted, both queues stay within their caps, and the session loop sees the end of the stream
  only when the relay is closed and every accepted message was consumed.\<close>

theorem relay_fifo:
  assumes "reach relay_run_init relay_step w"
  shows "consumed w @ queued (relay_of w) = accepted w \<and>
    length (incoming (relay_of w)) \<le> 512 \<and> length (pushback (relay_of w)) \<le> 16 \<and>
    (fst (receive_json (relay_of w)) = Ended \<longleftrightarrow> is_closed (relay_of w) \<and> consumed w = accepted w)"
proof -
  have i: "relay_run_inv w" by (rule rr.reach_inv [OF assms])
  have e: "fst (receive_json r) = Ended \<longleftrightarrow> is_closed r \<and> queued r = []" for r
    by (auto simp: receive_json_def pop_pushback_def queued_def split: list.splits)
  show ?thesis
    using i by (auto simp: relay_run_inv_def relay_ok_def e incoming_cap_def pushback_cap_def)
qed

theorem relay_fifo_witness:
  "queued (dispatch_incoming JNull (new_relay ''s'')) = [JNull]"
proof -
  let ?w = "\<lparr>relay_of = new_relay ''s'', accepted = [], consumed = []\<rparr>"
  have "reach relay_run_init relay_step ?w" by (rule reach_init) (auto simp: relay_run_init_def)
  moreover have "relay_step ?w (?w\<lparr>relay_of := dispatch_incoming JNull (relay_of ?w),
      accepted := accepted ?w @ accept JNull (relay_of ?w)\<rparr>)" by (rule step_dispatch)
  ultimately have "reach relay_run_init relay_step (?w\<lparr>relay_of := dispatch_incoming JNull (relay_of ?w),
      accepted := accepted ?w @ accept JNull (relay_of ?w)\<rparr>)" by (rule reach_step)
  from relay_fifo [OF this] show ?thesis by (simp add: accept_def new_relay_def incoming_cap_def)
qed

text \<open>Coalescing a scroll consumes exactly the maximal run of queued scroll actions: the deltas
  are summed and the latest position taken over that run, and every other message stays queued in
  order.\<close>

theorem coalesce_maximal_run:
  assumes "relay_ok r"
  shows "fst (coalesce (scroll_first m) r) = foldl scroll_merge (scroll_first m) (takeWhile is_scroll (queued r)) \<and>
    merged (fst (coalesce (scroll_first m) r)) = length (takeWhile is_scroll (queued r)) \<and>
    queued (snd (coalesce (scroll_first m) r)) = dropWhile is_scroll (queued r)"
proof -
  have "merged (foldl scroll_merge a ms) = merged a + length ms" for a ms
    by (induction ms arbitrary: a) (simp_all add: scroll_merge_def)
  then show ?thesis using coalesce_exact [OF assms, of "scroll_first m"] by (simp add: scroll_first_def)
qed

theorem coalesce_maximal_run_witness: "merged (fst (coalesce (scroll_first JNull) (new_relay ''s''))) = 0"
  using coalesce_maximal_run [of "new_relay ''s''" JNull] by (simp add: relay_ok_def new_relay_def queued_def scroll_first_def)

section \<open>Frames, shedding and liveness\<close>

text \<open>The receiver's view of a binary frame.\<close>

definition decode_frame :: "8 word list \<Rightarrow> (8 word list \<times> 8 word list) option" where
  "decode_frame bs =
     (case bs of
        k # a # b # c # d # rest \<Rightarrow>
          (let n = ((unat a * 256 + unat b) * 256 + unat c) * 256 + unat d
           in if k = 1 \<and> n \<le> length rest then Some (take n rest, drop n rest) else None)
      | _ \<Rightarrow> None)"

lemma be32_value:
  fixes n :: nat
  assumes "n < 4294967296"
  shows "((n div 16777216 mod 256 * 256 + n div 65536 mod 256) * 256 + n div 256 mod 256) * 256 + n mod 256 = n"
proof -
  have "n div 16777216 < 256" using assms by (simp add: less_mult_imp_div_less)
  moreover have "n div 16777216 * 256 + n div 65536 mod 256 = n div 65536"
    using div_mult_mod_eq [of "n div 65536" 256] div_mult2_eq [of n 65536 256] by simp
  moreover have "n div 65536 * 256 + n div 256 mod 256 = n div 256"
    using div_mult_mod_eq [of "n div 256" 256] div_mult2_eq [of n 256 256] by simp
  moreover have "n div 256 * 256 + n mod 256 = n" by (rule div_mult_mod_eq)
  ultimately show ?thesis by simp
qed

lemma unat_byte: "unat (of_nat n :: 8 word) = n mod 256"
  by (simp add: unsigned_of_nat take_bit_eq_mod)

lemma be32_bytes:
  assumes "n < 4294967296"
  obtains a b c d where "be32 n = [a, b, c, d]" "((unat a * 256 + unat b) * 256 + unat c) * 256 + unat d = n"
proof (rule that)
  show "be32 n = [of_nat (n div 16777216 mod 256), of_nat (n div 65536 mod 256), of_nat (n div 256 mod 256),
      of_nat (n mod 256)]" by (simp add: be32_def)
  show "((unat (of_nat (n div 16777216 mod 256) :: 8 word) * 256 + unat (of_nat (n div 65536 mod 256) :: 8 word)) * 256 +
      unat (of_nat (n div 256 mod 256) :: 8 word)) * 256 + unat (of_nat (n mod 256) :: 8 word) = n"
    unfolding unat_byte mod_mod_trivial by (rule be32_value [OF assms])
qed

lemma decode_frame_bytes:
  assumes "length sid < 4294967296"
  shows "decode_frame (frame_bytes sid data) = Some (str_bytes sid, data)"
proof -
  obtain a b c d where e: "be32 (length sid) = [a, b, c, d]"
    and n: "((unat a * 256 + unat b) * 256 + unat c) * 256 + unat d = length sid"
    using assms by (rule be32_bytes)
  have "frame_bytes sid data = 1 # a # b # c # d # (str_bytes sid @ data)" by (simp add: frame_bytes_def e)
  moreover have "length (str_bytes sid) = length sid" by (simp add: str_bytes_def)
  ultimately show ?thesis unfolding decode_frame_def by (simp only: list.case n Let_def) simp
qed

lemma scan_chars_length: "acc \<le> max_session_id_bytes \<Longrightarrow> acc + length (scan_chars acc cs) \<le> max_session_id_bytes"
proof (induction cs arbitrary: acc)
  case (Cons c cs)
  show ?case
  proof (cases "acc + length c \<le> max_session_id_bytes")
    case True
    then show ?thesis using Cons.IH [OF True] by simp
  next
    case False
    then show ?thesis using Cons.prems by simp
  qed
qed simp

lemma scan_chars_take: "\<exists>k. scan_chars acc cs = concat (take k cs)"
proof (induction cs arbitrary: acc)
  case (Cons c cs)
  obtain k where "scan_chars (acc + length c) cs = concat (take k cs)" using Cons by blast
  then show ?case by (cases "acc + length c \<le> max_session_id_bytes") (auto intro: exI [of _ "Suc k"] exI [of _ 0])
qed simp

lemma new_relay_id:
  "length (session_id (new_relay sid)) \<le> 128 \<and>
   (\<exists>k. session_id (new_relay sid) = concat (take k (utf8_chars sid)))"
proof (cases "max_session_id_bytes < length sid")
  case True
  then show ?thesis
    using scan_chars_length [of 0 "utf8_chars sid"] scan_chars_take [of 0 "utf8_chars sid"]
    by (simp add: new_relay_def max_session_id_bytes_def)
next
  case False
  then show ?thesis
    by (auto simp: new_relay_def max_session_id_bytes_def intro: exI [of _ "length (utf8_chars sid)"])
qed

text \<open>Binary framing round trip: whatever id a session was opened with, the relay keeps at most
  128 bytes of it, a run of whole characters, and the frame it sends for any payload decodes to that
  id and that payload.\<close>

theorem relay_frame_roundtrip:
  "length (session_id (new_relay sid)) \<le> 128 \<and>
   (\<exists>k. session_id (new_relay sid) = concat (take k (utf8_chars sid))) \<and>
   (\<exists>f. bridge_out (send_bytes data (new_relay sid)) = [Binary f] \<and>
        decode_frame f = Some (str_bytes (session_id (new_relay sid)), data))"
proof -
  have l: "length (session_id (new_relay sid)) \<le> 128" using new_relay_id [of sid] by simp
  then have "\<not> 2 ^ 32 \<le> length (session_id (new_relay sid))" by simp
  moreover have "\<not> is_closed (new_relay sid)" "bridge_out (new_relay sid) = []" by (simp_all add: new_relay_def)
  ultimately have "bridge_out (send_bytes data (new_relay sid)) = [Binary (frame_bytes (session_id (new_relay sid)) data)]"
    by (simp add: send_bytes_def)
  then show ?thesis using new_relay_id [of sid] decode_frame_bytes [of "session_id (new_relay sid)" data] l by simp
qed

lemma shed_loop_exact:
  "length keep \<le> cap \<Longrightarrow> shed_loop droppable cap keep n rx =
    (if length keep + count_if (\<lambda>x. \<not> droppable x) rx \<le> cap
     then Shed (keep @ filter (\<lambda>x. \<not> droppable x) rx) (n + count_if droppable rx)
     else Overflow (Suc cap))"
  by (induction rx arbitrary: keep n) (auto simp: Let_def not_le less_Suc_eq_le)

text \<open>Shedding an outgoing backlog drops exactly the droppable frames, counts them, and keeps the
  control frames in order; it gives up exactly when the control frames alone exceed the cap.\<close>

theorem shed_backlog_exact:
  "shed_backlog droppable cap rx =
    (if count_if (\<lambda>x. \<not> droppable x) rx \<le> cap
     then Shed (filter (\<lambda>x. \<not> droppable x) rx) (count_if droppable rx)
     else Overflow (Suc cap))"
  by (simp add: shed_backlog_def shed_loop_exact)

datatype ws_event = Frame_Arrived | Wait_Expired nat

definition ws_event_step :: "ws_liveness \<Rightarrow> ws_event \<Rightarrow> ws_liveness" where
  "ws_event_step l e = (case e of Frame_Arrived \<Rightarrow> on_frame l | Wait_Expired t \<Rightarrow> snd (on_idle t l))"

text \<open>The peer is declared dead exactly at the second expiry with no frame since the first.\<close>

lemma liveness_probe:
  "fst (on_idle t (foldl ws_event_step (new_liveness i g) es)) = PeerDead \<longleftrightarrow>
     (\<exists>t'. es \<noteq> [] \<and> last es = Wait_Expired t')"
proof (cases es rule: rev_cases)
  case Nil
  then show ?thesis by (simp add: new_liveness_def on_idle_def)
next
  case (snoc es' e)
  then show ?thesis
    by (cases e) (auto simp: ws_event_step_def on_idle_def on_frame_def split: option.splits)
qed

end
