(* ===== verification/Update.thy ===== *)
theory Update
  imports NetAddr "HOL-Library.List_Lexorder"
begin

text \<open>
  The signed auto-update decision (\<open>src/src/local/update/\<close>): the manifest with its pinned keys, the
  canonical bytes the signature covers and its verification (\<open>manifest.rs\<close>), the ordered gate chain
  (\<open>policy.rs\<close>), the monotonic version record (\<open>version_record.rs\<close>) and the rollback decision
  (\<open>rollback.rs\<close>).

  Third-party code is a parameter: JSON parsing and string escaping (\<open>serde_json\<close>), base64, Ed25519,
  SHA-256, the RFC 3339 and semver parsers (a version is an element of a linear order). The database
  row is a state, and whether a write succeeds is an argument.
\<close>

type_synonym bytes = "8 word list"

section \<open>The manifest\<close>

definition schema_version_supported :: nat where
  "schema_version_supported = 1"

record pinned_key =
  pk_kid :: string
  pubkey_hex :: string

definition pinned_keys :: "pinned_key list" where
  "pinned_keys =
     [\<lparr>pk_kid = ''wtu-2026-1'',
       pubkey_hex = ''4cc68c37093d0c5fe64e3f8558c7cb7758caf43a7cdb76ff7067c237b58cd75d''\<rparr>,
      \<lparr>pk_kid = ''wtu-2026-2'',
       pubkey_hex = ''1d6e66be1c1545c8de0daa4d54f5f19209a42fcfb599efc85e7a31e062e9737f''\<rparr>]"

definition pinned_pubkey :: "string \<Rightarrow> string option" where
  "pinned_pubkey kid = map_option pubkey_hex (find (\<lambda>k. pk_kid k = kid) pinned_keys)"

record rollout =
  percentage :: nat
  cohort_seed :: string

record artifact =
  art_url :: string
  size_bytes :: nat
  sha256_hex :: string
  art_format :: string
  installer :: "string option"

record signed =
  manifest_id :: string
  channel_name :: string
  version_str :: string
  min_supported_version :: string
  released_at :: string
  manifest_expires_at :: string
  notes_url :: "string option"
  changelog :: "string option"
  security_advisory :: bool
  rollout_of :: "rollout option"
  chromium_revision :: "string option"
  artifacts :: "(string \<times> artifact) list"

record manifest =
  schema_version :: nat
  kid :: string
  signature :: string
  signed_part :: signed

datatype manifest_error =
    Malformed
  | UnsupportedSchema nat nat
  | UnknownKid string
  | BadPinnedKey string
  | MalformedSignature
  | BadSignature

text \<open>Two hex digits per byte; the string is trimmed first.\<close>

fun hex_pairs :: "string \<Rightarrow> bytes option" where
  "hex_pairs [] = Some []"
| "hex_pairs [c] = None"
| "hex_pairs (a # b # r) =
     (case (hex_value a, hex_value b) of
        (Some hi, Some lo) \<Rightarrow> map_option (Cons (of_nat (hi * 16 + lo))) (hex_pairs r)
      | _ \<Rightarrow> None)"

definition decode_hex_32 :: "string \<Rightarrow> bytes option" where
  "decode_hex_32 hex = (let h = trim hex in if length h \<noteq> 64 then None else hex_pairs h)"

definition verifying_key_from_hex :: "(bytes \<Rightarrow> 'k option) \<Rightarrow> string \<Rightarrow> 'k option" where
  "verifying_key_from_hex key_of hex = Option.bind (decode_hex_32 hex) key_of"

definition pinned_keys_production_ready :: "(bytes \<Rightarrow> 'k option) \<Rightarrow> bool" where
  "pinned_keys_production_ready key_of \<longleftrightarrow>
     pinned_keys \<noteq> [] \<and> list_all (\<lambda>k. verifying_key_from_hex key_of (pubkey_hex k) \<noteq> None) pinned_keys"

definition decode_signature :: "(string \<Rightarrow> bytes option) \<Rightarrow> (string \<Rightarrow> bytes option) \<Rightarrow> string \<Rightarrow> bytes option" where
  "decode_signature b64_nopad b64_pad s =
     (let raw = (case b64_nopad (trim s) of Some r \<Rightarrow> Some r | None \<Rightarrow> b64_pad (trim s))
      in case raw of Some r \<Rightarrow> if length r = 64 then Some r else None | None \<Rightarrow> None)"

section \<open>Canonical bytes\<close>

text \<open>The UTF-16 code units of a UTF-8 string.\<close>

definition code_point :: "string \<Rightarrow> nat" where
  "code_point c =
     (case map (of_char :: char \<Rightarrow> nat) c of
        [a] \<Rightarrow> a
      | [a, b] \<Rightarrow> (a mod 32) * 64 + b mod 64
      | [a, b, d] \<Rightarrow> ((a mod 16) * 64 + b mod 64) * 64 + d mod 64
      | a # b # d # e # _ \<Rightarrow> (((a mod 8) * 64 + b mod 64) * 64 + d mod 64) * 64 + e mod 64
      | [] \<Rightarrow> 0)"

definition utf16_units :: "string \<Rightarrow> nat list" where
  "utf16_units s =
     concat (map (\<lambda>c. let p = code_point c
                      in if p < 65536 then [p]
                         else [0xd800 + (p - 65536) div 1024, 0xdc00 + (p - 65536) mod 1024]) (utf8_chars s))"

text \<open>
  \<open>enc\<close> writes a string literal, \<open>num\<close> a floating-point number. The members are sorted by key; keys
  of an object are distinct, so ordering the written members by their keys is the same.
\<close>

fun canonicalize_value :: "(string \<Rightarrow> string) \<Rightarrow> (rat \<Rightarrow> string) \<Rightarrow> json \<Rightarrow> string" where
  "canonicalize_value enc num JNull = ''null''"
| "canonicalize_value enc num (JBool b) = (if b then ''true'' else ''false'')"
| "canonicalize_value enc num (JInt n) = show_int n"
| "canonicalize_value enc num (JFloat r) = num r"
| "canonicalize_value enc num (JStr s) = enc s"
| "canonicalize_value enc num (JArr xs) = ''['' @ join_with '','' (map (canonicalize_value enc num) xs) @ '']''"
| "canonicalize_value enc num (JObj ms) =
     ''{'' @ join_with '','' (map snd (sort_key fst
        (map (\<lambda>(k, v). (utf16_units k, enc k @ '':'' @ canonicalize_value enc num v)) ms))) @ ''}''"

section \<open>Signature verification\<close>

record 'k crypto =
  parse_json :: "bytes \<Rightarrow> json option"
  enc_string :: "string \<Rightarrow> string"
  num_string :: "rat \<Rightarrow> string"
  key_of_bytes :: "bytes \<Rightarrow> 'k option"
  b64_url_nopad :: "string \<Rightarrow> bytes option"
  b64_url :: "string \<Rightarrow> bytes option"
  ed25519_verify :: "'k \<Rightarrow> string \<Rightarrow> bytes \<Rightarrow> bool"
  sha256 :: "string \<Rightarrow> bytes"

definition verify_signature :: "('k, 'z) crypto_scheme \<Rightarrow> manifest \<Rightarrow> bytes \<Rightarrow> manifest_error + unit" where
  "verify_signature cr m raw_bytes =
     (if schema_version m \<noteq> schema_version_supported
      then Inl (UnsupportedSchema (schema_version m) schema_version_supported)
      else case pinned_pubkey (kid m) of
        None \<Rightarrow> Inl (UnknownKid (kid m))
      | Some hex \<Rightarrow>
          (case verifying_key_from_hex (key_of_bytes cr) hex of
             None \<Rightarrow> Inl (BadPinnedKey (kid m))
           | Some key \<Rightarrow>
               (case parse_json cr raw_bytes of
                  None \<Rightarrow> Inl Malformed
                | Some raw \<Rightarrow>
                    (case json_get ''signed'' raw of
                       None \<Rightarrow> Inl Malformed
                     | Some payload \<Rightarrow>
                         (case decode_signature (b64_url_nopad cr) (b64_url cr) (signature m) of
                            None \<Rightarrow> Inl MalformedSignature
                          | Some sig \<Rightarrow>
                              if ed25519_verify cr key (canonicalize_value (enc_string cr) (num_string cr) payload) sig
                              then Inr () else Inl BadSignature)))))"

section \<open>The gate chain\<close>

datatype channel = Stable | Beta | Managed

definition channel_str :: "channel \<Rightarrow> string" where
  "channel_str c = (case c of Stable \<Rightarrow> ''stable'' | Beta \<Rightarrow> ''beta'' | Managed \<Rightarrow> ''managed'')"

definition parse_channel :: "string \<Rightarrow> channel option" where
  "parse_channel s =
     (let t = ascii_lower (trim s)
      in if t = ''stable'' then Some Stable else if t = ''beta'' then Some Beta
         else if t = ''managed'' then Some Managed else None)"

record policy_input =
  in_channel :: channel
  installed_version_in :: string
  installed_build_released_at_in :: "string option"
  install_id :: string
  platform_key :: string
  in_now :: int

record update_decision =
  dec_version :: string
  dec_released_at :: string
  dec_artifact :: artifact

datatype update_reject =
    Signature manifest_error
  | WrongChannel string string
  | Expired string
  | ReplayOlderThanInstalled string
  | BadTimestamp string
  | NotNewer string string
  | BelowMinSupported string string
  | BadVersion string
  | NotInRollout nat nat
  | NoArtifactForPlatform string

definition is_skip :: "update_reject \<Rightarrow> bool" where
  "is_skip r \<longleftrightarrow>
     (case r of WrongChannel _ _ \<Rightarrow> True | NotNewer _ _ \<Rightarrow> True | BelowMinSupported _ _ \<Rightarrow> True
      | NotInRollout _ _ \<Rightarrow> True | NoArtifactForPlatform _ \<Rightarrow> True | _ \<Rightarrow> False)"

definition reject_code :: "update_reject \<Rightarrow> string" where
  "reject_code r =
     (case r of
        Signature e \<Rightarrow>
          (case e of UnsupportedSchema _ _ \<Rightarrow> ''unsupported_schema'' | UnknownKid _ \<Rightarrow> ''unknown_kid''
           | BadPinnedKey _ \<Rightarrow> ''bad_pinned_key'' | MalformedSignature \<Rightarrow> ''malformed_signature''
           | BadSignature \<Rightarrow> ''bad_signature'' | Malformed \<Rightarrow> ''malformed_manifest'')
      | WrongChannel _ _ \<Rightarrow> ''wrong_channel'' | Expired _ \<Rightarrow> ''expired''
      | ReplayOlderThanInstalled _ \<Rightarrow> ''replay_older_than_installed'' | BadTimestamp _ \<Rightarrow> ''bad_timestamp''
      | NotNewer _ _ \<Rightarrow> ''not_newer'' | BelowMinSupported _ _ \<Rightarrow> ''below_min_supported''
      | BadVersion _ \<Rightarrow> ''bad_version'' | NotInRollout _ _ \<Rightarrow> ''not_in_rollout''
      | NoArtifactForPlatform _ \<Rightarrow> ''no_artifact_for_platform'')"

definition hex_lower :: "bytes \<Rightarrow> string" where
  "hex_lower bs =
     concat (map (\<lambda>b. map (\<lambda>d. if d < 10 then char_of (48 + d) else char_of (87 + d)) [unat b div 16, unat b mod 16]) bs)"

definition verify_artifact_bytes :: "('k, 'z) crypto_scheme \<Rightarrow> update_decision \<Rightarrow> string \<Rightarrow> bool" where
  "verify_artifact_bytes cr d data \<longleftrightarrow>
     ascii_lower (hex_lower (sha256 cr data)) = ascii_lower (trim (sha256_hex (dec_artifact d)))"

definition rollout_bucket :: "('k, 'z) crypto_scheme \<Rightarrow> string \<Rightarrow> string \<Rightarrow> nat" where
  "rollout_bucket cr inst seed =
     (let d = sha256 cr (inst @ '':'' @ seed)
      in (((unat (d ! 0) * 256 + unat (d ! 1)) * 256 + unat (d ! 2)) * 256 + unat (d ! 3)) mod 100)"

text \<open>
  The two parsers of the chain: \<open>time_of\<close> gives an instant, \<open>ver_of\<close> a version.
\<close>

definition replayed :: "(string \<Rightarrow> int option) \<Rightarrow> policy_input \<Rightarrow> int \<Rightarrow> bool" where
  "replayed time_of i rel \<longleftrightarrow>
     (case installed_build_released_at_in i of
        None \<Rightarrow> False
      | Some r \<Rightarrow> (case time_of (trim r) of Some t \<Rightarrow> rel < t | None \<Rightarrow> False))"

definition rollout_gate :: "('k, 'z) crypto_scheme \<Rightarrow> signed \<Rightarrow> policy_input \<Rightarrow> update_reject option" where
  "rollout_gate cr s i =
     (if security_advisory s then None
      else case rollout_of s of
             None \<Rightarrow> None
           | Some r \<Rightarrow>
               (let pct = min (percentage r) 100; b = rollout_bucket cr (install_id i) (cohort_seed r)
                in if pct \<le> b then Some (NotInRollout b pct) else None))"

definition evaluate ::
    "('k, 'z) crypto_scheme \<Rightarrow> (string \<Rightarrow> int option) \<Rightarrow> (string \<Rightarrow> ('v :: linorder) option) \<Rightarrow> manifest \<Rightarrow> bytes
     \<Rightarrow> policy_input \<Rightarrow> update_reject + update_decision" where
  "evaluate cr time_of ver_of m raw_bytes i =
     (let s = signed_part m
      in case verify_signature cr m raw_bytes of
           Inl e \<Rightarrow> Inl (Signature e)
         | Inr _ \<Rightarrow>
             if channel_name s \<noteq> channel_str (in_channel i)
             then Inl (WrongChannel (channel_name s) (channel_str (in_channel i)))
             else (case time_of (trim (manifest_expires_at s)) of
                     None \<Rightarrow> Inl (BadTimestamp (manifest_expires_at s))
                   | Some expires \<Rightarrow>
                       if expires < in_now i then Inl (Expired (manifest_expires_at s))
                       else (case time_of (trim (released_at s)) of
                               None \<Rightarrow> Inl (BadTimestamp (released_at s))
                             | Some rel \<Rightarrow>
                                 if replayed time_of i rel then Inl (ReplayOlderThanInstalled (released_at s))
                                 else (case ver_of (trim (version_str s)) of
                                         None \<Rightarrow> Inl (BadVersion (version_str s))
                                       | Some cand \<Rightarrow>
                                           (case ver_of (trim (installed_version_in i)) of
                                              None \<Rightarrow> Inl (BadVersion (installed_version_in i))
                                            | Some inst \<Rightarrow>
                                                (case ver_of (trim (min_supported_version s)) of
                                                   None \<Rightarrow> Inl (BadVersion (min_supported_version s))
                                                 | Some floor_v \<Rightarrow>
                                                     if cand \<le> inst then Inl (NotNewer (version_str s) (installed_version_in i))
                                                     else if inst < floor_v
                                                     then Inl (BelowMinSupported (installed_version_in i) (min_supported_version s))
                                                     else (case rollout_gate cr s i of
                                                             Some r \<Rightarrow> Inl r
                                                           | None \<Rightarrow>
                                                               (case map_of (artifacts s) (platform_key i) of
                                                                  None \<Rightarrow> Inl (NoArtifactForPlatform (platform_key i))
                                                                | Some a \<Rightarrow>
                                                                    Inr \<lparr>dec_version = version_str s,
                                                                         dec_released_at = released_at s,
                                                                         dec_artifact = a\<rparr>))))))))"

section \<open>The version record\<close>

record version_record =
  installed_version :: "string option"
  prior_version :: "string option"
  installed_build_released_at :: "string option"
  health_fail_count :: int

definition default_record :: version_record where
  "default_record = \<lparr>installed_version = None, prior_version = None, installed_build_released_at = None,
                     health_fail_count = 0\<rparr>"

text \<open>The row of \<open>app_meta\<close>; a write replaces it or fails.\<close>

type_synonym app_meta = "version_record option"

datatype record_error = NotNewerThanInstalled | DbError

definition load_record :: "app_meta \<Rightarrow> version_record" where
  "load_record db = (case db of Some r \<Rightarrow> r | None \<Rightarrow> default_record)"

definition save_record :: "bool \<Rightarrow> version_record \<Rightarrow> app_meta \<Rightarrow> (record_error + version_record) \<times> app_meta" where
  "save_record db_up r db = (if db_up then (Inr r, Some r) else (Inl DbError, db))"

definition ensure_seeded ::
    "bool \<Rightarrow> string \<Rightarrow> string option \<Rightarrow> app_meta \<Rightarrow> (record_error + version_record) \<times> app_meta" where
  "ensure_seeded db_up current rel db =
     (let r = load_record db
      in if unwrap_or '''' (installed_version r) = [] then
           save_record db_up (r\<lparr>installed_version := Some current,
             installed_build_released_at := (case installed_build_released_at r of None \<Rightarrow> rel | Some x \<Rightarrow> Some x)\<rparr>) db
         else (Inr r, db))"

definition record_successful_update ::
    "(string \<Rightarrow> ('v :: linorder) option) \<Rightarrow> bool \<Rightarrow> version_record \<Rightarrow> string \<Rightarrow> string option \<Rightarrow> app_meta
     \<Rightarrow> (record_error + version_record) \<times> app_meta" where
  "record_successful_update ver_of db_up r new_version new_released db =
     (if (case installed_version r of
            None \<Rightarrow> False
          | Some cur \<Rightarrow> (case (ver_of new_version, ver_of cur) of (Some a, Some b) \<Rightarrow> a \<le> b | _ \<Rightarrow> False))
      then (Inl NotNewerThanInstalled, db)
      else save_record db_up
             \<lparr>installed_version = Some new_version, prior_version = installed_version r,
              installed_build_released_at =
                (case new_released of Some x \<Rightarrow> Some x | None \<Rightarrow> installed_build_released_at r),
              health_fail_count = 0\<rparr> db)"

definition record_health_success :: "bool \<Rightarrow> version_record \<Rightarrow> app_meta \<Rightarrow> (record_error + version_record) \<times> app_meta" where
  "record_health_success db_up r db =
     (if health_fail_count r = 0 then (Inr r, db) else save_record db_up (r\<lparr>health_fail_count := 0\<rparr>) db)"

definition record_health_fail :: "bool \<Rightarrow> version_record \<Rightarrow> app_meta \<Rightarrow> (record_error + version_record) \<times> app_meta" where
  "record_health_fail db_up r db = save_record db_up (r\<lparr>health_fail_count := sat_add (health_fail_count r) 1\<rparr>) db"

definition record_rollback :: "bool \<Rightarrow> version_record \<Rightarrow> app_meta \<Rightarrow> (record_error + version_record) \<times> app_meta" where
  "record_rollback db_up r db =
     save_record db_up
       (case prior_version r of
          Some p \<Rightarrow> \<lparr>installed_version = Some p, prior_version = None, installed_build_released_at = None,
                     health_fail_count = 0\<rparr>
        | None \<Rightarrow> r\<lparr>health_fail_count := 0\<rparr>) db"

section \<open>The rollback decision\<close>

definition health_fail_rollback_threshold :: int where
  "health_fail_rollback_threshold = 2"

record self_check_report =
  cipher_present :: bool
  db_ok :: bool
  healthy :: bool

text \<open>\<open>query\<close> is the outcome of the trivial query.\<close>

definition probe :: "bool \<Rightarrow> bool \<Rightarrow> self_check_report" where
  "probe cipher query = \<lparr>cipher_present = cipher, db_ok = (cipher \<and> query), healthy = (cipher \<and> query)\<rparr>"

datatype rollback_action = Healthy | HeldFailing int | Rollback "string option"

definition decide :: "version_record \<Rightarrow> self_check_report \<Rightarrow> rollback_action" where
  "decide r rep =
     (if healthy rep then Healthy
      else (let n = sat_add (health_fail_count r) 1
            in if health_fail_rollback_threshold \<le> n then Rollback (prior_version r) else HeldFailing n))"

text \<open>\<open>readable\<close>: loading the record succeeded.\<close>

definition run_post_update_gate ::
    "bool \<Rightarrow> bool \<Rightarrow> self_check_report \<Rightarrow> app_meta \<Rightarrow> rollback_action \<times> app_meta" where
  "run_post_update_gate readable db_up rep db =
     (if \<not> readable then (Healthy, db)
      else (let r = load_record db; a = decide r rep
            in (a, case a of
                     Healthy \<Rightarrow> snd (record_health_success db_up r db)
                   | HeldFailing _ \<Rightarrow> snd (record_health_fail db_up r db)
                   | Rollback _ \<Rightarrow> snd (record_rollback db_up r db))))"

section \<open>What the signature covers\<close>

text \<open>What is relied on of string literals: they are delimited by quotes and self-delimiting.\<close>

definition string_literals :: "(string \<Rightarrow> string) \<Rightarrow> bool" where
  "string_literals enc \<longleftrightarrow>
     (\<forall>s. \<exists>r. enc s = CHR 0x22 # r) \<and> (\<forall>s t r r'. enc s @ r = enc t @ r' \<longrightarrow> s = t \<and> r = r')"

lemma literal_start: "string_literals enc \<Longrightarrow> \<exists>r. enc s = CHR 0x22 # r"
  unfolding string_literals_def by blast

lemma literal_unique: "string_literals enc \<Longrightarrow> enc s @ r = enc t @ r' \<Longrightarrow> s = t \<and> r = r'"
  unfolding string_literals_def by blast

fun float_free :: "json \<Rightarrow> bool" where
  "float_free (JFloat r) = False"
| "float_free (JArr xs) = list_all float_free xs"
| "float_free (JObj ms) = list_all (\<lambda>m. float_free (snd m)) ms"
| "float_free _ = True"

text \<open>Objects with their members in key order, at every level.\<close>

fun normalize_json :: "json \<Rightarrow> json" where
  "normalize_json (JArr xs) = JArr (map normalize_json xs)"
| "normalize_json (JObj ms) =
     JObj (map snd (sort_key fst (map (\<lambda>(k, v). (utf16_units k, (k, normalize_json v))) ms)))"
| "normalize_json v = v"

definition delimited :: "string \<Rightarrow> bool" where
  "delimited r \<longleftrightarrow> (case r of [] \<Rightarrow> True | c # _ \<Rightarrow> c \<in> set '',]}'')"

text \<open>Lists of self-delimiting items between separators decode uniquely.\<close>

lemma join_cons: "join_with sep (x # xs) = x @ (if xs = [] then [] else sep @ join_with sep xs)"
  by (cases xs) auto

lemma items_unique:
  assumes item: "\<And>x y r s. x \<in> set xs \<Longrightarrow> y \<in> set ys \<Longrightarrow> delimited r \<Longrightarrow> delimited s \<Longrightarrow> e x @ r = e y @ s \<Longrightarrow> f x = f y \<and> r = s"
    and start: "\<And>x. x \<in> set xs \<union> set ys \<Longrightarrow> e x \<noteq> [] \<and> hd (e x) \<notin> set '',]}''"
    and c: "c \<in> set '']}''"
    and eq: "join_with '','' (map e xs) @ c # r = join_with '','' (map e ys) @ c # s"
  shows "map f xs = map f ys \<and> r = s"
  using item start eq
proof (induction xs arbitrary: ys)
  case Nil
  show ?case
  proof (cases ys)
    case (Cons y ys')
    then have "e y \<noteq> []" "hd (e y) \<notin> set '',]}''" using Nil.prems(2) by auto
    then have False using Nil.prems(3) c by (cases "e y") (auto simp: Cons join_cons)
    then show ?thesis ..
  qed (use Nil in auto)
next
  case (Cons x xs)
  have sx: "e x \<noteq> []" "hd (e x) \<notin> set '',]}''" using Cons.prems(2) by auto
  show ?case
  proof (cases ys)
    case Nil
    then have False using sx Cons.prems(3) c by (cases "e x") (auto simp: join_cons)
    then show ?thesis ..
  next
    case ys: (Cons y ys')
    let ?rest = "\<lambda>zs t. (if zs = [] then c # t else CHR '','' # join_with '','' (map e zs) @ c # t)"
    have "e x @ ?rest xs r = e y @ ?rest ys' s"
      using Cons.prems(3) by (simp add: ys join_cons split: if_splits)
    moreover have "delimited (?rest zs t)" for zs t using c by (auto simp: delimited_def)
    ultimately have fx: "f x = f y" "?rest xs r = ?rest ys' s"
      using Cons.prems(1) [of x y "?rest xs r" "?rest ys' s"] by (auto simp: ys)
    show ?thesis
    proof (cases "xs = [] \<or> ys' = []")
      case True
      then show ?thesis using fx c by (auto simp: ys split: if_splits)
    next
      case False
      have "map f xs = map f ys' \<and> r = s"
      proof (rule Cons.IH)
        show "join_with '','' (map e xs) @ c # r = join_with '','' (map e ys') @ c # s" using fx(2) False by simp
      qed (use Cons.prems(1,2) in \<open>auto simp: ys\<close>)
      then show ?thesis using fx(1) by (simp add: ys)
    qed
  qed
qed

lemma show_int_eq_iff: "show_int m = show_int n \<longleftrightarrow> m = n"
proof -
  have ne: "show_nat k \<noteq> CHR ''-'' # x" for x k
  proof
    assume "show_nat k = CHR ''-'' # x"
    then have "is_digit CHR ''-''" using hd_show_nat [of k] by simp
    then show False by (simp add: is_digit_def)
  qed
  show ?thesis
    using ne [symmetric] ne by (cases "m < 0"; cases "n < 0") (auto simp: show_int_def show_nat_eq_iff)
qed

text \<open>The first character of a written value tells its kind.\<close>

lemma hd_show_int: "show_int n \<noteq> [] \<and> (hd (show_int n) = CHR ''-'' \<or> is_digit (hd (show_int n)))"
  using show_nat_digits hd_show_nat by (auto simp: show_int_def)

definition int_char :: "char \<Rightarrow> bool" where
  "int_char c \<longleftrightarrow> c = CHR ''-'' \<or> is_digit c"

lemma show_int_chars: "list_all int_char (show_int n)"
proof -
  have "list_all int_char (show_nat k)" for k
    using show_nat_digits [of k] by (auto simp: int_char_def list_all_iff)
  then show ?thesis by (auto simp: show_int_def int_char_def)
qed

lemma show_int_unique:
  assumes "show_int m @ r = show_int n @ s" "delimited r" "delimited s"
  shows "m = n \<and> r = s"
proof -
  have d: "takeWhile int_char (show_int k @ t) = show_int k" if "delimited t" for k t
  proof (cases t)
    case Nil
    then show ?thesis using show_int_chars [of k] by (simp add: list_all_iff takeWhile_eq_all_conv)
  next
    case (Cons c t')
    then have "\<not> int_char c" using that by (auto simp: delimited_def int_char_def is_digit_def)
    then show ?thesis using Cons show_int_chars [of k] by (simp add: list_all_iff takeWhile_append2)
  qed
  have "show_int m = show_int n" using d [OF assms(2), of m] d [OF assms(3), of n] assms(1) by simp
  then show ?thesis using assms(1) show_int_eq_iff by simp
qed

datatype kind = K_null | K_true | K_false | K_int | K_str | K_arr | K_obj | K_float

fun kind_of :: "json \<Rightarrow> kind" where
  "kind_of JNull = K_null" | "kind_of (JBool b) = (if b then K_true else K_false)"
| "kind_of (JInt n) = K_int" | "kind_of (JFloat r) = K_float" | "kind_of (JStr s) = K_str"
| "kind_of (JArr xs) = K_arr" | "kind_of (JObj ms) = K_obj"

definition first_kind :: "char \<Rightarrow> kind" where
  "first_kind c =
     (if c = CHR ''n'' then K_null else if c = CHR ''t'' then K_true else if c = CHR ''f'' then K_false
      else if int_char c then K_int else if c = CHR 0x22 then K_str
      else if c = CHR ''['' then K_arr else if c = CHR ''{'' then K_obj else K_float)"

lemma canonical_start:
  assumes "string_literals enc" "float_free v"
  shows "canonicalize_value enc num v \<noteq> [] \<and> first_kind (hd (canonicalize_value enc num v)) = kind_of v \<and>
    hd (canonicalize_value enc num v) \<notin> set '',]}''"
proof (cases v)
  case (JInt n)
  have h: "int_char (hd (show_int n))" "show_int n \<noteq> []" using hd_show_int [of n] by (auto simp: int_char_def)
  then have "hd (show_int n) \<noteq> CHR ''n''" "hd (show_int n) \<noteq> CHR ''t''" "hd (show_int n) \<noteq> CHR ''f''"
    "hd (show_int n) \<notin> set '',]}''" by (auto simp: int_char_def is_digit_def)
  then show ?thesis using h JInt by (simp add: first_kind_def)
next
  case (JStr s)
  then obtain r where "enc s = CHR 0x22 # r" using literal_start [OF assms(1)] by blast
  then show ?thesis using JStr by (simp add: first_kind_def int_char_def is_digit_def)
next
  case (JFloat q)
  then show ?thesis using assms(2) by simp
next
  case JNull
  then show ?thesis by (simp add: first_kind_def)
next
  case (JBool b)
  then show ?thesis by (cases b) (simp_all add: first_kind_def)
next
  case (JArr xs)
  have "first_kind CHR ''['' = K_arr" by (simp add: first_kind_def int_char_def is_digit_def)
  moreover have "canonicalize_value enc num v = CHR ''['' # join_with '','' (map (canonicalize_value enc num) xs) @ '']''"
    using JArr by simp
  ultimately show ?thesis using JArr by simp
next
  case (JObj ms)
  have "first_kind CHR ''{'' = K_obj" by (simp add: first_kind_def int_char_def is_digit_def)
  moreover obtain t where "canonicalize_value enc num v = CHR ''{'' # t"
    using JObj by simp
  ultimately show ?thesis using JObj by simp
qed

definition unique_code :: "(string \<Rightarrow> string) \<Rightarrow> (rat \<Rightarrow> string) \<Rightarrow> json \<Rightarrow> bool" where
  "unique_code enc num v \<longleftrightarrow>
     (\<forall>w r s. float_free w \<and> delimited r \<and> delimited s \<and> canonicalize_value enc num v @ r = canonicalize_value enc num w @ s
        \<longrightarrow> normalize_json v = normalize_json w \<and> r = s)"

definition member_code :: "(string \<Rightarrow> string) \<Rightarrow> (rat \<Rightarrow> string) \<Rightarrow> string \<times> json \<Rightarrow> string" where
  "member_code enc num m = enc (fst m) @ '':'' @ canonicalize_value enc num (snd m)"

definition sort_members :: "(string \<times> json) list \<Rightarrow> (string \<times> json) list" where
  "sort_members ms = sort_key (\<lambda>m. utf16_units (fst m)) ms"

lemma set_sort_members [simp]: "set (sort_members ms) = set ms"
  by (simp add: sort_members_def)

lemma canonicalize_obj: "canonicalize_value enc num (JObj ms) =
    ''{'' @ join_with '','' (map (member_code enc num) (sort_members ms)) @ ''}''"
proof -
  have "map snd (sort_key fst (map (\<lambda>(k, v). (utf16_units k, enc k @ '':'' @ canonicalize_value enc num v)) ms)) =
      map (member_code enc num) (sort_members ms)"
    using sort_key_map [of "\<lambda>m. (utf16_units (fst m), member_code enc num m)" fst ms]
    by (simp add: sort_members_def member_code_def case_prod_beta' comp_def flip: sort_key_map)
  then show ?thesis by simp
qed

lemma normalize_obj: "normalize_json (JObj ms) = JObj (map (\<lambda>m. (fst m, normalize_json (snd m))) (sort_members ms))"
proof -
  have "map snd (sort_key fst (map (\<lambda>(k, v). (utf16_units k, (k, normalize_json v))) ms)) =
      map (\<lambda>m. (fst m, normalize_json (snd m))) (sort_members ms)"
    using sort_key_map [of "\<lambda>m. (utf16_units (fst m), (fst m, normalize_json (snd m)))" fst ms]
    by (simp add: sort_members_def case_prod_beta' comp_def flip: sort_key_map)
  then show ?thesis by simp
qed

lemma member_unique:
  assumes "string_literals enc" "unique_code enc num (snd m)" "float_free (snd k)" "delimited r" "delimited s"
    "member_code enc num m @ r = member_code enc num k @ s"
  shows "(fst m, normalize_json (snd m)) = (fst k, normalize_json (snd k)) \<and> r = s"
proof -
  have "enc (fst m) @ ('':'' @ canonicalize_value enc num (snd m) @ r) = enc (fst k) @ ('':'' @ canonicalize_value enc num (snd k) @ s)"
    using assms(6) by (simp add: member_code_def)
  then have "fst m = fst k \<and> '':'' @ canonicalize_value enc num (snd m) @ r = '':'' @ canonicalize_value enc num (snd k) @ s"
    by (rule literal_unique [OF assms(1)])
  then show ?thesis using assms(2-5) unfolding unique_code_def by auto
qed

lemma same_kind:
  assumes "string_literals enc" "float_free v" "float_free w"
    "canonicalize_value enc num v @ r = canonicalize_value enc num w @ s"
  shows "kind_of v = kind_of w"
proof -
  have "hd (canonicalize_value enc num v) = hd (canonicalize_value enc num w)"
    using canonical_start [OF assms(1,2), of num] canonical_start [OF assms(1,3), of num] assms(4)
    by (metis hd_append2)
  then show ?thesis
    using canonical_start [OF assms(1,2), of num] canonical_start [OF assms(1,3), of num] by metis
qed

lemma canonical_unique:
  assumes "string_literals enc" "float_free v"
  shows "unique_code enc num v"
  using assms
proof (induction enc num v rule: canonicalize_value.induct)
  case (6 enc num xs)
  show ?case
    unfolding unique_code_def
  proof (intro allI impI)
    fix w r s
    assume a: "float_free w \<and> delimited r \<and> delimited s \<and>
      canonicalize_value enc num (JArr xs) @ r = canonicalize_value enc num w @ s"
    then have "kind_of w = K_arr" using same_kind [OF 6(2,3), of w] by fastforce
    then obtain ys where w: "w = JArr ys" by (cases w) (auto split: if_splits)
    have "map normalize_json xs = map normalize_json ys \<and> r = s"
    proof (rule items_unique)
      show "CHR '']'' \<in> set '']}''" by simp
      show "join_with '','' (map (canonicalize_value enc num) xs) @ CHR '']'' # r =
          join_with '','' (map (canonicalize_value enc num) ys) @ CHR '']'' # s" using a w by simp
      fix x y t u
      show "x \<in> set xs \<union> set ys \<Longrightarrow> canonicalize_value enc num x \<noteq> [] \<and> hd (canonicalize_value enc num x) \<notin> set '',]}''"
        using canonical_start [OF 6(2), of x num] 6(3) a w by (auto simp: list_all_iff)
      show "x \<in> set xs \<Longrightarrow> y \<in> set ys \<Longrightarrow> delimited t \<Longrightarrow> delimited u \<Longrightarrow>
          canonicalize_value enc num x @ t = canonicalize_value enc num y @ u \<Longrightarrow> normalize_json x = normalize_json y \<and> t = u"
        using 6(1) [of x] 6(2,3) a w unfolding unique_code_def by (auto simp: list_all_iff)
    qed
    then show "normalize_json (JArr xs) = normalize_json w \<and> r = s" using w by simp
  qed
next
  case (7 enc num ms)
  show ?case
    unfolding unique_code_def
  proof (intro allI impI)
    fix w r s
    assume a: "float_free w \<and> delimited r \<and> delimited s \<and>
      canonicalize_value enc num (JObj ms) @ r = canonicalize_value enc num w @ s"
    then have "kind_of w = K_obj" using same_kind [OF 7(2,3), of w] by fastforce
    then obtain ks where w: "w = JObj ks" by (cases w) (auto split: if_splits)
    let ?f = "\<lambda>m. (fst m, normalize_json (snd m))"
    have "map ?f (sort_members ms) = map ?f (sort_members ks) \<and> r = s"
    proof (rule items_unique)
      show "CHR ''}'' \<in> set '']}''" by simp
      show "join_with '','' (map (member_code enc num) (sort_members ms)) @ CHR ''}'' # r =
          join_with '','' (map (member_code enc num) (sort_members ks)) @ CHR ''}'' # s"
        using a w by (simp only: canonicalize_obj) simp
      fix m k t u
      show "m \<in> set (sort_members ms) \<union> set (sort_members ks) \<Longrightarrow>
          member_code enc num m \<noteq> [] \<and> hd (member_code enc num m) \<notin> set '',]}''"
      proof -
        obtain x where "enc (fst m) = CHR 0x22 # x" using literal_start [OF 7(2)] by blast
        then show ?thesis by (simp add: member_code_def)
      qed
      show "m \<in> set (sort_members ms) \<Longrightarrow> k \<in> set (sort_members ks) \<Longrightarrow> delimited t \<Longrightarrow> delimited u \<Longrightarrow>
          member_code enc num m @ t = member_code enc num k @ u \<Longrightarrow> ?f m = ?f k \<and> t = u"
        using member_unique [OF 7(2), of num m k t u] 7(1) [of m "fst m" "snd m"] 7(2,3) a w
        by (auto simp: list_all_iff)
    qed
    then show "normalize_json (JObj ms) = normalize_json w \<and> r = s" using w by (simp only: normalize_obj)
  qed
next
  case (3 enc num n)
  show ?case
    unfolding unique_code_def
  proof (intro allI impI)
    fix w r s
    assume a: "float_free w \<and> delimited r \<and> delimited s \<and>
      canonicalize_value enc num (JInt n) @ r = canonicalize_value enc num w @ s"
    then have "kind_of w = K_int" using same_kind [OF 3(1,2), of w] by fastforce
    then obtain m where "w = JInt m" by (cases w) (auto split: if_splits)
    then show "normalize_json (JInt n) = normalize_json w \<and> r = s" using a show_int_unique [of n r m s] by simp
  qed
next
  case (5 enc num x)
  show ?case
    unfolding unique_code_def
  proof (intro allI impI)
    fix w r s
    assume a: "float_free w \<and> delimited r \<and> delimited s \<and>
      canonicalize_value enc num (JStr x) @ r = canonicalize_value enc num w @ s"
    then have "kind_of w = K_str" using same_kind [OF 5(1,2), of w] by fastforce
    then obtain y where "w = JStr y" by (cases w) (auto split: if_splits)
    then show "normalize_json (JStr x) = normalize_json w \<and> r = s" using a literal_unique [OF 5(1), of x r y s] by simp
  qed
next
  case (1 enc num)
  show ?case
    unfolding unique_code_def
  proof (intro allI impI)
    fix w r s
    assume a: "float_free w \<and> delimited r \<and> delimited s \<and>
      canonicalize_value enc num JNull @ r = canonicalize_value enc num w @ s"
    then have "kind_of w = K_null" using same_kind [OF 1(1,2), of w] by fastforce
    then have "w = JNull" by (cases w) (auto split: if_splits)
    then show "normalize_json JNull = normalize_json w \<and> r = s" using a by simp
  qed
next
  case (2 enc num b)
  show ?case
    unfolding unique_code_def
  proof (intro allI impI)
    fix w r s
    assume a: "float_free w \<and> delimited r \<and> delimited s \<and>
      canonicalize_value enc num (JBool b) @ r = canonicalize_value enc num w @ s"
    then have "kind_of w = (if b then K_true else K_false)" using same_kind [OF 2(1,2), of w] by fastforce
    then have "w = JBool b" by (cases w) (auto split: if_splits)
    then show "normalize_json (JBool b) = normalize_json w \<and> r = s" using a by simp
  qed
qed simp

text \<open>The signature covers the whole signed object: two float-free objects have the same canonical
  bytes only if they agree in every value at every level, up to the order of members.\<close>

theorem canonical_bytes_injective:
  assumes "string_literals enc" "float_free v" "float_free w"
    "canonicalize_value enc num v = canonicalize_value enc num w"
  shows "normalize_json v = normalize_json w"
proof -
  have "delimited []" by (simp add: delimited_def)
  then show ?thesis
    using canonical_unique [OF assms(1,2), of num] assms(3,4) unfolding unique_code_def by fastforce
qed

definition quote_string :: "string \<Rightarrow> string" where
  "quote_string s =
     CHR 0x22 # concat (map (\<lambda>c. if c = CHR 0x22 \<or> c = CHR 0x5C then [CHR 0x5C, c] else [c]) s)
       @ [CHR 0x22]"

lemma quote_string_literals: "string_literals quote_string"
proof -
  let ?q = "CHR 0x22" and ?b = "CHR 0x5C"
  let ?e = "\<lambda>c. if c = ?q \<or> c = ?b then [?b, c] else [c]"
  have u: "concat (map ?e s) @ ?q # r = concat (map ?e t) @ ?q # r' \<Longrightarrow> s = t \<and> r = r'" for s t r r'
  proof (induction s arbitrary: t)
    case Nil
    then show ?case by (cases t) (auto split: if_splits)
  next
    case (Cons a s)
    then show ?case by (cases t) (auto split: if_splits)
  qed
  show ?thesis
    unfolding string_literals_def
  proof (intro conjI allI impI)
    show "\<exists>r. quote_string s = CHR 0x22 # r" for s by (simp add: quote_string_def)
    fix s t r r' assume "quote_string s @ r = quote_string t @ r'"
    then have "concat (map ?e s) @ ?q # r = concat (map ?e t) @ ?q # r'" by (simp add: quote_string_def)
    then show "s = t" "r = r'" using u by blast+
  qed
qed

theorem canonical_bytes_injective_witness: "normalize_json (JArr [JInt 1, JNull]) = JArr [JInt 1, JNull]"
  using canonical_bytes_injective [OF quote_string_literals, of "JArr [JInt 1, JNull]" "JArr [JInt 1, JNull]"] by simp

section \<open>Committed versions and rollback\<close>

text \<open>The row through seeding, committed updates and boots, with every parsed version.\<close>

inductive record_step :: "(string \<Rightarrow> ('v :: linorder) option) \<Rightarrow> app_meta \<Rightarrow> app_meta \<Rightarrow> bool"
  for ver_of :: "string \<Rightarrow> 'v option" where
  step_seed: "ver_of current \<noteq> None \<Longrightarrow> ensure_seeded up current rel db = (res, db') \<Longrightarrow> record_step ver_of db db'"
| step_update: "ver_of v \<noteq> None \<Longrightarrow> record_successful_update ver_of up (load_record db) v rel db = (res, db') \<Longrightarrow>
    record_step ver_of db db'"
| step_boot: "run_post_update_gate readable up rep db = (act, db') \<Longrightarrow> record_step ver_of db db'"

definition record_init :: "app_meta \<Rightarrow> bool" where
  "record_init db \<longleftrightarrow> db = None \<or> db = Some default_record"

definition record_ok :: "(string \<Rightarrow> ('v :: linorder) option) \<Rightarrow> app_meta \<Rightarrow> bool" where
  "record_ok ver_of db \<longleftrightarrow>
     (let r = load_record db
      in health_fail_count r \<in> {0, 1} \<and>
         (\<forall>v. installed_version r = Some v \<longrightarrow> ver_of v \<noteq> None) \<and>
         (\<forall>p. prior_version r = Some p \<longrightarrow> (\<exists>v a b. installed_version r = Some v \<and> ver_of p = Some a \<and> ver_of v = Some b \<and> a < b)))"

lemma record_ok_Some: "record_ok ver_of (Some r) \<longleftrightarrow>
    health_fail_count r \<in> {0, 1} \<and> (\<forall>v. installed_version r = Some v \<longrightarrow> ver_of v \<noteq> None) \<and>
    (\<forall>p. prior_version r = Some p \<longrightarrow> (\<exists>v a b. installed_version r = Some v \<and> ver_of p = Some a \<and> ver_of v = Some b \<and> a < b))"
  by (simp add: record_ok_def load_record_def)

lemma record_ok_load: "record_ok ver_of db \<longleftrightarrow> record_ok ver_of (Some (load_record db))"
  by (simp add: record_ok_def load_record_def)

lemma save_record_ok: "record_ok ver_of db \<Longrightarrow> record_ok ver_of (Some r) \<Longrightarrow> record_ok ver_of (snd (save_record up r db))"
  by (simp add: save_record_def)

lemma sat_add_small: "c \<in> {0, 1} \<Longrightarrow> sat_add c 1 = c + 1"
  by (auto simp: rust_arith)

lemma gate_ok:
  assumes "record_ok ver_of db"
  shows "record_ok ver_of (snd (run_post_update_gate readable up rep db))"
proof -
  let ?r = "load_record db"
  have r: "record_ok ver_of (Some ?r)" using assms record_ok_load by blast
  then have c: "health_fail_count ?r \<in> {0, 1}" by (simp add: record_ok_Some)
  have "record_ok ver_of (snd (record_health_success up ?r db))"
    using r assms by (auto simp: record_health_success_def record_ok_Some intro: save_record_ok)
  moreover have "record_ok ver_of (snd (record_rollback up ?r db))"
    unfolding record_rollback_def
    by (rule save_record_ok [OF assms]) (use r in \<open>auto simp: record_ok_Some split: option.split\<close>)
  moreover have "record_ok ver_of (snd (record_health_fail up ?r db))" if "decide ?r rep = HeldFailing n" for n
  proof -
    have "health_fail_count ?r = 0"
      using that c by (auto simp: decide_def Let_def sat_add_small health_fail_rollback_threshold_def split: if_splits)
    then show ?thesis
      unfolding record_health_fail_def
      by (intro save_record_ok [OF assms]) (use r in \<open>simp add: record_ok_Some sat_add_small\<close>)
  qed
  ultimately show ?thesis
    using assms by (auto simp: run_post_update_gate_def Let_def split: rollback_action.split)
qed

lemma seed_ok:
  assumes "record_ok ver_of db" "ver_of [] = None" "ver_of current \<noteq> None"
  shows "record_ok ver_of (snd (ensure_seeded up current rel db))"
proof (cases "unwrap_or [] (installed_version (load_record db)) = []")
  case True
  have r: "record_ok ver_of (Some (load_record db))" using assms(1) record_ok_load by blast
  have i: "installed_version (load_record db) = None"
    using True r assms(2) by (cases "installed_version (load_record db)") (auto simp: record_ok_Some)
  then have p: "prior_version (load_record db) = None"
    using r by (cases "prior_version (load_record db)") (auto simp: record_ok_Some)
  have "record_ok ver_of (Some ((load_record db)\<lparr>installed_version := Some current, installed_build_released_at := x\<rparr>))" for x
    using r assms(3) p by (simp add: record_ok_Some)
  then show ?thesis by (simp add: ensure_seeded_def Let_def i save_record_ok [OF assms(1)])
next
  case False
  then show ?thesis using assms(1) by (simp add: ensure_seeded_def)
qed

lemma update_ok:
  assumes "record_ok ver_of db" "ver_of v \<noteq> None"
  shows "record_ok ver_of (snd (record_successful_update ver_of up (load_record db) v rel db))"
proof -
  obtain c where c: "ver_of v = Some c" using assms(2) by auto
  have r: "record_ok ver_of (Some (load_record db))" using assms(1) record_ok_load by blast
  show ?thesis
  proof (cases "installed_version (load_record db)")
    case None
    have "record_ok ver_of (Some \<lparr>installed_version = Some v, prior_version = None, installed_build_released_at = x,
        health_fail_count = 0\<rparr>)" for x
      using c by (simp add: record_ok_Some)
    then show ?thesis by (simp add: record_successful_update_def None save_record_ok [OF assms(1)])
  next
    case (Some cur)
    obtain b where b: "ver_of cur = Some b" using r Some by (auto simp: record_ok_Some)
    show ?thesis
    proof (cases "c \<le> b")
      case True
      then show ?thesis using assms(1) by (simp add: record_successful_update_def Some b c)
    next
      case False
      have "record_ok ver_of (Some \<lparr>installed_version = Some v, prior_version = Some cur, installed_build_released_at = x,
          health_fail_count = 0\<rparr>)" for x
        using b c False by (simp add: record_ok_Some)
      then show ?thesis using False
        by (simp add: record_successful_update_def Some b c save_record_ok [OF assms(1)])
    qed
  qed
qed

lemma reach_record_ok:
  assumes "reach record_init (record_step ver_of) db" "ver_of [] = None"
  shows "record_ok ver_of db"
  using assms(1)
proof (induction rule: reach.induct)
  case (reach_init db)
  then show ?case by (auto simp: record_init_def record_ok_def load_record_def default_record_def)
next
  case (reach_step db db')
  from reach_step(2) show ?case
  proof cases
    case (step_seed current up rel res)
    then show ?thesis using seed_ok [OF reach_step(3) assms(2), of current up rel] by simp
  next
    case (step_update v up rel res)
    then show ?thesis using update_ok [OF reach_step(3), of v up rel] by simp
  next
    case (step_boot readable up rep act)
    then show ?thesis using gate_ok [OF reach_step(3), of readable up rep] by simp
  qed
qed

text \<open>Rollback moves exactly one step back and only on a repeated failure: whatever seeding,
  updates and boots came before, a boot changes the installed version only when its self-check failed
  right after another failed boot; it then returns to the retained prior version, which is strictly
  older, and no further version is retained.\<close>

theorem rollback_one_step:
  assumes "reach record_init (record_step ver_of) db" "ver_of [] = None"
    and "run_post_update_gate readable up rep db = (act, db')"
    and "installed_version (load_record db') \<noteq> installed_version (load_record db)"
  shows "\<not> healthy rep \<and> health_fail_count (load_record db) = 1 \<and>
    (\<exists>p v a b. prior_version (load_record db) = Some p \<and> installed_version (load_record db) = Some v \<and>
       act = Rollback (Some p) \<and> installed_version (load_record db') = Some p \<and>
       prior_version (load_record db') = None \<and> ver_of p = Some a \<and> ver_of v = Some b \<and> a < b)"
proof -
  let ?r = "load_record db"
  have ok: "record_ok ver_of (Some ?r)"
    using reach_record_ok [OF assms(1,2)] record_ok_load by blast
  have rd: readable using assms(3,4) by (cases readable) (auto simp: run_post_update_gate_def)
  have act: "act = decide ?r rep" using assms(3) rd by (simp add: run_post_update_gate_def Let_def)
  have same: "installed_version (load_record (snd (save_record up r db))) = installed_version ?r"
    if "installed_version r = installed_version ?r" for r
    using that by (simp add: save_record_def load_record_def)
  have hs: "installed_version (load_record (snd (record_health_success up ?r db))) = installed_version ?r"
    unfolding record_health_success_def using same by simp
  have hf: "installed_version (load_record (snd (record_health_fail up ?r db))) = installed_version ?r"
    unfolding record_health_fail_def using same by simp
  have dbe: "db' = (case act of Healthy \<Rightarrow> snd (record_health_success up ?r db)
      | HeldFailing _ \<Rightarrow> snd (record_health_fail up ?r db) | Rollback _ \<Rightarrow> snd (record_rollback up ?r db))"
    using assms(3) rd unfolding act by (simp add: run_post_update_gate_def Let_def)
  then obtain p where p: "act = Rollback p"
    using assms(4) hs hf by (cases act) simp_all
  have d: "\<not> healthy rep" "health_fail_count ?r = 1" "p = prior_version ?r"
    using act p ok by (auto simp: decide_def Let_def record_ok_Some sat_add_small health_fail_rollback_threshold_def split: if_splits)
  have db': "db' = snd (record_rollback up ?r db)"
    using dbe p by simp
  obtain q where q: "prior_version ?r = Some q"
    using assms(4) db' same [of "?r\<lparr>health_fail_count := 0\<rparr>"]
    by (cases "prior_version ?r") (auto simp: record_rollback_def)
  have up using assms(4) db' by (cases up) (auto simp: record_rollback_def save_record_def)
  then have "installed_version (load_record db') = Some q" "prior_version (load_record db') = None"
    using db' q by (simp_all add: record_rollback_def save_record_def load_record_def)
  then show ?thesis using d p q ok by (auto simp: record_ok_Some)
qed

definition sample_row :: version_record where
  "sample_row = \<lparr>installed_version = Some ''bb'', prior_version = Some ''a'', installed_build_released_at = None,
     health_fail_count = 1\<rparr>"

definition length_version :: "string \<Rightarrow> nat option" where
  "length_version s = (if s = [] then None else Some (length s))"

lemma sample_row_reachable: "reach record_init (record_step length_version) (Some sample_row)"
proof -
  let ?a = "default_record\<lparr>installed_version := Some ''a''\<rparr>"
  have "reach record_init (record_step length_version) None" by (rule reach_init) (simp add: record_init_def)
  moreover have "ensure_seeded True ''a'' None None = (Inr ?a, Some ?a)"
    by (simp add: ensure_seeded_def load_record_def default_record_def save_record_def)
  then have "record_step length_version None (Some ?a)"
    by (rule step_seed [rotated]) (simp add: length_version_def)
  ultimately have "reach record_init (record_step length_version) (Some ?a)" by (rule reach_step)
  moreover have "record_successful_update length_version True (load_record (Some ?a)) ''bb'' None (Some ?a) =
      (Inr (sample_row\<lparr>health_fail_count := 0\<rparr>), Some (sample_row\<lparr>health_fail_count := 0\<rparr>))"
    by (simp add: length_version_def record_successful_update_def load_record_def default_record_def save_record_def sample_row_def)
  then have "record_step length_version (Some ?a) (Some (sample_row\<lparr>health_fail_count := 0\<rparr>))"
    by (rule step_update [rotated]) (simp add: length_version_def)
  ultimately have "reach record_init (record_step length_version) (Some (sample_row\<lparr>health_fail_count := 0\<rparr>))" by (rule reach_step)
  moreover have "run_post_update_gate True True (probe False False) (Some (sample_row\<lparr>health_fail_count := 0\<rparr>)) =
      (HeldFailing 1, Some sample_row)"
    by (simp add: run_post_update_gate_def load_record_def decide_def probe_def sample_row_def Let_def rust_arith
        health_fail_rollback_threshold_def record_health_fail_def save_record_def)
  then have "record_step length_version (Some (sample_row\<lparr>health_fail_count := 0\<rparr>)) (Some sample_row)"
    by (rule step_boot)
  ultimately show ?thesis by (rule reach_step)
qed

theorem rollback_one_step_witness:
  "fst (run_post_update_gate True True (probe False False) (Some sample_row)) = Rollback (Some ''a'')"
proof -
  obtain act db' where g: "run_post_update_gate True True (probe False False) (Some sample_row) = (act, db')"
    by fastforce
  have n: "installed_version (load_record db') \<noteq> installed_version (load_record (Some sample_row))"
    using g by (auto simp: run_post_update_gate_def load_record_def decide_def probe_def sample_row_def Let_def rust_arith
        health_fail_rollback_threshold_def record_rollback_def save_record_def)
  have e: "length_version [] = None" by (simp add: length_version_def)
  from rollback_one_step [OF sample_row_reachable e g n] have "act = Rollback (Some ''a'')"
    by (simp add: sample_row_def load_record_def)
  then show ?thesis using g by simp
qed

text \<open>The guard against recording an older version needs both versions to parse: an unparseable one
  is recorded whatever is installed.\<close>

lemma unparseable_version_recorded:
  "ver_of v = None \<Longrightarrow> fst (record_successful_update ver_of True r v rel db) \<noteq> Inl NotNewerThanInstalled"
  by (auto simp: record_successful_update_def save_record_def split: option.splits)

section \<open>When an update is applied\<close>

text \<open>A manifest is authentic when its schema is the supported one and the canonical bytes of the
  signed object carry a valid Ed25519 signature of the compiled-in key its key id names.\<close>

definition authentic :: "('k, 'z) crypto_scheme \<Rightarrow> manifest \<Rightarrow> bytes \<Rightarrow> bool" where
  "authentic cr m raw_bytes \<longleftrightarrow>
     schema_version m = 1 \<and>
     (\<exists>k key raw payload sig.
        k \<in> set pinned_keys \<and> pk_kid k = kid m \<and>
        verifying_key_from_hex (key_of_bytes cr) (pubkey_hex k) = Some key \<and>
        parse_json cr raw_bytes = Some raw \<and> json_get ''signed'' raw = Some payload \<and>
        decode_signature (b64_url_nopad cr) (b64_url cr) (signature m) = Some sig \<and>
        ed25519_verify cr key (canonicalize_value (enc_string cr) (num_string cr) payload) sig)"

lemma pinned_unique: "k \<in> set pinned_keys \<Longrightarrow> l \<in> set pinned_keys \<Longrightarrow> pk_kid k = pk_kid l \<Longrightarrow> k = l"
proof -
  have "distinct (map pk_kid pinned_keys)" by (simp add: pinned_keys_def)
  then have "inj_on pk_kid (set pinned_keys)" by (simp add: distinct_map)
  then show "k \<in> set pinned_keys \<Longrightarrow> l \<in> set pinned_keys \<Longrightarrow> pk_kid k = pk_kid l \<Longrightarrow> k = l"
    by (simp add: inj_on_eq_iff)
qed

lemma find_pinnedD: "find (\<lambda>k. pk_kid k = i) pinned_keys = Some k \<Longrightarrow> k \<in> set pinned_keys \<and> pk_kid k = i"
  by (auto simp: find_Some_iff)

lemma find_pinned:
  "find (\<lambda>k. pk_kid k = i) pinned_keys = Some k \<longleftrightarrow> k \<in> set pinned_keys \<and> pk_kid k = i"
proof
  assume k: "k \<in> set pinned_keys \<and> pk_kid k = i"
  then obtain l where l: "find (\<lambda>k. pk_kid k = i) pinned_keys = Some l"
    by (cases "find (\<lambda>k. pk_kid k = i) pinned_keys") (auto simp: find_None_iff)
  with k pinned_unique find_pinnedD [OF l] show "find (\<lambda>k. pk_kid k = i) pinned_keys = Some k" by metis
qed (rule find_pinnedD)

lemma pinned_pubkey_iff: "pinned_pubkey i = Some h \<longleftrightarrow> (\<exists>k \<in> set pinned_keys. pk_kid k = i \<and> pubkey_hex k = h)"
  by (auto simp: pinned_pubkey_def find_pinned)

lemma verify_signature_iff: "verify_signature cr m raw_bytes = Inr () \<longleftrightarrow> authentic cr m raw_bytes"
proof (cases "pinned_pubkey (kid m)")
  case None
  then have "\<not> (\<exists>k. k \<in> set pinned_keys \<and> pk_kid k = kid m)"
    by (simp add: pinned_pubkey_def find_None_iff)
  then show ?thesis using None by (auto simp: verify_signature_def authentic_def)
next
  case (Some hex)
  then obtain k where k: "k \<in> set pinned_keys" "pk_kid k = kid m" "pubkey_hex k = hex"
    by (auto simp: pinned_pubkey_iff)
  have eq: "l \<in> set pinned_keys \<and> pk_kid l = kid m \<longleftrightarrow> l = k" for l
    using pinned_unique k(1,2) by metis
  have one: "(\<exists>l key raw payload sig. l \<in> set pinned_keys \<and> pk_kid l = kid m \<and> P l key raw payload sig)
      \<longleftrightarrow> (\<exists>key raw payload sig. P k key raw payload sig)" for P
    unfolding conj_assoc [symmetric] eq by simp
  have a: "authentic cr m raw_bytes \<longleftrightarrow> schema_version m = 1 \<and>
     (\<exists>key raw payload sig.
        verifying_key_from_hex (key_of_bytes cr) hex = Some key \<and>
        parse_json cr raw_bytes = Some raw \<and> json_get ''signed'' raw = Some payload \<and>
        decode_signature (b64_url_nopad cr) (b64_url cr) (signature m) = Some sig \<and>
        ed25519_verify cr key (canonicalize_value (enc_string cr) (num_string cr) payload) sig)"
    unfolding authentic_def one k(3) by (rule refl)
  show ?thesis unfolding a
    by (simp add: verify_signature_def Some schema_version_supported_def split: option.split)
qed

text \<open>The gates after the signature, stated declaratively.\<close>

definition gates_pass ::
    "('k, 'z) crypto_scheme \<Rightarrow> (string \<Rightarrow> int option) \<Rightarrow> (string \<Rightarrow> ('v :: linorder) option) \<Rightarrow> signed \<Rightarrow> policy_input
     \<Rightarrow> artifact \<Rightarrow> bool" where
  "gates_pass cr time_of ver_of s i a \<longleftrightarrow>
     channel_name s = channel_str (in_channel i) \<and>
     (\<exists>e. time_of (trim (manifest_expires_at s)) = Some e \<and> in_now i \<le> e) \<and>
     (\<exists>t. time_of (trim (released_at s)) = Some t \<and>
        (\<forall>r u. installed_build_released_at_in i = Some r \<longrightarrow> time_of (trim r) = Some u \<longrightarrow> u \<le> t)) \<and>
     (\<exists>c v f. ver_of (trim (version_str s)) = Some c \<and> ver_of (trim (installed_version_in i)) = Some v \<and>
        ver_of (trim (min_supported_version s)) = Some f \<and> v < c \<and> f \<le> v) \<and>
     (\<forall>r. rollout_of s = Some r \<longrightarrow> \<not> security_advisory s \<longrightarrow>
        rollout_bucket cr (install_id i) (cohort_seed r) < percentage r) \<and>
     map_of (artifacts s) (platform_key i) = Some a"

lemma rollout_bucket_less: "rollout_bucket cr inst seed < 100"
  by (simp add: rollout_bucket_def Let_def)

lemma rollout_gate_None: "rollout_gate cr s i = None \<longleftrightarrow>
    (\<forall>r. rollout_of s = Some r \<longrightarrow> \<not> security_advisory s \<longrightarrow>
       rollout_bucket cr (install_id i) (cohort_seed r) < percentage r)"
proof (cases "rollout_of s")
  case (Some r)
  then show ?thesis using rollout_bucket_less [of cr "install_id i" "cohort_seed r"]
    by (auto simp: rollout_gate_def Let_def min_def split: if_splits)
qed (simp add: rollout_gate_def)

lemma replayed_iff: "\<not> replayed time_of i t \<longleftrightarrow>
    (\<forall>r u. installed_build_released_at_in i = Some r \<longrightarrow> time_of (trim r) = Some u \<longrightarrow> u \<le> t)"
  by (auto simp: replayed_def split: option.splits)

lemma gates_pass_alt: "gates_pass cr time_of ver_of s i a \<longleftrightarrow>
     channel_name s = channel_str (in_channel i) \<and>
     (\<exists>e. time_of (trim (manifest_expires_at s)) = Some e \<and> in_now i \<le> e) \<and>
     (\<exists>t. time_of (trim (released_at s)) = Some t \<and> \<not> replayed time_of i t) \<and>
     (\<exists>c v f. ver_of (trim (version_str s)) = Some c \<and> ver_of (trim (installed_version_in i)) = Some v \<and>
        ver_of (trim (min_supported_version s)) = Some f \<and> v < c \<and> f \<le> v) \<and>
     rollout_gate cr s i = None \<and> map_of (artifacts s) (platform_key i) = Some a"
  unfolding gates_pass_def replayed_iff rollout_gate_None by (rule refl)

text \<open>C6. An update is applied exactly when every documented gate holds: an authentic signature, the
  installation's own channel, an unexpired manifest, no replay of an older build, a strictly newer
  version from at least the minimum supported one, the staged roll-out (a security advisory skips it)
  and an artifact for the platform; what is applied is that artifact.\<close>

theorem update_applied_iff:
  "evaluate cr time_of ver_of m raw_bytes i = Inr d \<longleftrightarrow>
     authentic cr m raw_bytes \<and> gates_pass cr time_of ver_of (signed_part m) i (dec_artifact d) \<and>
     d = \<lparr>dec_version = version_str (signed_part m), dec_released_at = released_at (signed_part m),
          dec_artifact = dec_artifact d\<rparr>"
proof (cases "verify_signature cr m raw_bytes")
  case (Inl e)
  then have "\<not> authentic cr m raw_bytes" using verify_signature_iff [of cr m raw_bytes] by simp
  then show ?thesis using Inl by (simp add: evaluate_def)
next
  case (Inr u)
  then have "authentic cr m raw_bytes" using verify_signature_iff [of cr m raw_bytes] by simp
  then show ?thesis using Inr
    by (cases d) (auto simp: evaluate_def Let_def gates_pass_alt not_less
        split: option.splits if_splits)
qed

text \<open>A manifest is reported as a quiet skip only after its signature verified: a forged one is
  never passed off as a routine no-update.\<close>

theorem skip_implies_authentic:
  assumes "evaluate cr time_of ver_of m raw_bytes i = Inl r" "is_skip r"
  shows "authentic cr m raw_bytes"
proof (cases "verify_signature cr m raw_bytes")
  case (Inl e)
  then show ?thesis using assms by (auto simp: evaluate_def is_skip_def)
next
  case (Inr u)
  then show ?thesis using verify_signature_iff [of cr m raw_bytes] by simp
qed

definition toy_crypto :: "unit crypto" where
  "toy_crypto = \<lparr>parse_json = \<lambda>_. Some (JObj [(''signed'', JNull)]), enc_string = id, num_string = \<lambda>_. [],
     key_of_bytes = \<lambda>_. Some (), b64_url_nopad = \<lambda>_. Some (replicate 64 0), b64_url = \<lambda>_. None,
     ed25519_verify = \<lambda>_ msg _. msg = ''null'', sha256 = \<lambda>_. replicate 32 0\<rparr>"

definition sample_manifest :: manifest where
  "sample_manifest = \<lparr>schema_version = 1, kid = ''wtu-2026-1'', signature = [],
     signed_part = \<lparr>manifest_id = ''m'', channel_name = ''beta'', version_str = ''2'', min_supported_version = ''1'',
       released_at = ''r'', manifest_expires_at = ''e'', notes_url = None, changelog = None, security_advisory = False,
       rollout_of = None, chromium_revision = None, artifacts = []\<rparr>\<rparr>"

definition sample_input :: policy_input where
  "sample_input = \<lparr>in_channel = Stable, installed_version_in = ''1'', installed_build_released_at_in = None,
     install_id = ''i'', platform_key = ''p'', in_now = 0\<rparr>"

lemma pinned_hex_valid: "list_all (\<lambda>k. decode_hex_32 (pubkey_hex k) \<noteq> None) pinned_keys"
  by (simp add: pinned_keys_def decode_hex_32_def trim_printable printable_def hex_value_def Let_def)

lemma sample_skip: "evaluate toy_crypto time_of length_version sample_manifest [] sample_input =
    Inl (WrongChannel ''beta'' ''stable'')"
proof -
  have "verify_signature toy_crypto sample_manifest [] = Inr ()"
    using pinned_hex_valid
    by (auto simp: verify_signature_def toy_crypto_def sample_manifest_def schema_version_supported_def pinned_pubkey_def
        pinned_keys_def verifying_key_from_hex_def decode_signature_def)
  then show ?thesis by (simp add: evaluate_def sample_manifest_def sample_input_def channel_str_def)
qed

theorem skip_implies_authentic_witness: "authentic toy_crypto sample_manifest []"
  by (rule skip_implies_authentic [OF sample_skip]) (simp add: is_skip_def)

end
