(* ===== verification/WsTicket.thy ===== *)
theory WsTicket
  imports Prelude
begin

text \<open>
  Single-use WebSocket connect tickets (\<open>src/src/local/ws_ticket.rs\<close>): issuing under the rate window
  and the cap, consuming, expiry. Time is in milliseconds. The digest (SHA-256, hex) and the encoded
  random bytes of a new ticket are parameters; the concurrent map is the association list of its
  entries and every operation is atomic.
\<close>

definition ticket_ttl :: nat where
  "ticket_ttl = 30000"

definition ticket_prefix :: string where
  "ticket_prefix = ''wtk_''"

definition max_outstanding :: nat where
  "max_outstanding = 128"

definition max_issue_per_window :: nat where
  "max_issue_per_window = 120"

definition rate_window_ms :: nat where
  "rate_window_ms = 60000"

datatype ws_route = Record | AiPreview

definition parse_route :: "string \<Rightarrow> ws_route option" where
  "parse_route s =
     (let t = trim s in if t = ''record'' then Some Record else if t = ''ai-preview'' then Some AiPreview else None)"

definition route_str :: "ws_route \<Rightarrow> string" where
  "route_str r = (case r of Record \<Rightarrow> ''record'' | AiPreview \<Rightarrow> ''ai-preview'')"

datatype issue_error = RateLimited

record ticket_entry =
  route :: ws_route
  channel :: "string option"
  expires_at :: nat

record rate_window =
  window_start :: nat
  issue_count :: nat

record ticket_store =
  tickets :: "(string \<times> ticket_entry) list"
  rate :: rate_window

definition new_store :: "nat \<Rightarrow> ticket_store" where
  "new_store now = \<lparr>tickets = [], rate = \<lparr>window_start = now, issue_count = 0\<rparr>\<rparr>"

definition prune :: "nat \<Rightarrow> ticket_store \<Rightarrow> ticket_store" where
  "prune now s = s\<lparr>tickets := filter (\<lambda>(_, e). now < expires_at e) (tickets s)\<rparr>"

text \<open>\<open>duration_since\<close> saturates at zero, as subtraction of naturals does.\<close>

definition check_rate :: "nat \<Rightarrow> rate_window \<Rightarrow> (issue_error + unit) \<times> rate_window" where
  "check_rate now w =
     (let w1 = (if rate_window_ms \<le> now - window_start w then \<lparr>window_start = now, issue_count = 0\<rparr> else w)
      in if max_issue_per_window \<le> issue_count w1 then (Inl RateLimited, w1)
         else (Inr (), w1\<lparr>issue_count := issue_count w1 + 1\<rparr>))"

definition issue ::
    "(string \<Rightarrow> string) \<Rightarrow> nat \<Rightarrow> string \<Rightarrow> ws_route \<Rightarrow> string option \<Rightarrow> ticket_store
     \<Rightarrow> (issue_error + string \<times> nat) \<times> ticket_store" where
  "issue digest now random r ch s =
     (let s1 = prune now s
      in if max_outstanding \<le> length (tickets s1) then (Inl RateLimited, s1)
         else (case check_rate now (rate s1) of
                 (Inl e, w) \<Rightarrow> (Inl e, s1\<lparr>rate := w\<rparr>)
               | (Inr _, w) \<Rightarrow>
                   (let ticket = ticket_prefix @ random
                    in (Inr (ticket, ticket_ttl),
                        s1\<lparr>rate := w,
                           tickets := AList.update (digest ticket)
                             \<lparr>route = r, channel = ch, expires_at = now + ticket_ttl\<rparr> (tickets s1)\<rparr>))))"

definition consume ::
    "(string \<Rightarrow> string) \<Rightarrow> nat \<Rightarrow> string \<Rightarrow> ws_route \<Rightarrow> string option \<Rightarrow> ticket_store \<Rightarrow> bool \<times> ticket_store" where
  "consume digest now presented r ch s =
     (if presented = [] then (False, s)
      else (case map_of (tickets s) (digest presented) of
              None \<Rightarrow> (False, s)
            | Some e \<Rightarrow>
                (let s' = s\<lparr>tickets := AList.delete (digest presented) (tickets s)\<rparr>
                 in if expires_at e \<le> now then (False, s')
                    else if route e \<noteq> r then (False, s')
                    else (channel e = ch, s'))))"

section \<open>Runs of the store\<close>

text \<open>The store with its history: issued digests with scope and time, and the digests accepted.\<close>

record ticket_run =
  store :: ticket_store
  issued :: "(string \<times> ws_route \<times> string option \<times> nat) list"
  opened :: "string list"

inductive ticket_step :: "(string \<Rightarrow> string) \<Rightarrow> ticket_run \<Rightarrow> ticket_run \<Rightarrow> bool"
  for digest :: "string \<Rightarrow> string" where
  step_issued: "issue digest now random r ch (store w) = (Inr (t, ttl), s) \<Longrightarrow>
    ticket_step digest w (w\<lparr>store := s, issued := (digest t, r, ch, now) # issued w\<rparr>)"
| step_refused: "issue digest now random r ch (store w) = (Inl e, s) \<Longrightarrow> ticket_step digest w (w\<lparr>store := s\<rparr>)"
| step_opened: "consume digest now t r ch (store w) = (True, s) \<Longrightarrow>
    ticket_step digest w (w\<lparr>store := s, opened := digest t # opened w\<rparr>)"
| step_rejected: "consume digest now t r ch (store w) = (False, s) \<Longrightarrow> ticket_step digest w (w\<lparr>store := s\<rparr>)"

definition ticket_init :: "ticket_run \<Rightarrow> bool" where
  "ticket_init w \<longleftrightarrow> (\<exists>now. w = \<lparr>store = new_store now, issued = [], opened = []\<rparr>)"

definition live :: "string \<Rightarrow> ticket_store \<Rightarrow> nat" where
  "live h s = (if map_of (tickets s) h = None then 0 else 1)"

definition ticket_inv :: "ticket_run \<Rightarrow> bool" where
  "ticket_inv w \<longleftrightarrow>
     distinct (map fst (tickets (store w))) \<and> length (tickets (store w)) \<le> max_outstanding \<and>
     issue_count (rate (store w)) \<le> max_issue_per_window \<and>
     (\<forall>h. count_if (\<lambda>x. x = h) (opened w) + live h (store w) \<le> count_if (\<lambda>x. fst x = h) (issued w)) \<and>
     (\<forall>h e. map_of (tickets (store w)) h = Some e \<longrightarrow>
        (\<exists>t. (h, route e, channel e, t) \<in> set (issued w) \<and> expires_at e = t + ticket_ttl))"

lemma map_of_prune: "distinct (map fst (tickets s)) \<Longrightarrow>
    map_of (tickets (prune now s)) h =
      (case map_of (tickets s) h of Some e \<Rightarrow> if now < expires_at e then Some e else None | None \<Rightarrow> None)"
proof -
  have "distinct (map fst es) \<Longrightarrow> map_of (filter (\<lambda>(_, e). now < expires_at e) es) h =
      (case map_of es h of Some e \<Rightarrow> if now < expires_at e then Some e else None | None \<Rightarrow> None)" for es
  proof (induction es)
    case (Cons a es)
    have "map_of es (fst a) = None" using Cons.prems by (auto simp: map_of_eq_None_iff)
    then show ?case using Cons by (cases a) (auto split: option.splits)
  qed simp
  then show "distinct (map fst (tickets s)) \<Longrightarrow> ?thesis" by (simp add: prune_def)
qed

lemma prune_inv: "ticket_inv w \<Longrightarrow> ticket_inv (w\<lparr>store := prune now (store w)\<rparr>)"
proof -
  assume i: "ticket_inv w"
  then have d: "distinct (map fst (tickets (store w)))" by (simp add: ticket_inv_def)
  have m: "map_of (tickets (prune now (store w))) h = Some e \<Longrightarrow> map_of (tickets (store w)) h = Some e" for h e
    by (auto simp: map_of_prune [OF d] split: option.splits if_splits)
  have l: "live h (prune now (store w)) \<le> live h (store w)" for h
    using m by (auto simp: live_def)
  have "distinct (map fst (tickets (prune now (store w))))" using d by (simp add: prune_def distinct_map_filter)
  moreover have "length (tickets (prune now (store w))) \<le> max_outstanding"
    using i by (auto simp: prune_def ticket_inv_def intro: le_trans [OF length_filter_le])
  moreover have "rate (prune now (store w)) = rate (store w)" by (simp add: prune_def)
  moreover have "count_if (\<lambda>x. x = h) (opened w) + live h (prune now (store w)) \<le> count_if (\<lambda>x. fst x = h) (issued w)" for h
    using i l [of h] unfolding ticket_inv_def by (meson add_left_mono le_trans)
  ultimately show ?thesis using i m unfolding ticket_inv_def by auto
qed

lemma check_rate_count:
  "check_rate now w = (res, w') \<Longrightarrow> issue_count w \<le> max_issue_per_window \<Longrightarrow> issue_count w' \<le> max_issue_per_window"
  by (auto simp: check_rate_def Let_def max_issue_per_window_def split: if_splits)

lemma issue_inv:
  assumes "ticket_inv w" "issue digest now random r ch (store w) = (res, s)"
  shows "case res of
      Inl _ \<Rightarrow> ticket_inv (w\<lparr>store := s\<rparr>)
    | Inr (t, _) \<Rightarrow> ticket_inv (w\<lparr>store := s, issued := (digest t, r, ch, now) # issued w\<rparr>)"
proof -
  define s1 where "s1 = prune now (store w)"
  have i1: "ticket_inv (w\<lparr>store := s1\<rparr>)" unfolding s1_def by (rule prune_inv [OF assms(1)])
  have rate: "issue_count (rate s1) \<le> max_issue_per_window" using i1 by (simp add: ticket_inv_def)
  show ?thesis
  proof (cases "max_outstanding \<le> length (tickets s1)")
    case True
    then have "res = Inl RateLimited" "s = s1" using assms(2) by (simp_all add: issue_def s1_def Let_def)
    then show ?thesis using i1 by simp
  next
    case False
    obtain cr w1 where c: "check_rate now (rate s1) = (cr, w1)" by fastforce
    have w1: "issue_count w1 \<le> max_issue_per_window" using check_rate_count [OF c rate] .
    show ?thesis
    proof (cases cr)
      case (Inl e)
      then have "res = Inl e" "s = s1\<lparr>rate := w1\<rparr>" using assms(2) False c by (simp_all add: issue_def s1_def Let_def)
      then show ?thesis using i1 w1 by (simp add: ticket_inv_def live_def)
    next
      case (Inr u)
      define t h e where "t = ticket_prefix @ random" and "h = digest t"
        and "e = \<lparr>route = r, channel = ch, expires_at = now + ticket_ttl\<rparr>"
      have rs: "res = Inr (t, ticket_ttl)" "s = s1\<lparr>rate := w1, tickets := AList.update h e (tickets s1)\<rparr>"
        using assms(2) False c Inr by (simp_all add: issue_def s1_def Let_def t_def h_def e_def)
      let ?w = "w\<lparr>store := s, issued := (h, r, ch, now) # issued w\<rparr>"
      have a1: "distinct (map fst (tickets s1))" "length (tickets s1) < max_outstanding"
        using i1 False by (simp_all add: ticket_inv_def)
      have a2: "count_if (\<lambda>x. x = k) (opened w) + live k s1 \<le> count_if (\<lambda>x. fst x = k) (issued w)" for k
        using i1 by (simp add: ticket_inv_def)
      have a3: "map_of (tickets s1) k = Some f \<Longrightarrow> \<exists>u. (k, route f, channel f, u) \<in> set (issued w) \<and> expires_at f = u + ticket_ttl" for k f
        using i1 unfolding ticket_inv_def by auto
      have m: "map_of (tickets s) k = (if k = h then Some e else map_of (tickets s1) k)" for k
        by (simp add: rs(2) update_conv')
      have b1: "distinct (map fst (tickets s))" by (simp add: rs(2) distinct_update a1(1))
      have b2: "length (tickets s) \<le> max_outstanding"
        using length_update_le [of h e "tickets s1"] a1(2) by (simp add: rs(2))
      have b3: "count_if (\<lambda>x. x = k) (opened w) + live k s \<le> count_if (\<lambda>x. fst x = k) ((h, r, ch, now) # issued w)" for k
        using a2 [of k] by (auto simp: live_def m split: if_splits)
      have b4: "\<exists>u. (k, route f, channel f, u) \<in> set ((h, r, ch, now) # issued w) \<and> expires_at f = u + ticket_ttl"
        if "map_of (tickets s) k = Some f" for k f
        using that a3 [of k f] by (auto simp: m e_def split: if_splits)
      have b5: "issue_count (rate s) \<le> max_issue_per_window" using w1 by (simp add: rs(2))
      have "ticket_inv ?w" unfolding ticket_inv_def using b1 b2 b3 b4 b5 by auto
      then show ?thesis by (simp add: rs(1) h_def)
    qed
  qed
qed

lemma consume_cases:
  assumes "consume digest now t r ch s = (b, s')"
  obtains (same) "\<not> b" "s' = s"
  | (burnt) e where "map_of (tickets s) (digest t) = Some e"
      "s' = s\<lparr>tickets := AList.delete (digest t) (tickets s)\<rparr>"
      "b \<longleftrightarrow> now < expires_at e \<and> route e = r \<and> channel e = ch"
proof (cases "t = [] \<or> map_of (tickets s) (digest t) = None")
  case True
  then have "b = False \<and> s' = s" using assms by (auto simp: consume_def split: if_splits)
  then show ?thesis using same by blast
next
  case False
  then obtain e where e: "map_of (tickets s) (digest t) = Some e" "t \<noteq> []" by auto
  have "s' = s\<lparr>tickets := AList.delete (digest t) (tickets s)\<rparr> \<and>
      (b \<longleftrightarrow> now < expires_at e \<and> route e = r \<and> channel e = ch)"
    using assms e by (auto simp: consume_def Let_def split: if_splits)
  then show ?thesis using burnt [OF e(1)] by blast
qed

lemma consume_inv:
  assumes "ticket_inv w" "consume digest now t r ch (store w) = (b, s)"
  shows "ticket_inv (w\<lparr>store := s, opened := (if b then digest t # opened w else opened w)\<rparr>)"
  using assms(2)
proof (cases rule: consume_cases)
  case same
  then show ?thesis using assms(1) by (simp add: ticket_inv_def)
next
  case (burnt e)
  have a: "distinct (map fst (tickets (store w)))" "length (tickets (store w)) \<le> max_outstanding"
    "issue_count (rate (store w)) \<le> max_issue_per_window"
    using assms(1) by (simp_all add: ticket_inv_def)
  have a2: "count_if (\<lambda>x. x = k) (opened w) + live k (store w) \<le> count_if (\<lambda>x. fst x = k) (issued w)" for k
    using assms(1) by (simp add: ticket_inv_def)
  have a3: "map_of (tickets (store w)) k = Some f \<Longrightarrow>
      \<exists>u. (k, route f, channel f, u) \<in> set (issued w) \<and> expires_at f = u + ticket_ttl" for k f
    using assms(1) unfolding ticket_inv_def by auto
  have m: "map_of (tickets s) k = (if k = digest t then None else map_of (tickets (store w)) k)" for k
    by (simp add: burnt(2) delete_conv')
  have "length (tickets s) \<le> max_outstanding"
    using a(2) length_delete_le [of "digest t" "tickets (store w)"] by (simp add: burnt(2))
  moreover have "distinct (map fst (tickets s))" by (simp add: burnt(2) distinct_delete a(1))
  moreover have "count_if (\<lambda>x. x = k) (if b then digest t # opened w else opened w) + live k s \<le>
      count_if (\<lambda>x. fst x = k) (issued w)" for k
    using a2 [of k] burnt(1) by (auto simp: live_def m split: if_splits)
  moreover have "rate s = rate (store w)" by (simp add: burnt(2))
  moreover have "\<exists>u. (k, route f, channel f, u) \<in> set (issued w) \<and> expires_at f = u + ticket_ttl"
    if "map_of (tickets s) k = Some f" for k f
    using that a3 [of k f] by (simp add: m split: if_splits)
  ultimately show ?thesis unfolding ticket_inv_def using a(3) by simp
qed

lemma ticket_step_inv:
  assumes "ticket_inv w" "ticket_step digest w w'"
  shows "ticket_inv w'"
  using assms(2)
proof cases
  case (step_issued now random r ch t ttl s)
  then show ?thesis using issue_inv [OF assms(1) step_issued(2)] by simp
next
  case (step_refused now random r ch e s)
  then show ?thesis using issue_inv [OF assms(1) step_refused(2)] by simp
next
  case (step_opened now t r ch s)
  then show ?thesis using consume_inv [OF assms(1) step_opened(2)] by simp
next
  case (step_rejected now t r ch s)
  then show ?thesis using consume_inv [OF assms(1) step_rejected(2)] by simp
qed

lemma ticket_init_inv: "ticket_init w \<Longrightarrow> ticket_inv w"
  by (auto simp: ticket_init_def ticket_inv_def new_store_def live_def)

interpretation tk: invariant_system ticket_init "ticket_step digest" ticket_inv for digest
  by unfold_locales (blast intro: ticket_init_inv ticket_step_inv)+

text \<open>Tickets are single-use, short-lived and scoped: in any run, a presented ticket opens a socket
  only if a ticket of its digest was issued for exactly that route and channel less than 30 seconds
  before; the sockets opened with a digest never outnumber the tickets issued with it; once presented,
  the digest opens nothing again until it is issued anew; and at most 128 tickets are live.\<close>

theorem ticket_single_use:
  assumes "reach ticket_init (ticket_step digest) w"
    and "consume digest now t r ch (store w) = (True, s)"
  shows "(\<exists>u. (digest t, r, ch, u) \<in> set (issued w) \<and> now < u + 30000) \<and>
    count_if (\<lambda>h. h = digest t) (opened w) < count_if (\<lambda>i. fst i = digest t) (issued w) \<and>
    (\<forall>now' r' ch'. fst (consume digest now' t r' ch' s) = False) \<and> length (tickets s) \<le> 128"
proof -
  have inv: "ticket_inv w" by (rule tk.reach_inv [OF assms(1)])
  from assms(2) obtain e where e: "map_of (tickets (store w)) (digest t) = Some e"
    "s = (store w)\<lparr>tickets := AList.delete (digest t) (tickets (store w))\<rparr>"
    "now < expires_at e" "route e = r" "channel e = ch"
    by (auto elim: consume_cases)
  have "\<exists>u. (digest t, r, ch, u) \<in> set (issued w) \<and> now < u + 30000"
    using inv e unfolding ticket_inv_def by (fastforce simp: ticket_ttl_def)
  moreover have "count_if (\<lambda>h. h = digest t) (opened w) + live (digest t) (store w) \<le> count_if (\<lambda>i. fst i = digest t) (issued w)"
    using inv by (simp add: ticket_inv_def)
  then have "count_if (\<lambda>h. h = digest t) (opened w) < count_if (\<lambda>i. fst i = digest t) (issued w)"
    using e(1) by (simp add: live_def)
  moreover have "fst (consume digest now' t r' ch' s) = False" for now' r' ch'
    by (simp add: consume_def e(2) delete_conv')
  moreover have "length (tickets s) \<le> 128"
    using inv length_delete_le [of "digest t" "tickets (store w)"] by (simp add: ticket_inv_def max_outstanding_def e(2))
  ultimately show ?thesis by blast
qed

theorem ticket_single_use_witness:
  "\<exists>s s'. issue id 5 ''x'' Record None (new_store 0) = (Inr (''wtk_x'', 30000), s) \<and>
     consume id 6 ''wtk_x'' Record None s = (True, s') \<and> fst (consume id 7 ''wtk_x'' Record None s') = False"
proof -
  let ?w = "\<lparr>store = new_store 0, issued = [], opened = []\<rparr>"
  obtain s where s: "issue id 5 ''x'' Record None (new_store 0) = (Inr (''wtk_x'', 30000), s)"
    "tickets s = [(''wtk_x'', \<lparr>route = Record, channel = None, expires_at = 30005\<rparr>)]"
    by (simp add: issue_def new_store_def prune_def max_outstanding_def check_rate_def rate_window_ms_def
        max_issue_per_window_def ticket_prefix_def ticket_ttl_def Let_def)
  obtain s' where c: "consume id 6 ''wtk_x'' Record None s = (True, s')"
    by (simp add: consume_def s(2))
  have "reach ticket_init (ticket_step id) ?w" by (rule reach_init) (auto simp: ticket_init_def)
  moreover have "ticket_step id ?w (?w\<lparr>store := s, issued := (id ''wtk_x'', Record, None, 5) # issued ?w\<rparr>)"
    using step_issued [of id 5 "''x''" Record None ?w] s(1) by simp
  ultimately have "reach ticket_init (ticket_step id) (?w\<lparr>store := s, issued := (id ''wtk_x'', Record, None, 5) # issued ?w\<rparr>)"
    by (rule reach_step)
  from ticket_single_use [OF this, of 6 "''wtk_x''" Record None s'] c s(1) show ?thesis by auto
qed

text \<open>The rate limit counts within fixed windows: a full window's worth can follow another at once.\<close>

lemma rate_window_resets:
  "rate_window_ms \<le> now - window_start w \<Longrightarrow> fst (check_rate now w) = Inr ()"
  by (simp add: check_rate_def Let_def max_issue_per_window_def)

end
