(* ===== verification/RunRegistry.thy ===== *)
theory RunRegistry
  imports Prelude
begin

text \<open>
  The table of live runs (\<open>src/src/local/engine/registry.rs\<close>) and the run events
  (\<open>src/src/local/engine/events.rs\<close>): registration, the emitting guard with its two explicit endings
  and its drop, the detached step emitter, cancellation and status snapshots.

  The cells a handle, the table and a guard share (\<open>Arc\<close>s: the per-run channel, the cancel flag, the
  status byte) are an explicit store indexed by a cell number. A channel is the list of events sent on
  it, oldest first: a subscriber sees a suffix of it, so what was sent bounds what anyone sees.
\<close>

section \<open>Events and statuses\<close>

datatype run_status = Running | Success | Failed | Cancelled | Timeout | CaptchaRequired | TwofaRequired

datatype step_status = StepRunning | StepSucceeded | StepFailed | StepSkipped

datatype run_event =
    Started int nat
  | Step int nat string step_status
  | Progress int nat nat
  | Repairing int bool
  | Finished int run_status
  | Error int string
  | CloudReflected int
  | CloudEntity string string "int option" "int option"

definition event_run_id :: "run_event \<Rightarrow> int" where
  "event_run_id e =
     (case e of Started i _ \<Rightarrow> i | Step i _ _ _ \<Rightarrow> i | Progress i _ _ \<Rightarrow> i | Repairing i _ \<Rightarrow> i
      | Finished i _ \<Rightarrow> i | Error i _ \<Rightarrow> i | CloudReflected i \<Rightarrow> i | CloudEntity _ _ _ _ \<Rightarrow> 0)"

definition is_terminal :: "run_event \<Rightarrow> bool" where
  "is_terminal e \<longleftrightarrow> (case e of Finished _ _ \<Rightarrow> True | Error _ _ \<Rightarrow> True | _ \<Rightarrow> False)"

definition event_name :: "run_event \<Rightarrow> string" where
  "event_name e =
     (case e of Started _ _ \<Rightarrow> ''started'' | Step _ _ _ _ \<Rightarrow> ''step'' | Progress _ _ _ \<Rightarrow> ''progress''
      | Repairing _ _ \<Rightarrow> ''repairing'' | Finished _ _ \<Rightarrow> ''finished'' | Error _ _ \<Rightarrow> ''error''
      | CloudReflected _ \<Rightarrow> ''cloud_reflected'' | CloudEntity _ _ _ _ \<Rightarrow> ''entity'')"

definition status_to_code :: "run_status \<Rightarrow> 8 word" where
  "status_to_code s =
     (case s of Running \<Rightarrow> 0 | Success \<Rightarrow> 1 | Failed \<Rightarrow> 2 | Cancelled \<Rightarrow> 3 | Timeout \<Rightarrow> 4
      | CaptchaRequired \<Rightarrow> 5 | TwofaRequired \<Rightarrow> 6)"

definition code_to_status :: "8 word \<Rightarrow> run_status" where
  "code_to_status c =
     (if c = 1 then Success else if c = 2 then Failed else if c = 3 then Cancelled else if c = 4 then Timeout
      else if c = 5 then CaptchaRequired else if c = 6 then TwofaRequired else Running)"

lemma status_code_roundtrip [simp]: "code_to_status (status_to_code s) = s"
  by (cases s) (simp_all add: code_to_status_def status_to_code_def)

section \<open>The registry\<close>

record run_cell =
  run_events :: "run_event list"
  cancel_flag :: bool
  status_code :: "8 word"

record registry =
  runs :: "int \<rightharpoonup> nat"
  cells :: "run_cell list"
  global :: "run_event list"

record emit_guard =
  guard_run_id :: int
  guard_cell :: nat
  guard_finished :: bool

definition new_registry :: registry where
  "new_registry = \<lparr>runs = Map.empty, cells = [], global = []\<rparr>"

definition register :: "int \<Rightarrow> registry \<Rightarrow> emit_guard \<times> registry" where
  "register i r =
     (let c = length (cells r)
      in (\<lparr>guard_run_id = i, guard_cell = c, guard_finished = False\<rparr>,
          r\<lparr>runs := (runs r)(i \<mapsto> c),
            cells := cells r @ [\<lparr>run_events = [], cancel_flag = False, status_code = status_to_code Running\<rparr>]\<rparr>))"

definition emit_global :: "run_event \<Rightarrow> registry \<Rightarrow> registry" where
  "emit_global e r = r\<lparr>global := global r @ [e]\<rparr>"

text \<open>\<open>StepEmitter::emit\<close>: the per-run channel only.\<close>

definition step_emit :: "nat \<Rightarrow> run_event \<Rightarrow> registry \<Rightarrow> registry" where
  "step_emit c e r = r\<lparr>cells := (cells r)[c := (cells r ! c)\<lparr>run_events := run_events (cells r ! c) @ [e]\<rparr>]\<rparr>"

definition guard_emit :: "emit_guard \<Rightarrow> run_event \<Rightarrow> registry \<Rightarrow> registry" where
  "guard_emit g e r = step_emit (guard_cell g) e (emit_global e r)"

definition set_status :: "emit_guard \<Rightarrow> run_status \<Rightarrow> registry \<Rightarrow> registry" where
  "set_status g s r =
     r\<lparr>cells := (cells r)[guard_cell g := (cells r ! guard_cell g)\<lparr>status_code := status_to_code s\<rparr>]\<rparr>"

definition remove_run :: "int \<Rightarrow> registry \<Rightarrow> registry" where
  "remove_run i r = r\<lparr>runs := (runs r)(i := None)\<rparr>"

definition finish :: "run_status \<Rightarrow> emit_guard \<Rightarrow> registry \<Rightarrow> emit_guard \<times> registry" where
  "finish s g r =
     (g\<lparr>guard_finished := True\<rparr>,
      remove_run (guard_run_id g) (guard_emit g (Finished (guard_run_id g) s) (set_status g s r)))"

definition finish_error :: "string \<Rightarrow> emit_guard \<Rightarrow> registry \<Rightarrow> emit_guard \<times> registry" where
  "finish_error msg g r =
     (g\<lparr>guard_finished := True\<rparr>,
      remove_run (guard_run_id g) (guard_emit g (Error (guard_run_id g) msg) (set_status g Failed r)))"

definition drop_guard :: "emit_guard \<Rightarrow> registry \<Rightarrow> registry" where
  "drop_guard g r =
     (if guard_finished g then r
      else remove_run (guard_run_id g)
             (guard_emit g (Error (guard_run_id g) ''run ended without a terminal result'') r))"

definition is_live :: "int \<Rightarrow> registry \<Rightarrow> bool" where
  "is_live i r \<longleftrightarrow> runs r i \<noteq> None"

definition run_status_of :: "int \<Rightarrow> registry \<Rightarrow> run_status option" where
  "run_status_of i r = map_option (\<lambda>c. code_to_status (status_code (cells r ! c))) (runs r i)"

definition cancel_cell :: "nat \<Rightarrow> registry \<Rightarrow> bool \<times> registry" where
  "cancel_cell c r =
     (\<not> cancel_flag (cells r ! c), r\<lparr>cells := (cells r)[c := (cells r ! c)\<lparr>cancel_flag := True\<rparr>]\<rparr>)"

definition is_cancelled :: "nat \<Rightarrow> registry \<Rightarrow> bool" where
  "is_cancelled c r = cancel_flag (cells r ! c)"

definition cancel_run :: "int \<Rightarrow> registry \<Rightarrow> bool option \<times> registry" where
  "cancel_run i r =
     (case runs r i of
        None \<Rightarrow> (None, r)
      | Some c \<Rightarrow> (let (b, r') = cancel_cell c r in (Some b, r')))"

section \<open>Runs of the registry\<close>

text \<open>
  The registry with every guard ever handed out. Run ids are unique (they are database row ids), the
  engine publishes only non-terminal events before a guard's end, and a detached emitter only publishes
  non-terminal ones, possibly after the end.
\<close>

record reg_sys =
  reg :: registry
  guards :: "emit_guard list"

inductive reg_step :: "reg_sys \<Rightarrow> reg_sys \<Rightarrow> bool" where
  reg_register: "i \<notin> guard_run_id ` set (guards w) \<Longrightarrow> register i (reg w) = (g, r) \<Longrightarrow>
    reg_step w (w\<lparr>reg := r, guards := guards w @ [g]\<rparr>)"
| reg_emit: "k < length (guards w) \<Longrightarrow> \<not> guard_finished (guards w ! k) \<Longrightarrow> \<not> is_terminal e \<Longrightarrow>
    reg_step w (w\<lparr>reg := guard_emit (guards w ! k) e (reg w)\<rparr>)"
| reg_step_emit: "k < length (guards w) \<Longrightarrow> \<not> is_terminal e \<Longrightarrow>
    reg_step w (w\<lparr>reg := step_emit (guard_cell (guards w ! k)) e (reg w)\<rparr>)"
| reg_status: "k < length (guards w) \<Longrightarrow> \<not> guard_finished (guards w ! k) \<Longrightarrow>
    reg_step w (w\<lparr>reg := set_status (guards w ! k) s (reg w)\<rparr>)"
| reg_finish: "k < length (guards w) \<Longrightarrow> \<not> guard_finished (guards w ! k) \<Longrightarrow>
    finish s (guards w ! k) (reg w) = (g, r) \<Longrightarrow>
    reg_step w (w\<lparr>reg := drop_guard g r, guards := (guards w)[k := g]\<rparr>)"
| reg_error: "k < length (guards w) \<Longrightarrow> \<not> guard_finished (guards w ! k) \<Longrightarrow>
    finish_error msg (guards w ! k) (reg w) = (g, r) \<Longrightarrow>
    reg_step w (w\<lparr>reg := drop_guard g r, guards := (guards w)[k := g]\<rparr>)"
| reg_drop: "k < length (guards w) \<Longrightarrow> \<not> guard_finished (guards w ! k) \<Longrightarrow>
    reg_step w (w\<lparr>reg := drop_guard (guards w ! k) (reg w),
                  guards := (guards w)[k := (guards w ! k)\<lparr>guard_finished := True\<rparr>]\<rparr>)"
| reg_cancel: "cancel_run i (reg w) = (b, r) \<Longrightarrow> reg_step w (w\<lparr>reg := r\<rparr>)"
| reg_global: "\<not> is_terminal e \<Longrightarrow> reg_step w (w\<lparr>reg := emit_global e (reg w)\<rparr>)"

definition reg_init :: "reg_sys \<Rightarrow> bool" where
  "reg_init w \<longleftrightarrow> w = \<lparr>reg = new_registry, guards = []\<rparr>"

text \<open>How many terminal events of a run a channel carries.\<close>

definition ends_of :: "int \<Rightarrow> run_event list \<Rightarrow> nat" where
  "ends_of i es = count_if (\<lambda>e. is_terminal e \<and> event_run_id e = i) es"

definition guard_ok :: "registry \<Rightarrow> nat \<Rightarrow> emit_guard \<Rightarrow> bool" where
  "guard_ok r k g \<longleftrightarrow>
     guard_cell g = k \<and>
     ends_of (guard_run_id g) (global r) = (if guard_finished g then 1 else 0) \<and>
     ends_of (guard_run_id g) (run_events (cells r ! k)) = (if guard_finished g then 1 else 0) \<and>
     runs r (guard_run_id g) = (if guard_finished g then None else Some k)"

definition reg_inv :: "reg_sys \<Rightarrow> bool" where
  "reg_inv w \<longleftrightarrow>
     distinct (map guard_run_id (guards w)) \<and> length (cells (reg w)) = length (guards w) \<and>
     (\<forall>k < length (guards w). guard_ok (reg w) k (guards w ! k)) \<and>
     (\<forall>i. i \<notin> guard_run_id ` set (guards w) \<longrightarrow> runs (reg w) i = None \<and> ends_of i (global (reg w)) = 0)"

lemma nth_update_if: "xs[c := y] ! k = (if c = k \<and> k < length xs then y else xs ! k)"
  by (cases "c < length xs") (auto simp: nth_list_update list_update_beyond)

lemma ends_of_append [simp]: "ends_of i (es @ [e]) = ends_of i es + (if is_terminal e \<and> event_run_id e = i then 1 else 0)"
  by (simp add: ends_of_def)

lemma ends_of_Nil [simp]: "ends_of i [] = 0"
  by (simp add: ends_of_def)

text \<open>A change no observation of the invariant sees.\<close>

definition quiet :: "registry \<Rightarrow> registry \<Rightarrow> bool" where
  "quiet r r' \<longleftrightarrow>
     length (cells r') = length (cells r) \<and> runs r' = runs r \<and>
     (\<forall>i. ends_of i (global r') = ends_of i (global r)) \<and>
     (\<forall>i. \<forall>k < length (cells r). ends_of i (run_events (cells r' ! k)) = ends_of i (run_events (cells r ! k)))"

lemma quiet_inv:
  assumes "reg_inv w" "quiet (reg w) r"
  shows "reg_inv (w\<lparr>reg := r\<rparr>)"
  using assms by (simp add: reg_inv_def quiet_def guard_ok_def)

lemma quiet_refl: "quiet r r"
  by (simp add: quiet_def)

lemma quiet_set_status: "quiet r (set_status g s r)"
  by (simp add: quiet_def set_status_def nth_update_if)

lemma quiet_cancel: "quiet r (snd (cancel_run i r))"
  by (auto simp: cancel_run_def cancel_cell_def quiet_def nth_update_if split: option.split)

lemma quiet_step_emit: "\<not> is_terminal e \<Longrightarrow> quiet r (step_emit c e r)"
  by (simp add: quiet_def step_emit_def nth_update_if)

lemma quiet_emit_global: "\<not> is_terminal e \<Longrightarrow> quiet r (emit_global e r)"
  by (simp add: quiet_def emit_global_def)

lemma quiet_trans: "quiet r s \<Longrightarrow> quiet s t \<Longrightarrow> quiet r t"
  by (simp add: quiet_def)

lemma quiet_guard_emit: "\<not> is_terminal e \<Longrightarrow> quiet r (guard_emit g e r)"
  unfolding guard_emit_def by (rule quiet_trans [OF quiet_emit_global quiet_step_emit])

lemma nth_distinct_eq: "distinct (map f xs) \<Longrightarrow> j < length xs \<Longrightarrow> k < length xs \<Longrightarrow> f (xs ! j) = f (xs ! k) \<longleftrightarrow> j = k"
  by (metis length_map nth_eq_iff_index_eq nth_map)

lemma image_set_update: "k < length xs \<Longrightarrow> f y = f (xs ! k) \<Longrightarrow> f ` set (xs[k := y]) = f ` set xs"
  by (metis list_update_id map_update set_map)

text \<open>A guard's end: one terminal event of its run on both channels, and the entry is gone.\<close>

lemma end_inv:
  assumes inv: "reg_inv w" and k: "k < length (guards w)" "\<not> guard_finished (guards w ! k)"
    and q: "quiet (reg w) r" and e: "is_terminal e" "event_run_id e = guard_run_id (guards w ! k)"
  shows "reg_inv (w\<lparr>reg := remove_run (guard_run_id (guards w ! k)) (guard_emit (guards w ! k) e r),
    guards := (guards w)[k := (guards w ! k)\<lparr>guard_finished := True\<rparr>]\<rparr>)"
proof -
  let ?g = "guards w ! k" and ?i = "guard_run_id (guards w ! k)"
  let ?r = "remove_run ?i (guard_emit ?g e r)" and ?gs = "(guards w)[k := ?g\<lparr>guard_finished := True\<rparr>]"
  have d: "distinct (map guard_run_id (guards w))" "length (cells (reg w)) = length (guards w)"
    and ok: "\<And>j. j < length (guards w) \<Longrightarrow> guard_ok (reg w) j (guards w ! j)"
    and out: "\<And>i. i \<notin> guard_run_id ` set (guards w) \<Longrightarrow> runs (reg w) i = None \<and> ends_of i (global (reg w)) = 0"
    using inv by (simp_all add: reg_inv_def)
  have c: "guard_cell ?g = k" using ok [OF k(1)] by (simp add: guard_ok_def)
  have lk: "k < length (cells r)" using q d k by (simp add: quiet_def)
  have g: "ends_of i (global ?r) = ends_of i (global (reg w)) + (if i = ?i then 1 else 0)" for i
    using q e by (auto simp: remove_run_def guard_emit_def step_emit_def emit_global_def quiet_def)
  have cells: "ends_of i (run_events (cells ?r ! j)) =
      ends_of i (run_events (cells (reg w) ! j)) + (if j = k \<and> i = ?i then 1 else 0)"
    if "j < length (guards w)" for i j
    using q e that d lk c
    by (auto simp: remove_run_def guard_emit_def step_emit_def emit_global_def quiet_def nth_update_if)
  have runs: "runs ?r = (runs (reg w))(?i := None)"
    using q by (simp add: remove_run_def guard_emit_def step_emit_def emit_global_def quiet_def)
  have len: "length (cells ?r) = length (guards w)"
    using q d by (simp add: remove_run_def guard_emit_def step_emit_def emit_global_def quiet_def)
  have ids: "map guard_run_id ?gs = map guard_run_id (guards w)"
    by (metis (no_types, lifting) emit_guard.simps(1) emit_guard.ext_inject emit_guard.surjective emit_guard.update_convs(3) list_update_id map_update)
  have ids_set: "guard_run_id ` set ?gs = guard_run_id ` set (guards w)"
    using ids by (metis set_map)
  have "guard_ok ?r j (?gs ! j)" if j: "j < length ?gs" for j
  proof (cases "j = k")
    case True
    then show ?thesis using ok [OF k(1)] k g cells [OF k(1)] runs by (simp add: guard_ok_def c)
  next
    case False
    then have "guard_run_id (guards w ! j) \<noteq> ?i" using nth_distinct_eq [OF d(1), of j k] j k by simp
    then show ?thesis using False ok [of j] g cells [of j] runs j by (simp add: guard_ok_def)
  qed
  moreover have "runs ?r i = None \<and> ends_of i (global ?r) = 0" if "i \<notin> guard_run_id ` set ?gs" for i
  proof -
    have i: "i \<notin> guard_run_id ` set (guards w)" using that by (simp only: ids_set not_False_eq_True)
    then have "i \<noteq> ?i" using k(1) by (metis imageI nth_mem)
    then show ?thesis using out [OF i] g runs by simp
  qed
  ultimately show ?thesis
    unfolding reg_inv_def using d ids len by simp
qed

lemma reg_step_inv:
  assumes "reg_inv w" "reg_step w w'"
  shows "reg_inv w'"
  using assms(2)
proof cases
  case (reg_register i g r)
  have d: "distinct (map guard_run_id (guards w))" "length (cells (reg w)) = length (guards w)"
    and ok: "\<And>j. j < length (guards w) \<Longrightarrow> guard_ok (reg w) j (guards w ! j)"
    and out: "\<And>i. i \<notin> guard_run_id ` set (guards w) \<Longrightarrow> runs (reg w) i = None \<and> ends_of i (global (reg w)) = 0"
    using assms(1) by (simp_all add: reg_inv_def)
  have g: "g = \<lparr>guard_run_id = i, guard_cell = length (guards w), guard_finished = False\<rparr>"
    and r: "r = (reg w)\<lparr>runs := (runs (reg w))(i \<mapsto> length (guards w)),
      cells := cells (reg w) @ [\<lparr>run_events = [], cancel_flag = False, status_code = status_to_code Running\<rparr>]\<rparr>"
    using reg_register(3) d(2) by (auto simp: register_def Let_def)
  have "guard_ok r j ((guards w @ [g]) ! j)" if j: "j < Suc (length (guards w))" for j
  proof (cases "j = length (guards w)")
    case True
    then show ?thesis using out [OF reg_register(2)] d(2) by (simp add: guard_ok_def g r nth_append)
  next
    case False
    then have jl: "j < length (guards w)" using j by simp
    then have "guard_run_id (guards w ! j) \<noteq> i" using reg_register(2) by (metis imageI nth_mem)
    then show ?thesis using ok [OF jl] jl d(2) by (simp add: guard_ok_def r nth_append)
  qed
  then show ?thesis
    using reg_register(1,2) d out by (auto simp: reg_inv_def g r)
next
  case (reg_emit k e)
  then show ?thesis using quiet_inv [OF assms(1) quiet_guard_emit] by simp
next
  case (reg_step_emit k e)
  then show ?thesis using quiet_inv [OF assms(1) quiet_step_emit] by simp
next
  case (reg_status k s)
  then show ?thesis using quiet_inv [OF assms(1) quiet_set_status] by simp
next
  case (reg_finish k s g r)
  then show ?thesis
    using end_inv [OF assms(1) reg_finish(2,3) quiet_set_status, of "Finished (guard_run_id (guards w ! k)) s"]
    by (auto simp: finish_def drop_guard_def is_terminal_def event_run_id_def)
next
  case (reg_error k msg g r)
  then show ?thesis
    using end_inv [OF assms(1) reg_error(2,3) quiet_set_status, of "Error (guard_run_id (guards w ! k)) msg"]
    by (auto simp: finish_error_def drop_guard_def is_terminal_def event_run_id_def)
next
  case (reg_drop k)
  then show ?thesis
    using end_inv [OF assms(1) reg_drop(2,3) quiet_refl,
        of "Error (guard_run_id (guards w ! k)) ''run ended without a terminal result''"]
    by (auto simp: drop_guard_def is_terminal_def event_run_id_def)
next
  case (reg_cancel i b r)
  then show ?thesis using quiet_inv [OF assms(1) quiet_cancel [of "reg w" i]] by simp
next
  case (reg_global e)
  then show ?thesis using quiet_inv [OF assms(1) quiet_emit_global] by simp
qed

lemma reg_init_inv: "reg_init w \<Longrightarrow> reg_inv w"
  by (simp add: reg_init_def reg_inv_def new_registry_def)

interpretation rg: invariant_system reg_init reg_step reg_inv
  by unfold_locales (blast intro: reg_init_inv reg_step_inv)+

text \<open>C35. A run ends exactly once and never leaks: however registrations, events, cancellations and
  endings interleave (finish, error, or a guard dropped by a panic), a run is live exactly while its
  guard has not ended, and the global stream and the run's own stream carry one terminal event of it if
  it ended and none if it did not.\<close>

theorem run_ends_once:
  assumes "reach reg_init reg_step w" "g \<in> set (guards w)"
  shows "is_live (guard_run_id g) (reg w) = (\<not> guard_finished g) \<and>
    ends_of (guard_run_id g) (global (reg w)) = (if guard_finished g then 1 else 0) \<and>
    ends_of (guard_run_id g) (run_events (cells (reg w) ! guard_cell g)) = (if guard_finished g then 1 else 0)"
proof -
  obtain k where k: "k < length (guards w)" "g = guards w ! k" using assms(2) by (metis in_set_conv_nth)
  have "guard_ok (reg w) k g" using rg.reach_inv [OF assms(1)] k by (simp add: reg_inv_def)
  then show ?thesis by (simp add: guard_ok_def is_live_def)
qed

theorem run_ends_once_witness:
  "\<not> is_live 7 (drop_guard (fst (register 7 new_registry)) (snd (register 7 new_registry)))"
proof -
  let ?w0 = "\<lparr>reg = new_registry, guards = []\<rparr>"
  let ?g = "fst (register 7 new_registry)" and ?r = "snd (register 7 new_registry)"
  have "reach reg_init reg_step ?w0" by (rule reach_init) (simp add: reg_init_def)
  moreover have "reg_step ?w0 \<lparr>reg = ?r, guards = [?g]\<rparr>"
    using reg_register [of 7 ?w0 ?g ?r] by simp
  ultimately have r1: "reach reg_init reg_step \<lparr>reg = ?r, guards = [?g]\<rparr>" by (rule reach_step)
  have "reg_step \<lparr>reg = ?r, guards = [?g]\<rparr> \<lparr>reg = drop_guard ?g ?r, guards = [?g\<lparr>guard_finished := True\<rparr>]\<rparr>"
    using reg_drop [of 0 "\<lparr>reg = ?r, guards = [?g]\<rparr>"] by (simp add: register_def Let_def)
  with r1 have "reach reg_init reg_step \<lparr>reg = drop_guard ?g ?r, guards = [?g\<lparr>guard_finished := True\<rparr>]\<rparr>" by (rule reach_step)
  from run_ends_once [OF this, of "?g\<lparr>guard_finished := True\<rparr>"] show ?thesis by (simp add: register_def Let_def)
qed

text \<open>Cancellation is effective and idempotent: cancelling a live run sets the flag its execute
  loop polls, tells the first caller from later ones, and stays set through every other operation on
  the registry.\<close>

theorem cancel_once:
  assumes "runs r i = Some c" "c < length (cells r)"
  shows "fst (cancel_run i r) = Some (\<not> is_cancelled c r) \<and>
    is_cancelled c (snd (cancel_run i r)) \<and>
    fst (cancel_run i (snd (cancel_run i r))) = Some False \<and>
    is_cancelled c (guard_emit g e (set_status g' s (snd (cancel_run i r)))) \<and>
    is_cancelled c (snd (register j (snd (cancel_run i r))))"
proof -
  let ?r = "r\<lparr>cells := (cells r)[c := (cells r ! c)\<lparr>cancel_flag := True\<rparr>]\<rparr>"
  have c: "cancel_run i r = (Some (\<not> cancel_flag (cells r ! c)), ?r)"
    using assms by (simp add: cancel_run_def cancel_cell_def)
  have 1: "is_cancelled c ?r" using assms(2) by (simp add: is_cancelled_def)
  have 2: "is_cancelled c (set_status g' s ?r)"
    using assms(2) by (auto simp: is_cancelled_def set_status_def nth_update_if)
  have 3: "is_cancelled c (guard_emit g e q)" if "is_cancelled c q" "c < length (cells q)" for q
    using that by (auto simp: is_cancelled_def guard_emit_def step_emit_def emit_global_def nth_update_if)
  have 4: "is_cancelled c (snd (register j ?r))"
    using 1 assms(2) by (simp add: is_cancelled_def register_def Let_def nth_append)
  have 5: "fst (cancel_run i ?r) = Some False" using assms by (simp add: cancel_run_def cancel_cell_def)
  have 6: "c < length (cells (set_status g' s ?r))" using assms(2) by (simp add: set_status_def)
  show ?thesis using c 1 3 [OF 2 6] 4 5 by (simp add: is_cancelled_def)
qed

theorem cancel_once_witness: "fst (cancel_run 7 (snd (register 7 new_registry))) = Some True"
  using cancel_once [of "snd (register 7 new_registry)" 7 0]
  by (simp add: register_def new_registry_def Let_def is_cancelled_def)

text \<open>The detached emitter's events are absent from the global stream.\<close>

lemma step_emit_not_global: "global (step_emit c e r) = global r"
  by (simp add: step_emit_def)

text \<open>A second registration of an id loses its entry when the first guard ends.\<close>

lemma reregistered_run_lost:
  "\<not> is_live i (snd (finish s (fst (register i r)) (snd (register i (snd (register i r))))))"
  by (simp add: is_live_def finish_def remove_run_def register_def Let_def)

end
