(* ===== verification/Recurrence.thy ===== *)
theory Recurrence
  imports Prelude
begin

text \<open>
  The local scheduler's cadence: the safety floors (\<open>src/src/local/scheduler/clamp.rs\<close>) and the
  structured recurrences every lane advances by (\<open>recurrence.rs\<close>).

  An instant is an integer of nanoseconds since the epoch, a calendar date its day number (day 0 is
  Thursday 1970-01-01). The time-zone database and the ranges of chrono's dates and instants are
  parameters, collected in \<open>calendar\<close>; \<open>zone_ok\<close> states what is relied on of a zone.
\<close>

section \<open>The cadence floors\<close>

definition html_floor :: nat where "html_floor = 60000"
definition js_floor :: nat where "js_floor = 300000"
definition workflow_floor :: nat where "workflow_floor = 60000"

text \<open>The process-global configured floors.\<close>

record floors =
  html_configured :: nat
  js_configured :: nat

definition initial_floors :: floors where
  "initial_floors = \<lparr>html_configured = html_floor, js_configured = js_floor\<rparr>"

definition install_monitor_floors :: "nat \<Rightarrow> nat \<Rightarrow> floors" where
  "install_monitor_floors h j = \<lparr>html_configured = max h html_floor, js_configured = max j js_floor\<rparr>"

text \<open>\<open>as i64\<close> keeps the low 64 bits.\<close>

definition monitor_floor_ms :: "floors \<Rightarrow> bool \<Rightarrow> int" where
  "monitor_floor_ms fl pw =
     (if pw then wrap_i64 (int (max (js_configured fl) js_floor))
      else wrap_i64 (int (max (html_configured fl) html_floor)))"

definition clamp_monitor_interval_ms :: "floors \<Rightarrow> int option \<Rightarrow> bool \<Rightarrow> int" where
  "clamp_monitor_interval_ms fl requested pw =
     (let fl_ms = monitor_floor_ms fl pw
      in case requested of Some ms \<Rightarrow> if 0 < ms then max ms fl_ms else fl_ms | None \<Rightarrow> fl_ms)"

definition clamp_workflow_interval_ms :: "int option \<Rightarrow> int" where
  "clamp_workflow_interval_ms requested =
     (let fl_ms = int workflow_floor
      in case requested of Some ms \<Rightarrow> if 0 < ms then max ms fl_ms else fl_ms | None \<Rightarrow> fl_ms)"

section \<open>Recurrences\<close>

datatype sched_kind = Interval | Daily | Weekly

definition parse_kind :: "string option \<Rightarrow> sched_kind" where
  "parse_kind s =
     (if s = Some ''daily'' then Daily else if s = Some ''weekly'' then Weekly else Interval)"

definition kind_str :: "sched_kind \<Rightarrow> string" where
  "kind_str k = (case k of Interval \<Rightarrow> ''interval'' | Daily \<Rightarrow> ''daily'' | Weekly \<Rightarrow> ''weekly'')"

record recurrence =
  rec_kind :: sched_kind
  interval_ms :: int
  rec_time :: "string option"
  rec_days :: "nat list"
  rec_tz :: string

text \<open>\<open>parse_ints\<close> decodes a JSON array of \<open>i64\<close>.\<close>

definition parse_days_json :: "(string \<Rightarrow> int list option) \<Rightarrow> string option \<Rightarrow> nat list" where
  "parse_days_json parse_ints days =
     (case days of
        None \<Rightarrow> []
      | Some s \<Rightarrow>
          (let t = trim s
           in if t = [] then []
              else case parse_ints t of
                     Some v \<Rightarrow> map nat (filter (\<lambda>d. 1 \<le> d \<and> d \<le> 7) v)
                   | None \<Rightarrow> []))"

definition from_columns ::
    "(string \<Rightarrow> int list option) \<Rightarrow> string option \<Rightarrow> int \<Rightarrow> string option \<Rightarrow> string option \<Rightarrow> string option \<Rightarrow> recurrence" where
  "from_columns parse_ints kind ms time days tz =
     \<lparr>rec_kind = parse_kind kind, interval_ms = ms, rec_time = time, rec_days = parse_days_json parse_ints days,
      rec_tz = unwrap_or [] tz\<rparr>"

text \<open>\<open>m * 60_000\<close> wraps in a release build; \<open>n as u32\<close> keeps the low 32 bits.\<close>

definition from_block_config :: "json \<Rightarrow> recurrence" where
  "from_block_config config =
     \<lparr>rec_kind = parse_kind (get_str ''mode'' config),
      interval_ms =
        unwrap_or 0 (case get_i64 ''interval_ms'' config of
                       Some n \<Rightarrow> Some n
                     | None \<Rightarrow> map_option (\<lambda>m. wrap_i64 (m * 60000)) (get_i64 ''interval_minutes'' config)),
      rec_time = get_str ''time'' config,
      rec_days =
        (case get_array ''days'' config of
           Some a \<Rightarrow> map (\<lambda>n. n mod 2 ^ 32) (List.map_filter as_u64 a)
         | None \<Rightarrow> []),
      rec_tz = unwrap_or [] (get_str ''tz'' config)\<rparr>"

text \<open>\<open>parse::<u32>\<close>: an optional plus sign, then digits.\<close>

definition parse_u32 :: "string \<Rightarrow> nat option" where
  "parse_u32 s =
     (case (case s of CHR ''+'' # r \<Rightarrow> parse_digits r | _ \<Rightarrow> parse_digits s) of
        Some n \<Rightarrow> if n < 2 ^ 32 then Some (nat n) else None
      | None \<Rightarrow> None)"

definition parse_hhmm :: "string option \<Rightarrow> nat \<times> nat" where
  "parse_hhmm t =
     (case Option.bind t (split_once CHR '':'') of
        None \<Rightarrow> (0, 0)
      | Some (h, m) \<Rightarrow>
          (case (parse_u32 (trim h), parse_u32 (trim m)) of
             (Some hh, Some mm) \<Rightarrow> if hh < 24 \<and> mm < 60 then (hh, mm) else (0, 0)
           | _ \<Rightarrow> (0, 0)))"

section \<open>Time zones\<close>

definition day_ns :: int where "day_ns = 86400000000000"
definition hour_ns :: int where "hour_ns = 3600000000000"
definition minute_ns :: int where "minute_ns = 60000000000"
definition ms_ns :: int where "ms_ns = 1000000"

lemmas ns_defs = day_ns_def hour_ns_def minute_ns_def ms_ns_def

text \<open>The instants a wall-clock time denotes: none in a gap, two when the clock is set back.\<close>

datatype local_time = NoTime | Single int | Ambiguous int int

text \<open>\<open>offset\<close> is the zone's offset from UTC at an instant, \<open>wall d hh mm\<close> the instants of a wall-clock
  time on a date.\<close>

record zone =
  offset :: "int \<Rightarrow> int"
  wall :: "int \<Rightarrow> nat \<Rightarrow> nat \<Rightarrow> local_time"

record calendar =
  zone_of :: "string \<Rightarrow> zone option"
  date_ok :: "int \<Rightarrow> bool"
  instant_ok :: "int \<Rightarrow> bool"

definition utc_time :: "int \<Rightarrow> nat \<Rightarrow> nat \<Rightarrow> int" where
  "utc_time d hh mm = d * day_ns + int hh * hour_ns + int mm * minute_ns"

definition utc_zone :: zone where
  "utc_zone = \<lparr>offset = \<lambda>_. 0, wall = \<lambda>d hh mm. Single (utc_time d hh mm)\<rparr>"

definition load_tz :: "calendar \<Rightarrow> string \<Rightarrow> zone" where
  "load_tz cal tz = unwrap_or utc_zone (zone_of cal tz)"

definition local_at_utc :: "zone \<Rightarrow> int \<Rightarrow> nat \<Rightarrow> nat \<Rightarrow> int" where
  "local_at_utc z d hh mm =
     (case wall z d hh mm of
        Single t \<Rightarrow> t
      | Ambiguous a _ \<Rightarrow> a
      | NoTime \<Rightarrow>
          (case wall z d (min (hh + 1) 23) mm of
             Single t \<Rightarrow> t
           | Ambiguous a _ \<Rightarrow> a
           | NoTime \<Rightarrow> utc_time d hh mm))"

definition local_date :: "zone \<Rightarrow> int \<Rightarrow> int" where
  "local_date z t = (t + offset z t) div day_ns"

definition iso_weekday :: "int \<Rightarrow> nat" where
  "iso_weekday d = nat ((d + 3) mod 7) + 1"

definition shift_local_date :: "calendar \<Rightarrow> int \<Rightarrow> int \<Rightarrow> int option" where
  "shift_local_date cal d k = (if date_ok cal (d + k) then Some (d + k) else None)"

text \<open>\<open>DateTime + Duration\<close>; \<open>None\<close> is the panic on overflow.\<close>

definition add_dur :: "calendar \<Rightarrow> int \<Rightarrow> int \<Rightarrow> int option" where
  "add_dur cal now ns = (if instant_ok cal (now + ns) then Some (now + ns) else None)"

section \<open>Next and previous occurrence\<close>

definition recurrence_search_days :: int where
  "recurrence_search_days = 8"

definition day_matches :: "recurrence \<Rightarrow> int \<Rightarrow> bool" where
  "day_matches r d \<longleftrightarrow>
     (case rec_kind r of Interval \<Rightarrow> False | Daily \<Rightarrow> True | Weekly \<Rightarrow> iso_weekday d \<in> set (rec_days r))"

definition occurrence :: "calendar \<Rightarrow> recurrence \<Rightarrow> int \<Rightarrow> int" where
  "occurrence cal r d =
     (let (hh, mm) = parse_hhmm (rec_time r) in local_at_utc (load_tz cal (rec_tz r)) d hh mm)"

text \<open>The candidate of one turn of a search loop, if the date exists and matches.\<close>

definition candidate :: "calendar \<Rightarrow> recurrence \<Rightarrow> int \<Rightarrow> int \<Rightarrow> int option" where
  "candidate cal r today off =
     (case shift_local_date cal today off of
        None \<Rightarrow> None
      | Some d \<Rightarrow> if day_matches r d then Some (occurrence cal r d) else None)"

text \<open>A loop over \<open>0..=n\<close> that returns the first accepted candidate.\<close>

fun first_hit :: "('a \<Rightarrow> int option) \<Rightarrow> (int \<Rightarrow> bool) \<Rightarrow> 'a list \<Rightarrow> int option" where
  "first_hit f acc [] = None"
| "first_hit f acc (x # xs) =
     (case f x of Some c \<Rightarrow> if acc c then Some c else first_hit f acc xs | None \<Rightarrow> first_hit f acc xs)"

definition today :: "calendar \<Rightarrow> recurrence \<Rightarrow> int \<Rightarrow> int" where
  "today cal r now = local_date (load_tz cal (rec_tz r)) now"

definition next_run :: "calendar \<Rightarrow> recurrence \<Rightarrow> int \<Rightarrow> int option" where
  "next_run cal r now =
     (case rec_kind r of
        Interval \<Rightarrow> add_dur cal now (max (interval_ms r) 0 * ms_ns)
      | Daily \<Rightarrow>
          (case first_hit (\<lambda>off. candidate cal r (today cal r now) off) (\<lambda>c. now < c) [0..recurrence_search_days] of
             Some c \<Rightarrow> Some c
           | None \<Rightarrow> add_dur cal now day_ns)
      | Weekly \<Rightarrow>
          (case first_hit (\<lambda>off. candidate cal r (today cal r now) off) (\<lambda>c. now < c) [0..recurrence_search_days] of
             Some c \<Rightarrow> Some c
           | None \<Rightarrow> add_dur cal now (max (interval_ms r) 86400000 * ms_ns)))"

definition prev_occurrence :: "calendar \<Rightarrow> recurrence \<Rightarrow> int \<Rightarrow> int option" where
  "prev_occurrence cal r now =
     (case rec_kind r of
        Interval \<Rightarrow> None
      | _ \<Rightarrow> first_hit (\<lambda>off. candidate cal r (today cal r now) (- off)) (\<lambda>c. c \<le> now) [0..recurrence_search_days])"

definition is_due :: "(string \<Rightarrow> int option) \<Rightarrow> calendar \<Rightarrow> recurrence \<Rightarrow> string option \<Rightarrow> int \<Rightarrow> bool" where
  "is_due parse_time cal r fired now \<longleftrightarrow>
     (if rec_kind r = Interval
      then (case Option.bind fired parse_time of
              None \<Rightarrow> True
            | Some prev \<Rightarrow> interval_ms r * ms_ns \<le> now - prev)
      else (case prev_occurrence cal r now of
              None \<Rightarrow> False
            | Some prev \<Rightarrow>
                (case Option.bind fired parse_time of None \<Rightarrow> True | Some t \<Rightarrow> t < prev)))"

section \<open>Facts of the floors\<close>

text \<open>Every interval is raised to the configured floor, itself at least the hard minimum, as long as
  the floor fits an \<open>i64\<close>; a larger configured floor wraps to a negative one, which then raises nothing.\<close>

definition floors_fit :: "floors \<Rightarrow> bool" where
  "floors_fit fl \<longleftrightarrow> int (max (html_configured fl) js_floor) \<le> i64_max \<and> int (max (js_configured fl) js_floor) \<le> i64_max"

lemma clamp_monitor_at_least:
  assumes "floors_fit fl"
  shows "int (if pw then max (js_configured fl) js_floor else max (html_configured fl) html_floor)
     \<le> clamp_monitor_interval_ms fl requested pw"
proof -
  have "wrap_i64 (int n) = int n" if "int n \<le> i64_max" for n
    using that by (intro wrap_i64_id) (simp add: i64_ok_def i64_bounds)
  moreover have "int (max (html_configured fl) html_floor) \<le> i64_max"
    using assms by (simp add: floors_fit_def html_floor_def js_floor_def i64_bounds)
  ultimately show ?thesis
    using assms by (auto simp: clamp_monitor_interval_ms_def monitor_floor_ms_def Let_def floors_fit_def split: option.split)
qed

lemma huge_floor_wraps: "clamp_monitor_interval_ms (install_monitor_floors (2 ^ 64 - 1) 0) (Some 1) False = 1"
  by (simp add: clamp_monitor_interval_ms_def monitor_floor_ms_def install_monitor_floors_def html_floor_def wrap_i64_def)

lemma clamp_workflow_at_least: "60000 \<le> clamp_workflow_interval_ms m"
  by (auto simp: clamp_workflow_interval_ms_def workflow_floor_def split: option.split)

section \<open>What is relied on of a zone\<close>

text \<open>Offsets are whole seconds below a day, two offsets of one zone differ by at most a day, and the
  instants of a wall-clock time read that time.\<close>

definition zone_ok :: "zone \<Rightarrow> bool" where
  "zone_ok z \<longleftrightarrow>
     (\<forall>t. \<bar>offset z t\<bar> < day_ns \<and> offset z t mod 1000000000 = 0) \<and>
     (\<forall>s t. \<bar>offset z s - offset z t\<bar> \<le> day_ns) \<and>
     (\<forall>d hh mm t. wall z d hh mm = Single t \<longrightarrow> t + offset z t = utc_time d hh mm) \<and>
     (\<forall>d hh mm t u. wall z d hh mm = Ambiguous t u \<longrightarrow> t + offset z t = utc_time d hh mm)"

lemma parse_hhmm_valid: "parse_hhmm t = (hh, mm) \<Longrightarrow> hh < 24 \<and> mm < 60"
  by (auto simp: parse_hhmm_def split: option.splits if_splits)

lemma local_at_utc_cases:
  assumes "zone_ok z" "hh < 24"
  obtains h where "h < 24" "local_at_utc z d hh mm + offset z (local_at_utc z d hh mm) = utc_time d h mm"
    | "local_at_utc z d hh mm = utc_time d hh mm"
proof (cases "wall z d hh mm")
  case NoTime
  then show ?thesis
    using assms that(1) [of "min (hh + 1) 23"] that(2)
    by (cases "wall z d (min (hh + 1) 23) mm") (auto simp: local_at_utc_def zone_ok_def)
next
  case (Single t)
  then show ?thesis using assms that(1) [of hh] by (simp add: local_at_utc_def zone_ok_def)
next
  case (Ambiguous t u)
  then have "t + offset z t = utc_time d hh mm" using assms by (fastforce simp: zone_ok_def)
  then show ?thesis using Ambiguous assms that(1) [of hh] by (simp add: local_at_utc_def)
qed

lemma utc_time_day: "h < 24 \<Longrightarrow> mm < 60 \<Longrightarrow> d * day_ns \<le> utc_time d h mm \<and> utc_time d h mm < (d + 1) * day_ns"
  by (simp add: utc_time_def ns_defs)

lemma utc_time_seconds: "utc_time d h mm mod 1000000000 = 0"
proof -
  have "utc_time d h mm = 1000000000 * (d * 86400 + int h * 3600 + int mm * 60)"
    by (simp add: utc_time_def ns_defs)
  then show ?thesis by simp
qed

lemma local_date_bounds: "local_date z t * day_ns \<le> t + offset z t \<and> t + offset z t < (local_date z t + 1) * day_ns"
proof -
  have "t + offset z t = local_date z t * day_ns + (t + offset z t) mod day_ns"
    by (simp add: local_date_def)
  moreover have "0 \<le> (t + offset z t) mod day_ns" "(t + offset z t) mod day_ns < day_ns"
    by (simp_all add: day_ns_def)
  ultimately show ?thesis by (simp add: algebra_simps)
qed

lemma window_arith: fixes D :: int
  assumes "T + 2 \<le> d" "0 < D" "d * D \<le> c + p" "n + q < (T + 1) * D" "p - q \<le> D"
  shows "n < c"
proof -
  have "(T + 2) * D \<le> d * D" using assms by (intro mult_right_mono) auto
  then have "(T + 1) * D + D \<le> d * D" by (simp add: algebra_simps)
  then show ?thesis using assms(3-5) by linarith
qed

lemma window_arith2: fixes D :: int
  assumes "d \<le> T - 2" "0 < D" "c + p < (d + 1) * D" "T * D \<le> n + q" "- (p - q) \<le> D"
  shows "c < n"
proof -
  have "(d + 1 + 1) * D \<le> T * D" using assms by (intro mult_right_mono) auto
  then have "(d + 1) * D + D \<le> T * D" by (simp add: algebra_simps)
  then show ?thesis using assms(3-5) by linarith
qed
text \<open>Two days on, a wall-clock time is in the future; two days back, in the past.\<close>

lemma local_at_utc_window:
  assumes "zone_ok z" "hh < 24" "mm < 60"
  shows "local_date z now + 2 \<le> d \<Longrightarrow> now < local_at_utc z d hh mm"
    and "d \<le> local_date z now - 2 \<Longrightarrow> local_at_utc z d hh mm < now"
proof -
  let ?c = "local_at_utc z d hh mm"
  obtain o' where o': "\<bar>o' - offset z now\<bar> \<le> day_ns" "d * day_ns \<le> ?c + o'" "?c + o' < (d + 1) * day_ns"
    using assms(1,2)
  proof (cases rule: local_at_utc_cases [where d = d and mm = mm])
    case (1 h)
    then show ?thesis
      using that [of "offset z ?c"] assms(1,3) utc_time_day [of h mm d] by (simp add: zone_ok_def)
  next
    case 2
    have "\<bar>offset z now\<bar> < day_ns" using assms(1) by (simp add: zone_ok_def)
    then show ?thesis using 2 that [of 0] utc_time_day [OF assms(2,3)] by simp
  qed
  note b = local_date_bounds [of z now]
  have D: "0 < day_ns" by (simp add: day_ns_def)
  note o1 = o'(1) [unfolded abs_le_iff]
  show "now < ?c" if "local_date z now + 2 \<le> d"
    by (rule window_arith [OF that D o'(2) b [THEN conjunct2] o1 [THEN conjunct1]])
  show "?c < now" if "d \<le> local_date z now - 2"
    by (rule window_arith2 [OF that D o'(3) b [THEN conjunct1] o1 [THEN conjunct2]])
qed

text \<open>Every weekday lies in the seven days that start two days on, or two days back.\<close>

lemma weekday_ahead:
  assumes "1 \<le> w" "w \<le> 7"
  obtains k where "2 \<le> k" "k \<le> 8" "iso_weekday (d + k) = w"
proof
  let ?k = "2 + (int w - 1 - (d + 5)) mod 7"
  show "2 \<le> ?k" "?k \<le> 8" using pos_mod_bound [of 7 "int w - 1 - (d + 5)"] by simp_all
  have "(d + ?k + 3) mod 7 = ((d + 5) + (int w - 1 - (d + 5)) mod 7) mod 7" by (simp only: algebra_simps) simp
  also have "\<dots> = (d + 5 + (int w - 1 - (d + 5))) mod 7" by (rule mod_add_right_eq)
  also have "\<dots> = int w - 1" using assms by simp
  finally show "iso_weekday (d + ?k) = w" using assms by (simp add: iso_weekday_def)
qed


section \<open>What the searches find\<close>

lemma first_hit_None: "first_hit f acc xs = None \<longleftrightarrow> (\<forall>x \<in> set xs. \<forall>b. f x = Some b \<longrightarrow> \<not> acc b)"
  by (induction xs) (auto split: option.split)

text \<open>The first hit over \<open>0..=n\<close> is the hit at the least offset.\<close>

lemma first_hit_upto: "first_hit f acc [i..n] = Some c \<longleftrightarrow>
    (\<exists>k \<in> {i..n}. f k = Some c \<and> acc c \<and> (\<forall>j \<in> {i..<k}. \<forall>b. f j = Some b \<longrightarrow> \<not> acc b))"
proof (induction i n rule: upto.induct)
  case (1 i n)
  let ?R = "\<lambda>i k. f k = Some c \<and> acc c \<and> (\<forall>j \<in> {i..<k}. \<forall>b. f j = Some b \<longrightarrow> \<not> acc b)"
  show ?case
  proof (cases "i \<le> n")
    case True
    then have u: "[i..n] = i # [i + 1..n]" and s: "{i..n} = insert i {i + 1..n}" by (auto simp: upto.simps)
    have tail: "?R i k \<longleftrightarrow> ?R (i + 1) k \<and> (\<forall>b. f i = Some b \<longrightarrow> \<not> acc b)" if "k \<in> {i + 1..n}" for k
    proof -
      have "{i..<k} = insert i {i + 1..<k}" using that by auto
      then show ?thesis by auto
    qed
    show ?thesis
    proof (cases "\<exists>b. f i = Some b \<and> acc b")
      case hit: True
      then obtain b where b: "f i = Some b" "acc b" by blast
      then have "(\<exists>k \<in> {i..n}. ?R i k) \<longleftrightarrow> b = c" using tail by (auto simp: s)
      then show ?thesis using b by (simp add: u)
    next
      case False
      have "first_hit f acc [i..n] = first_hit f acc [i + 1..n]" using False by (auto simp: u split: option.split)
      moreover have "(\<exists>k \<in> {i..n}. ?R i k) \<longleftrightarrow> (\<exists>k \<in> {i + 1..n}. ?R (i + 1) k)"
        using False tail by (auto simp: s)
      ultimately show ?thesis using 1 True by simp
    qed
  qed simp
qed

section \<open>Occurrences\<close>

text \<open>The days a search looks at exist, and some weekday matches.\<close>

definition searchable :: "calendar \<Rightarrow> recurrence \<Rightarrow> int \<Rightarrow> bool" where
  "searchable cal r now \<longleftrightarrow>
     zone_ok (load_tz cal (rec_tz r)) \<and>
     list_all (\<lambda>k. date_ok cal (today cal r now + k)) [- recurrence_search_days..recurrence_search_days] \<and>
     (rec_kind r = Daily \<or> rec_kind r = Weekly \<and> list_ex (\<lambda>w. 1 \<le> w \<and> w \<le> 7) (rec_days r))"

lemma searchable_days: "searchable cal r now \<Longrightarrow> k \<in> {- 8..8} \<Longrightarrow> date_ok cal (today cal r now + k)"
  unfolding searchable_def recurrence_search_days_def list_all_iff set_upto by blast

lemma searchable_match:
  assumes "searchable cal r now"
  obtains k where "2 \<le> k" "k \<le> 8" "day_matches r (d + k)"
proof (cases "rec_kind r = Daily")
  case True
  then show ?thesis using that [of 2] by (simp add: day_matches_def)
next
  case False
  then obtain w where w: "rec_kind r = Weekly" "w \<in> set (rec_days r)" "1 \<le> w" "w \<le> 7"
    using assms by (auto simp: searchable_def list_ex_iff)
  obtain k where "2 \<le> k" "k \<le> 8" "iso_weekday (d + k) = w" by (rule weekday_ahead [OF w(3,4)])
  then show ?thesis using that [of k] w by (simp add: day_matches_def)
qed

lemma searchable_kind: "searchable cal r now \<Longrightarrow> rec_kind r \<noteq> Interval"
  by (auto simp: searchable_def)

lemma occurrence_window:
  assumes "searchable cal r now"
  shows "today cal r now + 2 \<le> d \<Longrightarrow> now < occurrence cal r d"
    and "d \<le> today cal r now - 2 \<Longrightarrow> occurrence cal r d < now"
proof -
  obtain hh mm where h: "parse_hhmm (rec_time r) = (hh, mm)" by fastforce
  note v = parse_hhmm_valid [OF h]
  have z: "zone_ok (load_tz cal (rec_tz r))" using assms by (simp add: searchable_def)
  show "today cal r now + 2 \<le> d \<Longrightarrow> now < occurrence cal r d"
    "d \<le> today cal r now - 2 \<Longrightarrow> occurrence cal r d < now"
    using local_at_utc_window [OF z v [THEN conjunct1] v [THEN conjunct2]]
    by (simp_all add: occurrence_def today_def h)
qed

lemma candidate_Some: "candidate cal r t k = Some c \<longleftrightarrow>
    date_ok cal (t + k) \<and> day_matches r (t + k) \<and> c = occurrence cal r (t + k)"
  by (auto simp: candidate_def shift_local_date_def)

text \<open>The search forward, and the search back.\<close>

lemma search_forward:
  assumes "searchable cal r now"
  obtains k where "k \<in> {0..8}" "next_run cal r now = Some (occurrence cal r (today cal r now + k))"
    "day_matches r (today cal r now + k)" "now < occurrence cal r (today cal r now + k)"
    "\<forall>j \<in> {0..<k}. day_matches r (today cal r now + j) \<longrightarrow> occurrence cal r (today cal r now + j) \<le> now"
proof -
  let ?t = "today cal r now"
  let ?s = "first_hit (candidate cal r ?t) (\<lambda>c. now < c) [0..recurrence_search_days]"
  obtain k where k: "2 \<le> k" "k \<le> 8" "day_matches r (?t + k)" by (rule searchable_match [OF assms])
  have "candidate cal r ?t k = Some (occurrence cal r (?t + k))"
    using searchable_days [OF assms, of k] k by (simp add: candidate_Some)
  then have "?s \<noteq> None"
    using k occurrence_window(1) [OF assms, of "?t + k"] unfolding first_hit_None recurrence_search_days_def by fastforce
  then obtain c where c: "?s = Some c" by blast
  then obtain i where i: "i \<in> {0..8}" "candidate cal r ?t i = Some c" "now < c"
    "\<forall>j \<in> {0..<i}. \<forall>b. candidate cal r ?t j = Some b \<longrightarrow> \<not> now < b"
    unfolding first_hit_upto recurrence_search_days_def by blast
  have n: "next_run cal r now = Some c"
    using c searchable_kind [OF assms] by (cases "rec_kind r") (simp_all add: next_run_def)
  have e: "day_matches r (?t + i)" "c = occurrence cal r (?t + i)" using i(2) by (simp_all add: candidate_Some)
  have "\<forall>j \<in> {0..<i}. day_matches r (?t + j) \<longrightarrow> occurrence cal r (?t + j) \<le> now"
  proof (intro ballI impI)
    fix j assume j: "j \<in> {0..<i}" "day_matches r (?t + j)"
    then have "candidate cal r ?t j = Some (occurrence cal r (?t + j))"
      using i(1) searchable_days [OF assms, of j] by (simp add: candidate_Some)
    then show "occurrence cal r (?t + j) \<le> now" using i(4) j(1) by fastforce
  qed
  then show ?thesis using that i(1,3) n e by blast
qed

lemma weekday_behind:
  assumes "searchable cal r now"
  obtains k where "2 \<le> k" "k \<le> 8" "day_matches r (d - k)"
proof -
  obtain j where "2 \<le> j" "j \<le> 8" "day_matches r (d - 10 + j)" by (rule searchable_match [OF assms])
  then show ?thesis using that [of "10 - j"] by (simp add: algebra_simps)
qed

lemma search_back:
  assumes "searchable cal r now"
  obtains k where "k \<in> {0..8}" "prev_occurrence cal r now = Some (occurrence cal r (today cal r now - k))"
    "day_matches r (today cal r now - k)" "occurrence cal r (today cal r now - k) \<le> now"
    "\<forall>j \<in> {0..<k}. day_matches r (today cal r now - j) \<longrightarrow> now < occurrence cal r (today cal r now - j)"
proof -
  let ?t = "today cal r now"
  let ?f = "\<lambda>k. candidate cal r ?t (- k)"
  let ?s = "first_hit ?f (\<lambda>c. c \<le> now) [0..recurrence_search_days]"
  obtain k where k: "2 \<le> k" "k \<le> 8" "day_matches r (?t - k)" by (rule weekday_behind [OF assms])
  have "?f k = Some (occurrence cal r (?t - k))"
    using searchable_days [OF assms, of "- k"] k by (simp add: candidate_Some)
  then have "?s \<noteq> None"
    using k occurrence_window(2) [OF assms, of "?t - k"] unfolding first_hit_None recurrence_search_days_def by fastforce
  then obtain c where c: "?s = Some c" by blast
  then obtain i where i: "i \<in> {0..8}" "?f i = Some c" "c \<le> now" "\<forall>j \<in> {0..<i}. \<forall>b. ?f j = Some b \<longrightarrow> \<not> b \<le> now"
    unfolding first_hit_upto recurrence_search_days_def by blast
  have n: "prev_occurrence cal r now = Some c"
    using c searchable_kind [OF assms] by (cases "rec_kind r") (simp_all add: prev_occurrence_def)
  have e: "day_matches r (?t - i)" "c = occurrence cal r (?t - i)" using i(2) by (simp_all add: candidate_Some)
  have "\<forall>j \<in> {0..<i}. day_matches r (?t - j) \<longrightarrow> now < occurrence cal r (?t - j)"
  proof (intro ballI impI)
    fix j assume j: "j \<in> {0..<i}" "day_matches r (?t - j)"
    then have "?f j = Some (occurrence cal r (?t - j))"
      using i(1) searchable_days [OF assms, of "- j"] by (simp add: candidate_Some)
    then show "now < occurrence cal r (?t - j)" using i(4) j(1) by fastforce
  qed
  then show ?thesis using that i(1,3) n e by blast
qed

text \<open>A daily or weekly schedule advances to its next occurrence: the next run is strictly in the
  future, falls on a matching local date at the scheduled wall-clock time, and every earlier matching
  date from today on has already occurred; the fallback beyond the search window is never taken. This
  holds across clock changes, for any zone whose offsets stay within a day of each other.\<close>

theorem next_run_first:
  assumes "searchable cal r now"
  shows "\<exists>d \<in> {today cal r now..today cal r now + 8}.
    next_run cal r now = Some (occurrence cal r d) \<and> day_matches r d \<and> now < occurrence cal r d \<and>
    (\<forall>e. today cal r now \<le> e \<and> e < d \<and> day_matches r e \<longrightarrow> occurrence cal r e \<le> now)"
proof -
  obtain k where k: "k \<in> {0..8}" "next_run cal r now = Some (occurrence cal r (today cal r now + k))"
    "day_matches r (today cal r now + k)" "now < occurrence cal r (today cal r now + k)"
    "\<forall>j \<in> {0..<k}. day_matches r (today cal r now + j) \<longrightarrow> occurrence cal r (today cal r now + j) \<le> now"
    by (rule search_forward [OF assms])
  have "occurrence cal r e \<le> now" if "today cal r now \<le> e" "e < today cal r now + k" "day_matches r e" for e
    using k(5) [rule_format, of "e - today cal r now"] that by simp
  then show ?thesis using k(1-4) by (intro bexI [of _ "today cal r now + k"]) auto
qed

text \<open>A zone that never crosses the date line: its offsets stay within 22 hours of each other.\<close>

definition zone_steady :: "zone \<Rightarrow> bool" where
  "zone_steady z \<longleftrightarrow> (\<forall>s t. \<bar>offset z s - offset z t\<bar> \<le> 22 * hour_ns) \<and> (\<forall>t. \<bar>offset z t\<bar> \<le> 22 * hour_ns)"

lemma local_at_utc_between:
  assumes "zone_ok z" "zone_steady z" "hh < 24"
  obtains o' where "local_at_utc z d hh mm + o' \<in> {utc_time d hh mm..utc_time d hh mm + hour_ns}"
    "\<bar>o'\<bar> \<le> 22 * hour_ns" "\<And>t. \<bar>o' - offset z t\<bar> \<le> 22 * hour_ns" "o' = 0 \<or> (\<exists>t. o' = offset z t)"
proof -
  note main = that
  have s: "\<bar>offset z t\<bar> \<le> 22 * hour_ns" "\<bar>offset z t - offset z u\<bar> \<le> 22 * hour_ns" for t u
    using assms(2) by (simp_all add: zone_steady_def)
  have n: "\<bar>0 - offset z t\<bar> \<le> 22 * hour_ns" for t using s(1) [of t] by simp
  have pick: "thesis" if "local_at_utc z d hh mm + offset z t \<in> {utc_time d hh mm..utc_time d hh mm + hour_ns}" for t
    by (rule main [of "offset z t"]) (use s that in auto)
  show ?thesis
  proof (cases "wall z d hh mm")
    case NoTime
    have h: "utc_time d (min (hh + 1) 23) mm \<in> {utc_time d hh mm..utc_time d hh mm + hour_ns}"
      using assms(3) by (auto simp: utc_time_def hour_ns_def min_def)
    show ?thesis
    proof (cases "wall z d (min (hh + 1) 23) mm")
      case n2: NoTime
      then show ?thesis using main [of 0] n by (simp add: local_at_utc_def NoTime hour_ns_def)
    next
      case (Single t)
      then have "t + offset z t = utc_time d (min (hh + 1) 23) mm" using assms(1) by (simp add: zone_ok_def)
      then show ?thesis using pick [of t] Single h by (simp add: local_at_utc_def NoTime)
    next
      case (Ambiguous t u)
      then have "t + offset z t = utc_time d (min (hh + 1) 23) mm" using assms(1) by (fastforce simp: zone_ok_def)
      then show ?thesis using pick [of t] Ambiguous h by (simp add: local_at_utc_def NoTime)
    qed
  next
    case (Single t)
    then have "t + offset z t = utc_time d hh mm" using assms(1) by (simp add: zone_ok_def)
    then show ?thesis using pick [of t] Single by (simp add: local_at_utc_def hour_ns_def)
  next
    case (Ambiguous t u)
    then have "t + offset z t = utc_time d hh mm" using assms(1) by (fastforce simp: zone_ok_def)
    then show ?thesis using pick [of t] Ambiguous by (simp add: local_at_utc_def hour_ns_def)
  qed
qed

lemma local_at_utc_mono:
  assumes "zone_ok z" "zone_steady z" "hh < 24" "d < e"
  shows "local_at_utc z d hh mm < local_at_utc z e hh mm"
proof -
  obtain p where p: "local_at_utc z d hh mm + p \<in> {utc_time d hh mm..utc_time d hh mm + hour_ns}"
    "\<bar>p\<bar> \<le> 22 * hour_ns" "\<And>t. \<bar>p - offset z t\<bar> \<le> 22 * hour_ns"
    using local_at_utc_between [OF assms(1-3)] by metis
  obtain q where q: "local_at_utc z e hh mm + q \<in> {utc_time e hh mm..utc_time e hh mm + hour_ns}"
    "\<bar>q\<bar> \<le> 22 * hour_ns" "q = 0 \<or> (\<exists>t. q = offset z t)"
    using local_at_utc_between [OF assms(1-3)] by metis
  have "\<bar>p - q\<bar> \<le> 22 * hour_ns" using p(2,3) q(3) by auto
  moreover have "(d + 1) * day_ns \<le> e * day_ns" using assms(4) by (simp add: day_ns_def)
  then have "utc_time d hh mm + day_ns \<le> utc_time e hh mm" by (simp add: utc_time_def algebra_simps)
  moreover have "day_ns = 24 * hour_ns" "0 < hour_ns" by (simp_all add: ns_defs)
  ultimately show ?thesis using p(1) q(1) by (simp add: abs_le_iff)
qed

lemma occurrence_mono:
  assumes "zone_ok (load_tz cal (rec_tz r))" "zone_steady (load_tz cal (rec_tz r))" "d < e"
  shows "occurrence cal r d < occurrence cal r e"
proof -
  obtain hh mm where h: "parse_hhmm (rec_time r) = (hh, mm)" by fastforce
  show ?thesis using local_at_utc_mono [OF assms(1,2) _ assms(3)] parse_hhmm_valid [OF h] by (simp add: occurrence_def h)
qed

text \<open>An automation fires once per occurrence: a daily or weekly one last triggered at \<open>t\<close> is due
  exactly when some scheduled occurrence up to today lies after \<open>t\<close> and is no later than now.\<close>

theorem due_once_per_occurrence:
  assumes "searchable cal r now" "zone_steady (load_tz cal (rec_tz r))" "parse_time s = Some t"
  shows "is_due parse_time cal r (Some s) now \<longleftrightarrow>
    (\<exists>d \<le> today cal r now. day_matches r d \<and> t < occurrence cal r d \<and> occurrence cal r d \<le> now)"
proof -
  let ?t = "today cal r now"
  obtain k where k: "k \<in> {0..8}" "prev_occurrence cal r now = Some (occurrence cal r (?t - k))"
    "day_matches r (?t - k)" "occurrence cal r (?t - k) \<le> now"
    "\<forall>j \<in> {0..<k}. day_matches r (?t - j) \<longrightarrow> now < occurrence cal r (?t - j)"
    by (rule search_back [OF assms(1)])
  have z: "zone_ok (load_tz cal (rec_tz r))" using assms(1) by (simp add: searchable_def)
  have due: "is_due parse_time cal r (Some s) now \<longleftrightarrow> t < occurrence cal r (?t - k)"
    using searchable_kind [OF assms(1)] k(2) assms(3) by (simp add: is_due_def)
  have "t < occurrence cal r (?t - k)"
    if d: "d \<le> ?t" "day_matches r d" "t < occurrence cal r d" "occurrence cal r d \<le> now" for d
  proof (cases "?t - k < d")
    case True
    then have "now < occurrence cal r d" using k(5) [rule_format, of "?t - d"] d by simp
    then show ?thesis using d(4) by simp
  next
    case False
    then have "d = ?t - k \<or> occurrence cal r d < occurrence cal r (?t - k)"
      using occurrence_mono [OF z assms(2), of d "?t - k"] by linarith
    then show ?thesis using d(3) by auto
  qed
  then show ?thesis unfolding due using k(1,3,4) by (auto intro!: exI [of _ "?t - k"])
qed

section \<open>A zone with a clock change\<close>

text \<open>Clocks go forward from UTC-5 to UTC-4 at instant 0: local 19:00 to 20:00 on 31 December 1969 is a gap.\<close>

definition dst_zone :: zone where
  "dst_zone =
     \<lparr>offset = \<lambda>t. if t < 0 then - 5 * hour_ns else - 4 * hour_ns,
      wall = \<lambda>d hh mm. (let u = utc_time d hh mm
                         in if u + 5 * hour_ns < 0 then Single (u + 5 * hour_ns)
                            else if 0 \<le> u + 4 * hour_ns then Single (u + 4 * hour_ns) else NoTime)\<rparr>"

definition sample_calendar :: calendar where
  "sample_calendar = \<lparr>zone_of = \<lambda>s. if s = ''z'' then Some dst_zone else None,
     date_ok = \<lambda>d. \<bar>d\<bar> < 1000, instant_ok = \<lambda>_. True\<rparr>"

definition sample_daily :: recurrence where
  "sample_daily = \<lparr>rec_kind = Daily, interval_ms = 0, rec_time = Some ''19:30'', rec_days = [], rec_tz = ''z''\<rparr>"

lemma dst_zone_ok: "zone_ok dst_zone" "zone_steady dst_zone"
  by (auto simp: zone_ok_def zone_steady_def dst_zone_def ns_defs Let_def split: if_splits)

lemma sample_zone: "load_tz sample_calendar (rec_tz sample_daily) = dst_zone"
  by (simp add: load_tz_def sample_calendar_def sample_daily_def)

lemma sample_today: "today sample_calendar sample_daily 0 = - 1"
  by (simp add: today_def sample_zone local_date_def dst_zone_def ns_defs)

lemma sample_searchable: "searchable sample_calendar sample_daily 0"
  unfolding searchable_def sample_zone sample_today using dst_zone_ok
  by (auto simp: sample_daily_def sample_calendar_def recurrence_search_days_def list_all_iff)

lemma sample_time: "parse_hhmm (rec_time sample_daily) = (19, 30)"
  by (simp add: sample_daily_def parse_hhmm_def split_once_def parse_u32_def parse_digits_def is_digit_def
      digits_value_def trim_printable printable_def)

lemma sample_occurrence: "occurrence sample_calendar sample_daily (- 1) = 30 * minute_ns"
  unfolding occurrence_def sample_zone sample_time
  by (simp add: local_at_utc_def dst_zone_def utc_time_def ns_defs Let_def)

theorem next_run_first_witness: "next_run sample_calendar sample_daily 0 = Some (30 * minute_ns)"
proof -
  obtain d where d: "d \<in> {- 1..7}" "next_run sample_calendar sample_daily 0 = Some (occurrence sample_calendar sample_daily d)"
    "\<forall>e. - 1 \<le> e \<and> e < d \<and> day_matches sample_daily e \<longrightarrow> occurrence sample_calendar sample_daily e \<le> 0"
    using next_run_first [OF sample_searchable] unfolding sample_today by auto
  have "day_matches sample_daily (- 1)" by (simp add: day_matches_def sample_daily_def)
  then have "d = - 1" using d(1,3) sample_occurrence by (fastforce simp: minute_ns_def)
  then show ?thesis using d(2) sample_occurrence by simp
qed

theorem due_once_per_occurrence_witness:
  "\<not> is_due (\<lambda>_. Some (- 1)) sample_calendar sample_daily (Some ''t'') 0"
proof -
  have z: "zone_steady (load_tz sample_calendar (rec_tz sample_daily))" using sample_zone dst_zone_ok by simp
  have "occurrence sample_calendar sample_daily d < - 1" if "d \<le> - 2" for d
  proof -
    have s: "occurrence sample_calendar sample_daily (- 2) < - 1"
      unfolding occurrence_def sample_zone sample_time
      by (simp add: local_at_utc_def dst_zone_def utc_time_def ns_defs Let_def)
    show ?thesis
    proof (cases "d = - 2")
      case False
      then have "occurrence sample_calendar sample_daily d < occurrence sample_calendar sample_daily (- 2)"
        using that sample_zone dst_zone_ok by (intro occurrence_mono) auto
      then show ?thesis using s by simp
    qed (use s in simp)
  qed
  moreover have "\<not> occurrence sample_calendar sample_daily (- 1) \<le> 0" using sample_occurrence by (simp add: minute_ns_def)
  ultimately have "\<not> (- 1 < occurrence sample_calendar sample_daily d \<and> occurrence sample_calendar sample_daily d \<le> 0)"
    if "d \<le> - 1" for d
    using that by (cases "d \<le> - 2") (fastforce, cases "d = - 1", auto)
  then show ?thesis
    using due_once_per_occurrence [OF sample_searchable z, of "\<lambda>_. Some (- 1)" "''t''" "- 1"] sample_today by simp
qed

end
