(* ===== verification/ScheduledLane.thy ===== *)
theory ScheduledLane
  imports Recurrence F64 "HOL-Library.List_Lexorder" "HOL-Library.Char_ord" "HOL-Library.Option_ord"
    "HOL-Library.Product_Lexorder"
begin

text \<open>
  The lanes of one local scheduler tick (\<open>src/src/local/scheduler/\<close>): due time-scheduled workflows are
  selected, advanced and dispatched (\<open>scheduled.rs\<close>), scheduled automations are read from their block
  tree (\<open>scheduled_automations.rs\<close>), the retention purge is rate-limited (\<open>tick.rs\<close>) and the device's
  check budget is enforced at save time (\<open>capacity.rs\<close>).

  The \<open>workflows\<close> table is a list of rows and each SQL statement a function on it. Parameters: the
  timestamp format, decoding an integer column, whether a write succeeds, the outcome of a run and the
  database clock.
\<close>

section \<open>The workflow table\<close>

record wf_row =
  wf_id :: int
  schedule_enabled :: bool
  is_active :: bool
  schedule_interval_ms :: "int option"
  schedule_kind :: string
  schedule_time :: "string option"
  schedule_days :: "string option"
  schedule_tz :: "string option"
  last_scheduled_at :: "string option"
  next_scheduled_at :: "string option"
  usage_count :: int
  total_run_count :: int
  total_failure_count :: int
  consecutive_failures :: int
  last_run_at :: "string option"
  last_failure_at :: "string option"
  last_failure_error :: "string option"
  row_updated_at :: string

text \<open>\<open>UPDATE workflows SET \<dots> WHERE id = ?\<close>: an error when the write fails or no row has the id.\<close>

definition update_row :: "bool \<Rightarrow> int \<Rightarrow> (wf_row \<Rightarrow> wf_row) \<Rightarrow> wf_row list \<Rightarrow> wf_row list option" where
  "update_row up i f rows =
     (if up \<and> list_ex (\<lambda>r. wf_id r = i) rows
      then Some (map (\<lambda>r. if wf_id r = i then f r else r) rows) else None)"

definition mark_scheduled :: "bool \<Rightarrow> string \<Rightarrow> int \<Rightarrow> string \<Rightarrow> wf_row list \<Rightarrow> wf_row list option" where
  "mark_scheduled up clock i next_at rows =
     update_row up i
       (\<lambda>r. r\<lparr>last_scheduled_at := Some clock, next_scheduled_at := Some next_at, row_updated_at := clock\<rparr>) rows"

definition record_run_outcome :: "bool \<Rightarrow> string \<Rightarrow> int \<Rightarrow> bool \<Rightarrow> string option \<Rightarrow> wf_row list \<Rightarrow> wf_row list option" where
  "record_run_outcome up clock i success err rows =
     update_row up i
       (\<lambda>r. if success
            then r\<lparr>usage_count := usage_count r + 1, total_run_count := total_run_count r + 1,
                   consecutive_failures := 0, last_run_at := Some clock, row_updated_at := clock\<rparr>
            else r\<lparr>usage_count := usage_count r + 1, total_run_count := total_run_count r + 1,
                   total_failure_count := total_failure_count r + 1,
                   consecutive_failures := consecutive_failures r + 1, last_run_at := Some clock,
                   last_failure_at := Some clock, last_failure_error := err, row_updated_at := clock\<rparr>) rows"

section \<open>Selecting the due workflows\<close>

record due_scheduled =
  due_id :: int
  due_interval_ms :: int
  due_kind :: "string option"
  due_time :: "string option"
  due_days :: "string option"
  due_tz :: "string option"

definition row_due :: "string \<Rightarrow> wf_row \<Rightarrow> bool" where
  "row_due now_str r \<longleftrightarrow>
     schedule_enabled r \<and> is_active r \<and>
     ((schedule_kind r = ''interval'' \<and> (case schedule_interval_ms r of Some n \<Rightarrow> 0 < n | None \<Rightarrow> False)) \<or>
      schedule_kind r = ''daily'' \<or> schedule_kind r = ''weekly'') \<and>
     (case next_scheduled_at r of None \<Rightarrow> True | Some t \<Rightarrow> t \<le> now_str)"

definition due_of :: "int \<Rightarrow> wf_row \<Rightarrow> due_scheduled" where
  "due_of ms r = \<lparr>due_id = wf_id r, due_interval_ms = ms, due_kind = Some (schedule_kind r),
     due_time = schedule_time r, due_days = schedule_days r, due_tz = schedule_tz r\<rparr>"

text \<open>\<open>decode_i64\<close> reads the interval column into a non-optional \<open>i64\<close>; a failure fails the query.\<close>

fun decode_rows :: "(int option \<Rightarrow> int option) \<Rightarrow> wf_row list \<Rightarrow> due_scheduled list option" where
  "decode_rows decode_i64 [] = Some []"
| "decode_rows decode_i64 (r # rs) =
     (case decode_i64 (schedule_interval_ms r) of
        None \<Rightarrow> None
      | Some ms \<Rightarrow> map_option (Cons (due_of ms r)) (decode_rows decode_i64 rs))"

definition due_rows :: "string \<Rightarrow> nat \<Rightarrow> wf_row list \<Rightarrow> wf_row list" where
  "due_rows now_str limit rows =
     take limit (sort_key (\<lambda>r. (next_scheduled_at r, wf_id r)) (filter (row_due now_str) rows))"

definition list_due :: "(int option \<Rightarrow> int option) \<Rightarrow> string \<Rightarrow> nat \<Rightarrow> wf_row list \<Rightarrow> due_scheduled list option" where
  "list_due decode_i64 now_str limit rows = decode_rows decode_i64 (due_rows now_str limit rows)"

section \<open>Advancing and dispatching\<close>

text \<open>\<open>None\<close> is the panic of an overflowing addition.\<close>

definition next_run_for :: "(string \<Rightarrow> int list option) \<Rightarrow> calendar \<Rightarrow> due_scheduled \<Rightarrow> int \<Rightarrow> int option" where
  "next_run_for parse_ints cal row now =
     (let r = from_columns parse_ints (due_kind row) (due_interval_ms row) (due_time row) (due_days row) (due_tz row)
      in case rec_kind r of
           Interval \<Rightarrow> add_dur cal now (clamp_workflow_interval_ms (Some (due_interval_ms row)) * ms_ns)
         | _ \<Rightarrow> next_run cal r now)"

record lane_env =
  decode_column :: "int option \<Rightarrow> int option"
  parse_int_array :: "string \<Rightarrow> int list option"
  lane_calendar :: calendar
  rfc3339 :: "int \<Rightarrow> string"
  write_ok :: "int \<Rightarrow> bool"
  db_clock :: string

text \<open>The first loop: the ids dispatched, the table, and whether the loop panicked.\<close>

fun advance_all :: "lane_env \<Rightarrow> int \<Rightarrow> due_scheduled list \<Rightarrow> wf_row list \<Rightarrow> int list \<times> wf_row list \<times> bool" where
  "advance_all env now [] rows = ([], rows, False)"
| "advance_all env now (d # ds) rows =
     (case next_run_for (parse_int_array env) (lane_calendar env) d now of
        None \<Rightarrow> ([], rows, True)
      | Some t \<Rightarrow>
          (case mark_scheduled (write_ok env (due_id d)) (db_clock env) (due_id d) (rfc3339 env t) rows of
             None \<Rightarrow> advance_all env now ds rows
           | Some rows' \<Rightarrow>
               (let (ids, rows'', p) = advance_all env now ds rows' in (due_id d # ids, rows'', p))))"

text \<open>What the engine makes of a run: a result, an error, or a task that died.\<close>

datatype run_outcome = RunResult bool | RunError string | TaskLost

record lane_report =
  considered :: nat
  dispatched :: nat
  failed :: nat

text \<open>\<open>run_one\<close> and the tally of its task.\<close>

definition run_one :: "lane_env \<Rightarrow> int \<Rightarrow> run_outcome \<Rightarrow> wf_row list \<Rightarrow> wf_row list" where
  "run_one env i out rows =
     (case out of
        RunError e \<Rightarrow> unwrap_or rows (record_run_outcome (write_ok env i) (db_clock env) i False (Some e) rows)
      | _ \<Rightarrow> rows)"

definition tally :: "run_outcome \<Rightarrow> lane_report \<Rightarrow> lane_report" where
  "tally out rep =
     (case out of
        RunResult True \<Rightarrow> rep\<lparr>dispatched := dispatched rep + 1\<rparr>
      | RunResult False \<Rightarrow> rep\<lparr>dispatched := dispatched rep + 1, failed := failed rep + 1\<rparr>
      | RunError _ \<Rightarrow> rep\<lparr>dispatched := dispatched rep + 1, failed := failed rep + 1\<rparr>
      | TaskLost \<Rightarrow> rep\<lparr>failed := failed rep + 1\<rparr>)"

datatype lane_result = LaneErr | LanePanic | LaneDone lane_report

text \<open>
  One pass of the lane. The tasks only touch the run counters of their own row, so running them after
  the advance loop, in its order, gives the same table.
\<close>

definition dispatch_due_scheduled ::
    "lane_env \<Rightarrow> nat \<Rightarrow> (int \<Rightarrow> run_outcome) \<Rightarrow> int \<Rightarrow> wf_row list \<Rightarrow> lane_result \<times> int list \<times> wf_row list" where
  "dispatch_due_scheduled env limit runs now rows =
     (case list_due (decode_column env) (rfc3339 env now) limit rows of
        None \<Rightarrow> (LaneErr, [], rows)
      | Some due \<Rightarrow>
          (let (ids, rows', panicked) = advance_all env now due rows;
               rows'' = fold (\<lambda>i. run_one env i (runs i)) ids rows'
           in (if panicked then LanePanic
               else LaneDone (fold (\<lambda>i. tally (runs i)) ids \<lparr>considered = length due, dispatched = 0, failed = 0\<rparr>),
               ids, rows'')))"

section \<open>Scheduled automations\<close>

text \<open>\<open>parse_json\<close> reads the stored block tree.\<close>

definition is_root_event :: "json \<Rightarrow> bool" where
  "is_root_event b \<longleftrightarrow>
     get_str ''type'' b = Some ''event'' \<and> (case json_get ''parentId'' b of None \<Rightarrow> True | Some v \<Rightarrow> v = JNull)"

definition scheduled_recurrence :: "(string \<Rightarrow> json option) \<Rightarrow> string option \<Rightarrow> recurrence option" where
  "scheduled_recurrence parse_json blocks =
     Option.bind blocks (\<lambda>s. Option.bind (parse_json (trim s)) (\<lambda>v. Option.bind (as_array v) (\<lambda>arr.
       Option.bind (find is_root_event arr) (\<lambda>root.
         if get_str ''blockType'' root \<noteq> Some ''scheduled'' then None
         else (let r = from_block_config (unwrap_or JNull (json_get ''config'' root))
               in Some (if rec_kind r = Interval
                        then r\<lparr>interval_ms := clamp_workflow_interval_ms (Some (interval_ms r))\<rparr> else r))))))"

section \<open>The retention gate\<close>

definition retention_interval_ms :: int where
  "retention_interval_ms = 86400000"

definition retention_due :: "int \<Rightarrow> int \<Rightarrow> bool" where
  "retention_due last_ms now_ms \<longleftrightarrow> last_ms = 0 \<or> retention_interval_ms \<le> now_ms - last_ms"

text \<open>The new marker, and whether the purge runs.\<close>

definition maybe_run_retention :: "nat \<Rightarrow> int \<Rightarrow> int \<Rightarrow> int \<times> bool" where
  "maybe_run_retention retention_days last_ms now_ms =
     (if \<not> retention_due last_ms now_ms then (last_ms, False)
      else (now_ms, retention_days \<noteq> 0))"

section \<open>The device's check budget\<close>

definition unit_cost :: "bool \<Rightarrow> rat" where
  "unit_cost pw = (if pw then 5 else 1)"

definition units_per_min :: "floors \<Rightarrow> int option \<Rightarrow> bool \<Rightarrow> rat" where
  "units_per_min fl period pw =
     f64_mul (unit_cost pw) (f64_div 60000 (i64_to_f64 (clamp_monitor_interval_ms fl period pw)))"

definition auto_budget_units_per_min :: "nat \<Rightarrow> rat \<Rightarrow> rat" where
  "auto_budget_units_per_min cores ram_gib =
     f64_clamp 12 240 (min (f64_mul (f64_round (of_nat cores)) 6) (f64_mul ram_gib 4))"

definition budget_units_per_min :: "nat \<Rightarrow> nat \<Rightarrow> rat \<Rightarrow> rat" where
  "budget_units_per_min override cores ram_gib =
     (if 0 < override then f64_round (of_nat override) else auto_budget_units_per_min cores ram_gib)"

record mon_target =
  t_enabled :: bool
  t_period :: "int option"
  t_playwright :: bool

text \<open>The first \<open>scan_limit\<close> enabled targets are summed.\<close>

definition scan_limit :: nat where
  "scan_limit = 10000"

definition used_units_per_min :: "floors \<Rightarrow> mon_target list \<Rightarrow> rat" where
  "used_units_per_min fl ts =
     foldl (\<lambda>s t. f64_add s (units_per_min fl (t_period t) (t_playwright t))) 0 (take scan_limit (filter t_enabled ts))"

definition ensure_capacity_for_change ::
    "floors \<Rightarrow> rat \<Rightarrow> mon_target list \<Rightarrow> mon_target option \<Rightarrow> int \<Rightarrow> bool \<Rightarrow> bool \<Rightarrow> (rat \<times> rat) + unit" where
  "ensure_capacity_for_change fl budget ts existing new_period new_pw new_enabled =
     (let old_units = (case existing of
                         Some t \<Rightarrow> if t_enabled t then units_per_min fl (t_period t) (t_playwright t) else 0
                       | None \<Rightarrow> 0);
          new_units = (if new_enabled then units_per_min fl (Some new_period) new_pw else 0)
      in if new_units \<le> old_units then Inr ()
         else (let would_use = f64_add (f64_add (used_units_per_min fl ts) (- old_units)) new_units
               in if budget < would_use then Inl (would_use, budget) else Inr ()))"

section \<open>The next fire is in the future\<close>

text \<open>The format orders timestamps of four-digit years by their millisecond.\<close>

definition in_years :: "int \<Rightarrow> bool" where
  "in_years t \<longleftrightarrow> - 62167219200000000000 \<le> t \<and> t < 253402300800000000000"

definition fmt_ok :: "(int \<Rightarrow> string) \<Rightarrow> bool" where
  "fmt_ok fmt \<longleftrightarrow> (\<forall>a b. in_years a \<longrightarrow> in_years b \<longrightarrow> (fmt a \<le> fmt b \<longleftrightarrow> a div ms_ns \<le> b div ms_ns))"

definition zones_ok :: "calendar \<Rightarrow> bool" where
  "zones_ok cal \<longleftrightarrow> (\<forall>tz z. zone_of cal tz = Some z \<longrightarrow> zone_ok z)"

lemma utc_zone_ok: "zone_ok utc_zone"
  by (auto simp: zone_ok_def utc_zone_def day_ns_def)

lemma zones_ok_load: "zones_ok cal \<Longrightarrow> zone_ok (load_tz cal tz)"
  using utc_zone_ok by (cases "zone_of cal tz") (auto simp: zones_ok_def load_tz_def)

lemma occurrence_seconds:
  assumes "zones_ok cal"
  shows "occurrence cal r d mod 1000000000 = 0"
proof -
  obtain hh mm where h: "parse_hhmm (rec_time r) = (hh, mm)" by fastforce
  let ?z = "load_tz cal (rec_tz r)"
  have z: "zone_ok ?z" using assms by (rule zones_ok_load)
  have "local_at_utc ?z d hh mm mod 1000000000 = 0"
  proof (rule local_at_utc_cases [OF z, of hh d mm])
    show "hh < 24" using parse_hhmm_valid [OF h] by simp
    fix k assume "local_at_utc ?z d hh mm + offset ?z (local_at_utc ?z d hh mm) = utc_time d k mm"
    moreover have "offset ?z t mod 1000000000 = 0" for t using z by (simp add: zone_ok_def)
    ultimately show ?thesis using utc_time_seconds [of d k mm] by (metis dvd_add_left_iff dvd_eq_mod_eq_0)
  next
    assume "local_at_utc ?z d hh mm = utc_time d hh mm"
    then show ?thesis using utc_time_seconds by simp
  qed
  then show ?thesis by (simp add: occurrence_def h)
qed

lemma whole_ms_later:
  assumes "now < c" "c mod 1000000000 = 0"
  shows "now div ms_ns < c div ms_ns"
proof -
  obtain q where q: "c = 1000000000 * q" using assms(2) by (metis mult_div_mod_eq add.right_neutral)
  have "now - now mod 1000000 < 1000000 * (1000 * q)" using assms(1) q by (simp add: order_le_less_trans)
  then have "1000000 * (now div 1000000) < 1000000 * (1000 * q)" by (simp only: minus_mod_eq_mult_div)
  moreover have "c div 1000000 = 1000 * q" using q by simp
  ultimately show ?thesis by (simp add: ms_ns_def)
qed

lemma add_dur_later: "add_dur cal now (m * ms_ns) = Some t \<Longrightarrow> 1 \<le> m \<Longrightarrow> now div ms_ns < t div ms_ns \<and> t = now + m * ms_ns"
  by (auto simp: add_dur_def ms_ns_def split: if_splits)

lemma next_run_later:
  assumes "zones_ok cal" "next_run cal r now = Some t" "rec_kind r \<noteq> Interval"
  shows "now div ms_ns < t div ms_ns"
proof (cases "first_hit (candidate cal r (today cal r now)) (\<lambda>c. now < c) [0..recurrence_search_days]")
  case None
  have "day_ns = 86400000 * ms_ns" by (simp add: ns_defs)
  then have "add_dur cal now (86400000 * ms_ns) = Some t \<or> add_dur cal now (max (interval_ms r) 86400000 * ms_ns) = Some t"
    using assms(2,3) None by (cases "rec_kind r") (simp_all add: next_run_def)
  then show ?thesis using add_dur_later by fastforce
next
  case (Some c)
  then have "t = c" using assms(2,3) by (cases "rec_kind r") (simp_all add: next_run_def)
  moreover from Some obtain k where "candidate cal r (today cal r now) k = Some c" "now < c"
    unfolding first_hit_upto by blast
  ultimately show ?thesis using occurrence_seconds [OF assms(1)] whole_ms_later by (auto simp: candidate_Some)
qed

lemma next_run_for_later:
  assumes "zones_ok cal" "next_run_for parse_ints cal d now = Some t"
  shows "now div ms_ns < t div ms_ns"
    and "due_kind d = Some ''interval'' \<Longrightarrow> now + 60000 * ms_ns \<le> t"
proof -
  let ?r = "from_columns parse_ints (due_kind d) (due_interval_ms d) (due_time d) (due_days d) (due_tz d)"
  let ?m = "clamp_workflow_interval_ms (Some (due_interval_ms d))"
  have m: "60000 \<le> ?m" by (rule clamp_workflow_at_least)
  have i: "now div ms_ns < t div ms_ns \<and> t = now + ?m * ms_ns" if "rec_kind ?r = Interval"
    using assms(2) that m by (intro add_dur_later [of cal]) (simp_all add: next_run_for_def Let_def)
  show "now div ms_ns < t div ms_ns"
  proof (cases "rec_kind ?r = Interval")
    case False
    then have "next_run cal ?r now = Some t" using assms(2) by (cases "rec_kind ?r") (simp_all add: next_run_for_def Let_def)
    then show ?thesis using next_run_later [OF assms(1) _ False] by blast
  qed (use i in blast)
  show "now + 60000 * ms_ns \<le> t" if "due_kind d = Some ''interval''"
    using i m that by (simp add: from_columns_def parse_kind_def ms_ns_def)
qed

section \<open>One pass of the lane\<close>

lemma update_row_Some: "update_row up i f rows = Some rows' \<longleftrightarrow>
    up \<and> (\<exists>r \<in> set rows. wf_id r = i) \<and> rows' = map (\<lambda>r. if wf_id r = i then f r else r) rows"
  by (auto simp: update_row_def list_ex_iff)

text \<open>The stored next fire of the rows with one id.\<close>

definition next_is :: "int \<Rightarrow> string \<Rightarrow> wf_row list \<Rightarrow> bool" where
  "next_is i s rows \<longleftrightarrow> (\<forall>r \<in> set rows. wf_id r = i \<longrightarrow> next_scheduled_at r = Some s)"

lemma mark_next_is: "mark_scheduled up clock i s rows = Some rows' \<Longrightarrow> next_is i s rows'"
  by (auto simp: mark_scheduled_def update_row_Some next_is_def)

lemma mark_other_next: "mark_scheduled up clock j s rows = Some rows' \<Longrightarrow> j \<noteq> i \<Longrightarrow> next_is i t rows \<Longrightarrow> next_is i t rows'"
  by (auto simp: mark_scheduled_def update_row_Some next_is_def)

lemma run_one_next: "next_is i s rows \<Longrightarrow> next_is i s (run_one env j out rows)"
  by (auto simp: run_one_def record_run_outcome_def update_row_def next_is_def split: run_outcome.split)

lemma runs_next: "next_is i s rows \<Longrightarrow> next_is i s (fold (\<lambda>j. run_one env j (runs j)) ids rows)"
  by (induction ids arbitrary: rows) (simp_all add: run_one_next)

lemma advance_other:
  assumes "advance_all env now ds rows = (ids, rows', p)" "i \<notin> due_id ` set ds" "next_is i s rows"
  shows "next_is i s rows'"
  using assms
proof (induction ds arbitrary: rows ids rows' p)
  case (Cons d ds)
  show ?case
  proof (cases "next_run_for (parse_int_array env) (lane_calendar env) d now")
    case (Some t)
    then show ?thesis using Cons.prems
      by (auto split: option.splits prod.splits intro: Cons.IH mark_other_next)
  qed (use Cons.prems in simp)
qed simp

lemma advance_launched:
  assumes "advance_all env now ds rows = (ids, rows', p)" "distinct (map due_id ds)" "i \<in> set ids"
  shows "\<exists>d \<in> set ds. due_id d = i \<and>
    (\<exists>t. next_run_for (parse_int_array env) (lane_calendar env) d now = Some t \<and> next_is i (rfc3339 env t) rows')"
  using assms
proof (induction ds arbitrary: rows ids rows' p)
  case (Cons d ds)
  obtain t where t: "next_run_for (parse_int_array env) (lane_calendar env) d now = Some t"
    using Cons.prems(1,3) by (cases "next_run_for (parse_int_array env) (lane_calendar env) d now") auto
  show ?case
  proof (cases "mark_scheduled (write_ok env (due_id d)) (db_clock env) (due_id d) (rfc3339 env t) rows")
    case None
    then show ?thesis using Cons t by fastforce
  next
    case (Some m)
    then obtain ids' where a: "advance_all env now ds m = (ids', rows', p)" "ids = due_id d # ids'"
      using Cons.prems(1) t by (auto split: prod.splits)
    show ?thesis
    proof (cases "i = due_id d")
      case True
      have "next_is i (rfc3339 env t) rows'"
        by (rule advance_other [OF a(1)]) (use Cons.prems(2) True mark_next_is [OF Some] in auto)
      then show ?thesis using True t by auto
    next
      case False
      then show ?thesis using Cons.IH [OF a(1)] Cons.prems(2,3) a(2) by auto
    qed
  qed
qed simp

lemma decode_rows_ids: "decode_rows dec rs = Some ds \<Longrightarrow> map due_id ds = map wf_id rs \<and>
    (\<forall>d \<in> set ds. \<exists>r \<in> set rs. \<exists>ms. dec (schedule_interval_ms r) = Some ms \<and> d = due_of ms r)"
  by (induction rs arbitrary: ds) (fastforce simp: due_of_def split: option.splits)+

lemma due_rows_subset: "set (due_rows s limit rows) \<subseteq> {r \<in> set rows. row_due s r}"
  using set_take_subset [of limit "sort_key (\<lambda>r. (next_scheduled_at r, wf_id r)) (filter (row_due s) rows)"]
  by (auto simp: due_rows_def)

lemma distinct_due_rows: "distinct (map wf_id rows) \<Longrightarrow> distinct (map wf_id (due_rows s limit rows))"
proof -
  assume d: "distinct (map wf_id rows)"
  let ?ys = "sort_key (\<lambda>r. (next_scheduled_at r, wf_id r)) (filter (row_due s) rows)"
  have "distinct (map wf_id (filter (row_due s) rows))" using d by (rule distinct_map_filter)
  then have "distinct (map wf_id ?ys)" by (simp add: distinct_map)
  then show ?thesis by (simp add: due_rows_def take_map [symmetric])
qed

text \<open>C10. A scheduled workflow is launched once per fire: every workflow a pass launches was due, its
  schedule is advanced before it runs to an instant in a later millisecond (for an interval schedule at
  least the 60 s floor later), and no pass before that instant selects it again, whatever became of the
  run.\<close>

theorem launched_once_until_next:
  assumes "fmt_ok (rfc3339 env)" "zones_ok (lane_calendar env)" "distinct (map wf_id rows)"
    and "dispatch_due_scheduled env limit runs now rows = (res, ids, rows')" "i \<in> set ids"
  shows "\<exists>r \<in> set rows. wf_id r = i \<and> row_due (rfc3339 env now) r \<and>
    (\<exists>ms t. decode_column env (schedule_interval_ms r) = Some ms \<and>
      next_run_for (parse_int_array env) (lane_calendar env) (due_of ms r) now = Some t \<and>
      now div ms_ns < t div ms_ns \<and> (schedule_kind r = ''interval'' \<longrightarrow> now + 60000 * ms_ns \<le> t) \<and>
      (\<forall>now' limit'. in_years t \<longrightarrow> in_years now' \<longrightarrow> now' div ms_ns < t div ms_ns \<longrightarrow>
         i \<notin> wf_id ` set (due_rows (rfc3339 env now') limit' rows')))"
proof -
  obtain due where l: "list_due (decode_column env) (rfc3339 env now) limit rows = Some due"
    using assms(4,5) by (auto simp: dispatch_due_scheduled_def split: option.splits)
  then obtain rows1 p where a: "advance_all env now due rows = (ids, rows1, p)"
    and f: "rows' = fold (\<lambda>j. run_one env j (runs j)) ids rows1"
    using assms(4) by (auto simp: dispatch_due_scheduled_def Let_def split: prod.splits)
  note dec = decode_rows_ids [OF l [unfolded list_due_def]]
  have "distinct (map due_id due)" using dec distinct_due_rows [OF assms(3)] by metis
  then obtain d t where d: "d \<in> set due" "due_id d = i"
    "next_run_for (parse_int_array env) (lane_calendar env) d now = Some t" "next_is i (rfc3339 env t) rows1"
    using advance_launched [OF a _ assms(5)] by blast
  obtain r ms where r: "r \<in> set (due_rows (rfc3339 env now) limit rows)" "d = due_of ms r"
    and m: "decode_column env (schedule_interval_ms r) = Some ms"
    using dec d(1) by blast
  have next_at: "next_is i (rfc3339 env t) rows'" unfolding f by (rule runs_next [OF d(4)])
  have "i \<notin> wf_id ` set (due_rows (rfc3339 env now') limit' rows')"
    if n: "in_years t" "in_years now'" "now' div ms_ns < t div ms_ns" for now' limit'
  proof
    assume "i \<in> wf_id ` set (due_rows (rfc3339 env now') limit' rows')"
    then obtain q where q: "q \<in> set rows'" "wf_id q = i" "row_due (rfc3339 env now') q" using due_rows_subset by fastforce
    then have "rfc3339 env t \<le> rfc3339 env now'" using next_at by (auto simp: next_is_def row_due_def)
    then show False using assms(1) n by (auto simp: fmt_ok_def)
  qed
  moreover have "r \<in> set rows" "row_due (rfc3339 env now) r" using r(1) due_rows_subset by blast+
  moreover have "schedule_kind r = ''interval'' \<Longrightarrow> now + 60000 * ms_ns \<le> t"
    using next_run_for_later(2) [OF assms(2) d(3)] r(2) by (simp add: due_of_def)
  moreover have "wf_id r = i" using d(2) r(2) by (simp add: due_of_def)
  ultimately show ?thesis
    using d(3) [unfolded r(2)] m next_run_for_later(1) [OF assms(2) d(3)]
    by (intro bexI [of _ r] conjI exI [of _ ms] exI [of _ t]) auto
qed

text \<open>The format of the witness: one character per millisecond.\<close>

definition unary_fmt :: "int \<Rightarrow> string" where
  "unary_fmt t = replicate (nat (t div ms_ns + 62167219200000)) CHR ''a''"

lemma replicate_le_iff: "replicate m c \<le> replicate n (c :: char) \<longleftrightarrow> m \<le> n"
proof (induction m arbitrary: n)
  case (Suc m)
  then show ?case by (cases n) simp_all
qed simp

lemma unary_fmt_ok: "fmt_ok unary_fmt"
  unfolding fmt_ok_def
proof (intro allI impI)
  fix a b assume "in_years a" "in_years b"
  then have "- 62167219200000 \<le> a div ms_ns" "- 62167219200000 \<le> b div ms_ns"
    using zdiv_mono1 [of "- 62167219200000000000" _ "1000000"] by (fastforce simp: in_years_def ms_ns_def)+
  then show "unary_fmt a \<le> unary_fmt b \<longleftrightarrow> a div ms_ns \<le> b div ms_ns"
    by (simp add: unary_fmt_def replicate_le_iff) linarith
qed

definition sample_env :: lane_env where
  "sample_env = \<lparr>decode_column = \<lambda>c. c, parse_int_array = \<lambda>_. None, lane_calendar = sample_calendar,
     rfc3339 = unary_fmt, write_ok = \<lambda>_. True, db_clock = ''now''\<rparr>"

definition sample_workflow :: wf_row where
  "sample_workflow = \<lparr>wf_id = 7, schedule_enabled = True, is_active = True, schedule_interval_ms = Some 1000,
     schedule_kind = ''interval'', schedule_time = None, schedule_days = None, schedule_tz = None,
     last_scheduled_at = None, next_scheduled_at = None, usage_count = 0, total_run_count = 0,
     total_failure_count = 0, consecutive_failures = 0, last_run_at = None, last_failure_at = None,
     last_failure_error = None, row_updated_at = ''t''\<rparr>"

lemma sample_zones: "zones_ok sample_calendar"
  using dst_zone_ok by (simp add: zones_ok_def sample_calendar_def)

lemma sample_list_due: "list_due (decode_column sample_env) (rfc3339 sample_env 0) 1 [sample_workflow] =
    Some [due_of 1000 sample_workflow]"
  by (simp add: list_due_def due_rows_def row_due_def sample_env_def sample_workflow_def due_of_def)

lemma sample_next: "next_run_for (parse_int_array sample_env) (lane_calendar sample_env) (due_of 1000 sample_workflow) 0 =
    Some (60000 * ms_ns)"
  by (simp add: next_run_for_def from_columns_def due_of_def sample_workflow_def parse_kind_def sample_env_def
      add_dur_def sample_calendar_def clamp_workflow_interval_ms_def workflow_floor_def Let_def)

text \<open>A failed run leaves the advanced schedule in place: the workflow is not selected a second later.\<close>

theorem launched_once_until_next_witness:
  "case dispatch_due_scheduled sample_env 1 (\<lambda>_. RunError ''boom'') 0 [sample_workflow] of
     (res, ids, rows') \<Rightarrow> ids = [7] \<and> 7 \<notin> wf_id ` set (due_rows (unary_fmt (1000 * ms_ns)) 1 rows')"
proof -
  obtain res ids rows' where d: "dispatch_due_scheduled sample_env 1 (\<lambda>_. RunError ''boom'') 0 [sample_workflow] = (res, ids, rows')"
    by (metis prod_cases3)
  have e: "rfc3339 sample_env = unary_fmt" "lane_calendar sample_env = sample_calendar" "decode_column sample_env = (\<lambda>c. c)"
    "write_ok sample_env = (\<lambda>_. True)" by (simp_all add: sample_env_def)
  have w: "wf_id sample_workflow = 7" "schedule_interval_ms sample_workflow = Some 1000" "due_id (due_of 1000 sample_workflow) = 7"
    by (simp_all add: sample_workflow_def due_of_def)
  obtain rows1 where a: "advance_all sample_env 0 [due_of 1000 sample_workflow] [sample_workflow] = ([7], rows1, False)"
    by (simp add: sample_next [unfolded e] mark_scheduled_def update_row_def e w)
  have i: "ids = [7]"
    using d unfolding dispatch_due_scheduled_def sample_list_due by (simp add: a Let_def del: advance_all.simps)
  have y: "in_years (60000 * ms_ns)" "in_years (1000 * ms_ns)" by (simp_all add: in_years_def ms_ns_def)
  have "\<exists>r \<in> set [sample_workflow]. wf_id r = 7 \<and> row_due (rfc3339 sample_env 0) r \<and>
    (\<exists>ms t. decode_column sample_env (schedule_interval_ms r) = Some ms \<and>
      next_run_for (parse_int_array sample_env) (lane_calendar sample_env) (due_of ms r) 0 = Some t \<and>
      0 div ms_ns < t div ms_ns \<and> (schedule_kind r = ''interval'' \<longrightarrow> 0 + 60000 * ms_ns \<le> t) \<and>
      (\<forall>now' limit'. in_years t \<longrightarrow> in_years now' \<longrightarrow> now' div ms_ns < t div ms_ns \<longrightarrow>
         7 \<notin> wf_id ` set (due_rows (rfc3339 sample_env now') limit' rows')))"
    by (rule launched_once_until_next [OF _ _ _ d]) (use unary_fmt_ok sample_zones i e in auto)
  then obtain ms t where "Some 1000 = Some ms"
    "next_run_for (parse_int_array sample_env) (lane_calendar sample_env) (due_of ms sample_workflow) 0 = Some t"
    and t: "\<forall>now' limit'. in_years t \<longrightarrow> in_years now' \<longrightarrow> now' div ms_ns < t div ms_ns \<longrightarrow>
         7 \<notin> wf_id ` set (due_rows (unary_fmt now') limit' rows')"
    by (auto simp: e w)
  then have "t = 60000 * ms_ns" using sample_next by simp
  with t y have "7 \<notin> wf_id ` set (due_rows (unary_fmt (1000 * ms_ns)) 1 rows')" by (simp add: ms_ns_def)
  then show ?thesis using d i by simp
qed

section \<open>Stalls, retention and the budget\<close>

text \<open>A due workflow whose interval overflows the instant panics the whole pass before its schedule is
  advanced, so it is selected and panics again in every later pass; a daily workflow without an interval
  fails the selection for every workflow, should decoding a NULL fail.\<close>

lemma overflowing_interval_panics:
  assumes "list_due (decode_column env) (rfc3339 env now) limit rows = Some (d # ds)"
    and "next_run_for (parse_int_array env) (lane_calendar env) d now = None"
  shows "dispatch_due_scheduled env limit runs now rows = (LanePanic, [], rows)"
  using assms by (simp add: dispatch_due_scheduled_def)

lemma null_interval_fails_lane:
  assumes "r \<in> set (due_rows (rfc3339 env now) limit rows)" "schedule_interval_ms r = None" "decode_column env None = None"
  shows "dispatch_due_scheduled env limit runs now rows = (LaneErr, [], rows)"
proof -
  have "decode_rows (decode_column env) rs = None" if "r \<in> set rs" for rs
    using that assms(2,3) by (induction rs) (auto split: option.split)
  then show ?thesis using assms(1) by (simp add: dispatch_due_scheduled_def list_due_def)
qed

text \<open>The purges of a run of ticks are at least a day apart.\<close>

fun purge_marks :: "int \<Rightarrow> int list \<Rightarrow> int list" where
  "purge_marks last_ms [] = []"
| "purge_marks last_ms (t # ts) =
     (let (m, _) = maybe_run_retention 1 last_ms t
      in if retention_due last_ms t then t # purge_marks m ts else purge_marks m ts)"

lemma purges_spaced:
  "list_all (\<lambda>t. 0 < t) ts \<Longrightarrow> 0 \<le> last_ms \<Longrightarrow>
   (last_ms \<noteq> 0 \<longrightarrow> (\<forall>u \<in> set (purge_marks last_ms ts). last_ms + 86400000 \<le> u)) \<and>
   sorted_wrt (\<lambda>a b. a + 86400000 \<le> b) (purge_marks last_ms ts)"
proof (induction ts arbitrary: last_ms)
  case (Cons t ts)
  then have t: "0 < t" by simp
  show ?case
  proof (cases "retention_due last_ms t")
    case True
    then show ?thesis using Cons.IH [of t] Cons.prems t
      by (auto simp: maybe_run_retention_def retention_due_def retention_interval_ms_def)
  next
    case False
    then show ?thesis using Cons.IH [of last_ms] Cons.prems by (simp add: maybe_run_retention_def)
  qed
qed simp

text \<open>The budget refuses only increases, and only past the budget.\<close>

lemma capacity_refusal:
  "ensure_capacity_for_change fl budget ts existing p pw True = Inl (w, b) \<Longrightarrow>
     b = budget \<and> budget < w \<and>
     (\<forall>t. existing = Some t \<and> t_enabled t \<longrightarrow> units_per_min fl (t_period t) (t_playwright t) < units_per_min fl (Some p) pw)"
  by (auto simp: ensure_capacity_for_change_def Let_def not_le split: if_splits option.splits)

end
