(* ===== verification/FlowExpr.thy ===== *)
theory FlowExpr
  imports F64
begin

text \<open>
  The expressions of an automation's block tree (\<open>src/src/local/flow.rs\<close>): the condition test, the
  dot-path lookup, and the \<open>{{ path | filter }}\<close> templates with their filters.

  A scope is an insertion-ordered JSON object, an association list. Regular expressions, the text of a
  JSON value, number parsing and formatting, and Unicode case mapping are parameters, collected in
  \<open>text_env\<close>.
\<close>

type_synonym scope = "(string \<times> json) list"

record text_env =
  json_text :: "json \<Rightarrow> string"
  parse_f64 :: "string \<Rightarrow> f64 option"
  fixed_digits :: "nat \<Rightarrow> f64 \<Rightarrow> string"
  uppercase :: "string \<Rightarrow> string"
  lowercase :: "string \<Rightarrow> string"
  regex_test :: "string \<Rightarrow> string \<Rightarrow> bool option"
  regex_group :: "string \<Rightarrow> string \<Rightarrow> string option option"

section \<open>Replacement\<close>

function replace_nonempty :: "string \<Rightarrow> string \<Rightarrow> string \<Rightarrow> string" where
  "replace_nonempty p q s =
     (if p = [] then s
      else (case find_str p s of
              None \<Rightarrow> s
            | Some i \<Rightarrow> take i s @ q @ replace_nonempty p q (drop (i + length p) s)))"
  by pat_completeness auto
termination replace_nonempty
proof (relation "measure (\<lambda>(p, q, s). length s)")
  fix p q s :: string and i
  assume "p \<noteq> []" "find_str p s = Some i"
  then have "0 < length p" "i + length p \<le> length s" using find_str_Some by auto
  then have "length s - (i + length p) < length s" by linarith
  then show "((p, q, drop (i + length p) s), (p, q, s)) \<in> measure (\<lambda>(p, q, s). length s)" by simp
qed simp

declare replace_nonempty.simps [simp del]

text \<open>An empty pattern matches at every character boundary.\<close>

definition str_replace :: "string \<Rightarrow> string \<Rightarrow> string \<Rightarrow> string" where
  "str_replace p q s =
     (if p = [] then q @ concat (map (\<lambda>c. c @ q) (utf8_chars s)) else replace_nonempty p q s)"

section \<open>Numbers\<close>

fun f64_sign :: "f64 \<Rightarrow> int" where
  "f64_sign (Fin r) = (if r < 0 then - 1 else if 0 < r then 1 else 0)"
| "f64_sign PosInf = 1"
| "f64_sign NegInf = - 1"
| "f64_sign NaN = 0"

fun ieee_add :: "f64 \<Rightarrow> f64 \<Rightarrow> f64" where
  "ieee_add (Fin a) (Fin b) = Fin (f64_add a b)"
| "ieee_add NaN _ = NaN"
| "ieee_add _ NaN = NaN"
| "ieee_add PosInf NegInf = NaN"
| "ieee_add NegInf PosInf = NaN"
| "ieee_add PosInf _ = PosInf"
| "ieee_add _ PosInf = PosInf"
| "ieee_add NegInf _ = NegInf"
| "ieee_add _ NegInf = NegInf"

fun ieee_neg :: "f64 \<Rightarrow> f64" where
  "ieee_neg (Fin r) = Fin (- r)"
| "ieee_neg PosInf = NegInf"
| "ieee_neg NegInf = PosInf"
| "ieee_neg NaN = NaN"

definition signed_inf :: "int \<Rightarrow> f64" where
  "signed_inf s = (if s = 0 then NaN else if 0 < s then PosInf else NegInf)"

fun ieee_mul :: "f64 \<Rightarrow> f64 \<Rightarrow> f64" where
  "ieee_mul (Fin a) (Fin b) = Fin (f64_mul a b)"
| "ieee_mul a b = signed_inf (f64_sign a * f64_sign b)"

text \<open>Division by a divisor other than zero.\<close>

fun ieee_div :: "f64 \<Rightarrow> f64 \<Rightarrow> f64" where
  "ieee_div (Fin a) (Fin b) = Fin (f64_div a b)"
| "ieee_div NaN _ = NaN"
| "ieee_div _ NaN = NaN"
| "ieee_div (Fin a) _ = Fin 0"
| "ieee_div a (Fin b) = signed_inf (f64_sign a * f64_sign (Fin b))"
| "ieee_div _ _ = NaN"

text \<open>Comparisons are false on NaN.\<close>

fun ieee_lt :: "f64 \<Rightarrow> f64 \<Rightarrow> bool" where
  "ieee_lt (Fin a) (Fin b) = (a < b)"
| "ieee_lt NaN _ = False"
| "ieee_lt _ NaN = False"
| "ieee_lt NegInf NegInf = False"
| "ieee_lt PosInf PosInf = False"
| "ieee_lt NegInf _ = True"
| "ieee_lt _ PosInf = True"
| "ieee_lt _ _ = False"

definition ieee_eq :: "f64 \<Rightarrow> f64 \<Rightarrow> bool" where
  "ieee_eq a b \<longleftrightarrow> a = b \<and> a \<noteq> NaN"

definition ieee_le :: "f64 \<Rightarrow> f64 \<Rightarrow> bool" where
  "ieee_le a b \<longleftrightarrow> ieee_lt a b \<or> ieee_eq a b"

text \<open>\<open>round\<close>: half away from zero.\<close>

definition rat_round :: "rat \<Rightarrow> rat" where
  "rat_round r = (if 0 \<le> r then of_int \<lfloor>r + 1 / 2\<rfloor> else - of_int \<lfloor>- r + 1 / 2\<rfloor>)"

fun ieee_round :: "f64 \<Rightarrow> f64" where
  "ieee_round (Fin r) = Fin (rat_round r)"
| "ieee_round x = x"

text \<open>\<open>n.fract() == 0.0 && n.abs() < 1e15\<close>\<close>

fun small_integral :: "f64 \<Rightarrow> bool" where
  "small_integral (Fin r) = (of_int \<lfloor>r\<rfloor> = r \<and> \<bar>r\<bar> < 10 ^ 15)"
| "small_integral _ = False"

definition fmt_num :: "text_env \<Rightarrow> f64 \<Rightarrow> string" where
  "fmt_num env n =
     (if small_integral n then show_int (f64_to_i64 n)
      else trim_end_matches (\<lambda>c. c = CHR ''.'') (trim_end_matches (\<lambda>c. c = CHR ''0'') (fixed_digits env 6 n)))"

section \<open>Values and conditions\<close>

fun lookup_segs :: "json \<Rightarrow> string list \<Rightarrow> json option" where
  "lookup_segs v [] = Some v"
| "lookup_segs v (k # ks) =
     (case as_object v of
        None \<Rightarrow> None
      | Some o' \<Rightarrow> (case map_of o' k of None \<Rightarrow> None | Some w \<Rightarrow> lookup_segs w ks))"

definition lookup_path :: "scope \<Rightarrow> string \<Rightarrow> json option" where
  "lookup_path sc path =
     (case split_byte CHR ''.'' path of
        [] \<Rightarrow> None
      | k # ks \<Rightarrow> (case map_of sc k of None \<Rightarrow> None | Some v \<Rightarrow> lookup_segs v ks))"

definition value_to_string :: "text_env \<Rightarrow> json option \<Rightarrow> string" where
  "value_to_string env v =
     (case v of
        None \<Rightarrow> [] | Some JNull \<Rightarrow> []
      | Some (JStr s) \<Rightarrow> s
      | Some (JBool b) \<Rightarrow> (if b then ''true'' else ''false'')
      | Some w \<Rightarrow> json_text env w)"

fun is_empty_value :: "json \<Rightarrow> bool" where
  "is_empty_value JNull = True"
| "is_empty_value (JStr s) = (s = [])"
| "is_empty_value (JArr a) = (a = [])"
| "is_empty_value (JObj ms) = (ms = [])"
| "is_empty_value _ = False"

definition values_equal :: "text_env \<Rightarrow> string \<Rightarrow> string \<Rightarrow> bool" where
  "values_equal env a b \<longleftrightarrow>
     (case (parse_f64 env (trim a), parse_f64 env (trim b)) of
        (Some x, Some y) \<Rightarrow> ieee_eq x y
      | _ \<Rightarrow> a = b)"

definition compare_numeric :: "text_env \<Rightarrow> string \<Rightarrow> string \<Rightarrow> string \<Rightarrow> bool" where
  "compare_numeric env op a b \<longleftrightarrow>
     (case (parse_f64 env (trim a), parse_f64 env (trim b)) of
        (Some x, Some y) \<Rightarrow>
          (if op = ''gt'' then ieee_lt y x else if op = ''gte'' then ieee_le y x
           else if op = ''lt'' then ieee_lt x y else if op = ''lte'' then ieee_le x y else False)
      | _ \<Rightarrow> False)"

definition max_regex_pattern_len :: nat where
  "max_regex_pattern_len = 512"

definition regex_matches :: "text_env \<Rightarrow> string \<Rightarrow> string \<Rightarrow> bool" where
  "regex_matches env pattern hay \<longleftrightarrow>
     (if max_regex_pattern_len < length pattern then False else unwrap_or False (regex_test env pattern hay))"

definition eval_condition :: "text_env \<Rightarrow> json \<Rightarrow> scope \<Rightarrow> bool" where
  "eval_condition env config sc =
     (let field = unwrap_or [] (get_str ''field'' config);
          operator = unwrap_or ''contains'' (get_str ''operator'' config);
          target = unwrap_or [] (get_str ''value'' config);
          actual = lookup_path sc field;
          actual_str = value_to_string env actual
      in if field = [] then True
         else if operator = ''exists'' \<or> operator = ''changed''
              then (case actual of Some v \<Rightarrow> \<not> is_empty_value v | None \<Rightarrow> False)
         else if operator = ''contains'' then contains_str actual_str target
         else if operator = ''not_contains'' then \<not> contains_str actual_str target
         else if operator = ''equals'' then values_equal env actual_str target
         else if operator = ''not_equals'' then \<not> values_equal env actual_str target
         else if operator = ''matches'' then regex_matches env target actual_str
         else if operator \<in> {''gt'', ''gte'', ''lt'', ''lte''} then compare_numeric env operator actual_str target
         else False)"

section \<open>Templates\<close>

definition regex_capture :: "text_env \<Rightarrow> string \<Rightarrow> string \<Rightarrow> string" where
  "regex_capture env pattern txt =
     (if max_regex_pattern_len < length pattern then []
      else case regex_group env pattern txt of Some g \<Rightarrow> unwrap_or [] g | None \<Rightarrow> [])"

definition parse_usize :: "string \<Rightarrow> nat option" where
  "parse_usize s =
     (case (case s of CHR ''+'' # r \<Rightarrow> parse_digits r | _ \<Rightarrow> parse_digits s) of
        Some n \<Rightarrow> if n \<le> int u64_max then Some (nat n) else None
      | None \<Rightarrow> None)"

definition parse_i32 :: "string \<Rightarrow> int option" where
  "parse_i32 s = (case parse_i64 s of Some n \<Rightarrow> if - (2 ^ 31) \<le> n \<and> n < 2 ^ 31 then Some n else None | None \<Rightarrow> None)"

definition arith_filter :: "string \<Rightarrow> f64 \<Rightarrow> f64 \<Rightarrow> f64" where
  "arith_filter name a b =
     (if name = ''add'' then ieee_add a b else if name = ''sub'' then ieee_add a (ieee_neg b)
      else if name = ''mul'' then ieee_mul a b
      else if \<not> ieee_eq b (Fin 0) then ieee_div a b else a)"

definition apply_filter :: "text_env \<Rightarrow> string \<Rightarrow> string \<Rightarrow> string" where
  "apply_filter env v spec =
     (let (name, arg) = (case split_once CHR '':'' spec of
                           Some (n, a) \<Rightarrow> (ascii_lower (trim n), a)
                         | None \<Rightarrow> (ascii_lower (trim spec), []))
      in if name = ''default'' \<or> name = ''or'' then (if trim v = [] then arg else v)
         else if name = ''upper'' then uppercase env v
         else if name = ''lower'' then lowercase env v
         else if name = ''trim'' then trim v
         else if name = ''truncate''
              then (case parse_usize (trim arg) of Some n \<Rightarrow> concat (take n (utf8_chars v)) | None \<Rightarrow> v)
         else if name = ''replace''
              then (case split_once CHR '':'' arg of Some (a, b) \<Rightarrow> str_replace a b v | None \<Rightarrow> v)
         else if name = ''round''
              then (case parse_f64 env (trim v) of
                      None \<Rightarrow> v
                    | Some n \<Rightarrow>
                        (let digits = unwrap_or 0 (parse_i32 (trim arg))
                         in if digits \<le> 0 then show_int (f64_to_i64 (ieee_round n))
                            else fixed_digits env (nat digits) n))
         else if name \<in> {''add'', ''sub'', ''mul'', ''div''}
              then (case (parse_f64 env (trim v), parse_f64 env (trim arg)) of
                      (Some a, Some b) \<Rightarrow> fmt_num env (arith_filter name a b)
                    | _ \<Rightarrow> v)
         else if name = ''match'' then regex_capture env arg v
         else v)"

definition render_expr :: "text_env \<Rightarrow> string \<Rightarrow> scope \<Rightarrow> string" where
  "render_expr env expr sc =
     (case split_byte CHR ''|'' expr of
        [] \<Rightarrow> value_to_string env (lookup_path sc [])
      | path # filters \<Rightarrow>
          foldl (\<lambda>cur f. apply_filter env cur (trim f)) (value_to_string env (lookup_path sc (trim path))) filters)"

function render_template :: "text_env \<Rightarrow> string \<Rightarrow> scope \<Rightarrow> string" where
  "render_template env rest sc =
     (case find_str ''{{'' rest of
        None \<Rightarrow> rest
      | Some start \<Rightarrow>
          (let after = drop (start + 2) rest
           in take start rest @
              (case find_str ''}}'' after of
                 Some e \<Rightarrow> render_expr env (trim (take e after)) sc @ render_template env (drop (e + 2) after) sc
               | None \<Rightarrow> drop start rest)))"
  by pat_completeness auto
termination render_template
  by (relation "measure (\<lambda>(env, rest, sc). length rest)") (auto dest: find_str_Some)

declare render_template.simps [simp del]

section \<open>What a template renders\<close>

lemma find_str_skip: "c \<notin> set s \<Longrightarrow> find_str (c # p) (s @ c # p @ r) = Some (length s)"
proof (induction s)
  case Nil
  then show ?case by (subst find_str.simps) (simp add: starts_with_iff)
next
  case (Cons a s)
  then have "\<not> starts_with ((a # s) @ c # p @ r) (c # p)" by (auto simp: starts_with_iff)
  then show ?case using Cons by (subst find_str.simps) simp
qed

lemma render_plain: "\<not> contains_str t ''{{'' \<Longrightarrow> render_template env t sc = t"
  by (subst render_template.simps) (simp add: contains_str_def)

text \<open>Text is kept, a closed placeholder is replaced by its value, and an unclosed one stays.\<close>

lemma render_placeholder:
  assumes "CHR ''{'' \<notin> set lit" "CHR ''}'' \<notin> set e"
  shows "render_template env (lit @ ''{{'' @ e @ ''}}'' @ rest) sc =
    lit @ render_expr env (trim e) sc @ render_template env rest sc"
proof -
  have "find_str ''{{'' (lit @ ''{{'' @ e @ ''}}'' @ rest) = Some (length lit)"
    using find_str_skip [OF assms(1), of "''{''" "e @ ''}}'' @ rest"] by simp
  moreover have "find_str ''}}'' (e @ ''}}'' @ rest) = Some (length e)"
    using find_str_skip [OF assms(2), of "''}''" rest] by simp
  ultimately show ?thesis by (subst render_template.simps) simp
qed

lemma render_unclosed:
  assumes "CHR ''{'' \<notin> set lit" "\<not> contains_str e ''}}''"
  shows "render_template env (lit @ ''{{'' @ e) sc = lit @ ''{{'' @ e"
  using find_str_skip [OF assms(1), of "''{''" e] assms(2)
  by (subst render_template.simps) (simp add: contains_str_def)

text \<open>A missing field renders empty, and a condition on one only passes the negative operators.\<close>

lemma missing_renders_empty:
  assumes "lookup_path sc path = None" "CHR ''|'' \<notin> set path" "trim path = path"
  shows "render_expr env path sc = []"
proof -
  have "split_byte c s = [s]" if "c \<notin> set s" for c and s :: string using that by (induction s) auto
  then show ?thesis using assms by (simp add: render_expr_def value_to_string_def)
qed

lemma eval_condition_unset: "get_str ''field'' config = None \<Longrightarrow> eval_condition env config sc"
  by (simp add: eval_condition_def Let_def)

lemma compare_numeric_non_number:
  "parse_f64 env (trim a) = None \<Longrightarrow> \<not> compare_numeric env op a b"
  by (simp add: compare_numeric_def)

end
