(* ===== verification/Flow.thy ===== *)
theory Flow
  imports FlowExpr Governor RunRegistry Recurrence
begin

text \<open>
  The automation flow interpreter (\<open>src/src/local/flow.rs\<close>): the block tree and its parser, the walk
  with its conditions, loops, retries and error handling, the firing guardrails and the execution row
  an automation leaves (\<open>store/automations.rs\<close>, \<open>store/automation_executions.rs\<close>).

  The workflow engine and the delivery actions (notification, export, file, streaming, AI session) are
  functions on a world of type \<open>'w\<close>, collected in \<open>services\<close>. The walk recurses through block ids,
  which nothing keeps acyclic, so it takes fuel; \<open>None\<close> is a walk still running.
\<close>

section \<open>Blocks\<close>

datatype run_source = Manual | Api | Mcp | Scheduled | Webhook | Workflow | Monitor | CloudAgent

record flow_block =
  fb_id :: string
  fb_kind :: string
  block_type :: string
  fb_config :: json
  parent_id :: "string option"

text \<open>A field that may be absent: a string, or a string or null.\<close>

definition field_string :: "string \<Rightarrow> json \<Rightarrow> string option" where
  "field_string k v = (case json_get k v of None \<Rightarrow> Some [] | Some w \<Rightarrow> as_str w)"

definition field_opt_string :: "string \<Rightarrow> json \<Rightarrow> string option option" where
  "field_opt_string k v =
     (case json_get k v of None \<Rightarrow> Some None | Some JNull \<Rightarrow> Some None | Some w \<Rightarrow> map_option Some (as_str w))"

definition decode_object :: "json \<Rightarrow> flow_block option" where
  "decode_object v =
     (case (field_string ''id'' v, field_string ''type'' v, field_string ''blockType'' v, field_opt_string ''parentId'' v) of
        (Some i, Some k, Some t, Some p) \<Rightarrow>
          Some \<lparr>fb_id = i, fb_kind = k, block_type = t, fb_config = unwrap_or JNull (json_get ''config'' v), parent_id = p\<rparr>
      | _ \<Rightarrow> None)"

text \<open>A derived reader also takes an array, its elements in the order of the fields and the last ones optional.\<close>

definition item_string :: "nat \<Rightarrow> json list \<Rightarrow> string option" where
  "item_string n vs = (if n < length vs then as_str (vs ! n) else Some [])"

definition item_opt_string :: "nat \<Rightarrow> json list \<Rightarrow> string option option" where
  "item_opt_string n vs =
     (if n < length vs then (case vs ! n of JNull \<Rightarrow> Some None | w \<Rightarrow> map_option Some (as_str w)) else Some None)"

definition decode_array :: "json list \<Rightarrow> flow_block option" where
  "decode_array vs =
     (case (item_string 0 vs, item_string 1 vs, item_string 2 vs, item_opt_string 4 vs) of
        (Some i, Some k, Some t, Some p) \<Rightarrow>
          if 5 < length vs then None
          else Some \<lparr>fb_id = i, fb_kind = k, block_type = t, fb_config = (if 3 < length vs then vs ! 3 else JNull), parent_id = p\<rparr>
      | _ \<Rightarrow> None)"

definition decode_block :: "json \<Rightarrow> flow_block option" where
  "decode_block v = (case v of JObj _ \<Rightarrow> decode_object v | JArr vs \<Rightarrow> decode_array vs | _ \<Rightarrow> None)"

definition parse_blocks :: "(string \<Rightarrow> json option) \<Rightarrow> string option \<Rightarrow> flow_block list" where
  "parse_blocks parse_json blocks =
     (case blocks of
        None \<Rightarrow> []
      | Some s \<Rightarrow>
          if trim s = [] then []
          else unwrap_or [] (Option.bind (Option.bind (parse_json s) as_array) (\<lambda>vs. those (map decode_block vs))))"

definition has_executable_tree :: "(string \<Rightarrow> json option) \<Rightarrow> string option \<Rightarrow> bool" where
  "has_executable_tree parse_json blocks \<longleftrightarrow>
     list_ex (\<lambda>b. fb_kind b = ''action'' \<or> fb_kind b = ''condition'') (parse_blocks parse_json blocks)"

section \<open>Services\<close>

record run_request =
  req_workflow_id :: int
  req_inputs :: json
  req_source :: run_source
  req_lane :: lane
  req_dry_run :: bool
  req_persona_id :: "int option"
  allow_local_secret_refs :: bool

record run_result =
  res_run_id :: int
  res_status :: run_status
  res_success :: bool
  res_error :: "string option"
  extracted_data :: json
  duration_ms :: nat

record 'w services =
  engine_run :: "run_request \<Rightarrow> 'w \<Rightarrow> (string + run_result) \<times> 'w"
  notification_action :: "flow_block \<Rightarrow> scope \<Rightarrow> 'w \<Rightarrow> json \<times> 'w"
  export_action :: "flow_block \<Rightarrow> scope \<Rightarrow> 'w \<Rightarrow> (json \<times> scope) \<times> 'w"
  send_file_action :: "flow_block \<Rightarrow> scope \<Rightarrow> 'w \<Rightarrow> json \<times> 'w"
  streaming_action :: "flow_block \<Rightarrow> scope \<Rightarrow> 'w \<Rightarrow> (json \<times> scope) \<times> 'w"
  ai_action :: "flow_block \<Rightarrow> scope \<Rightarrow> 'w \<Rightarrow> (json \<times> scope) \<times> 'w"

record 'w flow_ctx =
  fc_text :: text_env
  fc_services :: "'w services"
  by_parent :: "string \<Rightarrow> flow_block list"
  auto_workflow_id :: "int option"
  base_inputs :: json
  fc_source :: run_source
  fc_lane :: lane

definition flow_status_str :: "run_status \<Rightarrow> string" where
  "flow_status_str s =
     (case s of Running \<Rightarrow> ''running'' | Success \<Rightarrow> ''success'' | Failed \<Rightarrow> ''failed''
      | Cancelled \<Rightarrow> ''cancelled'' | Timeout \<Rightarrow> ''timeout''
      | CaptchaRequired \<Rightarrow> ''captcha_required'' | TwofaRequired \<Rightarrow> ''twofa_required'')"

definition json_opt_str :: "string option \<Rightarrow> json" where
  "json_opt_str s = (case s of None \<Rightarrow> JNull | Some t \<Rightarrow> JStr t)"

abbreviation scope_insert :: "string \<Rightarrow> json \<Rightarrow> scope \<Rightarrow> scope" where
  "scope_insert \<equiv> AList.update"

section \<open>The workflow action\<close>

text \<open>One attempt: the record, the child scope and whether it succeeded.\<close>

definition workflow_attempt ::
    "'w services \<Rightarrow> run_request \<Rightarrow> int \<Rightarrow> scope \<Rightarrow> 'w \<Rightarrow> (json \<times> scope \<times> bool) \<times> 'w" where
  "workflow_attempt sv req attempt sc w =
     (case engine_run sv req w of
        (Inr r, w') \<Rightarrow>
          ((JObj [(''action'', JStr ''workflow''), (''workflow_id'', JInt (req_workflow_id req)),
                  (''run_id'', JInt (res_run_id r)), (''ok'', JBool (res_success r)),
                  (''status'', JStr (flow_status_str (res_status r))), (''error'', json_opt_str (res_error r)),
                  (''attempt'', JInt (attempt + 1))],
            scope_insert ''workflow_duration_seconds''
                (JFloat (f64_div (f64_round (of_nat (duration_ms r))) 1000))
              (scope_insert ''error'' (json_opt_str (res_error r))
                (scope_insert ''status'' (JStr (flow_status_str (res_status r)))
                  (scope_insert ''success'' (JBool (res_success r))
                    (scope_insert ''result'' (extracted_data r) sc)))),
            res_success r), w')
      | (Inl msg, w') \<Rightarrow>
          ((JObj [(''action'', JStr ''workflow''), (''workflow_id'', JInt (req_workflow_id req)),
                  (''ok'', JBool False), (''status'', JStr ''failed''), (''error'', JStr msg),
                  (''attempt'', JInt (attempt + 1))],
            scope_insert ''error'' (JStr msg)
              (scope_insert ''status'' (JStr ''failed'') (scope_insert ''success'' (JBool False) sc)),
            False), w'))"

text \<open>The retry loop; \<open>n\<close> attempts remain after this one.\<close>

fun attempt_loop :: "'w services \<Rightarrow> run_request \<Rightarrow> nat \<Rightarrow> int \<Rightarrow> scope \<Rightarrow> 'w \<Rightarrow> (json \<times> scope) \<times> 'w" where
  "attempt_loop sv req 0 attempt sc w =
     (case workflow_attempt sv req attempt sc w of ((rec, sc', ok), w') \<Rightarrow> ((rec, sc'), w'))"
| "attempt_loop sv req (Suc n) attempt sc w =
     (case workflow_attempt sv req attempt sc w of
        ((rec, sc', ok), w') \<Rightarrow> if ok then ((rec, sc'), w') else attempt_loop sv req n (attempt + 1) sc w')"

definition action_inputs :: "json \<Rightarrow> json \<Rightarrow> (string \<times> json) list" where
  "action_inputs base config =
     (let m = (case base of JObj ms \<Rightarrow> ms | _ \<Rightarrow> [])
      in case json_get ''inputs'' config of
           Some (JObj cfg) \<Rightarrow> fold (\<lambda>(k, v). AList.update k v) cfg m
         | _ \<Rightarrow> m)"

definition run_workflow_action :: "'w flow_ctx \<Rightarrow> flow_block \<Rightarrow> scope \<Rightarrow> 'w \<Rightarrow> (json \<times> scope) \<times> 'w" where
  "run_workflow_action ctx b sc w =
     (case (case get_i64 ''workflow_id'' (fb_config b) of Some i \<Rightarrow> Some i | None \<Rightarrow> auto_workflow_id ctx) of
        None \<Rightarrow>
          ((JObj [(''action'', JStr ''workflow''), (''skipped'', JBool True),
                  (''reason'', JStr ''no workflow_id configured'')], sc), w)
      | Some i \<Rightarrow>
          attempt_loop (fc_services ctx)
            \<lparr>req_workflow_id = i, req_inputs = JObj (action_inputs (base_inputs ctx) (fb_config b)),
             req_source = fc_source ctx, req_lane = fc_lane ctx, req_dry_run = False,
             req_persona_id = get_i64 ''persona_id'' (fb_config b), allow_local_secret_refs = True\<rparr>
            (nat (unwrap_or 0 (get_i64 ''retry'' (fb_config b)))) 0 sc w)"

section \<open>The walk\<close>

definition skip_record :: "string \<Rightarrow> string \<Rightarrow> json" where
  "skip_record action reason =
     JObj [(''action'', JStr action), (''skipped'', JBool True), (''reason'', JStr reason)]"

definition condition_record :: "json \<Rightarrow> bool \<Rightarrow> json" where
  "condition_record config passed =
     JObj [(''action'', JStr ''condition''), (''field'', JStr (unwrap_or [] (get_str ''field'' config))),
           (''operator'', JStr (unwrap_or ''contains'' (get_str ''operator'' config))), (''passed'', JBool passed)]"

type_synonym 'w walk = "(json list \<times> 'w) option"

definition walk_cons :: "json \<Rightarrow> 'w walk \<Rightarrow> 'w walk" where
  "walk_cons r x = map_option (\<lambda>(rs, w). (r # rs, w)) x"

text \<open>The items of a \<open>for_each\<close> block.\<close>

definition loop_items :: "scope \<Rightarrow> json \<Rightarrow> json list" where
  "loop_items sc config =
     (let items = (case lookup_path sc (unwrap_or [] (get_str ''source'' config)) of
                     Some (JArr xs) \<Rightarrow> xs
                   | None \<Rightarrow> []
                   | Some JNull \<Rightarrow> []
                   | Some (JStr s) \<Rightarrow> if s = [] then [] else [JStr s]
                   | Some v \<Rightarrow> [v]);
          max_items = nat (max (unwrap_or 1000 (get_i64 ''max_items'' config)) 0)
      in take (min (length items) max_items) items)"

fun run_items ::
    "(scope \<Rightarrow> 'w \<Rightarrow> 'w walk) \<Rightarrow> scope \<Rightarrow> nat \<Rightarrow> json list \<Rightarrow> 'w \<Rightarrow> 'w walk" where
  "run_items rec sc i [] w = Some ([], w)"
| "run_items rec sc i (v # vs) w =
     Option.bind (rec (scope_insert ''item_index'' (JInt (int i)) (scope_insert ''item'' v sc)) w)
       (\<lambda>(r, w'). map_option (\<lambda>(rs, w''). (r @ rs, w'')) (run_items rec sc (Suc i) vs w'))"

text \<open>One child; \<open>rec\<close> walks the children of a node.\<close>

definition run_action :: "'w flow_ctx \<Rightarrow> (string \<Rightarrow> scope \<Rightarrow> 'w \<Rightarrow> 'w walk) \<Rightarrow> flow_block \<Rightarrow> scope \<Rightarrow> 'w \<Rightarrow> 'w walk" where
  "run_action ctx rec b sc w =
     (let t = block_type b; sv = fc_services ctx in
      if t = ''workflow'' then
        (case run_workflow_action ctx b sc w of
           ((r, sc'), w') \<Rightarrow>
             if json_get ''ok'' r = Some (JBool False) \<and> get_str ''on_error'' (fb_config b) = Some ''stop''
             then Some ([r, JObj [(''action'', JStr ''branch_stopped''),
                                  (''reason'', JStr ''workflow failed with on_error=stop'')]], w')
             else walk_cons r (rec (fb_id b) sc' w'))
      else if t = ''for_each'' then
        (let items = loop_items sc (fb_config b)
         in map_option (\<lambda>(rs, w'). (rs @ [JObj [(''action'', JStr ''for_each''),
                                                (''iterations'', JInt (int (length items)))]], w'))
              (run_items (rec (fb_id b)) sc 0 items w))
      else if t = ''return_data'' then
        walk_cons (JObj [(''action'', JStr ''return_data''), (''data'', unwrap_or (JObj sc) (map_of sc ''result''))])
          (rec (fb_id b) sc w)
      else if t = ''notification'' then
        (case notification_action sv b sc w of (r, w') \<Rightarrow> walk_cons r (rec (fb_id b) sc w'))
      else if t = ''save_data_to_file'' \<or> t = ''query_and_export'' then
        (case export_action sv b sc w of ((r, sc'), w') \<Rightarrow> walk_cons r (rec (fb_id b) sc' w'))
      else if t = ''append_to_data'' then
        walk_cons (skip_record t
            ''append_to_data is not supported on the desktop app (extracted data is derived from runs, not a writable store)'')
          (rec (fb_id b) sc w)
      else if t = ''send_file'' then
        (case send_file_action sv b sc w of (r, w') \<Rightarrow> walk_cons r (rec (fb_id b) sc w'))
      else if t = ''start_streaming_session'' \<or> t = ''stop_streaming_session'' then
        (case streaming_action sv b sc w of ((r, sc'), w') \<Rightarrow> walk_cons r (rec (fb_id b) sc' w'))
      else if t = ''ai_session'' then
        (case ai_action sv b sc w of ((r, sc'), w') \<Rightarrow> walk_cons r (rec (fb_id b) sc' w'))
      else if t = ''crawl'' then
        walk_cons (skip_record t
            ''crawls run via Dragnet in the cloud; this automation crawls when run on the cloud'')
          (rec (fb_id b) sc w)
      else if t = ''create_persona'' then
        walk_cons (skip_record t ''action not supported on the desktop app (cloud-only)'') (rec (fb_id b) sc w)
      else walk_cons (skip_record t ''unknown action type'') (rec (fb_id b) sc w))"

definition run_child :: "'w flow_ctx \<Rightarrow> (string \<Rightarrow> scope \<Rightarrow> 'w \<Rightarrow> 'w walk) \<Rightarrow> flow_block \<Rightarrow> scope \<Rightarrow> 'w \<Rightarrow> 'w walk" where
  "run_child ctx rec b sc w =
     (if fb_kind b = ''condition'' then
        (let passed = eval_condition (fc_text ctx) (fb_config b) sc
         in walk_cons (condition_record (fb_config b) passed)
              (if passed then rec (fb_id b) sc w else Some ([], w)))
      else if fb_kind b = ''action'' then run_action ctx rec b sc w
      else if fb_kind b = ''event'' then rec (fb_id b) sc w
      else Some ([], w))"

fun run_children ::
    "'w flow_ctx \<Rightarrow> (string \<Rightarrow> scope \<Rightarrow> 'w \<Rightarrow> 'w walk) \<Rightarrow> flow_block list \<Rightarrow> scope \<Rightarrow> 'w \<Rightarrow> 'w walk" where
  "run_children ctx rec [] sc w = Some ([], w)"
| "run_children ctx rec (b # bs) sc w =
     Option.bind (run_child ctx rec b sc w)
       (\<lambda>(r, w'). map_option (\<lambda>(rs, w''). (r @ rs, w'')) (run_children ctx rec bs sc w'))"

fun run_subtree :: "nat \<Rightarrow> 'w flow_ctx \<Rightarrow> string \<Rightarrow> scope \<Rightarrow> 'w \<Rightarrow> 'w walk" where
  "run_subtree 0 ctx node sc w = None"
| "run_subtree (Suc n) ctx node sc w = run_children ctx (run_subtree n ctx) (by_parent ctx node) sc w"

section \<open>Firing an automation\<close>

record automation =
  au_id :: int
  au_workflow_id :: "int option"
  au_conditions :: string
  au_blocks :: "string option"
  last_triggered_at :: "string option"
  trigger_count :: "int option"

record flow_trigger =
  tr_event :: string
  change_id :: "int option"
  tr_base_inputs :: json
  tr_context :: json
  tr_source :: run_source
  tr_lane :: lane

record execution =
  ex_id :: int
  ex_automation :: int
  ex_change :: "int option"
  ex_status :: string
  ex_results :: "json list"
  ex_error :: "string option"

record flow_db =
  automations :: "automation list"
  executions :: "execution list"

text \<open>Which writes succeed, and the clock of the database.\<close>

record db_env =
  insert_ok :: bool
  mark_ok :: bool
  complete_ok :: bool
  flow_clock :: string

definition status_gate_matches :: "json \<Rightarrow> json \<Rightarrow> bool" where
  "status_gate_matches event_config context \<longleftrightarrow>
     (let gate = unwrap_or ''any'' (get_str ''status_condition'' event_config)
      in if gate = ''success'' then get_bool ''success'' context = Some True
         else if gate = ''error'' then get_bool ''success'' context = Some False
         else True)"

text \<open>\<open>None\<close> is the panic of \<open>Duration::minutes\<close> on a value out of range.\<close>

definition guardrail_block_reason ::
    "(string \<Rightarrow> json option) \<Rightarrow> (string \<Rightarrow> int option) \<Rightarrow> int \<Rightarrow> automation \<Rightarrow> run_source \<Rightarrow> string option option" where
  "guardrail_block_reason parse_json parse_time now a src =
     (if src = Manual then Some None
      else (let cond = unwrap_or JNull (parse_json (au_conditions a));
                max_reached = (case get_i64 ''max_fires'' cond of
                                 Some m \<Rightarrow> 0 < m \<and> m \<le> unwrap_or 0 (trigger_count a)
                               | None \<Rightarrow> False)
            in if max_reached then Some (Some ''max_fires reached'')
               else (case Option.bind (json_get ''schedule'' cond) (get_i64 ''cooldown_minutes'') of
                       None \<Rightarrow> Some None
                     | Some cool \<Rightarrow>
                         if 0 < cool then
                           (case Option.bind (last_triggered_at a) parse_time of
                              None \<Rightarrow> Some None
                            | Some last_t \<Rightarrow>
                                if i64_max < cool * 60000 then None
                                else if now - last_t < cool * minute_ns then Some (Some ''cooldown active'')
                                else Some None)
                         else Some None)))"

definition next_execution_id :: "flow_db \<Rightarrow> int" where
  "next_execution_id db = fold max (map ex_id (executions db)) 0 + 1"

definition insert_execution :: "bool \<Rightarrow> int \<Rightarrow> int option \<Rightarrow> flow_db \<Rightarrow> (int \<times> flow_db) option" where
  "insert_execution up a change db =
     (if up then Some (next_execution_id db,
        db\<lparr>executions := executions db @ [\<lparr>ex_id = next_execution_id db, ex_automation = a, ex_change = change,
             ex_status = ''running'', ex_results = [], ex_error = None\<rparr>]\<rparr>)
      else None)"

definition mark_triggered :: "bool \<Rightarrow> string \<Rightarrow> int \<Rightarrow> flow_db \<Rightarrow> flow_db" where
  "mark_triggered up clock i db =
     (if up then db\<lparr>automations := map (\<lambda>a. if au_id a = i
          then a\<lparr>last_triggered_at := Some clock, trigger_count := Some (unwrap_or 0 (trigger_count a) + 1)\<rparr> else a)
        (automations db)\<rparr>
      else db)"

definition complete_execution ::
    "bool \<Rightarrow> int \<Rightarrow> string \<Rightarrow> json list \<Rightarrow> string option \<Rightarrow> flow_db \<Rightarrow> (execution option \<times> flow_db) option" where
  "complete_execution up i status results err db =
     (if up then
        (let db' = db\<lparr>executions := map (\<lambda>e. if ex_id e = i
               then e\<lparr>ex_status := status, ex_results := results, ex_error := err\<rparr> else e) (executions db)\<rparr>
         in Some (find (\<lambda>e. ex_id e = i) (executions db'), db'))
      else None)"

definition run_legacy :: "'w services \<Rightarrow> automation \<Rightarrow> flow_trigger \<Rightarrow> 'w \<Rightarrow> json list \<times> 'w" where
  "run_legacy sv a tr w =
     (case au_workflow_id a of
        None \<Rightarrow> ([JObj [(''action'', JStr ''noop''), (''detail'', JStr ''no workflow_id to run'')]], w)
      | Some i \<Rightarrow>
          (case engine_run sv \<lparr>req_workflow_id = i, req_inputs = tr_base_inputs tr, req_source = tr_source tr,
                  req_lane = tr_lane tr, req_dry_run = False, req_persona_id = None,
                  allow_local_secret_refs = True\<rparr> w of
             (Inr r, w') \<Rightarrow>
               ([JObj [(''action'', JStr ''workflow''), (''workflow_id'', JInt i), (''run_id'', JInt (res_run_id r)),
                       (''ok'', JBool (res_success r)), (''status'', JStr (flow_status_str (res_status r))),
                       (''error'', json_opt_str (res_error r))]], w')
           | (Inl e, w') \<Rightarrow>
               ([JObj [(''action'', JStr ''workflow''), (''workflow_id'', JInt i), (''ok'', JBool False),
                       (''status'', JStr ''failed''), (''error'', JStr e)]], w')))"

fun run_roots :: "nat \<Rightarrow> 'w flow_ctx \<Rightarrow> flow_block list \<Rightarrow> scope \<Rightarrow> 'w \<Rightarrow> 'w walk" where
  "run_roots n ctx [] sc w = Some ([], w)"
| "run_roots n ctx (b # bs) sc w =
     Option.bind (run_subtree n ctx (fb_id b) sc w)
       (\<lambda>(r, w'). map_option (\<lambda>(rs, w''). (r @ rs, w'')) (run_roots n ctx bs sc w'))"

definition children_of :: "flow_block list \<Rightarrow> string \<Rightarrow> flow_block list" where
  "children_of blocks i = filter (\<lambda>b. parent_id b = Some i) blocks"

definition not_ok :: "json \<Rightarrow> bool" where
  "not_ok r \<longleftrightarrow> json_get ''ok'' r = Some (JBool False)"

fun first_error :: "json list \<Rightarrow> string option" where
  "first_error [] = None"
| "first_error (r # rs) =
     (case (if not_ok r then get_str ''error'' r else None) of Some e \<Rightarrow> Some e | None \<Rightarrow> first_error rs)"

datatype flow_outcome = FlowErr | FlowPanic | FlowSkipped | FlowDone "execution option"

text \<open>The walk of an automation with its roots, or the legacy dispatch.\<close>

definition walk_automation ::
    "nat \<Rightarrow> text_env \<Rightarrow> 'w services \<Rightarrow> flow_block list \<Rightarrow> automation \<Rightarrow> flow_trigger \<Rightarrow> 'w \<Rightarrow> 'w walk" where
  "walk_automation n env sv blocks a tr w =
     (if list_ex (\<lambda>b. fb_kind b = ''action'' \<or> fb_kind b = ''condition'') blocks
      then run_roots n \<lparr>fc_text = env, fc_services = sv, by_parent = children_of blocks,
             auto_workflow_id = au_workflow_id a, base_inputs = tr_base_inputs tr, fc_source = tr_source tr,
             fc_lane = tr_lane tr\<rparr> (filter (\<lambda>b. parent_id b = None) blocks)
             (case tr_context tr of JObj m \<Rightarrow> m | _ \<Rightarrow> []) w
      else Some (run_legacy sv a tr w))"

definition event_gate :: "flow_block list \<Rightarrow> flow_trigger \<Rightarrow> bool" where
  "event_gate blocks tr \<longleftrightarrow>
     (case find (\<lambda>b. fb_kind b = ''event'' \<and> parent_id b = None) blocks of
        Some ev \<Rightarrow> status_gate_matches (fb_config ev) (tr_context tr)
      | None \<Rightarrow> True)"

definition finish_automation :: "bool \<Rightarrow> int \<Rightarrow> flow_db \<Rightarrow> json list \<Rightarrow> flow_outcome \<times> flow_db" where
  "finish_automation up i db results =
     (case complete_execution up i (if list_ex not_ok results then ''failed'' else ''success'') results
             (first_error results) db of
        None \<Rightarrow> (FlowErr, db)
      | Some (row, db') \<Rightarrow> (FlowDone row, db'))"

text \<open>Up to the execution row: the gates, tested on the row the caller loaded earlier, and the insertion.\<close>

definition open_execution ::
    "(string \<Rightarrow> json option) \<Rightarrow> (string \<Rightarrow> int option) \<Rightarrow> int \<Rightarrow> bool \<Rightarrow> automation \<Rightarrow> flow_trigger \<Rightarrow> flow_db
      \<Rightarrow> flow_outcome + (int \<times> flow_db)" where
  "open_execution parse_json parse_time now ok a tr db =
     (if \<not> event_gate (parse_blocks parse_json (au_blocks a)) tr then Inl FlowSkipped
      else (case guardrail_block_reason parse_json parse_time now a (tr_source tr) of
              None \<Rightarrow> Inl FlowPanic
            | Some (Some _) \<Rightarrow> Inl FlowSkipped
            | Some None \<Rightarrow>
                (case insert_execution ok (au_id a) (change_id tr) db of None \<Rightarrow> Inl FlowErr | Some r \<Rightarrow> Inr r)))"

text \<open>The result of \<open>mark_triggered\<close> is dropped: a count that could not be written stays as it was.\<close>

definition run_automation ::
    "nat \<Rightarrow> text_env \<Rightarrow> 'w services \<Rightarrow> (string \<Rightarrow> json option) \<Rightarrow> (string \<Rightarrow> int option) \<Rightarrow> int \<Rightarrow> db_env
     \<Rightarrow> automation \<Rightarrow> flow_trigger \<Rightarrow> flow_db \<times> 'w \<Rightarrow> (flow_outcome \<times> flow_db \<times> 'w) option" where
  "run_automation n env sv parse_json parse_time now dbe a tr s =
     (case open_execution parse_json parse_time now (insert_ok dbe) a tr (fst s) of
        Inl out \<Rightarrow> Some (out, s)
      | Inr (i, db1) \<Rightarrow>
          (let db2 = mark_triggered (mark_ok dbe) (flow_clock dbe) (au_id a) db1
           in map_option (\<lambda>(results, w').
                (case finish_automation (complete_ok dbe) i db2 results of
                   (out, db3) \<Rightarrow> (out, db3, w')))
                (walk_automation n env sv (parse_blocks parse_json (au_blocks a)) a tr (snd s))))"

section \<open>The walk ends on well-formed trees\<close>

text \<open>The ids from a block up to its root, the block first.\<close>

inductive rpath :: "flow_block list \<Rightarrow> string list \<Rightarrow> bool" for blocks where
  rpath_root: "b \<in> set blocks \<Longrightarrow> parent_id b = None \<Longrightarrow> rpath blocks [fb_id b]"
| rpath_child: "rpath blocks (p # ps) \<Longrightarrow> b \<in> set blocks \<Longrightarrow> parent_id b = Some p
    \<Longrightarrow> rpath blocks (fb_id b # p # ps)"

inductive_cases rpath_NilE: "rpath blocks []"
inductive_cases rpath_ConsE: "rpath blocks (q # ps)"

lemma rpath_suffix: "rpath blocks (us @ q # qs) \<Longrightarrow> rpath blocks (q # qs)"
proof (induction us)
  case (Cons u us)
  from Cons.prems have "rpath blocks (us @ q # qs)"
    by (cases us) (auto elim: rpath_ConsE)
  then show ?case by (rule Cons.IH)
qed simp

lemma same_block:
  "distinct (map fb_id blocks) \<Longrightarrow> a \<in> set blocks \<Longrightarrow> b \<in> set blocks \<Longrightarrow> fb_id a = fb_id b \<Longrightarrow> a = b"
  by (simp add: distinct_map inj_on_def)

lemma rpath_unique:
  assumes "distinct (map fb_id blocks)"
  shows "rpath blocks (q # xs) \<Longrightarrow> rpath blocks (q # ys) \<Longrightarrow> xs = ys"
proof (induction xs arbitrary: q ys)
  case Nil
  from Nil.prems(1) obtain b where b: "b \<in> set blocks" "parent_id b = None" "fb_id b = q"
    by (auto elim: rpath_ConsE)
  from Nil.prems(2) show ?case
    by (rule rpath_ConsE) (use same_block[OF assms b(1)] b in auto)
next
  case (Cons p ps)
  from Cons.prems(1) obtain b where b: "b \<in> set blocks" "parent_id b = Some p" "fb_id b = q"
    and up: "rpath blocks (p # ps)"
    by (auto elim: rpath_ConsE)
  from Cons.prems(2) show ?case
  proof (rule rpath_ConsE)
    fix c assume "ys = []" "q = fb_id c" "c \<in> set blocks" "parent_id c = None"
    then show ?thesis using same_block[OF assms b(1)] b by auto
  next
    fix p' ps' c assume c: "ys = p' # ps'" "q = fb_id c" "rpath blocks (p' # ps')" "c \<in> set blocks"
      "parent_id c = Some p'"
    then have "p' = p" using same_block[OF assms b(1) c(4)] b by auto
    then show ?thesis using Cons.IH[OF up] c by simp
  qed
qed

lemma rpath_distinct:
  assumes "distinct (map fb_id blocks)" "rpath blocks ps"
  shows "distinct ps \<and> set ps \<subseteq> set (map fb_id blocks)"
  using assms(2)
proof induction
  case (rpath_child p ps b)
  have "fb_id b \<notin> set (p # ps)"
  proof
    assume "fb_id b \<in> set (p # ps)"
    then obtain us qs where split: "p # ps = us @ fb_id b # qs" by (meson split_list)
    have "rpath blocks (fb_id b # qs)"
      using rpath_child.hyps(1) rpath_suffix unfolding split by blast
    then have "qs = p # ps"
      using rpath_unique[OF assms(1)] rpath.rpath_child[OF rpath_child.hyps] by blast
    then show False using split by (metis append.assoc append_Cons length_append length_Cons not_add_less2 lessI)
  qed
  then show ?case using rpath_child by auto
qed auto

lemma rpath_length:
  assumes "distinct (map fb_id blocks)" "rpath blocks ps"
  shows "length ps \<le> length blocks"
proof -
  have "length ps = card (set ps)" using rpath_distinct[OF assms] by (simp add: distinct_card)
  also have "\<dots> \<le> card (set (map fb_id blocks))" using rpath_distinct[OF assms] by (intro card_mono) auto
  also have "\<dots> \<le> length blocks" by (metis card_length length_map)
  finally show ?thesis .
qed

text \<open>A child ends when the walks of its own children do, whatever their scope and world.\<close>

lemma run_items_ends: "(\<And>sc w. rec sc w \<noteq> None) \<Longrightarrow> run_items rec sc i vs w \<noteq> None"
proof (induction vs arbitrary: i w)
  case (Cons v vs)
  obtain r w' where
    "rec (scope_insert ''item_index'' (JInt (int i)) (scope_insert ''item'' v sc)) w = Some (r, w')"
    using Cons.prems by fastforce
  then show ?case using Cons by simp
qed simp

lemma walk_cons_ends [simp]: "walk_cons r x = None \<longleftrightarrow> x = None"
  by (simp add: walk_cons_def)

lemma run_child_ends:
  assumes "\<And>sc w. rec (fb_id b) sc w \<noteq> None"
  shows "run_child ctx rec b sc w \<noteq> None"
proof -
  have rec: "(rec (fb_id b) sc w = None) = False" for sc w using assms by blast
  have items: "(run_items (rec (fb_id b)) sc i vs w = None) = False" for sc i vs w
    using run_items_ends[of "rec (fb_id b)", OF assms] by blast
  have "run_action ctx rec b sc w \<noteq> None"
    by (simp add: run_action_def Let_def rec items split_def del: not_None_eq)
  then show ?thesis by (simp add: run_child_def Let_def rec del: not_None_eq)
qed

lemma run_children_ends:
  "(\<And>b sc w. b \<in> set bs \<Longrightarrow> rec (fb_id b) sc w \<noteq> None) \<Longrightarrow> run_children ctx rec bs sc w \<noteq> None"
proof (induction bs arbitrary: w)
  case (Cons b bs)
  obtain r w' where "run_child ctx rec b sc w = Some (r, w')"
    using run_child_ends[of rec b ctx sc w] Cons.prems by fastforce
  then show ?case using Cons by simp
qed simp

lemma run_subtree_ends:
  assumes "distinct (map fb_id blocks)" "by_parent ctx = children_of blocks"
  shows "rpath blocks (p # ps) \<Longrightarrow> length blocks \<le> n + length ps \<Longrightarrow> run_subtree n ctx p sc w \<noteq> None"
proof (induction n arbitrary: p ps sc w)
  case 0
  then show ?case using rpath_length[OF assms(1)] by fastforce
next
  case (Suc n)
  have "run_subtree n ctx (fb_id b) sc w \<noteq> None" if "b \<in> set (children_of blocks p)" for b sc w
  proof (rule Suc.IH)
    show "rpath blocks (fb_id b # p # ps)"
      using that rpath_child[OF Suc.prems(1)] by (simp add: children_of_def)
    show "length blocks \<le> n + length (p # ps)" using Suc.prems(2) by simp
  qed
  then show ?case using run_children_ends[of "children_of blocks p" "run_subtree n ctx"] assms(2) by simp
qed

lemma run_roots_ends:
  "(\<And>b sc w. b \<in> set bs \<Longrightarrow> run_subtree n ctx (fb_id b) sc w \<noteq> None) \<Longrightarrow> run_roots n ctx bs sc w \<noteq> None"
proof (induction bs arbitrary: w)
  case (Cons b bs)
  obtain r w' where "run_subtree n ctx (fb_id b) sc w = Some (r, w')"
    using Cons.prems by fastforce
  then show ?case using Cons by simp
qed simp

lemma walk_automation_ends:
  assumes "distinct (map fb_id blocks)" "length blocks \<le> n"
  shows "walk_automation n env sv blocks a tr w \<noteq> None"
proof -
  have "run_roots n ctx (filter (\<lambda>b. parent_id b = None) blocks) sc w \<noteq> None"
    if "by_parent ctx = children_of blocks" for ctx sc
    using run_subtree_ends[OF assms(1) that rpath_root, of _ n] assms(2)
    by (intro run_roots_ends) simp
  then show ?thesis by (simp add: walk_automation_def del: not_None_eq)
qed


text \<open>More fuel never changes an answer.\<close>

abbreviation refines :: "(string \<Rightarrow> scope \<Rightarrow> 'w \<Rightarrow> 'w walk) \<Rightarrow> (string \<Rightarrow> scope \<Rightarrow> 'w \<Rightarrow> 'w walk) \<Rightarrow> bool" where
  "refines rec rec' \<equiv> (\<forall>k sc w r. rec k sc w = Some r \<longrightarrow> rec' k sc w = Some r)"

lemma run_items_refines:
  "(\<And>sc w r. rec sc w = Some r \<Longrightarrow> rec' sc w = Some r)
    \<Longrightarrow> run_items rec sc i vs w = Some r \<Longrightarrow> run_items rec' sc i vs w = Some r"
proof (induction vs arbitrary: i w r)
  case (Cons v vs)
  then show ?case by (fastforce simp: bind_eq_Some_conv)
qed simp

lemma walk_cons_Some: "walk_cons r x = Some y \<longleftrightarrow> (\<exists>rs w. x = Some (rs, w) \<and> y = (r # rs, w))"
  by (auto simp: walk_cons_def)

lemma run_child_refines:
  assumes "refines rec rec'" "run_child ctx rec b sc w = Some r"
  shows "run_child ctx rec' b sc w = Some r"
proof -
  have rec: "rec' (fb_id b) sc w = Some r" if "rec (fb_id b) sc w = Some r" for sc w r
    using that assms(1) by blast
  have cons: "walk_cons x (rec' (fb_id b) sc w) = Some r" if "walk_cons x (rec (fb_id b) sc w) = Some r" for x sc w r
    using that rec by (auto simp: walk_cons_Some)
  have items: "run_items (rec' (fb_id b)) sc i vs w = Some r"
    if "run_items (rec (fb_id b)) sc i vs w = Some r" for sc i vs w r
    using run_items_refines[OF _ that] rec by blast
  have "run_action ctx rec' b sc w = Some r" if "run_action ctx rec b sc w = Some r"
    using that
    by (simp add: run_action_def Let_def split_def split: if_split_asm;
        use items in \<open>force dest: cons\<close>)
  then show ?thesis using assms(2) rec cons
    by (simp add: run_child_def Let_def split: if_split_asm)
qed

lemma run_children_refines:
  assumes "refines rec rec'"
  shows "run_children ctx rec bs sc w = Some r \<Longrightarrow> run_children ctx rec' bs sc w = Some r"
proof (induction bs arbitrary: w r)
  case (Cons b bs)
  then show ?case using run_child_refines[OF assms] by (fastforce simp: bind_eq_Some_conv)
qed simp

lemma run_subtree_more_fuel: "refines (run_subtree n ctx) (run_subtree (Suc n) ctx)"
proof (induction n)
  case (Suc n)
  show ?case
  proof (intro allI impI)
    fix k sc w r assume "run_subtree (Suc n) ctx k sc w = Some r"
    then have "run_children ctx (run_subtree n ctx) (by_parent ctx k) sc w = Some r" by simp
    then have "run_children ctx (run_subtree (Suc n) ctx) (by_parent ctx k) sc w = Some r"
      by (rule run_children_refines[OF Suc])
    then show "run_subtree (Suc (Suc n)) ctx k sc w = Some r" by (simp only: run_subtree.simps(2))
  qed
qed simp

lemma run_subtree_mono: "n \<le> m \<Longrightarrow> refines (run_subtree n ctx) (run_subtree m ctx)"
proof (induction m rule: dec_induct)
  case (step m)
  show ?case using step.IH run_subtree_more_fuel[of m ctx] by blast
qed blast

lemma run_roots_mono:
  assumes "n \<le> m"
  shows "run_roots n ctx bs sc w = Some r \<Longrightarrow> run_roots m ctx bs sc w = Some r"
proof (induction bs arbitrary: w r)
  case (Cons b bs)
  then show ?case using run_subtree_mono[OF assms, of ctx] by (fastforce simp: bind_eq_Some_conv)
qed simp

lemma walk_automation_mono:
  "n \<le> m \<Longrightarrow> walk_automation n env sv blocks a tr w = Some r \<Longrightarrow> walk_automation m env sv blocks a tr w = Some r"
  by (simp add: walk_automation_def split: if_split_asm) (erule (1) run_roots_mono)

text \<open>A firing is decided before the walk, or it is the walk followed by the completion of its row.\<close>

lemma run_automation_walk:
  "(\<exists>c. \<forall>n. run_automation n env sv pj pt now dbe a tr s = Some c) \<or>
   (\<exists>f w. \<forall>n. run_automation n env sv pj pt now dbe a tr s
      = map_option f (walk_automation n env sv (parse_blocks pj (au_blocks a)) a tr w))"
proof (cases "open_execution pj pt now (insert_ok dbe) a tr (fst s)")
  case (Inl out)
  then have "\<forall>n. run_automation n env sv pj pt now dbe a tr s = Some (out, s)" by (simp add: run_automation_def)
  then show ?thesis by blast
next
  case (Inr r)
  then show ?thesis by (cases r) (intro disjI2, simp add: run_automation_def Let_def; blast)
qed

lemma run_automation_mono:
  assumes "n \<le> m" "run_automation n env sv pj pt now dbe a tr s = Some r"
  shows "run_automation m env sv pj pt now dbe a tr s = Some r"
  using run_automation_walk[of env sv pj pt now dbe a tr s] assms(2) walk_automation_mono[OF assms(1)]
  by (elim disjE exE) fastforce+

lemma run_automation_ends:
  assumes "distinct (map fb_id (parse_blocks pj (au_blocks a)))" "length (parse_blocks pj (au_blocks a)) \<le> n"
  shows "run_automation n env sv pj pt now dbe a tr s \<noteq> None"
  using run_automation_walk[of env sv pj pt now dbe a tr s] walk_automation_ends[OF assms]
  by (elim disjE exE) (simp_all del: not_None_eq)

text \<open>C4. An automation whose blocks have distinct ids always finishes, whatever its conditions, loops,
  retries and services do: the walk from the roots visits no chain of parents longer than the number of
  blocks, so fuel equal to that number gives the answer and more fuel gives the same one.\<close>

theorem automation_terminates:
  assumes "distinct (map fb_id (parse_blocks parse_json (au_blocks a)))"
  shows "\<exists>r. \<forall>n \<ge> length (parse_blocks parse_json (au_blocks a)).
    run_automation n env sv parse_json parse_time now dbe a tr s = Some r"
proof -
  obtain r where "run_automation (length (parse_blocks parse_json (au_blocks a)))
      env sv parse_json parse_time now dbe a tr s = Some r"
    using run_automation_ends[OF assms order_refl] by fastforce
  then show ?thesis using run_automation_mono by blast
qed


text \<open>Without distinct ids the walk need not end: a child that carries its parent's id is its own child.\<close>

lemma self_parent_never_ends:
  assumes "by_parent ctx node = [b]" "fb_kind b = ''event''" "fb_id b = node"
  shows "run_subtree n ctx node sc w = None"
  by (induction n) (use assms in \<open>simp_all add: run_child_def\<close>)

section \<open>The firing bound\<close>

definition firings :: "int \<Rightarrow> flow_db \<Rightarrow> nat" where
  "firings i db = length (filter (\<lambda>e. ex_automation e = i) (executions db))"

abbreviation fire_count :: "automation \<Rightarrow> int" where
  "fire_count a \<equiv> unwrap_or 0 (trigger_count a)"

abbreviation max_fires :: "(string \<Rightarrow> json option) \<Rightarrow> automation \<Rightarrow> int option" where
  "max_fires parse_json a \<equiv> get_i64 ''max_fires'' (unwrap_or JNull (parse_json (au_conditions a)))"


lemma firings_mark [simp]: "firings j (mark_triggered up clock i db) = firings j db"
  by (simp add: mark_triggered_def firings_def)



lemma mark_rows: "automations (mark_triggered ok clock i db) =
    map (\<lambda>b. if ok \<and> au_id b = i then b\<lparr>last_triggered_at := Some clock, trigger_count := Some (fire_count b + 1)\<rparr> else b) (automations db)"
  by (cases ok) (simp_all add: mark_triggered_def)

lemma mark_ids: "map (au_id \<circ> (\<lambda>b. if P b then b\<lparr>last_triggered_at := c, trigger_count := f b\<rparr> else b)) as = map au_id as"
  by (induction as) simp_all

lemma mark_kept: "(\<exists>b \<in> set (automations (mark_triggered ok clock i db)). au_id b = j \<and> au_conditions b = c) \<longleftrightarrow>
    (\<exists>b \<in> set (automations db). au_id b = j \<and> au_conditions b = c)"
  unfolding mark_rows set_map bex_simps by (rule bex_cong) simp_all



text \<open>
  Triggers at work at the same time. A trigger loads the automation's row, later tests its gates on what it loaded and
  opens an execution, then writes the count, walks and closes the execution; any step of any trigger may come between
  two of another, and any write may fail. \<open>fg_opened\<close> holds the automations whose execution is open and count not yet
  written, \<open>fg_lost\<close> those whose count could not be written. At most \<open>k\<close> triggers of one automation are between their
  load and their count.
\<close>

record firing_state =
  fg_db :: flow_db
  fg_loaded :: "(automation \<times> flow_trigger) list"
  fg_opened :: "int list"
  fg_lost :: "int list"

definition loaded_of :: "int \<Rightarrow> firing_state \<Rightarrow> automation list" where
  "loaded_of i t = filter (\<lambda>a. au_id a = i) (map fst (fg_loaded t))"

definition overlap :: "int \<Rightarrow> firing_state \<Rightarrow> nat" where
  "overlap i t = length (loaded_of i t) + count_list (fg_opened t) i"

definition idle :: "flow_db \<Rightarrow> firing_state" where
  "idle db = \<lparr>fg_db = db, fg_loaded = [], fg_opened = [], fg_lost = []\<rparr>"

inductive firing :: "(string \<Rightarrow> json option) \<Rightarrow> nat \<Rightarrow> firing_state \<Rightarrow> firing_state \<Rightarrow> bool" for parse_json k s where
  firing_none: "firing parse_json k s s"
| firing_load: "firing parse_json k s t \<Longrightarrow> a \<in> set (automations (fg_db t)) \<Longrightarrow> tr_source tr \<noteq> Manual \<Longrightarrow> overlap (au_id a) t < k
    \<Longrightarrow> firing parse_json k s (t\<lparr>fg_loaded := (a, tr) # fg_loaded t\<rparr>)"
| firing_drop: "firing parse_json k s t \<Longrightarrow> (a, tr) \<in> set (fg_loaded t)
    \<Longrightarrow> open_execution parse_json parse_time now ok a tr (fg_db t) = Inl out
    \<Longrightarrow> firing parse_json k s (t\<lparr>fg_loaded := remove1 (a, tr) (fg_loaded t)\<rparr>)"
| firing_open: "firing parse_json k s t \<Longrightarrow> (a, tr) \<in> set (fg_loaded t)
    \<Longrightarrow> open_execution parse_json parse_time now ok a tr (fg_db t) = Inr (e, db)
    \<Longrightarrow> firing parse_json k s (t\<lparr>fg_db := db, fg_loaded := remove1 (a, tr) (fg_loaded t), fg_opened := au_id a # fg_opened t\<rparr>)"
| firing_mark: "firing parse_json k s t \<Longrightarrow> i \<in> set (fg_opened t)
    \<Longrightarrow> firing parse_json k s (t\<lparr>fg_db := mark_triggered ok clock i (fg_db t), fg_opened := remove1 i (fg_opened t),
          fg_lost := (if ok then fg_lost t else i # fg_lost t)\<rparr>)"
| firing_finish: "firing parse_json k s t \<Longrightarrow> finish_automation ok e (fg_db t) results = (out, db)
    \<Longrightarrow> firing parse_json k s (t\<lparr>fg_db := db\<rparr>)"

text \<open>The loaded rows that would still pass the limit.\<close>

definition armed :: "int \<Rightarrow> int \<Rightarrow> firing_state \<Rightarrow> nat" where
  "armed m i t = length (filter (\<lambda>a. fire_count a < m) (loaded_of i t))"

definition row_bounded :: "(string \<Rightarrow> json option) \<Rightarrow> nat \<Rightarrow> firing_state \<Rightarrow> automation \<Rightarrow> bool" where
  "row_bounded parse_json k t a \<longleftrightarrow>
     int (firings (au_id a) (fg_db t)) \<le> fire_count a + int (count_list (fg_lost t) (au_id a)) + int (count_list (fg_opened t) (au_id a)) \<and>
     (\<forall>m. max_fires parse_json a = Some m \<longrightarrow> 0 < m \<longrightarrow>
        int (firings (au_id a) (fg_db t)) + int (armed m (au_id a) t) \<le> m + int (k - 1) + int (count_list (fg_lost t) (au_id a)))"

definition loads_faithful :: "firing_state \<Rightarrow> bool" where
  "loads_faithful t \<longleftrightarrow> (\<forall>(a, tr) \<in> set (fg_loaded t). tr_source tr \<noteq> Manual \<and>
     (\<exists>b \<in> set (automations (fg_db t)). au_id b = au_id a \<and> au_conditions b = au_conditions a))"

definition firing_ok :: "(string \<Rightarrow> json option) \<Rightarrow> nat \<Rightarrow> firing_state \<Rightarrow> bool" where
  "firing_ok parse_json k t \<longleftrightarrow> distinct (map au_id (automations (fg_db t))) \<and> loads_faithful t \<and>
     (\<forall>a \<in> set (automations (fg_db t)). row_bounded parse_json k t a)"


lemma count_removed: "x \<in> set xs \<Longrightarrow> count_list xs y = count_list (remove1 x xs) y + (if x = y then 1 else 0)"
  by (induction xs) auto




lemma armed_frame [simp]:
  "armed m i (t\<lparr>fg_db := db\<rparr>) = armed m i t" "armed m i (t\<lparr>fg_opened := os\<rparr>) = armed m i t"
  "armed m i (t\<lparr>fg_lost := ls\<rparr>) = armed m i t"
  by (simp_all add: armed_def loaded_of_def)






lemma mark_ok:
  assumes "firing_ok pj k t" "i \<in> set (fg_opened t)"
  shows "firing_ok pj k (t\<lparr>fg_db := mark_triggered ok clock i (fg_db t), fg_opened := remove1 i (fg_opened t),
    fg_lost := (if ok then fg_lost t else i # fg_lost t)\<rparr>)"
  unfolding firing_ok_def
proof (intro conjI ballI)
  let ?t = "t\<lparr>fg_db := mark_triggered ok clock i (fg_db t), fg_opened := remove1 i (fg_opened t), fg_lost := (if ok then fg_lost t else i # fg_lost t)\<rparr>"
  show "distinct (map au_id (automations (fg_db ?t)))"
    using assms(1) by (simp add: firing_ok_def mark_rows mark_ids)
  show "loads_faithful ?t" using assms(1) by (simp add: firing_ok_def loads_faithful_def mark_kept)
  fix c assume "c \<in> set (automations (fg_db ?t))"
  then obtain b where b: "b \<in> set (automations (fg_db t))" and c: "c = (if ok \<and> au_id b = i
      then b\<lparr>last_triggered_at := Some clock, trigger_count := Some (fire_count b + 1)\<rparr> else b)"
    by (auto simp: mark_rows)
  have row: "row_bounded pj k t b" using assms(1) b by (simp add: firing_ok_def)
  have c_same: "au_id c = au_id b" "au_conditions c = au_conditions b" by (simp_all add: c)
  have c_count: "fire_count c = fire_count b + (if ok \<and> au_id b = i then 1 else 0)" by (simp add: c)
  have opened: "count_list (fg_opened t) (au_id b) = count_list (fg_opened ?t) (au_id b) + (if i = au_id b then 1 else 0)"
    using count_removed[OF assms(2)] by simp
  have lost: "count_list (fg_lost ?t) (au_id b) = count_list (fg_lost t) (au_id b) + (if \<not> ok \<and> i = au_id b then 1 else 0)"
    by simp
  have fires: "firings (au_id b) (fg_db ?t) = firings (au_id b) (fg_db t)" by simp
  have arms: "armed m (au_id b) ?t = armed m (au_id b) t" for m by (simp add: armed_def loaded_of_def)
  show "row_bounded pj k ?t c"
    unfolding row_bounded_def c_same c_count fires arms lost
    using row unfolding row_bounded_def opened by (fastforce split: if_splits)
qed




text \<open>\<open>run_automation\<close> is such a trigger: run on a row as it stands, it loads, opens, counts and closes, or drops.\<close>

lemma run_fires:
  assumes "firing pj k s t" "a \<in> set (automations (fg_db t))" "tr_source tr \<noteq> Manual" "overlap (au_id a) t < k"
    and "run_automation n env sv pj pt now dbe a tr (fg_db t, w) = Some (out, db, w')"
  shows "\<exists>t'. firing pj k s t' \<and> fg_db t' = db \<and> fg_loaded t' = fg_loaded t \<and> fg_opened t' = fg_opened t \<and>
    (mark_ok dbe \<longrightarrow> fg_lost t' = fg_lost t)"
proof -
  let ?l = "t\<lparr>fg_loaded := (a, tr) # fg_loaded t\<rparr>"
  note loaded = firing_load[OF assms(1-4)]
  show ?thesis
  proof (cases "open_execution pj pt now (insert_ok dbe) a tr (fg_db t)")
    case (Inl x)
    then show ?thesis
      using firing_drop[OF loaded, of a tr pt now "insert_ok dbe" x] assms(5) by (intro exI[of _ t]) (simp add: run_automation_def)
  next
    case (Inr p)
    obtain i db1 where p: "p = (i, db1)" by (cases p)
    let ?m = "mark_triggered (mark_ok dbe) (flow_clock dbe) (au_id a) db1"
    obtain results where fin: "finish_automation (complete_ok dbe) i ?m results = (out, db)"
      using assms(5) Inr p by (cases "walk_automation n env sv (parse_blocks pj (au_blocks a)) a tr w")
        (auto simp: run_automation_def Let_def split: prod.splits)
    have "firing pj k s (?l\<lparr>fg_db := db1, fg_loaded := remove1 (a, tr) (fg_loaded ?l), fg_opened := au_id a # fg_opened ?l\<rparr>)"
      by (rule firing_open[OF loaded]) (use Inr p in simp_all)
    note marked = firing_mark[OF this, of "au_id a" "mark_ok dbe" "flow_clock dbe"]
    show ?thesis
      by (rule exI, rule conjI, rule firing_finish[OF marked]) (use fin in simp_all)
  qed
qed


section \<open>Concrete runs\<close>

text \<open>A text environment and services that refuse every run, an automation of an event with one child, and
  its trigger.\<close>

definition bare_env :: text_env where
  "bare_env = \<lparr>json_text = \<lambda>_. [], parse_f64 = \<lambda>_. None, fixed_digits = \<lambda>_ _. [], uppercase = \<lambda>s. s,
     lowercase = \<lambda>s. s, regex_test = \<lambda>_ _. None, regex_group = \<lambda>_ _. None\<rparr>"

definition refusing_services :: "unit services" where
  "refusing_services = \<lparr>engine_run = \<lambda>_ w. (Inl ''refused'', w), notification_action = \<lambda>_ _ w. (JNull, w),
     export_action = \<lambda>_ sc w. ((JNull, sc), w), send_file_action = \<lambda>_ _ w. (JNull, w),
     streaming_action = \<lambda>_ sc w. ((JNull, sc), w), ai_action = \<lambda>_ sc w. ((JNull, sc), w)\<rparr>"

definition demo_json :: "string \<Rightarrow> json option" where
  "demo_json s =
     (if s = ''blocks'' then Some (JArr
        [JObj [(''id'', JStr ''e''), (''type'', JStr ''event''), (''blockType'', JStr ''webhook'')],
         JObj [(''id'', JStr ''a''), (''type'', JStr ''action''), (''blockType'', JStr ''workflow''),
               (''parentId'', JStr ''e'')]])
      else Some (JObj [(''max_fires'', JInt 1)]))"

definition demo_automation :: "string option \<Rightarrow> automation" where
  "demo_automation blocks = \<lparr>au_id = 1, au_workflow_id = Some 9, au_conditions = ''conditions'', au_blocks = blocks,
     last_triggered_at = None, trigger_count = None\<rparr>"

definition demo_trigger :: flow_trigger where
  "demo_trigger = \<lparr>tr_event = ''webhook'', change_id = None, tr_base_inputs = JNull, tr_context = JNull,
     tr_source = Webhook, tr_lane = Background\<rparr>"

definition demo_db :: db_env where
  "demo_db = \<lparr>insert_ok = True, mark_ok = True, complete_ok = True, flow_clock = ''t''\<rparr>"

lemmas demo_defs = bare_env_def refusing_services_def demo_json_def demo_automation_def demo_trigger_def demo_db_def

lemma demo_blocks: "parse_blocks demo_json (Some ''blocks'') =
  [\<lparr>fb_id = ''e'', fb_kind = ''event'', block_type = ''webhook'', fb_config = JNull, parent_id = None\<rparr>,
   \<lparr>fb_id = ''a'', fb_kind = ''action'', block_type = ''workflow'', fb_config = JNull, parent_id = Some ''e''\<rparr>]"
  by code_simp

theorem automation_terminates_witness:
  "distinct (map fb_id (parse_blocks demo_json (au_blocks (demo_automation (Some ''blocks''))))) \<and>
   (\<exists>r. \<forall>n \<ge> length (parse_blocks demo_json (au_blocks (demo_automation (Some ''blocks'')))).
      run_automation n bare_env refusing_services demo_json (\<lambda>_. None) 0 demo_db
        (demo_automation (Some ''blocks'')) demo_trigger (\<lparr>automations = [], executions = []\<rparr>, ()) = Some r)"
proof -
  have d: "distinct (map fb_id (parse_blocks demo_json (au_blocks (demo_automation (Some ''blocks'')))))"
    by (simp add: demo_automation_def demo_blocks)
  show ?thesis using d automation_terminates[OF d] by blast
qed

lemma demo_max: "max_fires demo_json (demo_automation b) = Some 1"
  by (simp add: demo_automation_def demo_json_def) code_simp

definition demo_execution :: "int \<Rightarrow> execution" where
  "demo_execution i = \<lparr>ex_id = i, ex_automation = 1, ex_change = None, ex_status = ''running'', ex_results = [], ex_error = None\<rparr>"

definition demo_idle :: flow_db where
  "demo_idle = \<lparr>automations = [demo_automation None], executions = []\<rparr>"

lemma demo_first: "open_execution demo_json (\<lambda>_. None) 0 True (demo_automation None) demo_trigger demo_idle
  = Inr (1, demo_idle\<lparr>executions := [demo_execution 1]\<rparr>)"
  by code_simp

lemma demo_second: "open_execution demo_json (\<lambda>_. None) 0 True (demo_automation None) demo_trigger
    (demo_idle\<lparr>executions := [demo_execution 1]\<rparr>)
  = Inr (2, demo_idle\<lparr>executions := [demo_execution 1, demo_execution 2]\<rparr>)"
  by code_simp

lemma demo_row: "demo_automation None \<in> set (automations demo_idle)" "tr_source demo_trigger \<noteq> Manual" "au_id (demo_automation None) = 1"
  by (simp_all add: demo_idle_def demo_trigger_def demo_automation_def)

lemma demo_loaded:
  assumes "0 < k"
  shows "firing demo_json k (idle demo_idle) ((idle demo_idle)\<lparr>fg_loaded := [(demo_automation None, demo_trigger)]\<rparr>)"
  using firing_load[OF firing_none, of "demo_automation None" "idle demo_idle" demo_trigger k demo_json] demo_row assms
  by (simp add: overlap_def loaded_of_def idle_def)

text \<open>Two triggers that both load the row before either writes its count open two executions under a limit of one.\<close>

lemma overlapping_triggers_exceed:
  "\<exists>t. firing demo_json 2 (idle demo_idle) t \<and> max_fires demo_json (demo_automation None) = Some 1 \<and>
    firings 1 (fg_db t) = 2 \<and> fg_lost t = []"
proof -
  let ?a = "(demo_automation None, demo_trigger)"
  have "firing demo_json 2 (idle demo_idle) ((idle demo_idle)\<lparr>fg_loaded := [?a, ?a]\<rparr>)"
    using firing_load[OF demo_loaded[of 2], of "demo_automation None" demo_trigger] demo_row
    by (simp add: overlap_def loaded_of_def idle_def)
  from firing_open[OF this, of "demo_automation None" demo_trigger "\<lambda>_. None" 0 True]
  have "firing demo_json 2 (idle demo_idle)
      \<lparr>fg_db = demo_idle\<lparr>executions := [demo_execution 1]\<rparr>, fg_loaded = [?a], fg_opened = [1], fg_lost = []\<rparr>"
    by (simp add: idle_def demo_first demo_row(3))
  from firing_open[OF this, of "demo_automation None" demo_trigger "\<lambda>_. None" 0 True]
  have "firing demo_json 2 (idle demo_idle)
      \<lparr>fg_db = demo_idle\<lparr>executions := [demo_execution 1, demo_execution 2]\<rparr>, fg_loaded = [], fg_opened = [1, 1], fg_lost = []\<rparr>"
    by (simp add: demo_second demo_row(3))
  then show ?thesis
    by (intro exI conjI) (assumption, simp_all add: demo_max firings_def demo_execution_def)
qed





lemma demo_run:
  "run_automation 0 bare_env refusing_services demo_json (\<lambda>_. None) 0 demo_db (demo_automation None) demo_trigger
     (\<lparr>automations = [demo_automation None], executions = []\<rparr>, ())
   = Some (FlowDone (Some \<lparr>ex_id = 1, ex_automation = 1, ex_change = None, ex_status = ''failed'',
        ex_results = [JObj [(''action'', JStr ''workflow''), (''workflow_id'', JInt 9), (''ok'', JBool False),
          (''status'', JStr ''failed''), (''error'', JStr ''refused'')]], ex_error = Some ''refused''\<rparr>),
      \<lparr>automations = [(demo_automation None)\<lparr>last_triggered_at := Some ''t'', trigger_count := Some 1\<rparr>],
       executions = [\<lparr>ex_id = 1, ex_automation = 1, ex_change = None, ex_status = ''failed'',
        ex_results = [JObj [(''action'', JStr ''workflow''), (''workflow_id'', JInt 9), (''ok'', JBool False),
          (''status'', JStr ''failed''), (''error'', JStr ''refused'')]], ex_error = Some ''refused''\<rparr>]\<rparr>, ())"
  by code_simp


end
