(* ===== verification/ApiAuth.thy ===== *)
theory ApiAuth
  imports Prelude
begin

text \<open>
  Credentials and capabilities of the local API: the Origin/Host allowlist, the scope a request needs and
  the scopes a credential grants (\<open>src/src/local/auth.rs\<close>), the rotation overlay of the runtime token
  (\<open>runtime_token.rs\<close>) and the table of client keys (\<open>store/local_api_keys.rs\<close>). Header values are
  ASCII; the SHA-256 digest is a parameter.
\<close>

section \<open>Constant-time comparison\<close>

abbreviation byte :: "char \<Rightarrow> 8 word" where
  "byte c \<equiv> of_nat (of_char c)"

fun ct_diff :: "8 word \<Rightarrow> string \<Rightarrow> string \<Rightarrow> 8 word" where
  "ct_diff d (x # xs) (y # ys) = ct_diff (or d (xor (byte x) (byte y))) xs ys"
| "ct_diff d _ _ = d"

definition ct_eq :: "string \<Rightarrow> string \<Rightarrow> bool" where
  "ct_eq a b \<longleftrightarrow> (if length a \<noteq> length b then False else ct_diff 0 a b = 0)"

definition verify_local_bearer :: "string \<Rightarrow> string \<Rightarrow> bool" where
  "verify_local_bearer presented token = ct_eq presented token"

lemma byte_inj: "byte x = byte y \<longleftrightarrow> x = y"
proof
  have bound: "of_char c < (256::nat)" for c :: char
    by (metis mod_less_divisor of_char_mod_256 zero_less_numeral)
  assume "byte x = byte y"
  then have "unat (byte x) = unat (byte y)" by simp
  then have "(of_char x :: nat) = of_char y" using bound[of x] bound[of y] by (simp add: unat_of_nat take_bit_nat_def)
  then show "x = y" by simp
qed simp

lemma word_or_zero: "or a b = (0 :: 'a::len word) \<longleftrightarrow> a = 0 \<and> b = 0"
  by (metis or.commute or.left_idem or.right_neutral)

lemma word_xor_zero: "xor a b = (0 :: 'a::len word) \<longleftrightarrow> a = b"
  by (metis xor.assoc xor.left_neutral xor_self_eq)

lemma ct_diff_zero: "length a = length b \<Longrightarrow> ct_diff d a b = 0 \<longleftrightarrow> d = 0 \<and> a = b"
  by (induction d a b rule: ct_diff.induct) (auto simp: word_or_zero word_xor_zero byte_inj)

lemma ct_eq_iff [simp]: "ct_eq a b \<longleftrightarrow> a = b"
  by (cases "length a = length b") (auto simp: ct_eq_def ct_diff_zero)

lemma verify_local_bearer_iff [simp]: "verify_local_bearer p t \<longleftrightarrow> p = t"
  by (simp add: verify_local_bearer_def)

section \<open>Origins\<close>

definition is_loopback_authority :: "string \<Rightarrow> bool" where
  "is_loopback_authority value =
     (let v = trim value;
          rest = (case strip_prefix ''http://'' v of Some r \<Rightarrow> Some r
                  | None \<Rightarrow> (case strip_prefix ''https://'' v of Some r \<Rightarrow> Some r
                             | None \<Rightarrow> if contains_str v ''://'' then None else Some v))
      in (case rest of
            None \<Rightarrow> False
          | Some r \<Rightarrow>
              (let authority = takeWhile (\<lambda>c. c \<notin> {CHR ''/'', CHR ''?'', CHR ''#''}) r;
                   host = ascii_lower (case strip_prefix ''['' authority of
                            Some lit \<Rightarrow> takeWhile (\<lambda>c. c \<noteq> CHR '']'') lit
                          | None \<Rightarrow> takeWhile (\<lambda>c. c \<noteq> CHR '':'') authority)
               in host = ''127.0.0.1'' \<or> host = ''localhost'' \<or> host = ''::1'')))"

definition origin_allowed :: "string \<Rightarrow> bool" where
  "origin_allowed value =
     (let v = trim value
      in v = ''tauri://localhost'' \<or> v = ''http://tauri.localhost'' \<or> v = ''https://tauri.localhost''
         \<or> is_loopback_authority v)"

definition origin_allowed_for :: "string \<Rightarrow> nat \<Rightarrow> bool \<Rightarrow> string list \<Rightarrow> bool" where
  "origin_allowed_for value port exposed hosts =
     (if origin_allowed value then True
      else if \<not> exposed then False
      else (let v = trim value
            in list_ex (\<lambda>h0. let h = trim h0; hp = h @ '':'' @ show_nat port
                             in h \<noteq> [] \<and> (v = hp \<or> v = ''http://'' @ hp \<or> v = ''https://'' @ hp)) hosts))"

definition bind_host :: "bool \<Rightarrow> string" where
  "bind_host exposed = (if exposed then ''0.0.0.0'' else ''127.0.0.1'')"

definition lan_hosts :: "string option \<Rightarrow> bool \<Rightarrow> string list" where
  "lan_hosts primary_lan_ip exposed =
     (if \<not> exposed then [] else bind_host True # (case primary_lan_ip of None \<Rightarrow> [] | Some ip \<Rightarrow> [ip]))"

definition parse_bearer :: "string \<Rightarrow> string option" where
  "parse_bearer header = map_option trim (strip_prefix ''Bearer '' header)"

definition opt_ok :: "('a \<Rightarrow> bool) \<Rightarrow> 'a option \<Rightarrow> bool" where
  "opt_ok p x \<longleftrightarrow> (case x of None \<Rightarrow> True | Some v \<Rightarrow> p v)"

definition ws_origin_allowed :: "string option \<Rightarrow> string option \<Rightarrow> bool" where
  "ws_origin_allowed origin host \<longleftrightarrow> opt_ok origin_allowed origin \<and> opt_ok origin_allowed host"

definition ws_connect_authorized :: "string option \<Rightarrow> string option \<Rightarrow> string option \<Rightarrow> string \<Rightarrow> bool" where
  "ws_connect_authorized presented origin host runtime_token =
     (if \<not> opt_ok origin_allowed origin then False
      else if \<not> opt_ok origin_allowed host then False
      else (case presented of
              Some t \<Rightarrow> if t \<noteq> [] then verify_local_bearer t runtime_token else False
            | None \<Rightarrow> False))"

section \<open>Scopes\<close>

datatype api_scope = ReadScope | RunScope | AdminScope | ManageScope

definition scope_str :: "api_scope \<Rightarrow> string" where
  "scope_str s = (case s of ReadScope \<Rightarrow> ''read'' | RunScope \<Rightarrow> ''run'' | AdminScope \<Rightarrow> ''admin'' | ManageScope \<Rightarrow> ''manage'')"

definition is_privileged_read_path :: "string \<Rightarrow> bool" where
  "is_privileged_read_path path \<longleftrightarrow> path = ''/v1/backup/download''"

definition is_device_management_path :: "string \<Rightarrow> bool" where
  "is_device_management_path path \<longleftrightarrow>
     starts_with path ''/v1/vault/'' \<or> path = ''/v1/vault''
     \<or> path = ''/v1/keys'' \<or> starts_with path ''/v1/keys/''
     \<or> starts_with path ''/v1/cloud/reflect/api-keys''
     \<or> path = ''/v1/token/rotate''
     \<or> path = ''/v1/data/reset'' \<or> path = ''/v1/backup/restore''
     \<or> path = ''/v1/network/expose''
     \<or> path = ''/v1/mcp/auth''
     \<or> starts_with path ''/v1/settings/telemetry''
     \<or> path = ''/v1/cloud/link/start'' \<or> path = ''/v1/cloud/link/poll''
     \<or> path = ''/v1/cloud/unlink''
     \<or> path = ''/v1/tls/trust''"

definition required_scope :: "string \<Rightarrow> string \<Rightarrow> api_scope" where
  "required_scope meth path =
     (if is_privileged_read_path path then ManageScope
      else if eq_ignore_ascii_case meth ''GET'' \<or> eq_ignore_ascii_case meth ''HEAD'' then ReadScope
      else if ends_with path ''/run'' \<or> ends_with path ''/cancel'' \<or> path = ''/mcp''
              \<or> ends_with path ''/completions'' \<or> ends_with path ''/responses'' then RunScope
      else if is_device_management_path path then ManageScope
      else AdminScope)"

definition scope_grants :: "string \<Rightarrow> api_scope \<Rightarrow> bool" where
  "scope_grants csv needed =
     (let toks = map trim (split_byte (CHR '','') csv);
          has = (\<lambda>t. list_ex ((=) t) toks)
      in (case needed of
            ReadScope \<Rightarrow> has ''read'' \<or> has ''run'' \<or> has ''admin''
          | RunScope \<Rightarrow> has ''run'' \<or> has ''admin''
          | AdminScope \<Rightarrow> has ''admin''
          | ManageScope \<Rightarrow> has ''manage''))"

datatype caller = FullAccess | Scoped string

definition caller_grants :: "caller \<Rightarrow> api_scope \<Rightarrow> bool" where
  "caller_grants c needed = (case c of FullAccess \<Rightarrow> True | Scoped csv \<Rightarrow> scope_grants csv needed)"

definition describe_caller :: "caller \<Rightarrow> string" where
  "describe_caller c = (case c of FullAccess \<Rightarrow> ''full-access'' | Scoped csv \<Rightarrow> csv)"

definition caller_or_deny :: "caller option \<Rightarrow> caller" where
  "caller_or_deny c = (case c of Some x \<Rightarrow> x | None \<Rightarrow> Scoped [])"

text \<open>A missing caller holds no capability, and the chain of scopes leaves \<open>manage\<close> out.\<close>

lemma trim_tokens: "trim ''admin'' = ''admin''" "trim ''run'' = ''run''" "trim [] = []"
  by (rule trim_printable, simp add: printable_def)+

lemma deny_grants_nothing: "\<not> caller_grants (caller_or_deny None) s"
  by (cases s) (simp_all add: caller_or_deny_def caller_grants_def scope_grants_def trim_tokens)

lemma admin_grants: "scope_grants ''admin'' s \<longleftrightarrow> s \<noteq> ManageScope"
  by (cases s) (simp_all add: scope_grants_def trim_tokens)

lemma run_grants: "scope_grants ''run'' s \<longleftrightarrow> s = ReadScope \<or> s = RunScope"
  by (cases s) (simp_all add: scope_grants_def trim_tokens)

lemma scope_chain:
  "scope_grants csv AdminScope \<Longrightarrow> scope_grants csv RunScope"
  "scope_grants csv RunScope \<Longrightarrow> scope_grants csv ReadScope"
  by (auto simp: scope_grants_def Let_def)

text \<open>A mutating request on a device-control route needs \<open>manage\<close>, unless its path ends like an execute route.\<close>

lemma manage_paths:
  "is_device_management_path path \<Longrightarrow> \<not> eq_ignore_ascii_case meth ''GET'' \<Longrightarrow> \<not> eq_ignore_ascii_case meth ''HEAD''
    \<Longrightarrow> \<not> ends_with path ''/run'' \<Longrightarrow> \<not> ends_with path ''/cancel'' \<Longrightarrow> \<not> ends_with path ''/completions''
    \<Longrightarrow> \<not> ends_with path ''/responses'' \<Longrightarrow> required_scope meth path = ManageScope"
  by (cases "path = ''/mcp''") (simp_all add: required_scope_def is_device_management_path_def starts_with_def)

section \<open>The runtime token\<close>

type_synonym overlay = "string \<rightharpoonup> string"

definition current_token :: "overlay \<Rightarrow> string \<Rightarrow> string" where
  "current_token ov seed = unwrap_or seed (ov seed)"

definition verify_token :: "overlay \<Rightarrow> string \<Rightarrow> string \<Rightarrow> bool" where
  "verify_token ov presented seed = verify_local_bearer presented (unwrap_or seed (ov seed))"

definition set_token :: "string \<Rightarrow> string \<Rightarrow> overlay \<Rightarrow> overlay" where
  "set_token seed new ov = ov(seed \<mapsto> new)"

lemma rotated_token_replaces:
  "verify_token (set_token seed new ov) p s \<longleftrightarrow> (if s = seed then p = new else verify_token ov p s)"
  by (simp add: verify_token_def set_token_def)


section \<open>Client keys\<close>

record api_key =
  ak_id :: int
  ak_name :: string
  ak_prefix :: string
  ak_hash :: string
  ak_scopes :: string
  ak_enabled :: bool
  ak_last_used :: "string option"
  ak_created :: string
  ak_revoked :: "string option"

text \<open>The rows and the value \<open>AUTOINCREMENT\<close> gives next, which is never reused.\<close>

record key_table =
  key_rows :: "api_key list"
  next_key_id :: int

record new_key =
  nk_name :: string
  nk_prefix :: string
  nk_hash :: string
  nk_scopes :: "string option"

definition insert_key :: "string \<Rightarrow> new_key \<Rightarrow> key_table \<Rightarrow> api_key \<times> key_table" where
  "insert_key clock k t =
     (let row = \<lparr>ak_id = next_key_id t, ak_name = nk_name k, ak_prefix = nk_prefix k, ak_hash = nk_hash k,
                 ak_scopes = unwrap_or ''run'' (nk_scopes k), ak_enabled = True, ak_last_used = None,
                 ak_created = clock, ak_revoked = None\<rparr>
      in (row, \<lparr>key_rows = key_rows t @ [row], next_key_id = next_key_id t + 1\<rparr>))"

definition get_key :: "int \<Rightarrow> key_table \<Rightarrow> api_key option" where
  "get_key i t = find (\<lambda>k. ak_id k = i) (key_rows t)"

definition get_active_by_hash :: "string \<Rightarrow> key_table \<Rightarrow> api_key option" where
  "get_active_by_hash h t = find (\<lambda>k. ak_hash k = h \<and> ak_enabled k \<and> ak_revoked k = None) (key_rows t)"

definition on_key :: "int \<Rightarrow> (api_key \<Rightarrow> api_key) \<Rightarrow> key_table \<Rightarrow> key_table" where
  "on_key i f t = t\<lparr>key_rows := map (\<lambda>k. if ak_id k = i then f k else k) (key_rows t)\<rparr>"

definition update_key :: "int \<Rightarrow> string option \<Rightarrow> string option \<Rightarrow> key_table \<Rightarrow> api_key option \<times> key_table" where
  "update_key i name scopes t =
     (let t' = on_key i (\<lambda>k. k\<lparr>ak_name := unwrap_or (ak_name k) name, ak_scopes := unwrap_or (ak_scopes k) scopes\<rparr>) t
      in (get_key i t', t'))"

definition set_key_enabled :: "int \<Rightarrow> bool \<Rightarrow> key_table \<Rightarrow> bool \<times> key_table" where
  "set_key_enabled i on t = (get_key i t \<noteq> None, on_key i (\<lambda>k. k\<lparr>ak_enabled := on\<rparr>) t)"

definition touch_key :: "string \<Rightarrow> int \<Rightarrow> key_table \<Rightarrow> key_table" where
  "touch_key clock i t = on_key i (\<lambda>k. k\<lparr>ak_last_used := Some clock\<rparr>) t"

definition revoke_key :: "string \<Rightarrow> int \<Rightarrow> key_table \<Rightarrow> bool \<times> key_table" where
  "revoke_key clock i t =
     (get_key i t \<noteq> None, on_key i (\<lambda>k. k\<lparr>ak_enabled := False, ak_revoked := Some clock\<rparr>) t)"

definition delete_key :: "int \<Rightarrow> key_table \<Rightarrow> bool \<times> key_table" where
  "delete_key i t = (get_key i t \<noteq> None, t\<lparr>key_rows := filter (\<lambda>k. ak_id k \<noteq> i) (key_rows t)\<rparr>)"

text \<open>The create handler; \<open>None\<close> is the refusal of a blank name. \<open>body\<close> is the encoded random secret.\<close>

definition key_prefix :: string where
  "key_prefix = ''wlk_''"

definition create_key ::
    "(string \<Rightarrow> string) \<Rightarrow> string \<Rightarrow> string \<Rightarrow> string \<Rightarrow> string option \<Rightarrow> key_table \<Rightarrow> ((string \<times> api_key) \<times> key_table) option" where
  "create_key sha clock body name scopes t =
     (if trim name = [] then None
      else (let key = key_prefix @ body;
                (row, t') = insert_key clock \<lparr>nk_name = name, nk_prefix = key_prefix @ take 6 body,
                              nk_hash = sha key, nk_scopes = scopes\<rparr> t
            in Some ((key, row), t')))"

text \<open>Any operation on the table.\<close>

inductive key_step :: "(string \<Rightarrow> string) \<Rightarrow> key_table \<Rightarrow> key_table \<Rightarrow> bool" for sha where
  key_create: "create_key sha clock body name scopes t = Some (r, t') \<Longrightarrow> key_step sha t t'"
| key_update: "key_step sha t (snd (update_key i name scopes t))"
| key_enable: "key_step sha t (snd (set_key_enabled i on t))"
| key_touch: "key_step sha t (touch_key clock i t)"
| key_revoke: "key_step sha t (snd (revoke_key clock i t))"
| key_delete: "key_step sha t (snd (delete_key i t))"

definition keys_numbered :: "key_table \<Rightarrow> bool" where
  "keys_numbered t \<longleftrightarrow> (\<forall>k \<in> set (key_rows t). ak_id k < next_key_id t)"

text \<open>Key \<open>i\<close> was issued and its row is gone or revoked.\<close>

definition key_dead :: "int \<Rightarrow> key_table \<Rightarrow> bool" where
  "key_dead i t \<longleftrightarrow> i < next_key_id t \<and> (\<forall>k \<in> set (key_rows t). ak_id k = i \<longrightarrow> ak_revoked k \<noteq> None)"

lemmas key_ops = insert_key_def on_key_def update_key_def set_key_enabled_def touch_key_def revoke_key_def
  delete_key_def create_key_def

lemma key_dead_step: "key_step sha t t' \<Longrightarrow> key_dead i t \<Longrightarrow> key_dead i t'"
  by (cases rule: key_step.cases) (auto simp: key_ops key_dead_def Let_def split: if_splits)

lemma keys_numbered_step: "key_step sha t t' \<Longrightarrow> keys_numbered t \<Longrightarrow> keys_numbered t'"
  by (cases rule: key_step.cases) (fastforce simp: key_ops keys_numbered_def Let_def split: if_splits)+

lemma revoke_kills: "keys_numbered t \<Longrightarrow> get_key i t \<noteq> None \<Longrightarrow> key_dead i (snd (revoke_key clock i t))"
  by (auto simp: key_ops key_dead_def keys_numbered_def get_key_def find_None_iff)

lemma delete_kills: "keys_numbered t \<Longrightarrow> get_key i t \<noteq> None \<Longrightarrow> key_dead i (snd (delete_key i t))"
  by (auto simp: key_ops key_dead_def keys_numbered_def get_key_def find_None_iff)

lemma dead_not_active: "key_dead i t \<Longrightarrow> get_active_by_hash h t = Some k \<Longrightarrow> ak_id k \<noteq> i"
  by (auto simp: key_dead_def get_active_by_hash_def find_Some_iff)

lemma dead_key_steps: "(key_step sha)\<^sup>*\<^sup>* t t' \<Longrightarrow> key_dead i t \<Longrightarrow> key_dead i t'"
  by (induction rule: rtranclp.induct) (auto intro: key_dead_step)

text \<open>A client key that was revoked or deleted never authenticates again: whatever keys are created,
  renamed, re-scoped, disabled or enabled afterwards, no lookup returns it, because enabling leaves the
  revocation stamp and identifiers are not reused.\<close>

theorem revoked_key_stays_dead:
  assumes "keys_numbered t" "get_key i t \<noteq> None"
    and "t1 = snd (revoke_key clock i t) \<or> t1 = snd (delete_key i t)"
    and "(key_step sha)\<^sup>*\<^sup>* t1 t2" "get_active_by_hash h t2 = Some k"
  shows "ak_id k \<noteq> i"
proof -
  have "key_dead i t1" using assms(1-3) revoke_kills delete_kills by blast
  then show ?thesis using dead_key_steps[OF assms(4)] dead_not_active assms(5) by blast
qed


definition demo_key :: "int \<Rightarrow> api_key" where
  "demo_key i = \<lparr>ak_id = i, ak_name = ''n8n'', ak_prefix = ''wlk_abcdef'', ak_hash = ''h'', ak_scopes = ''run'',
     ak_enabled = True, ak_last_used = None, ak_created = ''t'', ak_revoked = None\<rparr>"

theorem revoked_key_stays_dead_witness:
  "ak_id (demo_key 2) \<noteq> 1 \<and>
   get_active_by_hash ''h'' (snd (set_key_enabled 1 True
     \<lparr>key_rows = [(demo_key 1)\<lparr>ak_enabled := False, ak_revoked := Some ''t''\<rparr>, demo_key 2], next_key_id = 3\<rparr>))
   = Some (demo_key 2)"
proof -
  let ?t = "\<lparr>key_rows = [demo_key 1, demo_key 2], next_key_id = 3\<rparr>"
  let ?t1 = "snd (revoke_key ''t'' 1 ?t)" and ?t2 = "snd (set_key_enabled 1 True (snd (revoke_key ''t'' 1 ?t)))"
  have look: "get_active_by_hash ''h'' ?t2 = Some (demo_key 2)"
    by (simp add: key_ops get_active_by_hash_def demo_key_def)
  have "(key_step id)\<^sup>*\<^sup>* ?t1 ?t2" by (rule r_into_rtranclp, rule key_enable)
  moreover have "keys_numbered ?t" "get_key 1 ?t \<noteq> None"
    by (simp_all add: keys_numbered_def get_key_def demo_key_def)
  ultimately have "ak_id (demo_key 2) \<noteq> 1"
    using revoked_key_stays_dead[of ?t 1 ?t1 "''t''" id ?t2 "''h''" "demo_key 2"] look by blast
  then show ?thesis using look by (simp add: key_ops demo_key_def)
qed

end
