(* ===== verification/OAuth.thy ===== *)
theory OAuth
  imports ApiAuth
begin

text \<open>
  The local OAuth 2.1 authorization server (\<open>src/src/local/api/v1/oauth.rs\<close>) and its tables
  (\<open>store/oauth.rs\<close>): client registration, authorization with PKCE, the consent click, the code and
  refresh grants with their single-use claims, housekeeping.

  Seconds since the epoch are integers. SHA-256 (hex), the PKCE S256 transform, the JSON text of a list of
  strings and the random credentials are parameters. A statement that fails leaves its transaction rolled
  back, and the request answered with a fault.
\<close>

section \<open>Tables\<close>

record oauth_client =
  oc_id :: string
  oc_name :: "string option"
  oc_redirect_uris :: string

record oauth_code =
  od_hash :: string
  od_client :: string
  od_redirect :: string
  od_challenge :: string
  od_scope :: string
  od_expires :: int
  od_used :: bool

record oauth_token =
  ot_id :: int
  ot_access :: string
  ot_refresh :: "string option"
  ot_client :: string
  ot_scope :: string
  ot_access_expires :: int
  ot_refresh_expires :: "int option"
  ot_revoked :: bool
  ot_last_used :: "string option"

record oauth_db =
  clients :: "oauth_client list"
  codes :: "oauth_code list"
  tokens :: "oauth_token list"
  next_token_id :: int

text \<open>An insertion that breaks a \<open>UNIQUE\<close> column fails.\<close>

definition insert_client :: "string \<Rightarrow> string option \<Rightarrow> string \<Rightarrow> oauth_db \<Rightarrow> (oauth_client \<times> oauth_db) option" where
  "insert_client cid name uris db =
     (if list_ex (\<lambda>c. oc_id c = cid) (clients db) then None
      else (let row = \<lparr>oc_id = cid, oc_name = name, oc_redirect_uris = uris\<rparr>
            in Some (row, db\<lparr>clients := clients db @ [row]\<rparr>)))"

definition get_client :: "string \<Rightarrow> oauth_db \<Rightarrow> oauth_client option" where
  "get_client cid db = find (\<lambda>c. oc_id c = cid) (clients db)"

definition insert_code ::
    "string \<Rightarrow> string \<Rightarrow> string \<Rightarrow> string \<Rightarrow> string \<Rightarrow> int \<Rightarrow> oauth_db \<Rightarrow> oauth_db option" where
  "insert_code h cid redirect challenge scope expires db =
     (if list_ex (\<lambda>c. od_hash c = h) (codes db) then None
      else Some (db\<lparr>codes := codes db @ [\<lparr>od_hash = h, od_client = cid, od_redirect = redirect,
             od_challenge = challenge, od_scope = scope, od_expires = expires, od_used = False\<rparr>]\<rparr>))"

definition code_claimable :: "string \<Rightarrow> int \<Rightarrow> oauth_code \<Rightarrow> bool" where
  "code_claimable h now c \<longleftrightarrow> od_hash c = h \<and> \<not> od_used c \<and> now < od_expires c"

definition take_code :: "string \<Rightarrow> int \<Rightarrow> oauth_db \<Rightarrow> (oauth_code \<times> oauth_db) option" where
  "take_code h now db =
     (case find (code_claimable h now) (codes db) of
        None \<Rightarrow> None
      | Some c \<Rightarrow> Some (c\<lparr>od_used := True\<rparr>,
          db\<lparr>codes := map (\<lambda>c. if code_claimable h now c then c\<lparr>od_used := True\<rparr> else c) (codes db)\<rparr>))"

definition insert_token ::
    "string \<Rightarrow> string option \<Rightarrow> string \<Rightarrow> string \<Rightarrow> int \<Rightarrow> int option \<Rightarrow> oauth_db \<Rightarrow> oauth_db option" where
  "insert_token access refresh cid scope access_exp refresh_exp db =
     (if list_ex (\<lambda>t. ot_access t = access \<or> refresh \<noteq> None \<and> ot_refresh t = refresh) (tokens db) then None
      else Some (db\<lparr>tokens := tokens db @ [\<lparr>ot_id = next_token_id db, ot_access = access, ot_refresh = refresh,
             ot_client = cid, ot_scope = scope, ot_access_expires = access_exp, ot_refresh_expires = refresh_exp,
             ot_revoked = False, ot_last_used = None\<rparr>], next_token_id := next_token_id db + 1\<rparr>))"

definition get_active_by_access_hash :: "string \<Rightarrow> int \<Rightarrow> oauth_db \<Rightarrow> oauth_token option" where
  "get_active_by_access_hash h now db =
     find (\<lambda>t. ot_access t = h \<and> \<not> ot_revoked t \<and> now < ot_access_expires t) (tokens db)"

definition refresh_claimable :: "string \<Rightarrow> int \<Rightarrow> oauth_token \<Rightarrow> bool" where
  "refresh_claimable h now t \<longleftrightarrow> ot_refresh t = Some h \<and> \<not> ot_revoked t \<and>
     (case ot_refresh_expires t of None \<Rightarrow> False | Some e \<Rightarrow> now < e)"

definition take_refresh :: "string \<Rightarrow> int \<Rightarrow> oauth_db \<Rightarrow> (oauth_token \<times> oauth_db) option" where
  "take_refresh h now db =
     (case find (refresh_claimable h now) (tokens db) of
        None \<Rightarrow> None
      | Some t \<Rightarrow> Some (t\<lparr>ot_revoked := True\<rparr>,
          db\<lparr>tokens := map (\<lambda>t. if refresh_claimable h now t then t\<lparr>ot_revoked := True\<rparr> else t) (tokens db)\<rparr>))"

definition touch_token :: "string \<Rightarrow> int \<Rightarrow> oauth_db \<Rightarrow> oauth_db" where
  "touch_token clock i db =
     db\<lparr>tokens := map (\<lambda>t. if ot_id t = i then t\<lparr>ot_last_used := Some clock\<rparr> else t) (tokens db)\<rparr>"

definition purge_codes :: "int \<Rightarrow> oauth_db \<Rightarrow> oauth_db" where
  "purge_codes now db = db\<lparr>codes := filter (\<lambda>c. \<not> (od_expires c \<le> now \<or> od_used c)) (codes db)\<rparr>"

definition purge_tokens :: "int \<Rightarrow> oauth_db \<Rightarrow> oauth_db" where
  "purge_tokens now db = db\<lparr>tokens := filter (\<lambda>t. \<not> ((ot_revoked t \<or> ot_access_expires t \<le> now)
     \<and> unwrap_or 0 (ot_refresh_expires t) \<le> now \<and> ot_access_expires t \<le> now - 2592000)) (tokens db)\<rparr>"

text \<open>How many of the two statements of the purge succeed.\<close>

definition purge_expired :: "nat \<Rightarrow> int \<Rightarrow> oauth_db \<Rightarrow> oauth_db" where
  "purge_expired steps now db =
     (if steps = 0 then db else if steps = 1 then purge_codes now db else purge_tokens now (purge_codes now db))"

section \<open>Text\<close>

definition replace_char :: "char \<Rightarrow> string \<Rightarrow> string \<Rightarrow> string" where
  "replace_char c t s = concat (map (\<lambda>x. if x = c then t else [x]) s)"

definition html_escape :: "string \<Rightarrow> string" where
  "html_escape s =
     replace_char (char_of (34::nat)) ''&quot;''
       (replace_char (CHR ''>'') ''&gt;'' (replace_char (CHR ''<'') ''&lt;'' (replace_char (CHR ''&'') ''&amp;'' s)))"

definition hex_digit :: "nat \<Rightarrow> char" where
  "hex_digit n = (if n < 10 then char_of (48 + n) else char_of (55 + n))"

definition unreserved :: "char \<Rightarrow> bool" where
  "unreserved c \<longleftrightarrow>
     (let n = of_char c :: nat in 65 \<le> n \<and> n \<le> 90 \<or> 97 \<le> n \<and> n \<le> 122 \<or> 48 \<le> n \<and> n \<le> 57
        \<or> c = CHR ''-'' \<or> c = CHR ''.'' \<or> c = CHR ''_'' \<or> c = CHR ''~'')"

definition urlencode :: "string \<Rightarrow> string" where
  "urlencode s = concat (map (\<lambda>c. if unreserved c then [c]
     else [CHR ''%'', hex_digit (of_char c div 16), hex_digit (of_char c mod 16)]) s)"

definition redirect_uri_ok :: "string \<Rightarrow> bool" where
  "redirect_uri_ok uri \<longleftrightarrow> uri \<noteq> [] \<and> length uri \<le> 2048 \<and> contains_str uri ''://''
     \<and> \<not> list_ex (\<lambda>c. c \<in> set ws_seqs) (utf8_chars uri) \<and> CHR ''#'' \<notin> set uri"

definition base_url_for_host :: "string option \<Rightarrow> nat \<Rightarrow> nat \<Rightarrow> string" where
  "base_url_for_host host port tls_port =
     (case (case host of Some h \<Rightarrow> if trim h \<noteq> [] then Some (trim h) else None | None \<Rightarrow> None) of
        Some h \<Rightarrow> (if tls_port \<noteq> 0 \<and> ends_with h ('':'' @ show_nat tls_port) then ''https'' else ''http'') @ ''://'' @ h
      | None \<Rightarrow> ''http://127.0.0.1:'' @ show_nat port)"

section \<open>Authorization\<close>

definition access_ttl_secs :: int where "access_ttl_secs = 7 * 86400"
definition refresh_ttl_secs :: int where "refresh_ttl_secs = 90 * 86400"
definition code_ttl_secs :: int where "code_ttl_secs = 300"
definition txn_ttl_secs :: int where "txn_ttl_secs = 600"
definition granted_scope :: string where "granted_scope = ''run''"

record pending_authz =
  pa_client :: string
  pa_name :: string
  pa_redirect :: string
  pa_challenge :: string
  pa_state :: "string option"
  pa_created :: int

record oauth_state =
  os_db :: oauth_db
  os_pending :: "(string \<times> pending_authz) list"

definition pending_insert :: "int \<Rightarrow> string \<Rightarrow> pending_authz \<Rightarrow> oauth_state \<Rightarrow> oauth_state" where
  "pending_insert now txn p s =
     s\<lparr>os_pending := AList.update txn p (filter (\<lambda>(_, v). now - pa_created v < txn_ttl_secs) (os_pending s))\<rparr>"

definition pending_take :: "int \<Rightarrow> string \<Rightarrow> oauth_state \<Rightarrow> pending_authz option \<times> oauth_state" where
  "pending_take now txn s =
     (case map_of (os_pending s) txn of
        None \<Rightarrow> (None, s)
      | Some p \<Rightarrow> (if now - pa_created p < txn_ttl_secs then Some p else None,
                   s\<lparr>os_pending := AList.delete txn (os_pending s)\<rparr>))"

datatype oauth_response =
    Fault
  | BadRedirectUris
  | Registered oauth_client
  | ErrorPage string
  | RedirectTo string
  | ConsentPage string string
  | TokenError string
  | TokenOk string string string

definition register ::
    "(string list \<Rightarrow> string) \<Rightarrow> bool \<Rightarrow> string \<Rightarrow> string list \<Rightarrow> string option \<Rightarrow> oauth_state \<Rightarrow> oauth_response \<times> oauth_state" where
  "register json_list ok cid uris name s =
     (if uris = [] \<or> 10 < length uris \<or> \<not> list_all redirect_uri_ok uris then (BadRedirectUris, s)
      else (let name' = (case name of None \<Rightarrow> None | Some n \<Rightarrow>
                           if trim n \<noteq> [] then Some (concat (take 200 (utf8_chars (trim n)))) else None)
            in (case (if ok then insert_client cid name' (json_list uris) (os_db s) else None) of
                  Some (row, db) \<Rightarrow> (Registered row, s\<lparr>os_db := db\<rparr>)
                | None \<Rightarrow> (Fault, s))))"

record authorize_query =
  aq_response_type :: "string option"
  aq_client_id :: "string option"
  aq_redirect_uri :: "string option"
  aq_challenge :: "string option"
  aq_method :: "string option"
  aq_state :: "string option"

definition non_empty :: "string option \<Rightarrow> string option" where
  "non_empty x = (case x of Some s \<Rightarrow> if s \<noteq> [] then Some s else None | None \<Rightarrow> None)"

definition separator :: "string \<Rightarrow> string" where
  "separator uri = (if CHR ''?'' \<in> set uri then ''&'' else ''?'')"

definition state_suffix :: "string option \<Rightarrow> string" where
  "state_suffix st = (case st of None \<Rightarrow> [] | Some x \<Rightarrow> ''&state='' @ urlencode x)"

definition redirect_err :: "string \<Rightarrow> string option \<Rightarrow> string \<Rightarrow> string \<Rightarrow> oauth_response" where
  "redirect_err uri st code desc =
     RedirectTo (uri @ separator uri @ ''error='' @ code @ ''&error_description='' @ urlencode desc @ state_suffix st)"

definition authorize ::
    "(string \<Rightarrow> string list option) \<Rightarrow> bool \<Rightarrow> int \<Rightarrow> string \<Rightarrow> authorize_query \<Rightarrow> oauth_state \<Rightarrow> oauth_response \<times> oauth_state" where
  "authorize parse_list ok now txn q s =
     (case non_empty (aq_client_id q) of
        None \<Rightarrow> (ErrorPage ''Missing client_id.'', s)
      | Some cid \<Rightarrow>
          if \<not> ok then (Fault, s)
          else (case get_client cid (os_db s) of
                  None \<Rightarrow> (ErrorPage ''Unknown client. Register first (POST /oauth/register).'', s)
                | Some client \<Rightarrow>
                    (case non_empty (aq_redirect_uri q) of
                       None \<Rightarrow> (ErrorPage ''Missing redirect_uri.'', s)
                     | Some uri \<Rightarrow>
                         if \<not> list_ex ((=) uri) (unwrap_or [] (parse_list (oc_redirect_uris client)))
                         then (ErrorPage ''redirect_uri is not registered for this client.'', s)
                         else if aq_response_type q \<noteq> Some ''code''
                         then (redirect_err uri (aq_state q) ''unsupported_response_type''
                                 ''only response_type=code is supported'', s)
                         else (case non_empty (aq_challenge q) of
                                 Some c \<Rightarrow>
                                   if aq_method q = Some ''S256''
                                   then (let name = unwrap_or ''An MCP client'' (oc_name client)
                                         in (ConsentPage (html_escape name) txn,
                                             pending_insert now txn
                                               \<lparr>pa_client = cid, pa_name = name, pa_redirect = uri, pa_challenge = c,
                                                pa_state = aq_state q, pa_created = now\<rparr> s))
                                   else (redirect_err uri (aq_state q) ''invalid_request''
                                           ''PKCE with code_challenge_method=S256 is required'', s)
                               | None \<Rightarrow> (redirect_err uri (aq_state q) ''invalid_request''
                                           ''PKCE with code_challenge_method=S256 is required'', s)))))"

definition em_dash :: string where
  "em_dash = [char_of (226::nat), char_of (128::nat), char_of (148::nat)]"

text \<open>The consent form; \<open>now\<close> is read when the transaction is taken, \<open>now'\<close> when the code is minted.\<close>

definition consent ::
    "(string \<Rightarrow> string) \<Rightarrow> bool \<Rightarrow> int \<Rightarrow> int \<Rightarrow> string \<Rightarrow> string \<Rightarrow> string \<Rightarrow> oauth_state \<Rightarrow> oauth_response \<times> oauth_state" where
  "consent sha ok now now' code txn action s =
     (case pending_take now txn s of
        (None, s1) \<Rightarrow> (ErrorPage (''This authorization request expired '' @ em_dash @ '' retry from the app.''), s1)
      | (Some p, s1) \<Rightarrow>
          if action \<noteq> ''approve''
          then (RedirectTo (pa_redirect p @ separator (pa_redirect p) @ ''error=access_denied'' @ state_suffix (pa_state p)), s1)
          else (case (if ok then insert_code (sha code) (pa_client p) (pa_redirect p) (pa_challenge p) granted_scope
                                   (now' + code_ttl_secs) (os_db s1) else None) of
                  None \<Rightarrow> (Fault, s1)
                | Some db \<Rightarrow>
                    (RedirectTo (pa_redirect p @ separator (pa_redirect p) @ ''code='' @ urlencode code
                        @ state_suffix (pa_state p)), s1\<lparr>os_db := db\<rparr>)))"

section \<open>The token endpoint\<close>

record token_form =
  tf_grant :: string
  tf_code :: "string option"
  tf_redirect :: "string option"
  tf_client :: "string option"
  tf_verifier :: "string option"
  tf_refresh :: "string option"

text \<open>The statements that succeed, the random credentials and the second clock reading.\<close>

record token_env =
  te_begin :: bool
  te_claim :: bool
  te_mint :: bool
  te_commit :: bool
  te_purge :: nat
  te_access :: string
  te_refresh :: string
  te_mint_now :: int

definition mint_pair :: "(string \<Rightarrow> string) \<Rightarrow> token_env \<Rightarrow> string \<Rightarrow> string \<Rightarrow> oauth_db \<Rightarrow> (oauth_response \<times> oauth_db) option" where
  "mint_pair sha e cid scope db =
     (if te_mint e then
        map_option (\<lambda>db'. (TokenOk (te_access e) (te_refresh e) scope, db'))
          (insert_token (sha (te_access e)) (Some (sha (te_refresh e))) cid scope
             (te_mint_now e + access_ttl_secs) (Some (te_mint_now e + refresh_ttl_secs)) db)
      else None)"

text \<open>The end of a transaction: committed with its answer, or a fault and the old state.\<close>

definition finish_tx :: "token_env \<Rightarrow> oauth_response \<Rightarrow> oauth_db \<Rightarrow> oauth_db \<Rightarrow> oauth_response \<times> oauth_db" where
  "finish_tx e r db' db = (if te_commit e then (r, db') else (Fault, db))"

definition mint_tx :: "(string \<Rightarrow> string) \<Rightarrow> token_env \<Rightarrow> int \<Rightarrow> string \<Rightarrow> string \<Rightarrow> oauth_db \<Rightarrow> oauth_db \<Rightarrow> oauth_response \<times> oauth_db" where
  "mint_tx sha e now cid scope db' db =
     (case mint_pair sha e cid scope db' of
        None \<Rightarrow> (Fault, db)
      | Some (r, db'') \<Rightarrow>
          if te_commit e then (r, purge_expired (te_purge e) now db'') else (Fault, db))"

definition code_grant ::
    "(string \<Rightarrow> string) \<Rightarrow> (string \<Rightarrow> string) \<Rightarrow> token_env \<Rightarrow> int \<Rightarrow> token_form \<Rightarrow> oauth_db \<Rightarrow> oauth_response \<times> oauth_db" where
  "code_grant sha s256 e now f db =
     (case (tf_code f, tf_verifier f) of
        (Some code, Some verifier) \<Rightarrow>
          if \<not> te_begin e \<or> \<not> te_claim e then (Fault, db)
          else (case take_code (sha code) now db of
                  None \<Rightarrow> (TokenError ''invalid_grant'', db)
                | Some (row, db') \<Rightarrow>
                    if tf_client f \<noteq> Some (od_client row)
                    then finish_tx e (TokenError ''invalid_grant'') db' db
                    else if (case tf_redirect f of None \<Rightarrow> False | Some r \<Rightarrow> r \<noteq> od_redirect row)
                    then finish_tx e (TokenError ''invalid_grant'') db' db
                    else if \<not> verify_local_bearer (s256 verifier) (od_challenge row)
                    then finish_tx e (TokenError ''invalid_grant'') db' db
                    else mint_tx sha e now (od_client row) (od_scope row) db' db)
      | _ \<Rightarrow> (TokenError ''invalid_request'', db))"

definition refresh_grant ::
    "(string \<Rightarrow> string) \<Rightarrow> token_env \<Rightarrow> int \<Rightarrow> token_form \<Rightarrow> oauth_db \<Rightarrow> oauth_response \<times> oauth_db" where
  "refresh_grant sha e now f db =
     (case tf_refresh f of
        None \<Rightarrow> (TokenError ''invalid_request'', db)
      | Some refresh \<Rightarrow>
          if \<not> te_begin e \<or> \<not> te_claim e then (Fault, db)
          else (case take_refresh (sha refresh) now db of
                  None \<Rightarrow> (TokenError ''invalid_grant'', db)
                | Some (row, db') \<Rightarrow>
                    if (case tf_client f of None \<Rightarrow> False | Some cid \<Rightarrow> cid \<noteq> ot_client row)
                    then finish_tx e (TokenError ''invalid_grant'') db' db
                    else mint_tx sha e now (ot_client row) (ot_scope row) db' db))"

definition token_endpoint ::
    "(string \<Rightarrow> string) \<Rightarrow> (string \<Rightarrow> string) \<Rightarrow> token_env \<Rightarrow> int \<Rightarrow> token_form \<Rightarrow> oauth_state \<Rightarrow> oauth_response \<times> oauth_state" where
  "token_endpoint sha s256 e now f s =
     (case (if tf_grant f = ''authorization_code'' then code_grant sha s256 e now f (os_db s)
            else if tf_grant f = ''refresh_token'' then refresh_grant sha e now f (os_db s)
            else (TokenError ''unsupported_grant_type'', os_db s)) of
        (r, db) \<Rightarrow> (r, s\<lparr>os_db := db\<rparr>))"


section \<open>Single use\<close>

definition live_codes :: "oauth_db \<Rightarrow> string set" where
  "live_codes db = od_hash ` {c \<in> set (codes db). \<not> od_used c}"

definition live_refreshes :: "oauth_db \<Rightarrow> string set" where
  "live_refreshes db = {h. \<exists>t \<in> set (tokens db). ot_refresh t = Some h \<and> \<not> ot_revoked t}"

text \<open>The \<open>UNIQUE\<close> columns.\<close>

definition codes_unique :: "oauth_db \<Rightarrow> bool" where
  "codes_unique db \<longleftrightarrow> distinct (map od_hash (codes db))"

definition refreshes_unique :: "oauth_db \<Rightarrow> bool" where
  "refreshes_unique db \<longleftrightarrow> distinct (map ot_refresh (filter (\<lambda>t. ot_refresh t \<noteq> None) (tokens db)))"

lemma code_by_hash: "codes_unique db \<Longrightarrow> c \<in> set (codes db) \<Longrightarrow> d \<in> set (codes db) \<Longrightarrow> od_hash c = od_hash d \<Longrightarrow> c = d"
  by (simp add: codes_unique_def distinct_map inj_on_def)

lemma token_by_refresh:
  "refreshes_unique db \<Longrightarrow> t \<in> set (tokens db) \<Longrightarrow> u \<in> set (tokens db) \<Longrightarrow> ot_refresh t = Some h
    \<Longrightarrow> ot_refresh u = Some h \<Longrightarrow> t = u"
  by (auto simp: refreshes_unique_def distinct_map inj_on_def)

lemma take_code_Some:
  "take_code h now db = Some (row, db') \<Longrightarrow>
    (\<exists>c \<in> set (codes db). code_claimable h now c \<and> row = c\<lparr>od_used := True\<rparr>) \<and>
    db' = db\<lparr>codes := map (\<lambda>c. if code_claimable h now c then c\<lparr>od_used := True\<rparr> else c) (codes db)\<rparr>"
  by (auto simp: take_code_def find_Some_iff split: option.splits)

lemma take_refresh_Some:
  "take_refresh h now db = Some (row, db') \<Longrightarrow>
    (\<exists>t \<in> set (tokens db). refresh_claimable h now t \<and> row = t\<lparr>ot_revoked := True\<rparr>) \<and>
    db' = db\<lparr>tokens := map (\<lambda>t. if refresh_claimable h now t then t\<lparr>ot_revoked := True\<rparr> else t) (tokens db)\<rparr>"
  by (auto simp: take_refresh_def find_Some_iff split: option.splits)

interpretation code_claims: one_shot codes_unique live_codes "\<lambda>now h db. take_code h now db"
proof
  fix now h db row db'
  assume claim: "take_code h now db = Some (row, db')"
  from take_code_Some[OF this] show "h \<in> live_codes db"
    by (auto simp: live_codes_def code_claimable_def)
  assume unique: "codes_unique db"
  show "live_codes db' \<subseteq> live_codes db - {h}"
    using take_code_Some[OF claim] code_by_hash[OF unique]
    by (auto simp: live_codes_def code_claimable_def split: if_splits)
qed

interpretation refresh_claims: one_shot refreshes_unique live_refreshes "\<lambda>now h db. take_refresh h now db"
proof
  fix now h db row db'
  assume claim: "take_refresh h now db = Some (row, db')"
  from take_refresh_Some[OF this] show "h \<in> live_refreshes db"
    by (auto simp: live_refreshes_def refresh_claimable_def)
  assume unique: "refreshes_unique db"
  show "live_refreshes db' \<subseteq> live_refreshes db - {h}"
  proof
    fix x assume "x \<in> live_refreshes db'"
    then obtain t where t: "t \<in> set (tokens db)" "\<not> refresh_claimable h now t" "ot_refresh t = Some x" "\<not> ot_revoked t"
      using take_refresh_Some[OF claim] by (auto simp: live_refreshes_def split: if_splits)
    obtain u where "u \<in> set (tokens db)" "refresh_claimable h now u" using take_refresh_Some[OF claim] by blast
    with t have "x \<noteq> h" using token_by_refresh[OF unique t(1), of u h] unfolding refresh_claimable_def by blast
    with t show "x \<in> live_refreshes db - {h}" unfolding live_refreshes_def by blast
  qed
qed

interpretation consents: one_shot "\<lambda>_. True" "\<lambda>s. dom (map_of (os_pending s))"
  "\<lambda>now txn s. case pending_take now txn s of (None, _) \<Rightarrow> None | (Some p, s') \<Rightarrow> Some (p, s')"
  by unfold_locales (auto simp: pending_take_def delete_conv' split: option.splits if_splits)


section \<open>Runs of the server\<close>

text \<open>
  What happened, latest first. \<open>Approved h c u x t\<close>: at \<open>t\<close> a consent stored the code of hash \<open>h\<close> for client \<open>c\<close>,
  redirect \<open>u\<close> and challenge \<open>x\<close>. \<open>Redeemed h c u v now m a r\<close>: a request at \<open>now\<close> that named client \<open>c\<close>, redirect \<open>u\<close> and
  verifier \<open>v\<close> was answered with the access token \<open>a\<close> and refresh token \<open>r\<close>, minted at \<open>m\<close>. \<open>Rotated\<close>: the same for a
  refresh token. Each event holds what the request said and what the answer was, not what the tables say.
\<close>

datatype oauth_event =
    Approved string string string string int
  | Redeemed string "string option" "string option" string int int string string
  | Rotated string "string option" int int string string

fun redeemed :: "oauth_event list \<Rightarrow> string list" where
  "redeemed [] = []"
| "redeemed (Redeemed h c u v now m a r # L) = h # redeemed L"
| "redeemed (_ # L) = redeemed L"

fun rotated :: "oauth_event list \<Rightarrow> string list" where
  "rotated [] = []"
| "rotated (Rotated h c now m a r # L) = h # rotated L"
| "rotated (_ # L) = rotated L"

fun event_refresh :: "oauth_event \<Rightarrow> string option" where
  "event_refresh (Redeemed h c u v now m a r) = Some r"
| "event_refresh (Rotated h c now m a r) = Some r"
| "event_refresh (Approved _ _ _ _ _) = None"

abbreviation issued_codes :: "oauth_event list \<Rightarrow> string set" where
  "issued_codes L \<equiv> {h. \<exists>c u x t. Approved h c u x t \<in> set L}"

abbreviation issued_refreshes :: "oauth_event list \<Rightarrow> string set" where
  "issued_refreshes L \<equiv> {h. \<exists>e \<in> set L. event_refresh e = Some h}"

text \<open>The consents that a step recorded at \<open>t\<close>, read off the new rows.\<close>

definition approvals :: "int \<Rightarrow> oauth_db \<Rightarrow> oauth_db \<Rightarrow> oauth_event list" where
  "approvals t db db' = map (\<lambda>c. Approved (od_hash c) (od_client c) (od_redirect c) (od_challenge c) t)
     (filter (\<lambda>c. c \<notin> set (codes db)) (codes db'))"

definition grants :: "(string \<Rightarrow> string) \<Rightarrow> token_env \<Rightarrow> int \<Rightarrow> token_form \<Rightarrow> oauth_response \<Rightarrow> oauth_event list" where
  "grants sha e now f r =
     (case r of
        TokenOk access refresh _ \<Rightarrow>
          if tf_grant f = ''authorization_code''
          then [Redeemed (sha (unwrap_or [] (tf_code f))) (tf_client f) (tf_redirect f) (unwrap_or [] (tf_verifier f)) now
                  (te_mint_now e) (sha access) (sha refresh)]
          else [Rotated (sha (unwrap_or [] (tf_refresh f))) (tf_client f) now (te_mint_now e) (sha access) (sha refresh)]
      | _ \<Rightarrow> [])"

text \<open>Every request on every endpoint; credentials are drawn afresh.\<close>

inductive oauth_run ::
    "(string \<Rightarrow> string) \<Rightarrow> (string \<Rightarrow> string) \<Rightarrow> oauth_state \<Rightarrow> oauth_event list \<Rightarrow> bool" for sha s256 where
  run_start: "oauth_run sha s256 \<lparr>os_db = \<lparr>clients = [], codes = [], tokens = [], next_token_id = 1\<rparr>, os_pending = []\<rparr> []"
| run_register: "oauth_run sha s256 s L \<Longrightarrow> oauth_run sha s256 (snd (register json_list ok cid uris name s)) L"
| run_authorize: "oauth_run sha s256 s L \<Longrightarrow> oauth_run sha s256 (snd (authorize parse_list ok now txn q s)) L"
| run_consent: "oauth_run sha s256 s L \<Longrightarrow> sha code \<notin> issued_codes L
    \<Longrightarrow> consent sha ok now now' code txn action s = (r, s')
    \<Longrightarrow> oauth_run sha s256 s' (approvals now' (os_db s) (os_db s') @ L)"
| run_token: "oauth_run sha s256 s L \<Longrightarrow> sha (te_refresh e) \<notin> issued_refreshes L
    \<Longrightarrow> token_endpoint sha s256 e now f s = (r, s')
    \<Longrightarrow> oauth_run sha s256 s' (grants sha e now f r @ L)"
| run_touch: "oauth_run sha s256 s L \<Longrightarrow> oauth_run sha s256 (s\<lparr>os_db := touch_token clock i (os_db s)\<rparr>) L"
| run_purge: "oauth_run sha s256 s L \<Longrightarrow> oauth_run sha s256 (s\<lparr>os_db := purge_expired n now (os_db s)\<rparr>) L"

text \<open>
  The tokens the rules of the protocol allow: \<open>issued s256 L a r c h m\<close> says that \<open>a\<close> and \<open>r\<close> were handed at \<open>m\<close> to client
  \<open>c\<close> under the consent of code \<open>h\<close>. The first pair needs a redemption by the client the code was approved for, with the
  approved redirect if it named one, with a verifier of the approved challenge, within five minutes of the consent;
  a later pair needs a rotation of the refresh token before it, by the same client if it named one, within ninety
  days of that token's minting.
\<close>

inductive issued :: "(string \<Rightarrow> string) \<Rightarrow> oauth_event list \<Rightarrow> string \<Rightarrow> string \<Rightarrow> string \<Rightarrow> string \<Rightarrow> int \<Rightarrow> bool" for s256 L where
  by_code: "Approved h c u (s256 v) t \<in> set L \<Longrightarrow> Redeemed h (Some c) u' v now m a r \<in> set L \<Longrightarrow> u' \<in> {None, Some u}
    \<Longrightarrow> now < t + 300 \<Longrightarrow> issued s256 L a r c h m"
| by_refresh: "issued s256 L a' r' c h m' \<Longrightarrow> Rotated r' c' now m a r \<in> set L \<Longrightarrow> c' \<in> {None, Some c}
    \<Longrightarrow> now < m' + 90 * 86400 \<Longrightarrow> issued s256 L a r c h m"

lemma issued_more: "issued s256 L a r c h m \<Longrightarrow> set L \<subseteq> set M \<Longrightarrow> issued s256 M a r c h m"
proof (induction rule: issued.induct)
  case (by_code h c u v t u' now m a r)
  then show ?case by (intro issued.by_code[of h c u s256 v t M u' now m a r]) auto
next
  case (by_refresh a' r' c h m' c' now m a r)
  then show ?case by (intro issued.by_refresh[of s256 M a' r' c h m' c' now m a r]) auto
qed

text \<open>A row of the token table is one that was issued, with the lifetimes the server grants.\<close>

definition token_traced :: "(string \<Rightarrow> string) \<Rightarrow> oauth_event list \<Rightarrow> oauth_token \<Rightarrow> bool" where
  "token_traced s256 L t \<longleftrightarrow> ot_scope t = ''run'' \<and>
     (\<exists>r h m. ot_refresh t = Some r \<and> issued s256 L (ot_access t) r (ot_client t) h m \<and>
        ot_access_expires t = m + 7 * 86400 \<and> ot_refresh_expires t = Some (m + 90 * 86400))"

lemma token_traced_more: "token_traced s256 L t \<Longrightarrow> set L \<subseteq> set M \<Longrightarrow> token_traced s256 M t"
  unfolding token_traced_def using issued_more by blast

definition log_ok :: "oauth_event list \<Rightarrow> bool" where
  "log_ok L \<longleftrightarrow> distinct (redeemed L) \<and> distinct (rotated L)
     \<and> set (redeemed L) \<subseteq> issued_codes L \<and> set (rotated L) \<subseteq> issued_refreshes L"

definition codes_ok :: "oauth_db \<Rightarrow> oauth_event list \<Rightarrow> bool" where
  "codes_ok db L \<longleftrightarrow> codes_unique db \<and> live_codes db \<inter> set (redeemed L) = {}
     \<and> (\<forall>c \<in> set (codes db). od_scope c = granted_scope \<and>
          Approved (od_hash c) (od_client c) (od_redirect c) (od_challenge c) (od_expires c - 300) \<in> set L)"

definition tokens_ok :: "(string \<Rightarrow> string) \<Rightarrow> oauth_db \<Rightarrow> oauth_event list \<Rightarrow> bool" where
  "tokens_ok s256 db L \<longleftrightarrow> refreshes_unique db \<and> live_refreshes db \<inter> set (rotated L) = {}
     \<and> (\<forall>t \<in> set (tokens db). token_traced s256 L t \<and> (\<forall>h. ot_refresh t = Some h \<longrightarrow> h \<in> issued_refreshes L))"

definition oauth_ok :: "(string \<Rightarrow> string) \<Rightarrow> oauth_db \<Rightarrow> oauth_event list \<Rightarrow> bool" where
  "oauth_ok s256 db L \<longleftrightarrow> log_ok L \<and> codes_ok db L \<and> tokens_ok s256 db L"

text \<open>Fewer rows, or rows that differ in their use stamp only, keep the invariant.\<close>

lemma distinct_map_filter': "distinct (map f (filter P xs)) \<Longrightarrow> distinct (map f (filter P (filter Q xs)))"
  by (induction xs) (auto split: if_splits)

lemma purge_codes_rows:
  "codes (purge_expired n now db) = filter (\<lambda>c. n = 0 \<or> \<not> (od_expires c \<le> now \<or> od_used c)) (codes db)"
  by (simp add: purge_expired_def purge_codes_def purge_tokens_def)

lemma purge_tokens_rows: "\<exists>Q. tokens (purge_expired n now db) = filter Q (tokens db)"
proof (cases "n = 0 \<or> n = 1")
  case True
  then have "tokens (purge_expired n now db) = filter (\<lambda>_. True) (tokens db)"
    by (auto simp: purge_expired_def purge_codes_def)
  then show ?thesis by blast
next
  case False
  then show ?thesis by (auto simp: purge_expired_def purge_codes_def purge_tokens_def)
qed

lemma codes_ok_filter:
  "codes_ok db L \<Longrightarrow> codes db' = filter Q (codes db) \<Longrightarrow> codes_ok db' L"
  by (auto simp: codes_ok_def codes_unique_def live_codes_def distinct_map_filter)

lemma tokens_ok_filter:
  assumes "tokens_ok s256 db L" "tokens db' = filter Q (tokens db)"
  shows "tokens_ok s256 db' L"
proof -
  have "refreshes_unique db'" using assms distinct_map_filter'
    unfolding tokens_ok_def refreshes_unique_def by metis
  moreover have "live_refreshes db' \<subseteq> live_refreshes db" using assms(2) by (auto simp: live_refreshes_def)
  ultimately show ?thesis using assms unfolding tokens_ok_def by auto
qed

lemma purge_ok: "oauth_ok s256 db L \<Longrightarrow> oauth_ok s256 (purge_expired n now db) L"
  using purge_codes_rows[of n now db] purge_tokens_rows[of n now db] codes_ok_filter tokens_ok_filter
  unfolding oauth_ok_def by metis

lemma codes_ok_map:
  assumes "codes_ok db L" "codes db' = map f (codes db)"
    and "\<And>c. od_hash (f c) = od_hash c \<and> od_client (f c) = od_client c \<and> od_redirect (f c) = od_redirect c
      \<and> od_challenge (f c) = od_challenge c \<and> od_scope (f c) = od_scope c \<and> od_expires (f c) = od_expires c \<and> (od_used c \<longrightarrow> od_used (f c))"
  shows "codes_ok db' L"
proof -
  have "codes_unique db'" using assms unfolding codes_ok_def codes_unique_def by (simp add: comp_def)
  moreover have "live_codes db' \<subseteq> live_codes db" using assms(2,3) by (fastforce simp: live_codes_def)
  moreover have "\<forall>c \<in> set (codes db'). od_scope c = granted_scope \<and>
      Approved (od_hash c) (od_client c) (od_redirect c) (od_challenge c) (od_expires c - 300) \<in> set L"
    using assms(1,3) unfolding assms(2) codes_ok_def by simp
  ultimately show ?thesis using assms(1) unfolding codes_ok_def by blast
qed

lemma refresh_map:
  "(\<And>t. ot_refresh (f t) = ot_refresh t) \<Longrightarrow>
    map ot_refresh (filter (\<lambda>t. ot_refresh t \<noteq> None) (map f ts)) = map ot_refresh (filter (\<lambda>t. ot_refresh t \<noteq> None) ts)"
  by (induction ts) auto

lemma tokens_ok_map:
  assumes "tokens_ok s256 db L" "tokens db' = map f (tokens db)"
    and "\<And>t. ot_refresh (f t) = ot_refresh t \<and> ot_client (f t) = ot_client t \<and> ot_scope (f t) = ot_scope t \<and> ot_access (f t) = ot_access t
      \<and> ot_access_expires (f t) = ot_access_expires t \<and> ot_refresh_expires (f t) = ot_refresh_expires t \<and> (ot_revoked t \<longrightarrow> ot_revoked (f t))"
  shows "tokens_ok s256 db' L"
proof -
  have "refreshes_unique db'"
    using assms refresh_map[of f "tokens db"] unfolding tokens_ok_def refreshes_unique_def by metis
  moreover have "live_refreshes db' \<subseteq> live_refreshes db" using assms(2,3) by (fastforce simp: live_refreshes_def)
  moreover have "\<forall>t \<in> set (tokens db'). token_traced s256 L t \<and> (\<forall>h. ot_refresh t = Some h \<longrightarrow> h \<in> issued_refreshes L)"
    using assms(1,3) unfolding assms(2) tokens_ok_def by (simp add: token_traced_def)
  ultimately show ?thesis using assms(1) unfolding tokens_ok_def by blast
qed

lemma touch_ok:
  assumes "oauth_ok s256 db L"
  shows "oauth_ok s256 (touch_token clock i db) L"
proof -
  have "codes_ok (touch_token clock i db) L"
    by (rule codes_ok_map[where f = "\<lambda>c. c" and db = db]) (use assms in \<open>simp_all add: oauth_ok_def touch_token_def\<close>)
  moreover have "tokens_ok s256 (touch_token clock i db) L"
    by (rule tokens_ok_map[where db = db and f = "\<lambda>t. if ot_id t = i then t\<lparr>ot_last_used := Some clock\<rparr> else t"])
      (use assms in \<open>simp_all add: oauth_ok_def touch_token_def\<close>)
  ultimately show ?thesis using assms by (simp add: oauth_ok_def)
qed


text \<open>What each endpoint does to the tables.\<close>

lemma register_db: "oauth_ok s256 (os_db s) L \<Longrightarrow> oauth_ok s256 (os_db (snd (register json_list ok cid uris name s))) L"
  by (auto simp: register_def insert_client_def oauth_ok_def codes_ok_def tokens_ok_def codes_unique_def
      refreshes_unique_def live_codes_def live_refreshes_def Let_def split: option.splits if_splits)

lemma authorize_db [simp]: "os_db (snd (authorize parse_list ok now txn q s)) = os_db s"
  by (simp add: authorize_def pending_insert_def Let_def split: option.split)

lemma pending_take_db: "pending_take now txn s = (p, s') \<Longrightarrow> os_db s' = os_db s"
  by (auto simp: pending_take_def split: option.splits if_splits)

lemma insert_code_Some:
  "insert_code h cid uri x scope t db = Some db' \<Longrightarrow> h \<notin> od_hash ` set (codes db) \<and>
    db' = db\<lparr>codes := codes db @ [\<lparr>od_hash = h, od_client = cid, od_redirect = uri, od_challenge = x,
      od_scope = scope, od_expires = t, od_used = False\<rparr>]\<rparr>"
  by (auto simp: insert_code_def list_ex_iff split: if_splits)

lemma consent_db:
  assumes "consent sha ok now now' code txn action s = (r, s')"
  shows "os_db s' = os_db s \<or>
    (\<exists>p s1. pending_take now txn s = (Some p, s1) \<and> action = ''approve'' \<and>
      insert_code (sha code) (pa_client p) (pa_redirect p) (pa_challenge p) granted_scope (now' + code_ttl_secs)
        (os_db s) = Some (os_db s'))"
proof -
  obtain p s1 where take: "pending_take now txn s = (p, s1)" by (cases "pending_take now txn s")
  then have "os_db s1 = os_db s" by (rule pending_take_db)
  with assms take show ?thesis
    by (cases p) (auto simp: consent_def split: if_splits option.splits)
qed

lemma insert_token_Some:
  "insert_token a (Some h) cid scope ae re db = Some db' \<Longrightarrow> Some h \<notin> ot_refresh ` set (tokens db) \<and>
    db' = db\<lparr>tokens := tokens db @ [\<lparr>ot_id = next_token_id db, ot_access = a, ot_refresh = Some h, ot_client = cid,
      ot_scope = scope, ot_access_expires = ae, ot_refresh_expires = re, ot_revoked = False, ot_last_used = None\<rparr>],
      next_token_id := next_token_id db + 1\<rparr>"
  by (auto simp: insert_token_def list_ex_iff split: if_splits)

definition minted :: "(string \<Rightarrow> string) \<Rightarrow> token_env \<Rightarrow> int \<Rightarrow> string \<Rightarrow> string \<Rightarrow> oauth_db \<Rightarrow> oauth_db \<Rightarrow> bool" where
  "minted sha e now cid scope db db' \<longleftrightarrow> (\<exists>d.
     insert_token (sha (te_access e)) (Some (sha (te_refresh e))) cid scope (te_mint_now e + access_ttl_secs)
       (Some (te_mint_now e + refresh_ttl_secs)) db = Some d \<and> db' = purge_expired (te_purge e) now d)"

lemma mint_tx_cases:
  "mint_tx sha e now cid scope db' db = (r, d) \<Longrightarrow>
    r = Fault \<and> d = db \<or> r = TokenOk (te_access e) (te_refresh e) scope \<and> minted sha e now cid scope db' d"
  by (auto simp: mint_tx_def mint_pair_def minted_def split: option.splits if_splits prod.splits)

lemma finish_tx_cases: "finish_tx e r db' db = (r', d) \<Longrightarrow> r' = Fault \<and> d = db \<or> r' = r \<and> d = db'"
  by (auto simp: finish_tx_def split: if_splits)

lemma code_grant_cases:
  assumes "code_grant sha s256 e now f db = (r, d)"
  shows "(\<forall>a b c. r \<noteq> TokenOk a b c) \<and> (d = db \<or> (\<exists>h row. take_code h now db = Some (row, d))) \<or>
    (\<exists>code verifier row db'. tf_code f = Some code \<and> tf_verifier f = Some verifier \<and>
       take_code (sha code) now db = Some (row, db') \<and> tf_client f = Some (od_client row) \<and>
       tf_redirect f \<in> {None, Some (od_redirect row)} \<and> s256 verifier = od_challenge row \<and> r = TokenOk (te_access e) (te_refresh e) (od_scope row) \<and>
       minted sha e now (od_client row) (od_scope row) db' d)"
proof (cases "tf_code f")
  case (Some code)
  show ?thesis
  proof (cases "tf_verifier f")
    case (Some verifier)
    show ?thesis
    proof (cases "take_code (sha code) now db")
      case (Some p)
      then obtain row db' where take: "take_code (sha code) now db = Some (row, db')" by (cases p) auto
      show ?thesis
      proof (cases "te_begin e \<and> te_claim e")
        case True
        with assms \<open>tf_code f = _\<close> \<open>tf_verifier f = _\<close> take show ?thesis
          by (auto simp: code_grant_def split: if_splits option.splits dest!: finish_tx_cases mint_tx_cases)
      qed (use assms \<open>tf_code f = _\<close> \<open>tf_verifier f = _\<close> in \<open>auto simp: code_grant_def\<close>)
    qed (use assms \<open>tf_code f = _\<close> \<open>tf_verifier f = _\<close> in \<open>auto simp: code_grant_def split: if_splits\<close>)
  qed (use assms \<open>tf_code f = _\<close> in \<open>auto simp: code_grant_def\<close>)
qed (use assms in \<open>auto simp: code_grant_def\<close>)

lemma refresh_grant_cases:
  assumes "refresh_grant sha e now f db = (r, d)"
  shows "(\<forall>a b c. r \<noteq> TokenOk a b c) \<and> (d = db \<or> (\<exists>h row. take_refresh h now db = Some (row, d))) \<or>
    (\<exists>refresh row db'. tf_refresh f = Some refresh \<and> take_refresh (sha refresh) now db = Some (row, db') \<and>
       tf_client f \<in> {None, Some (ot_client row)} \<and> r = TokenOk (te_access e) (te_refresh e) (ot_scope row) \<and>
       minted sha e now (ot_client row) (ot_scope row) db' d)"
proof (cases "tf_refresh f")
  case (Some refresh)
  show ?thesis
  proof (cases "take_refresh (sha refresh) now db")
    case (Some p)
    then obtain row db' where take: "take_refresh (sha refresh) now db = Some (row, db')" by (cases p) auto
    show ?thesis
    proof (cases "te_begin e \<and> te_claim e")
      case True
      with assms \<open>tf_refresh f = _\<close> take show ?thesis
        by (auto simp: refresh_grant_def split: if_splits option.splits dest!: finish_tx_cases mint_tx_cases)
    qed (use assms \<open>tf_refresh f = _\<close> in \<open>auto simp: refresh_grant_def\<close>)
  qed (use assms \<open>tf_refresh f = _\<close> in \<open>auto simp: refresh_grant_def split: if_splits\<close>)
qed (use assms in \<open>auto simp: refresh_grant_def\<close>)


section \<open>The invariant of the server\<close>

lemma redeemed_append [simp]: "redeemed (A @ L) = redeemed A @ redeemed L"
  by (induction A rule: redeemed.induct) auto

lemma rotated_append [simp]: "rotated (A @ L) = rotated A @ rotated L"
  by (induction A rule: rotated.induct) auto

lemma approvals_only [simp]: "redeemed (approvals t db db') = []" "rotated (approvals t db db') = []"
proof -
  have "redeemed (map (\<lambda>c. Approved (od_hash c) (od_client c) (od_redirect c) (od_challenge c) t) cs) = []"
    "rotated (map (\<lambda>c. Approved (od_hash c) (od_client c) (od_redirect c) (od_challenge c) t) cs) = []" for cs
    by (induction cs) auto
  then show "redeemed (approvals t db db') = []" "rotated (approvals t db db') = []" by (simp_all add: approvals_def)
qed


lemma log_ok_approvals: "log_ok L \<Longrightarrow> log_ok (approvals t db db' @ L)"
  unfolding log_ok_def redeemed_append rotated_append approvals_only append_Nil set_append by blast

lemma tokens_ok_more:
  assumes "tokens_ok s256 db L" "set L \<subseteq> set M" "live_refreshes db \<inter> set (rotated M) = {}"
  shows "tokens_ok s256 db M"
  unfolding tokens_ok_def
proof (intro conjI ballI)
  show "refreshes_unique db" using assms(1) by (simp add: tokens_ok_def)
  show "live_refreshes db \<inter> set (rotated M) = {}" by (rule assms(3))
  fix t assume "t \<in> set (tokens db)"
  then have t: "token_traced s256 L t" "\<forall>h. ot_refresh t = Some h \<longrightarrow> h \<in> issued_refreshes L"
    using assms(1) by (auto simp: tokens_ok_def)
  show "token_traced s256 M t" by (rule token_traced_more[OF t(1) assms(2)])
  show "\<forall>h. ot_refresh t = Some h \<longrightarrow> h \<in> issued_refreshes M" using t(2) assms(2) by blast
qed

lemma codes_ok_more:
  "codes_ok db L \<Longrightarrow> set L \<subseteq> set M \<Longrightarrow> live_codes db \<inter> set (redeemed M) = {} \<Longrightarrow> codes_ok db M"
  unfolding codes_ok_def by blast

lemma live_codes_add:
  "\<not> od_used c \<Longrightarrow> live_codes (db\<lparr>codes := codes db @ [c]\<rparr>) = insert (od_hash c) (live_codes db)"
  by (auto simp: live_codes_def)

lemma consent_ok:
  assumes "oauth_ok s256 (os_db s) L" "sha code \<notin> issued_codes L" "consent sha ok now now' code txn action s = (r, s')"
  shows "oauth_ok s256 (os_db s') (approvals now' (os_db s) (os_db s') @ L)"
  using consent_db[OF assms(3)]
proof (elim disjE exE conjE)
  assume "os_db s' = os_db s"
  then have "approvals now' (os_db s) (os_db s') = []" by (simp add: approvals_def)
  with assms(1) \<open>os_db s' = os_db s\<close> show ?thesis by simp
next
  fix p s1
  assume ins: "insert_code (sha code) (pa_client p) (pa_redirect p) (pa_challenge p) granted_scope
    (now' + code_ttl_secs) (os_db s) = Some (os_db s')"
  let ?A = "approvals now' (os_db s) (os_db s')"
  let ?c = "\<lparr>od_hash = sha code, od_client = pa_client p, od_redirect = pa_redirect p, od_challenge = pa_challenge p,
    od_scope = granted_scope, od_expires = now' + code_ttl_secs, od_used = False\<rparr>"
  have new: "sha code \<notin> od_hash ` set (codes (os_db s))" and db: "os_db s' = (os_db s)\<lparr>codes := codes (os_db s) @ [?c]\<rparr>"
    using insert_code_Some[OF ins] by auto
  have fresh: "sha code \<notin> set (redeemed L)"
    using assms(1,2) unfolding oauth_ok_def log_ok_def by blast
  have A: "Approved (sha code) (pa_client p) (pa_redirect p) (pa_challenge p) now' \<in> set ?A"
    using new by (force simp: approvals_def db)
  have "codes_unique (os_db s')" using assms(1) new by (simp add: db oauth_ok_def codes_ok_def codes_unique_def)
  moreover have "live_codes (os_db s') = insert (sha code) (live_codes (os_db s))"
    by (simp add: db live_codes_add)
  moreover have "od_scope c = granted_scope \<and>
      Approved (od_hash c) (od_client c) (od_redirect c) (od_challenge c) (od_expires c - 300) \<in> set (?A @ L)"
    if "c \<in> set (codes (os_db s'))" for c
  proof (cases "c = ?c")
    case False
    with that have "c \<in> set (codes (os_db s))" by (simp add: db)
    with assms(1) show ?thesis by (simp add: oauth_ok_def codes_ok_def)
  qed (use A in \<open>simp add: code_ttl_secs_def\<close>)
  ultimately have "codes_ok (os_db s') (?A @ L)"
    using assms(1) fresh unfolding oauth_ok_def codes_ok_def by simp
  moreover have tok: "tokens_ok s256 (os_db s') L"
    using assms(1) by (simp add: oauth_ok_def tokens_ok_def refreshes_unique_def live_refreshes_def db)
  then have "tokens_ok s256 (os_db s') (?A @ L)" by (rule tokens_ok_more) (use tok in \<open>auto simp: tokens_ok_def\<close>)
  ultimately show ?thesis using assms(1) log_ok_approvals unfolding oauth_ok_def by blast
qed

text \<open>Claiming a credential without minting burns it.\<close>

lemma take_code_ok:
  assumes "codes_ok db L" "take_code h now db = Some (row, db')"
  shows "codes_ok db' L"
  by (rule codes_ok_map[where db = db and f = "\<lambda>c. if code_claimable h now c then c\<lparr>od_used := True\<rparr> else c"])
    (use assms(1) take_code_Some[OF assms(2)] in simp_all)

lemma take_refresh_ok:
  assumes "tokens_ok s256 db L" "take_refresh h now db = Some (row, db')"
  shows "tokens_ok s256 db' L"
  by (rule tokens_ok_map[where db = db and f = "\<lambda>t. if refresh_claimable h now t then t\<lparr>ot_revoked := True\<rparr> else t"])
    (use assms(1) take_refresh_Some[OF assms(2)] in simp_all)

lemma take_code_tokens: "take_code h now db = Some (row, db') \<Longrightarrow> tokens_ok s256 db L \<Longrightarrow> tokens_ok s256 db' L"
  by (frule take_code_Some) (simp add: tokens_ok_def refreshes_unique_def live_refreshes_def)

lemma take_refresh_codes: "take_refresh h now db = Some (row, db') \<Longrightarrow> codes_ok db L \<Longrightarrow> codes_ok db' L"
  by (frule take_refresh_Some) (simp add: codes_ok_def codes_unique_def live_codes_def)

text \<open>Minting adds one live token.\<close>

lemma minted_ok:
  assumes "minted sha e now cid granted_scope db db'" "codes_ok db M" "tokens_ok s256 db M"
    and "sha (te_refresh e) \<notin> set (rotated M)" "sha (te_refresh e) \<in> issued_refreshes M"
    and "issued s256 M (sha (te_access e)) (sha (te_refresh e)) cid h (te_mint_now e)" "log_ok M"
  shows "oauth_ok s256 db' M"
proof -
  obtain d where ins: "insert_token (sha (te_access e)) (Some (sha (te_refresh e))) cid granted_scope
      (te_mint_now e + access_ttl_secs) (Some (te_mint_now e + refresh_ttl_secs)) db = Some d"
    and db': "db' = purge_expired (te_purge e) now d"
    using assms(1) by (auto simp: minted_def)
  note d = insert_token_Some[OF ins]
  have "refreshes_unique d" using d assms(3) by (auto simp: tokens_ok_def refreshes_unique_def)
  moreover have "live_refreshes d = insert (sha (te_refresh e)) (live_refreshes db)"
    using d by (auto simp: live_refreshes_def)
  moreover have "token_traced s256 M t" if "t \<in> set (tokens d)" "t \<notin> set (tokens db)" for t
    using that d assms(6) by (auto simp: token_traced_def granted_scope_def access_ttl_secs_def refresh_ttl_secs_def)
  ultimately have "tokens_ok s256 d M" using d assms(3-5) unfolding tokens_ok_def by auto
  moreover have "codes_ok d M" using d assms(2) by (simp add: codes_ok_def codes_unique_def live_codes_def)
  ultimately show ?thesis using assms(7) purge_ok unfolding db' oauth_ok_def by blast
qed


lemma grants_simps [simp]:
  "(\<And>a b c. r \<noteq> TokenOk a b c) \<Longrightarrow> grants sha e now f r = []"
  by (cases r) (auto simp: grants_def)

lemma code_grant_ok:
  assumes "oauth_ok s256 db L" "sha (te_refresh e) \<notin> issued_refreshes L" "tf_grant f = ''authorization_code''"
    and "code_grant sha s256 e now f db = (r, d)"
  shows "oauth_ok s256 d (grants sha e now f r @ L)"
  using code_grant_cases[OF assms(4)]
proof (elim disjE exE conjE)
  fix h row assume "\<forall>a b c. r \<noteq> TokenOk a b c" "take_code h now db = Some (row, d)"
  then show ?thesis using assms(1) take_code_ok take_code_tokens unfolding oauth_ok_def by fastforce
next
  fix code verifier row db'
  assume f: "tf_code f = Some code" "tf_verifier f = Some verifier"
    and take: "take_code (sha code) now db = Some (row, db')"
    and client: "tf_client f = Some (od_client row)" and redirect: "tf_redirect f \<in> {None, Some (od_redirect row)}"
    and pkce: "s256 verifier = od_challenge row"
    and r: "r = TokenOk (te_access e) (te_refresh e) (od_scope row)"
    and mint: "minted sha e now (od_client row) (od_scope row) db' d"
  let ?ev = "Redeemed (sha code) (Some (od_client row)) (tf_redirect f) verifier now (te_mint_now e) (sha (te_access e)) (sha (te_refresh e))"
  let ?M = "?ev # L"
  have log: "grants sha e now f r @ L = ?M" using f client r assms(3) by (simp add: grants_def)
  have ok: "log_ok L" "codes_ok db L" "tokens_ok s256 db L" using assms(1) by (auto simp: oauth_ok_def)
  obtain c where c: "c \<in> set (codes db)" "code_claimable (sha code) now c" "row = c\<lparr>od_used := True\<rparr>"
    using take_code_Some[OF take] by blast
  have row: "od_scope row = granted_scope" "now < od_expires row"
    "Approved (sha code) (od_client row) (od_redirect row) (od_challenge row) (od_expires row - 300) \<in> set L"
    using ok(2) c unfolding codes_ok_def code_claimable_def by fastforce+
  have "issued s256 ?M (sha (te_access e)) (sha (te_refresh e)) (od_client row) (sha code) (te_mint_now e)"
    by (rule issued.by_code[where u = "od_redirect row" and u' = "tf_redirect f" and v = verifier and t = "od_expires row - 300" and now = now])
      (use row redirect pkce in auto)
  moreover have once: "distinct (sha code # redeemed L)" "live_codes db' \<inter> set (sha code # redeemed L) = {}"
    using code_claims.spent_once[OF _ _ _ take, of "redeemed L"] ok(1,2) by (auto simp: codes_ok_def log_ok_def)
  moreover have "sha (te_refresh e) \<notin> set (rotated L)" using assms(2) ok(1) by (auto simp: log_ok_def)
  moreover have "log_ok ?M" using once(1) ok(1) row(3) unfolding log_ok_def by auto
  moreover have "codes_ok db' ?M"
    by (rule codes_ok_more[OF take_code_ok[OF ok(2) take]]) (use once in auto)
  moreover have "tokens_ok s256 db' ?M"
    by (rule tokens_ok_more[OF take_code_tokens[OF take ok(3)]])
      (use take_code_tokens[OF take ok(3)] in \<open>auto simp: tokens_ok_def\<close>)
  ultimately show ?thesis
    unfolding log using mint minted_ok[where M = ?M and db = db'] row(1) by fastforce
qed (use assms(1) in simp)

lemma refresh_grant_ok:
  assumes "oauth_ok s256 db L" "sha (te_refresh e) \<notin> issued_refreshes L" "tf_grant f \<noteq> ''authorization_code''"
    and "refresh_grant sha e now f db = (r, d)"
  shows "oauth_ok s256 d (grants sha e now f r @ L)"
  using refresh_grant_cases[OF assms(4)]
proof (elim disjE exE conjE)
  fix h row assume "\<forall>a b c. r \<noteq> TokenOk a b c" "take_refresh h now db = Some (row, d)"
  then show ?thesis using assms(1) take_refresh_ok take_refresh_codes unfolding oauth_ok_def by fastforce
next
  fix refresh row db'
  assume f: "tf_refresh f = Some refresh"
    and take: "take_refresh (sha refresh) now db = Some (row, db')"
    and client: "tf_client f \<in> {None, Some (ot_client row)}"
    and r: "r = TokenOk (te_access e) (te_refresh e) (ot_scope row)"
    and mint: "minted sha e now (ot_client row) (ot_scope row) db' d"
  let ?M = "Rotated (sha refresh) (tf_client f) now (te_mint_now e) (sha (te_access e)) (sha (te_refresh e)) # L"
  have log: "grants sha e now f r @ L = ?M" using f r assms(3) by (simp add: grants_def)
  have ok: "log_ok L" "codes_ok db L" "tokens_ok s256 db L" using assms(1) by (auto simp: oauth_ok_def)
  obtain t where t: "t \<in> set (tokens db)" "refresh_claimable (sha refresh) now t" "row = t\<lparr>ot_revoked := True\<rparr>"
    using take_refresh_Some[OF take] by blast
  have "token_traced s256 L t" and issued: "sha refresh \<in> issued_refreshes L"
    using ok(3) t unfolding tokens_ok_def refresh_claimable_def by fastforce+
  then obtain h m where row: "ot_scope row = granted_scope" "issued s256 L (ot_access t) (sha refresh) (ot_client row) h m"
      "now < m + 90 * 86400"
    using t(2,3) by (auto simp: token_traced_def granted_scope_def refresh_claimable_def)
  have "issued s256 ?M (sha (te_access e)) (sha (te_refresh e)) (ot_client row) h (te_mint_now e)"
    by (rule issued.by_refresh[OF issued_more[OF row(2)], where c' = "tf_client f" and now = now]) (use row(3) client in auto)
  moreover have once: "distinct (sha refresh # rotated L)" "live_refreshes db' \<inter> set (sha refresh # rotated L) = {}"
    using refresh_claims.spent_once[OF _ _ _ take, of "rotated L"] ok(1,3) by (auto simp: tokens_ok_def log_ok_def)
  moreover have "sha (te_refresh e) \<notin> set (rotated L)" "sha (te_refresh e) \<noteq> sha refresh"
    using assms(2) issued ok(1) unfolding log_ok_def by auto
  moreover have "log_ok ?M" using once(1) ok(1) issued unfolding log_ok_def by auto
  moreover have "codes_ok db' ?M"
    by (rule codes_ok_more[OF take_refresh_codes[OF take ok(2)]])
      (use take_refresh_codes[OF take ok(2)] in \<open>auto simp: codes_ok_def\<close>)
  moreover have "tokens_ok s256 db' ?M"
    by (rule tokens_ok_more[OF take_refresh_ok[OF ok(3) take]]) (use once in auto)
  ultimately show ?thesis
    unfolding log using mint minted_ok[where M = ?M and db = db'] row(1) by fastforce
qed (use assms(1) in simp)

lemma token_ok:
  assumes "oauth_ok s256 (os_db s) L" "sha (te_refresh e) \<notin> issued_refreshes L"
    and "token_endpoint sha s256 e now f s = (r, s')"
  shows "oauth_ok s256 (os_db s') (grants sha e now f r @ L)"
proof (cases "tf_grant f = ''authorization_code''")
  case True
  then have "code_grant sha s256 e now f (os_db s) = (r, os_db s')"
    using assms(3) by (auto simp: token_endpoint_def split: prod.splits)
  then show ?thesis
    using code_grant_ok[where sha = sha and db = "os_db s" and e = e and f = f] assms(1,2) True by blast
next
  case False
  show ?thesis
  proof (cases "tf_grant f = ''refresh_token''")
    case True
    then have "refresh_grant sha e now f (os_db s) = (r, os_db s')"
      using assms(3) by (auto simp: token_endpoint_def split: prod.splits)
    then show ?thesis
      using refresh_grant_ok[where sha = sha and db = "os_db s" and e = e and f = f] assms(1,2) False by blast
  qed (use assms(1,3) False in \<open>auto simp: token_endpoint_def\<close>)
qed

lemma oauth_run_ok: "oauth_run sha s256 s L \<Longrightarrow> oauth_ok s256 (os_db s) L"
proof (induction rule: oauth_run.induct)
  case run_start
  then show ?case
    by (simp add: oauth_ok_def log_ok_def codes_ok_def tokens_ok_def codes_unique_def refreshes_unique_def
        live_codes_def live_refreshes_def)
qed (simp_all add: register_db consent_ok token_ok touch_ok purge_ok)



text \<open>An authorization code yields tokens at most once and a refresh token is rotated at most once, in
  any run, and a redeemed code or a rotated refresh token is refused from then on, whatever the purge
  deleted.\<close>

theorem oauth_single_use:
  assumes "oauth_run sha s256 s L"
  shows "distinct (redeemed L) \<and> distinct (rotated L)
    \<and> (\<forall>h \<in> set (redeemed L). take_code h now (os_db s) = None)
    \<and> (\<forall>h \<in> set (rotated L). take_refresh h now (os_db s) = None)"
  using oauth_run_ok[OF assms] code_claims.spent_refused[of "os_db s" "redeemed L"]
    refresh_claims.spent_refused[of "os_db s" "rotated L"]
  unfolding oauth_ok_def log_ok_def codes_ok_def tokens_ok_def by blast

section \<open>A concrete flow\<close>

definition demo_registered :: oauth_state where
  "demo_registered = snd (register concat True ''wcl_c'' [''app://cb''] None
     \<lparr>os_db = \<lparr>clients = [], codes = [], tokens = [], next_token_id = 1\<rparr>, os_pending = []\<rparr>)"

definition demo_authorized :: oauth_state where
  "demo_authorized = snd (authorize (\<lambda>s. Some [s]) True 0 ''txn_t''
     \<lparr>aq_response_type = Some ''code'', aq_client_id = Some ''wcl_c'', aq_redirect_uri = Some ''app://cb'',
      aq_challenge = Some ''v'', aq_method = Some ''S256'', aq_state = None\<rparr> demo_registered)"

definition demo_form :: token_form where
  "demo_form = \<lparr>tf_grant = ''authorization_code'', tf_code = Some ''wac_k'', tf_redirect = None,
     tf_client = Some ''wcl_c'', tf_verifier = Some ''v'', tf_refresh = None\<rparr>"

definition demo_tx :: token_env where
  "demo_tx = \<lparr>te_begin = True, te_claim = True, te_mint = True, te_commit = True, te_purge = 2,
     te_access = ''wlo_a'', te_refresh = ''wrt_r'', te_mint_now = 2\<rparr>"

definition demo_consented :: oauth_state where
  "demo_consented = snd (consent id True 1 1 ''wac_k'' ''txn_t'' ''approve'' demo_authorized)"

definition demo_granted :: oauth_state where
  "demo_granted = snd (token_endpoint id id demo_tx 2 demo_form demo_consented)"

lemma demo_uri: "redirect_uri_ok ''app://cb''"
proof -
  have "\<not> list_ex (\<lambda>c. c \<in> set ws_seqs) (utf8_chars ''app://cb'')" by code_simp
  moreover have "contains_str ''app://cb'' ''://''"
    unfolding contains_str_iff by (intro exI[of _ "''app''"] exI[of _ "''cb''"]) simp
  ultimately show ?thesis by (simp add: redirect_uri_ok_def)
qed

lemma demo_registered: "demo_registered = \<lparr>os_db = \<lparr>clients = [\<lparr>oc_id = ''wcl_c'', oc_name = None,
    oc_redirect_uris = ''app://cb''\<rparr>], codes = [], tokens = [], next_token_id = 1\<rparr>, os_pending = []\<rparr>"
  by (simp add: demo_registered_def register_def demo_uri insert_client_def Let_def)

lemma demo_authorized: "demo_authorized = demo_registered\<lparr>os_pending := [(''txn_t'', \<lparr>pa_client = ''wcl_c'',
    pa_name = ''An MCP client'', pa_redirect = ''app://cb'', pa_challenge = ''v'', pa_state = None, pa_created = 0\<rparr>)]\<rparr>"
  by (simp add: demo_authorized_def demo_registered authorize_def get_client_def non_empty_def pending_insert_def Let_def)

lemma demo_consented: "demo_consented = \<lparr>os_db = (os_db demo_registered)\<lparr>codes := [\<lparr>od_hash = ''wac_k'',
    od_client = ''wcl_c'', od_redirect = ''app://cb'', od_challenge = ''v'', od_scope = ''run'', od_expires = 301,
    od_used = False\<rparr>]\<rparr>, os_pending = []\<rparr>"
  by (simp add: demo_consented_def demo_authorized demo_registered consent_def pending_take_def txn_ttl_secs_def
      insert_code_def granted_scope_def code_ttl_secs_def)

lemma demo_token: "token_endpoint id id demo_tx 2 demo_form demo_consented = (TokenOk ''wlo_a'' ''wrt_r'' ''run'',
    \<lparr>os_db = \<lparr>clients = clients (os_db demo_registered), codes = [], tokens = [\<lparr>ot_id = 1, ot_access = ''wlo_a'',
      ot_refresh = Some ''wrt_r'', ot_client = ''wcl_c'', ot_scope = ''run'', ot_access_expires = 604802,
      ot_refresh_expires = Some 7776002, ot_revoked = False, ot_last_used = None\<rparr>], next_token_id = 2\<rparr>,
     os_pending = []\<rparr>)"
  by (simp add: demo_consented demo_registered demo_tx_def demo_form_def token_endpoint_def code_grant_def take_code_def
      code_claimable_def mint_tx_def mint_pair_def insert_token_def purge_expired_def purge_codes_def purge_tokens_def
      access_ttl_secs_def refresh_ttl_secs_def)

lemma demo_rows:
  "approvals 1 (os_db demo_authorized) (os_db demo_consented) = [Approved ''wac_k'' ''wcl_c'' ''app://cb'' ''v'' 1]"
  "fst (token_endpoint id id demo_tx 2 demo_form demo_consented) = TokenOk ''wlo_a'' ''wrt_r'' ''run''"
  "map ot_client (tokens (os_db demo_granted)) = [''wcl_c'']"
  by (simp add: demo_consented demo_authorized demo_registered approvals_def)
    (simp_all add: demo_granted_def demo_token)

abbreviation demo_log :: "oauth_event list" where
  "demo_log \<equiv> [Redeemed ''wac_k'' (Some ''wcl_c'') None ''v'' 2 2 ''wlo_a'' ''wrt_r'', Approved ''wac_k'' ''wcl_c'' ''app://cb'' ''v'' 1]"

lemma demo_oauth_run: "oauth_run id id demo_granted demo_log"
proof -
  have "oauth_run id id demo_authorized []"
    unfolding demo_authorized_def demo_registered_def by (rule run_authorize, rule run_register, rule run_start)
  from run_consent[OF this, of "''wac_k''" True 1 1 "''txn_t''" "''approve''"]
  have "oauth_run id id demo_consented [Approved ''wac_k'' ''wcl_c'' ''app://cb'' ''v'' 1]"
    using demo_rows(1) by (simp add: demo_consented_def prod_eq_iff)
  from run_token[OF this, of demo_tx 2 demo_form "TokenOk ''wlo_a'' ''wrt_r'' ''run''" demo_granted]
  show ?thesis using demo_rows(2) by (simp add: demo_granted_def prod_eq_iff grants_def demo_form_def demo_tx_def)
qed


theorem oauth_single_use_witness:
  "take_code ''wac_k'' 3 (os_db demo_granted) = None \<and> redeemed demo_log = [''wac_k'']"
  using oauth_single_use[OF demo_oauth_run, of 3] by simp

end
