(* ===== verification/AuthGate.thy ===== *)
theory AuthGate
  imports OAuth
begin

text \<open>
  The middleware every API request passes (\<open>auth_mw\<close> of \<open>src/src/local/server.rs\<close>): the Origin/Host guard, the
  exempt routes, the account binding, the three kinds of bearer and the per-workflow REST toggle
  (\<open>connect_surfaces\<close> of \<open>store/workflows.rs\<close>).

  The request's headers are the values that are ASCII text. Database statements that can fail do so
  independently; SHA-256 and the JSON parser are parameters.
\<close>

record api_request =
  rq_method :: string
  rq_path :: string
  rq_origin :: "string option"
  rq_host :: "string option"
  rq_account :: "string option"
  rq_authorization :: "string option"

record gate_env =
  ge_port :: nat
  ge_exposed :: bool
  ge_lan_ip :: "string option"
  ge_seed :: string
  ge_overlay :: overlay
  ge_profile :: "string option"
  ge_now :: int
  ge_clock :: string
  ge_sha :: "string \<Rightarrow> string"
  ge_parse_json :: "string \<Rightarrow> json option"
  kv_up :: bool
  token_up :: bool
  key_up :: bool
  workflow_up :: bool
  touch_up :: bool

record gate_db =
  gd_config :: "string \<rightharpoonup> string"
  gd_oauth :: oauth_db
  gd_keys :: key_table
  gd_workflows :: "int \<rightharpoonup> string option"

datatype gate_outcome =
    Admit caller
  | Unauthorized
  | McpUnauthorized
  | Forbidden
  | IsolationViolation string string
  | DbError

record connect_surfaces =
  rest :: bool
  openai :: bool
  mcp :: bool

definition connect_surfaces_of :: "(string \<Rightarrow> json option) \<Rightarrow> string option \<Rightarrow> connect_surfaces" where
  "connect_surfaces_of parse_json config =
     (let on = \<lparr>rest = True, openai = True, mcp = True\<rparr>
      in case Option.bind config parse_json of
           None \<Rightarrow> on
         | Some v \<Rightarrow>
             (case Option.bind (json_get ''connect'' v) as_object of
                None \<Rightarrow> on
              | Some ms \<Rightarrow>
                  (let c = JObj ms
                   in \<lparr>rest = unwrap_or True (get_bool ''rest'' c), openai = unwrap_or True (get_bool ''openai'' c),
                       mcp = unwrap_or True (get_bool ''mcp'' c)\<rparr>)))"

definition mcp_auth_disabled_key :: string where
  "mcp_auth_disabled_key = ''mcp_auth_disabled''"

definition rest_run_workflow_id :: "string \<Rightarrow> string \<Rightarrow> int option" where
  "rest_run_workflow_id meth path =
     (if \<not> eq_ignore_ascii_case meth ''POST'' then None
      else (case Option.bind (strip_prefix ''/v1/workflows/'' path) (strip_suffix ''/run'') of
              None \<Rightarrow> None
            | Some inner \<Rightarrow> if inner = [] \<or> CHR ''/'' \<in> set inner then None else parse_i64 inner))"

definition origin_guard :: "gate_env \<Rightarrow> api_request \<Rightarrow> bool" where
  "origin_guard e r \<longleftrightarrow>
     (let hosts = lan_hosts (ge_lan_ip e) (ge_exposed e);
          ours = (\<lambda>v. origin_allowed_for v (ge_port e) (ge_exposed e) hosts)
      in opt_ok ours (rq_origin r) \<and> opt_ok ours (rq_host r))"

definition exempt_path :: "string \<Rightarrow> bool" where
  "exempt_path path \<longleftrightarrow> starts_with path ''/v1/hooks/'' \<or> path = ''/v1/hooks''
     \<or> starts_with path ''/oauth/'' \<or> starts_with path ''/.well-known/''"

text \<open>The REST toggle of the workflow a run request names; \<open>None\<close> is a failed lookup.\<close>

definition rest_gate :: "gate_env \<Rightarrow> gate_db \<Rightarrow> api_request \<Rightarrow> bool option" where
  "rest_gate e db r =
     (case rest_run_workflow_id (rq_method r) (rq_path r) of
        None \<Rightarrow> Some True
      | Some i \<Rightarrow>
          if \<not> workflow_up e then None
          else (case gd_workflows db i of
                  None \<Rightarrow> Some True
                | Some config \<Rightarrow> Some (rest (connect_surfaces_of (ge_parse_json e) config))))"

text \<open>The gates a scoped credential passes, then its use stamp.\<close>

definition scoped_gates ::
    "gate_env \<Rightarrow> gate_db \<Rightarrow> api_request \<Rightarrow> string \<Rightarrow> (gate_db \<Rightarrow> gate_db) \<Rightarrow> gate_outcome \<times> gate_db" where
  "scoped_gates e db r csv touch =
     (if \<not> scope_grants csv (required_scope (rq_method r) (rq_path r)) then (Forbidden, db)
      else (case rest_gate e db r of
              None \<Rightarrow> (DbError, db)
            | Some False \<Rightarrow> (Forbidden, db)
            | Some True \<Rightarrow> (Admit (Scoped csv), if touch_up e then touch db else db)))"

definition refuse :: "api_request \<Rightarrow> gate_outcome" where
  "refuse r = (if rq_path r = ''/mcp'' then McpUnauthorized else Unauthorized)"

definition bearer_gate :: "gate_env \<Rightarrow> gate_db \<Rightarrow> api_request \<Rightarrow> gate_outcome \<times> gate_db" where
  "bearer_gate e db r =
     (case Option.bind (rq_authorization r) parse_bearer of
        None \<Rightarrow> (refuse r, db)
      | Some presented \<Rightarrow>
          if verify_token (ge_overlay e) presented (ge_seed e) then (Admit FullAccess, db)
          else if starts_with presented ''wlo_'' then
            (if \<not> token_up e then (DbError, db)
             else (case get_active_by_access_hash (ge_sha e presented) (ge_now e) (gd_oauth db) of
                     None \<Rightarrow> (refuse r, db)
                   | Some t \<Rightarrow> scoped_gates e db r (ot_scope t)
                       (\<lambda>db. db\<lparr>gd_oauth := touch_token (ge_clock e) (ot_id t) (gd_oauth db)\<rparr>)))
          else if \<not> key_up e then (DbError, db)
          else (case get_active_by_hash (ge_sha e presented) (gd_keys db) of
                  None \<Rightarrow> (refuse r, db)
                | Some k \<Rightarrow> scoped_gates e db r (ak_scopes k)
                    (\<lambda>db. db\<lparr>gd_keys := touch_key (ge_clock e) (ak_id k) (gd_keys db)\<rparr>)))"

text \<open>\<open>ge_profile\<close> is the profile served, or \<open>None\<close> in a build without the cloud feature.\<close>

definition account_mismatch :: "gate_env \<Rightarrow> api_request \<Rightarrow> (string \<times> string) option" where
  "account_mismatch e r =
     (case (ge_profile e, rq_account r) of
        (Some serving, Some a) \<Rightarrow> if trim a \<noteq> [] \<and> trim a \<noteq> serving then Some (trim a, serving) else None
      | _ \<Rightarrow> None)"

definition auth_mw :: "gate_env \<Rightarrow> gate_db \<Rightarrow> api_request \<Rightarrow> gate_outcome \<times> gate_db" where
  "auth_mw e db r =
     (if \<not> origin_guard e r then (Unauthorized, db)
      else if exempt_path (rq_path r) then (Admit FullAccess, db)
      else if rq_path r = ''/mcp'' \<and> \<not> ge_exposed e \<and> \<not> kv_up e then (DbError, db)
      else if rq_path r = ''/mcp'' \<and> \<not> ge_exposed e \<and> gd_config db mcp_auth_disabled_key = Some ''true''
      then (Admit FullAccess, db)
      else (case account_mismatch e r of
              Some (bound, serving) \<Rightarrow> (IsolationViolation bound serving, db)
            | None \<Rightarrow> bearer_gate e db r))"

section \<open>What the gate admits\<close>

text \<open>The credential a request presents, and what it is worth.\<close>

abbreviation presents :: "api_request \<Rightarrow> string \<Rightarrow> bool" where
  "presents r p \<equiv> Option.bind (rq_authorization r) parse_bearer = Some p"

definition credential :: "gate_env \<Rightarrow> gate_db \<Rightarrow> string \<Rightarrow> caller \<Rightarrow> bool" where
  "credential e db p c \<longleftrightarrow>
     (if p = current_token (ge_overlay e) (ge_seed e) then c = FullAccess
      else if starts_with p ''wlo_'' then
        (\<exists>t \<in> set (tokens (gd_oauth db)). ot_access t = ge_sha e p \<and> \<not> ot_revoked t
           \<and> ge_now e < ot_access_expires t \<and> c = Scoped (ot_scope t))
      else
        (\<exists>k \<in> set (key_rows (gd_keys db)). ak_hash k = ge_sha e p \<and> ak_enabled k \<and> ak_revoked k = None
           \<and> c = Scoped (ak_scopes k)))"

lemma scoped_gates_admit:
  "scoped_gates e db r csv touch = (Admit c, db') \<Longrightarrow>
    c = Scoped csv \<and> scope_grants csv (required_scope (rq_method r) (rq_path r)) \<and> rest_gate e db r = Some True"
  by (auto simp: scoped_gates_def split: if_splits option.splits bool.splits)

lemma refuse_simps [simp]: "refuse r \<noteq> Admit c"
  by (simp add: refuse_def)

lemma bearer_gate_admit:
  assumes "bearer_gate e db r = (Admit c, db')"
  shows "\<exists>p. presents r p \<and> credential e db p c \<and> caller_grants c (required_scope (rq_method r) (rq_path r)) \<and>
    (c \<noteq> FullAccess \<longrightarrow> rest_gate e db r = Some True)"
proof (cases "Option.bind (rq_authorization r) parse_bearer")
  case (Some p)
  consider "verify_token (ge_overlay e) p (ge_seed e)"
    | "\<not> verify_token (ge_overlay e) p (ge_seed e)" "starts_with p ''wlo_''"
    | "\<not> verify_token (ge_overlay e) p (ge_seed e)" "\<not> starts_with p ''wlo_''" by blast
  then show ?thesis
  proof cases
    case 1
    with assms Some show ?thesis
      by (auto simp: bearer_gate_def credential_def verify_token_def current_token_def caller_grants_def)
  next
    case 2
    with assms Some obtain t where t: "get_active_by_access_hash (ge_sha e p) (ge_now e) (gd_oauth db) = Some t"
      and g: "scoped_gates e db r (ot_scope t)
        (\<lambda>db. db\<lparr>gd_oauth := touch_token (ge_clock e) (ot_id t) (gd_oauth db)\<rparr>) = (Admit c, db')"
      by (auto simp: bearer_gate_def split: if_splits option.splits)
    have "credential e db p c"
      using 2 t scoped_gates_admit[OF g]
      by (auto simp: credential_def verify_token_def current_token_def get_active_by_access_hash_def find_Some_iff)
    then show ?thesis using Some scoped_gates_admit[OF g] by (auto simp: caller_grants_def)
  next
    case 3
    with assms Some obtain k where k: "get_active_by_hash (ge_sha e p) (gd_keys db) = Some k"
      and g: "scoped_gates e db r (ak_scopes k)
        (\<lambda>db. db\<lparr>gd_keys := touch_key (ge_clock e) (ak_id k) (gd_keys db)\<rparr>) = (Admit c, db')"
      by (auto simp: bearer_gate_def split: if_splits option.splits)
    have "credential e db p c"
      using 3 k scoped_gates_admit[OF g]
      by (auto simp: credential_def verify_token_def current_token_def get_active_by_hash_def find_Some_iff)
    then show ?thesis using Some scoped_gates_admit[OF g] by (auto simp: caller_grants_def)
  qed
qed (use assms in \<open>simp add: bearer_gate_def\<close>)


lemma admitted_cases:
  assumes "auth_mw e db r = (Admit c, db')"
  shows "origin_guard e r \<and>
    (exempt_path (rq_path r) \<and> c = FullAccess
     \<or> rq_path r = ''/mcp'' \<and> \<not> ge_exposed e \<and> gd_config db mcp_auth_disabled_key = Some ''true'' \<and> c = FullAccess
     \<or> account_mismatch e r = None \<and> bearer_gate e db r = (Admit c, db'))"
  using assms by (auto simp: auth_mw_def split: if_splits option.splits)

lemma tokens_scope: "oauth_run sha s256 s L \<Longrightarrow> t \<in> set (tokens (os_db s)) \<Longrightarrow> ot_scope t = ''run''"
  using oauth_run_ok[of sha s256 s L] by (simp add: oauth_ok_def tokens_ok_def token_traced_def)

text \<open>C2. A request reaches a handler only past the Origin/Host guard, and then only on an exempt route, through
  the loopback MCP opt-out, or with a credential: the current runtime token, or a live access token or client
  key, unexpired, not revoked, whose scopes grant what the method and path require, on a workflow whose REST
  surface is on when it runs one, and not bound to another account. The handler sees exactly that
  credential's capability.\<close>

theorem request_admitted:
  assumes "auth_mw e db r = (Admit c, db')"
  shows "origin_guard e r \<and>
    (exempt_path (rq_path r) \<and> c = FullAccess
     \<or> rq_path r = ''/mcp'' \<and> \<not> ge_exposed e \<and> gd_config db mcp_auth_disabled_key = Some ''true'' \<and> c = FullAccess
     \<or> account_mismatch e r = None \<and>
       (\<exists>p. presents r p \<and> credential e db p c \<and> caller_grants c (required_scope (rq_method r) (rq_path r)) \<and>
          (c \<noteq> FullAccess \<longrightarrow> rest_gate e db r = Some True)))"
  using admitted_cases[OF assms] bearer_gate_admit[of e db r c db'] by blast

lemma mcp_scope: "required_scope meth ''/mcp'' = RunScope \<or> required_scope meth ''/mcp'' = ReadScope"
  by (simp add: required_scope_def is_privileged_read_path_def)

lemma access_token_scope: "credential e db p c \<Longrightarrow> starts_with p ''wlo_'' \<Longrightarrow> p \<noteq> current_token (ge_overlay e) (ge_seed e)
    \<Longrightarrow> \<exists>t \<in> set (tokens (gd_oauth db)). c = Scoped (ot_scope t)"
  by (auto simp: credential_def)

text \<open>A token the OAuth server issued, in any run of it, never passes the gate on a request that changes
  resources or controls the device: its scope is the consent's, which grants neither, so an application the
  user approved on the consent page cannot manage keys, secrets or device settings.\<close>

theorem oauth_token_never_manages:
  assumes "oauth_run (ge_sha e) s256 s L" "gd_oauth db = os_db s"
    and "presents r p" "starts_with p ''wlo_''" "p \<noteq> current_token (ge_overlay e) (ge_seed e)"
    and "required_scope (rq_method r) (rq_path r) = AdminScope \<or> required_scope (rq_method r) (rq_path r) = ManageScope"
    and "\<not> exempt_path (rq_path r)"
  shows "auth_mw e db r \<noteq> (Admit c, db')"
proof
  assume adm: "auth_mw e db r = (Admit c, db')"
  have "rq_path r \<noteq> ''/mcp''" using assms(6) mcp_scope[of "rq_method r"] by auto
  then have "bearer_gate e db r = (Admit c, db')" using admitted_cases[OF adm] assms(7) by blast
  then have c: "credential e db p c" "caller_grants c (required_scope (rq_method r) (rq_path r))"
    using bearer_gate_admit[of e db r c db'] assms(3) by auto
  then obtain t where t: "t \<in> set (tokens (os_db s))" "c = Scoped (ot_scope t)"
    using access_token_scope[OF c(1)] assms(2,4,5) by auto
  show False using c(2) t tokens_scope[OF assms(1)] assms(6) run_grants by (auto simp: caller_grants_def)
qed


section \<open>Concrete requests\<close>

definition demo_env :: gate_env where
  "demo_env = \<lparr>ge_port = 8131, ge_exposed = False, ge_lan_ip = None, ge_seed = ''wlt_s'', ge_overlay = Map.empty,
     ge_profile = None, ge_now = 10, ge_clock = ''t'', ge_sha = id, ge_parse_json = \<lambda>_. None, kv_up = True,
     token_up = True, key_up = True, workflow_up = True, touch_up = False\<rparr>"

definition demo_gate_db :: gate_db where
  "demo_gate_db = \<lparr>gd_config = Map.empty, gd_oauth = os_db demo_granted,
     gd_keys = \<lparr>key_rows = [], next_key_id = 1\<rparr>, gd_workflows = Map.empty\<rparr>"

definition demo_request :: "string \<Rightarrow> string \<Rightarrow> api_request" where
  "demo_request meth path = \<lparr>rq_method = meth, rq_path = path, rq_origin = None, rq_host = Some ''localhost'',
     rq_account = None, rq_authorization = Some ''Bearer wlo_a''\<rparr>"

lemma localhost_allowed: "origin_allowed ''localhost''"
proof -
  have t: "trim ''localhost'' = ''localhost''" by (rule trim_printable) (simp add: printable_def)
  have "\<not> contains_str ''localhost'' ''://''"
  proof
    assume "contains_str ''localhost'' ''://''"
    then obtain a b where "''localhost'' = a @ ''://'' @ b" by (auto simp: contains_str_iff)
    then have "CHR '':'' \<in> set ''localhost''" by (metis Un_iff list.set_intros(1) set_append)
    then show False by simp
  qed
  moreover have "ascii_lower ''localhost'' = ''localhost''" by (simp add: ascii_lower_def ascii_lower_byte_def)
  ultimately show ?thesis
    by (simp add: origin_allowed_def is_loopback_authority_def t strip_prefix_def starts_with_def)
qed

lemma demo_bearer: "presents (demo_request meth path) ''wlo_a''"
proof -
  have "trim ''wlo_a'' = ''wlo_a''" by (rule trim_printable) (simp add: printable_def)
  then show ?thesis by (simp add: demo_request_def parse_bearer_def strip_prefix_def starts_with_def)
qed

lemma demo_admitted:
  "auth_mw demo_env demo_gate_db (demo_request ''GET'' ''/v1/workflows'') = (Admit (Scoped ''run''), demo_gate_db)"
proof -
  let ?r = "demo_request ''GET'' ''/v1/workflows''"
  have "origin_guard demo_env ?r"
    using localhost_allowed by (simp add: origin_guard_def demo_request_def opt_ok_def origin_allowed_for_def)
  moreover have "required_scope ''GET'' ''/v1/workflows'' = ReadScope"
    by (simp add: required_scope_def is_privileged_read_path_def eq_ignore_ascii_case_def)
  moreover have "rest_gate demo_env demo_gate_db ?r = Some True"
    by (simp add: rest_gate_def rest_run_workflow_id_def demo_request_def eq_ignore_ascii_case_def ascii_lower_def
        ascii_lower_byte_def)
  moreover have "\<not> exempt_path (rq_path ?r)" by (simp add: exempt_path_def demo_request_def starts_with_def)
  ultimately show ?thesis
    using demo_bearer[of "''GET''" "''/v1/workflows''"] run_grants
    by (simp add: auth_mw_def bearer_gate_def account_mismatch_def verify_token_def demo_env_def demo_gate_db_def
        get_active_by_access_hash_def demo_granted_def demo_token scoped_gates_def starts_with_def,
        simp add: demo_request_def)
qed

theorem request_admitted_witness:
  "auth_mw demo_env demo_gate_db (demo_request ''GET'' ''/v1/workflows'') = (Admit (Scoped ''run''), demo_gate_db) \<and>
   (\<exists>p. presents (demo_request ''GET'' ''/v1/workflows'') p \<and> credential demo_env demo_gate_db p (Scoped ''run''))"
  using demo_admitted request_admitted[OF demo_admitted] by blast

theorem oauth_token_never_manages_witness:
  "fst (auth_mw demo_env demo_gate_db (demo_request ''DELETE'' ''/v1/keys/7'')) \<noteq> Admit (Scoped ''run'')"
proof -
  let ?r = "demo_request ''DELETE'' ''/v1/keys/7''"
  have "required_scope ''DELETE'' ''/v1/keys/7'' = ManageScope"
    by (rule manage_paths) (simp_all add: is_device_management_path_def starts_with_def eq_ignore_ascii_case_def
        ascii_lower_def ascii_lower_byte_def ends_with_def)
  then have "auth_mw demo_env demo_gate_db ?r \<noteq> (Admit (Scoped ''run''), db')" for db'
    using oauth_token_never_manages[of demo_env id demo_granted _ demo_gate_db ?r "''wlo_a''" "Scoped ''run''" db']
      demo_oauth_run demo_bearer
    by (simp add: demo_env_def demo_gate_db_def demo_request_def starts_with_def current_token_def exempt_path_def)
  then show ?thesis by (metis prod.collapse)
qed

end
