(* ===== verification/Vault.thy ===== *)
theory Vault
  imports ApiAuth
begin

text \<open>
  The vault (\<open>src/src/local/vault.rs\<close>): sealed fields, the chunked envelope of file blobs, one-time codes,
  the custody of the root key between the OS keyring and the key file, and XOR wraps of the root.

  HKDF, the AEAD cipher (XChaCha20-Poly1305), HMAC, Argon2id, base32 and base64 are parameters, collected in
  \<open>crypto\<close>. Random nonces, salts and roots are arguments.
\<close>

type_synonym bytes = "8 word list"

datatype vault_error = Internal string | BadRequest string | BadCredential | LockedErr | IoErr

record crypto =
  hkdf :: "bytes \<Rightarrow> string \<Rightarrow> bytes"
  aead_seal :: "bytes \<Rightarrow> bytes \<Rightarrow> bytes \<Rightarrow> bytes \<Rightarrow> bytes option"
  aead_open :: "bytes \<Rightarrow> bytes \<Rightarrow> bytes \<Rightarrow> bytes \<Rightarrow> bytes option"
  b64_encode :: "bytes \<Rightarrow> string"
  b64_decode :: "string \<Rightarrow> bytes option"
  base32_decode :: "string \<Rightarrow> bytes option"
  hmac :: "string \<Rightarrow> bytes \<Rightarrow> bytes \<Rightarrow> bytes"
  argon2id :: "bytes \<Rightarrow> bytes \<Rightarrow> nat \<Rightarrow> nat \<Rightarrow> nat \<Rightarrow> bytes option"

definition bytes_of :: "string \<Rightarrow> bytes" where
  "bytes_of s = map (\<lambda>c. of_nat (of_char c)) s"

section \<open>Big-endian integers\<close>

fun be_bytes :: "nat \<Rightarrow> nat \<Rightarrow> bytes" where
  "be_bytes 0 n = []"
| "be_bytes (Suc w) n = be_bytes w (n div 256) @ [of_nat (n mod 256)]"

fun be_value :: "bytes \<Rightarrow> nat" where
  "be_value [] = 0"
| "be_value (b # bs) = unat b * 256 ^ length bs + be_value bs"

lemma length_be_bytes [simp]: "length (be_bytes w n) = w"
  by (induction w arbitrary: n) auto

lemma be_value_append: "be_value (xs @ [b]) = be_value xs * 256 + unat b"
  by (induction xs) (auto simp: algebra_simps)

lemma be_value_bytes: "be_value (be_bytes w n) = n mod 256 ^ w"
proof (induction w arbitrary: n)
  case (Suc w)
  have "unat (of_nat (n mod 256) :: 8 word) = n mod 256"
    by (simp add: unat_of_nat take_bit_nat_def)
  then show ?case
    using Suc mod_mult2_eq[of n 256 "256 ^ w"] by (simp add: be_value_append mult.commute)
qed simp

lemma be_bytes_inj: "m < 256 ^ w \<Longrightarrow> n < 256 ^ w \<Longrightarrow> be_bytes w m = be_bytes w n \<Longrightarrow> m = n"
  by (metis be_value_bytes mod_less)

section \<open>Sealed fields\<close>

definition field_magic :: string where
  "field_magic = ''WF1:''"

definition field_key :: "crypto \<Rightarrow> bytes \<Rightarrow> bytes" where
  "field_key c rk = hkdf c rk ''writ-field-v1''"

definition seal_field :: "crypto \<Rightarrow> bytes \<Rightarrow> bytes \<Rightarrow> bytes \<Rightarrow> string \<Rightarrow> vault_error + string" where
  "seal_field c rk nonce plain aad =
     (case aead_seal c (field_key c rk) nonce (bytes_of aad) plain of
        None \<Rightarrow> Inl (Internal ''vault seal failed'')
      | Some ct \<Rightarrow> Inr (field_magic @ b64_encode c (nonce @ ct)))"

definition open_field :: "crypto \<Rightarrow> bytes \<Rightarrow> string \<Rightarrow> string \<Rightarrow> vault_error + bytes" where
  "open_field c rk blob aad =
     (case strip_prefix field_magic blob of
        None \<Rightarrow> Inl (Internal ''unknown field-cipher prefix'')
      | Some b64 \<Rightarrow>
          (case b64_decode c b64 of
             None \<Rightarrow> Inl (Internal ''vault: bad base64'')
           | Some raw \<Rightarrow>
               if length raw < 24 then Inl (Internal ''vault: blob too short'')
               else (case aead_open c (field_key c rk) (take 24 raw) (bytes_of aad) (drop 24 raw) of
                       None \<Rightarrow> Inl (Internal ''vault open failed (auth/tamper)'')
                     | Some p \<Rightarrow> Inr p)))"

text \<open>What the cipher and base64 are documented to do.\<close>

definition base64_ok :: "crypto \<Rightarrow> bool" where
  "base64_ok c \<longleftrightarrow> (\<forall>x. b64_decode c (b64_encode c x) = Some x)"

definition aead_ok :: "crypto \<Rightarrow> bool" where
  "aead_ok c \<longleftrightarrow> (\<forall>k n a m ct. aead_seal c k n a m = Some ct \<longrightarrow>
     length ct = length m + 16 \<and> aead_open c k n a ct = Some m)"

lemma open_sealed_field:
  "base64_ok c \<Longrightarrow> aead_ok c \<Longrightarrow> length nonce = 24 \<Longrightarrow> seal_field c rk nonce plain aad = Inr blob
    \<Longrightarrow> open_field c rk blob aad = Inr plain"
  by (auto simp: seal_field_def open_field_def base64_ok_def aead_ok_def strip_prefix_def
      split: option.splits)

section \<open>File envelopes\<close>

definition file_magic :: bytes where
  "file_magic = bytes_of ''WFB1''"

definition file_chunk_size :: nat where
  "file_chunk_size = 65536"

definition file_header_len :: nat where
  "file_header_len = 4 + 4 + 24"

definition file_key :: "crypto \<Rightarrow> bytes \<Rightarrow> bytes" where
  "file_key c rk = hkdf c rk ''writ-file-v1''"

definition le_bytes :: "nat \<Rightarrow> nat \<Rightarrow> bytes" where
  "le_bytes w n = rev (be_bytes w n)"

definition le_value :: "bytes \<Rightarrow> nat" where
  "le_value bs = be_value (rev bs)"

text \<open>A \<open>u64\<close> index as eight big-endian bytes.\<close>

definition chunk_nonce :: "bytes \<Rightarrow> nat \<Rightarrow> bool \<Rightarrow> bytes" where
  "chunk_nonce base index is_last =
     (let n = take 16 base @ be_bytes 8 index
      in if is_last then n[0 := xor (n ! 0) 1] else n)"

function chunks_of :: "nat \<Rightarrow> bytes \<Rightarrow> bytes list" where
  "chunks_of n xs = (if xs = [] \<or> n = 0 then [] else take n xs # chunks_of n (drop n xs))"
  by pat_completeness auto
termination chunks_of by (relation "measure (length \<circ> snd)") auto

declare chunks_of.simps [simp del]

fun seal_chunks :: "crypto \<Rightarrow> bytes \<Rightarrow> bytes \<Rightarrow> nat \<Rightarrow> bytes list \<Rightarrow> bytes option" where
  "seal_chunks c key base index [] = Some []"
| "seal_chunks c key base index (x # xs) =
     (case aead_seal c key (chunk_nonce base index (xs = [])) file_magic x of
        None \<Rightarrow> None
      | Some ct \<Rightarrow> map_option ((@) ct) (seal_chunks c key base (index + 1) xs))"

definition encrypt_file :: "crypto \<Rightarrow> bytes \<Rightarrow> bytes \<Rightarrow> bytes \<Rightarrow> vault_error + bytes" where
  "encrypt_file c rk base plain =
     (case seal_chunks c (file_key c rk) base 0 (if plain = [] then [[]] else chunks_of file_chunk_size plain) of
        None \<Rightarrow> Inl (Internal ''vault file seal failed'')
      | Some body \<Rightarrow> Inr (file_magic @ le_bytes 4 file_chunk_size @ base @ body))"

function open_chunks :: "crypto \<Rightarrow> bytes \<Rightarrow> bytes \<Rightarrow> nat \<Rightarrow> nat \<Rightarrow> bytes \<Rightarrow> vault_error + bytes" where
  "open_chunks c key base csize index body =
     (if body = [] then Inl (Internal ''vault: file envelope truncated'')
      else (let sealed = csize + 16;
                is_last = length body \<le> sealed
            in case aead_open c key (chunk_nonce base index is_last) file_magic (take sealed body) of
                 None \<Rightarrow> Inl (Internal ''vault file open failed (auth/tamper)'')
               | Some pt \<Rightarrow>
                   if is_last then Inr pt
                   else map_sum id ((@) pt) (open_chunks c key base csize (index + 1) (drop sealed body))))"
  by pat_completeness auto
termination open_chunks by (relation "measure (\<lambda>(c, key, base, csize, index, body). length body)") auto

declare open_chunks.simps [simp del]

definition decrypt_file :: "crypto \<Rightarrow> bytes \<Rightarrow> bytes \<Rightarrow> vault_error + bytes" where
  "decrypt_file c rk blob =
     (if length blob < file_header_len \<or> take 4 blob \<noteq> file_magic then Inl (Internal ''vault: not a WFB1 file envelope'')
      else (let csize = le_value (take 4 (drop 4 blob))
            in if csize = 0 \<or> 16 * 1024 * 1024 < csize then Inl (Internal ''vault: implausible file chunk csize'')
               else open_chunks c (file_key c rk) (take 24 (drop 8 blob)) csize 0 (drop file_header_len blob)))"


text \<open>The byte-level laws of the envelope.\<close>

lemma le_value_bytes: "le_value (le_bytes w n) = n mod 256 ^ w"
  by (simp add: le_value_def le_bytes_def be_value_bytes)

lemma length_le_bytes [simp]: "length (le_bytes w n) = w"
  by (simp add: le_bytes_def)

lemma length_file_magic [simp]: "length file_magic = 4"
  by (simp add: file_magic_def bytes_of_def)

lemma chunks_of_short: "xs \<noteq> [] \<Longrightarrow> length xs \<le> n \<Longrightarrow> chunks_of n xs = [xs]"
  by (cases xs) (auto simp: chunks_of.simps)

lemma chunks_of_long: "n < length xs \<Longrightarrow> 0 < n \<Longrightarrow> chunks_of n xs = take n xs # chunks_of n (drop n xs)"
  by (subst chunks_of.simps) auto

lemma chunks_of_not_Nil: "xs \<noteq> [] \<Longrightarrow> 0 < n \<Longrightarrow> chunks_of n xs \<noteq> []"
  by (subst chunks_of.simps) auto

lemma seal_chunks_length:
  assumes "aead_ok c"
  shows "seal_chunks c key base i xs = Some body \<Longrightarrow> xs \<noteq> [] \<Longrightarrow> body \<noteq> []"
proof (induction xs arbitrary: i body)
  case (Cons x xs)
  then obtain ct where "aead_seal c key (chunk_nonce base i (xs = [])) file_magic x = Some ct" "length ct \<le> length body"
    by (auto split: option.splits)
  moreover from this(1) have "length ct = length x + 16" using assms by (auto simp: aead_ok_def)
  ultimately show ?case by auto
qed simp

lemma seal_chunks_Cons:
  "seal_chunks c key base i (x # xs) = Some body \<Longrightarrow>
    \<exists>ct rest. aead_seal c key (chunk_nonce base i (xs = [])) file_magic x = Some ct \<and>
      seal_chunks c key base (i + 1) xs = Some rest \<and> body = ct @ rest"
  by (auto split: option.splits)

lemma open_seal_chunks:
  assumes ok: "aead_ok c" and n: "0 < n"
  shows "xs \<noteq> [] \<Longrightarrow> seal_chunks c key base i (chunks_of n xs) = Some body
    \<Longrightarrow> open_chunks c key base n i body = Inr xs"
proof (induction "length xs" arbitrary: xs i body rule: less_induct)
  case less
  note law = ok[unfolded aead_ok_def, rule_format]
  show ?case
  proof (cases "length xs \<le> n")
    case True
    then have chunks: "chunks_of n xs = [xs]" using less.prems(1) by (rule chunks_of_short[rotated])
    with less.prems(2) have ct: "aead_seal c key (chunk_nonce base i True) file_magic xs = Some body"
      by (auto split: option.splits)
    from law[OF ct] True show ?thesis by (subst open_chunks.simps) (auto simp: Let_def)
  next
    case False
    then have long: "n < length xs" by simp
    from less.prems(2) obtain ct rest where
      ct: "aead_seal c key (chunk_nonce base i (chunks_of n (drop n xs) = [])) file_magic (take n xs) = Some ct"
      and rest: "seal_chunks c key base (i + 1) (chunks_of n (drop n xs)) = Some rest" and body: "body = ct @ rest"
      unfolding chunks_of_long[OF long n] using seal_chunks_Cons by blast
    have ne: "drop n xs \<noteq> []" "chunks_of n (drop n xs) \<noteq> []" using long n chunks_of_not_Nil by auto
    have "rest \<noteq> []" using seal_chunks_length[OF ok rest ne(2)] .
    moreover have len: "length ct = n + 16" "aead_open c key (chunk_nonce base i False) file_magic ct = Some (take n xs)"
      using law[OF ct] long ne(2) by auto
    moreover have "open_chunks c key base n (i + 1) rest = Inr (drop n xs)"
      by (rule less.hyps) (use n long ne rest in auto)
    ultimately show ?thesis unfolding body by (subst open_chunks.simps) (auto simp: Let_def)
  qed
qed

lemma open_seal_empty:
  assumes "aead_ok c" "seal_chunks c key base i [[]] = Some body"
  shows "open_chunks c key base n i body = Inr []"
proof -
  have ct: "aead_seal c key (chunk_nonce base i True) file_magic [] = Some body"
    using assms(2) by (auto split: option.splits)
  with assms(1) have "length body = 16 \<and> aead_open c key (chunk_nonce base i True) file_magic body = Some []"
    by (auto simp: aead_ok_def)
  then show ?thesis by (subst open_chunks.simps) (auto simp: Let_def)
qed

lemma decrypt_envelope:
  "length base = 24 \<Longrightarrow>
    decrypt_file c rk (file_magic @ le_bytes 4 file_chunk_size @ base @ body)
      = open_chunks c (file_key c rk) base file_chunk_size 0 body"
proof -
  assume "length base = 24"
  moreover have "le_value (le_bytes 4 file_chunk_size) = file_chunk_size"
    by (simp add: le_value_bytes file_chunk_size_def)
  ultimately show ?thesis
    by (simp add: decrypt_file_def file_header_len_def file_chunk_size_def)
qed

lemma encrypt_file_body:
  "encrypt_file c rk base plain = Inr blob \<Longrightarrow> \<exists>body.
    seal_chunks c (file_key c rk) base 0 (if plain = [] then [[]] else chunks_of file_chunk_size plain) = Some body \<and>
    blob = file_magic @ le_bytes 4 file_chunk_size @ base @ body"
  by (auto simp: encrypt_file_def split: option.splits)

lemma decrypt_encrypted:
  assumes "aead_ok c" "length base = 24" "encrypt_file c rk base plain = Inr blob"
  shows "decrypt_file c rk blob = Inr plain"
proof -
  obtain body where body: "seal_chunks c (file_key c rk) base 0
      (if plain = [] then [[]] else chunks_of file_chunk_size plain) = Some body"
    and blob: "blob = file_magic @ le_bytes 4 file_chunk_size @ base @ body"
    using encrypt_file_body[OF assms(3)] by blast
  show ?thesis
  proof (cases "plain = []")
    case True
    with body have "seal_chunks c (file_key c rk) base 0 [[]] = Some body" by simp
    then show ?thesis unfolding blob decrypt_envelope[OF assms(2)] True by (rule open_seal_empty[OF assms(1)])
  next
    case False
    with body have seal: "seal_chunks c (file_key c rk) base 0 (chunks_of file_chunk_size plain) = Some body" by simp
    have "0 < file_chunk_size" by (simp add: file_chunk_size_def)
    then show ?thesis unfolding blob decrypt_envelope[OF assms(2)]
      using open_seal_chunks[OF assms(1) _ False seal] by blast
  qed
qed

text \<open>Decrypting an encrypted file returns the file, whatever its length: empty, a multiple of the chunk size
  or not.\<close>

theorem file_roundtrip:
  assumes "aead_ok c" "length base = 24" "encrypt_file c rk base plain = Inr blob"
  shows "decrypt_file c rk blob = Inr plain"
  using assms by (rule decrypt_encrypted)


text \<open>
  What the cipher rejects, for nonces that share the random bytes 1 to 15 of a file's base nonce: what was sealed under
  one of them opens under no other one, and no proper prefix of it opens at all. The law knows nothing of chunks: that
  the nonce of a last chunk differs from the one of an inner chunk is the doing of \<open>chunk_nonce\<close>.
\<close>

definition nonce_family :: "bytes \<Rightarrow> bytes set" where
  "nonce_family base = {n. length n = 24 \<and> take 15 (drop 1 n) = take 15 (drop 1 base)}"

definition aead_binds :: "crypto \<Rightarrow> bytes \<Rightarrow> bool" where
  "aead_binds c base \<longleftrightarrow> (\<forall>k n n' m ct j. n \<in> nonce_family base \<and> n' \<in> nonce_family base \<and> length m \<le> file_chunk_size \<and>
     aead_seal c k n file_magic m = Some ct \<and> (n' \<noteq> n \<or> j < length ct) \<longrightarrow> aead_open c k n' file_magic (take j ct) = None)"

lemma chunk_nonce_family: "length base = 24 \<Longrightarrow> chunk_nonce base i l \<in> nonce_family base"
  by (cases base) (auto simp: chunk_nonce_def nonce_family_def Let_def)

lemma xor_one_neq: "xor (b :: 8 word) 1 \<noteq> b"
proof
  assume "xor b 1 = b"
  then have "xor b (xor b 1) = xor b b" by simp
  then show False by (simp flip: xor.assoc)
qed

text \<open>The marker of the last chunk.\<close>

lemma last_nonce_differs: "length base = 24 \<Longrightarrow> chunk_nonce base i True \<noteq> chunk_nonce base i False"
  using xor_one_neq[of "hd base"] by (cases base) (auto simp: chunk_nonce_def Let_def)

lemma binds_flag:
  "length base = 24 \<Longrightarrow> aead_binds c base \<Longrightarrow> length m \<le> file_chunk_size \<Longrightarrow> aead_seal c k (chunk_nonce base i False) file_magic m = Some ct
    \<Longrightarrow> aead_open c k (chunk_nonce base i True) file_magic ct = None"
  unfolding aead_binds_def using chunk_nonce_family[of base i] last_nonce_differs[of base i] by (metis le_refl take_all)

lemma binds_prefix:
  "length base = 24 \<Longrightarrow> aead_binds c base \<Longrightarrow> length m \<le> file_chunk_size \<Longrightarrow> aead_seal c k (chunk_nonce base i l) file_magic m = Some ct
    \<Longrightarrow> j < length ct \<Longrightarrow> aead_open c k (chunk_nonce base i l') file_magic (take j ct) = None"
  unfolding aead_binds_def using chunk_nonce_family[of base i] by blast

lemma open_short:
  "body \<noteq> [] \<Longrightarrow> length body \<le> n + 16 \<Longrightarrow> aead_open c key (chunk_nonce base i True) file_magic body = None
    \<Longrightarrow> \<exists>e. open_chunks c key base n i body = Inl e"
  by (subst open_chunks.simps) (simp add: Let_def)

lemma open_long:
  "length ct = n + 16 \<Longrightarrow> r \<noteq> [] \<Longrightarrow> aead_open c key (chunk_nonce base i False) file_magic ct = Some pt
    \<Longrightarrow> open_chunks c key base n i (ct @ r) = map_sum id ((@) pt) (open_chunks c key base n (i + 1) r)"
  by (subst open_chunks.simps) (auto simp: Let_def)

lemma open_truncated:
  assumes ok: "aead_ok c" and binds: "aead_binds c base" and base: "length base = 24"
  shows "seal_chunks c key base i (chunks_of file_chunk_size xs) = Some body
    \<Longrightarrow> xs \<noteq> [] \<Longrightarrow> j < length body \<Longrightarrow> \<exists>e. open_chunks c key base file_chunk_size i (take j body) = Inl e"
proof (induction "length xs" arbitrary: xs i j body rule: less_induct)
  case less
  let ?n = file_chunk_size
  note law = ok[unfolded aead_ok_def, rule_format]
  have n: "0 < ?n" by (simp add: file_chunk_size_def)
  show ?case
  proof (cases "j = 0")
    case True
    then show ?thesis by (subst open_chunks.simps) simp
  next
    case False
    show ?thesis
    proof (cases "length xs \<le> ?n")
      case True
      then have chunks: "chunks_of ?n xs = [xs]" using less.prems(2) by (rule chunks_of_short[rotated])
      with less.prems(1) have ct: "aead_seal c key (chunk_nonce base i True) file_magic xs = Some body"
        by (auto split: option.splits)
      show ?thesis
        by (rule open_short) (use False True less.prems(3) law[OF ct] binds_prefix[OF base binds True ct] in auto)
    next
      case long: False
      then obtain ct rest where
        ct: "aead_seal c key (chunk_nonce base i (chunks_of ?n (drop ?n xs) = [])) file_magic (take ?n xs) = Some ct"
        and rest: "seal_chunks c key base (i + 1) (chunks_of ?n (drop ?n xs)) = Some rest" and body: "body = ct @ rest"
        using less.prems(1) chunks_of_long[of ?n xs, OF _ n] seal_chunks_Cons
        by (metis not_le_imp_less)
      have ne: "drop ?n xs \<noteq> []" "chunks_of ?n (drop ?n xs) \<noteq> []" using long n chunks_of_not_Nil by auto
      have inner: "aead_seal c key (chunk_nonce base i False) file_magic (take ?n xs) = Some ct" using ct ne by simp
      have len: "length ct = ?n + 16" "aead_open c key (chunk_nonce base i False) file_magic ct = Some (take ?n xs)"
        using law[OF inner] long by auto
      show ?thesis
      proof (cases "j \<le> length ct")
        case True
        have "aead_open c key (chunk_nonce base i True) file_magic (take j ct) = None"
          using True binds_flag[OF base binds _ inner] binds_prefix[OF base binds _ inner, of j] by (cases "j = length ct") auto
        then show ?thesis using True False len by (intro open_short) (auto simp: body)
      next
        case beyond: False
        have "\<exists>e. open_chunks c key base ?n (i + 1) (take (j - length ct) rest) = Inl e"
          by (rule less.hyps[OF _ rest]) (use ne n long beyond less.prems(3) body in auto)
        moreover have "take j body = ct @ take (j - length ct) rest" "take (j - length ct) rest \<noteq> []"
          using beyond less.prems(3) by (auto simp: body)
        ultimately show ?thesis using open_long[OF len(1) _ len(2)] by auto
      qed
    qed
  qed
qed

lemma short_header: "j < file_header_len \<Longrightarrow> \<exists>e. decrypt_file c rk (take j blob) = Inl e"
  by (simp add: decrypt_file_def min_less_iff_disj)

text \<open>
  C39. A file envelope cut short anywhere, in its header, inside a chunk or between two chunks, does not decrypt,
  whatever the size of the file. Between chunks it is the marker in the last chunk's nonce that tells a complete file
  from a truncated one. Assumed of the cipher is that what was sealed under one nonce opens under no other nonce of the
  same file, and that no proper prefix of it opens.
\<close>

theorem truncation_rejected:
  assumes "aead_ok c" "aead_binds c base" "length base = 24" "encrypt_file c rk base plain = Inr blob" "j < length blob"
  shows "\<exists>e. decrypt_file c rk (take j blob) = Inl e"
proof (cases "j < file_header_len")
  case False
  obtain body where body: "seal_chunks c (file_key c rk) base 0
      (if plain = [] then [[]] else chunks_of file_chunk_size plain) = Some body"
    and blob: "blob = file_magic @ le_bytes 4 file_chunk_size @ base @ body"
    using encrypt_file_body[OF assms(4)] by blast
  have cut: "take j blob = file_magic @ le_bytes 4 file_chunk_size @ base @ take (j - file_header_len) body"
    and short: "j - file_header_len < length body"
    using assms(3,5) False by (auto simp: blob file_header_len_def)
  show ?thesis
  proof (cases "plain = []")
    case True
    with body have ct: "aead_seal c (file_key c rk) (chunk_nonce base 0 True) file_magic [] = Some body"
      by (auto split: option.splits)
    then have len: "length body = 16" using assms(1) by (auto simp: aead_ok_def)
    show ?thesis
    proof (cases "j = file_header_len")
      case True
      then show ?thesis unfolding cut decrypt_envelope[OF assms(3)] by (subst open_chunks.simps) simp
    next
      case False
      then show ?thesis unfolding cut decrypt_envelope[OF assms(3)]
        using binds_prefix[OF assms(3,2) _ ct short, of True] short len \<open>\<not> j < file_header_len\<close> by (intro open_short) auto
    qed
  next
    case False
    with body have "seal_chunks c (file_key c rk) base 0 (chunks_of file_chunk_size plain) = Some body" by simp
    from open_truncated[OF assms(1,2,3) this False short] show ?thesis
      unfolding cut decrypt_envelope[OF assms(3)] .
  qed
qed (rule short_header)


text \<open>A cipher with these laws: the chunk after a tag of the nonce's first and last bytes and the length.\<close>

definition tag_of :: "bytes \<Rightarrow> nat \<Rightarrow> bytes" where
  "tag_of n len = (if n = [] then 0 else hd n) # take 8 (drop 16 n @ replicate 8 0) @ be_bytes 7 len"

definition tag_crypto :: crypto where
  "tag_crypto = \<lparr>hkdf = \<lambda>k _. k,
     aead_seal = \<lambda>k n a m. Some (tag_of n (length m) @ m),
     aead_open = \<lambda>k n a ct. if 16 \<le> length ct \<and> take 16 ct = tag_of n (length ct - 16) then Some (drop 16 ct) else None,
     b64_encode = map (\<lambda>b. char_of (unat b)), b64_decode = \<lambda>s. Some (bytes_of s), base32_decode = \<lambda>s. Some (bytes_of s),
     hmac = \<lambda>_ k m. k @ m, argon2id = \<lambda>p s _ _ _. Some (take 32 (p @ replicate 32 0))\<rparr>"

lemma length_tag_of [simp]: "length (tag_of n l) = 16"
  by (simp add: tag_of_def)

lemma tag_crypto_ok: "aead_ok tag_crypto"
  by (auto simp: aead_ok_def tag_crypto_def)

lemma tag_of_inj:
  assumes "n \<in> nonce_family base" "n' \<in> nonce_family base" "tag_of n l = tag_of n' l'" "l < 256 ^ 7" "l' < 256 ^ 7"
  shows "n = n' \<and> l = l'"
proof -
  have len: "length n = 24" "length n' = 24" and mid: "take 15 (tl n) = take 15 (tl n')"
    using assms(1,2) by (auto simp: nonce_family_def drop_Suc)
  have "hd n = hd n'" "drop 16 n @ be_bytes 7 l = drop 16 n' @ be_bytes 7 l'"
    using assms(3) len by (auto simp: tag_of_def split: if_splits)
  then have parts: "hd n = hd n'" "drop 16 n = drop 16 n'" "be_bytes 7 l = be_bytes 7 l'" using len by simp_all
  have split: "x = hd x # take 15 (tl x) @ drop 16 x" if "length x = 24" for x :: bytes
  proof -
    have "tl x = take 15 (tl x) @ drop 15 (tl x)" by simp
    moreover have "drop 15 (tl x) = drop 16 x" by (simp add: drop_Suc eval_nat_numeral)
    moreover have "x = hd x # tl x" using that by (cases x) auto
    ultimately show ?thesis by simp
  qed
  have "n = n'" by (subst split[OF len(1)], subst split[OF len(2)]) (simp only: parts mid)
  moreover have "l = l'" by (rule be_bytes_inj[OF assms(4,5) parts(3)])
  ultimately show ?thesis by simp
qed

lemma tag_crypto_binds: "aead_binds tag_crypto base"
  unfolding aead_binds_def
proof (intro allI impI, elim conjE)
  fix k n n' ct j and m :: bytes
  assume family: "n \<in> nonce_family base" "n' \<in> nonce_family base" and m: "length m \<le> file_chunk_size"
    and other: "n' \<noteq> n \<or> j < length ct" and "aead_seal tag_crypto k n file_magic m = Some ct"
  then have ct: "ct = tag_of n (length m) @ m" by (simp add: tag_crypto_def)
  have "tag_of n (length m) \<noteq> tag_of n' (min (length m) (j - 16))" if "16 \<le> j"
  proof
    assume "tag_of n (length m) = tag_of n' (min (length m) (j - 16))"
    then have "n = n' \<and> length m = min (length m) (j - 16)"
      by (rule tag_of_inj[OF family]) (use m ct in \<open>simp_all add: file_chunk_size_def\<close>)
    then show False using other that ct by auto
  qed
  then show "aead_open tag_crypto k n' file_magic (take j ct) = None"
    by (cases "16 \<le> j") (auto simp: ct tag_crypto_def)
qed

theorem file_roundtrip_witness:
  "\<exists>blob. encrypt_file tag_crypto [] (replicate 24 0) [1, 2, 3] = Inr blob \<and>
     decrypt_file tag_crypto [] blob = Inr [1, 2, 3]"
proof -
  obtain blob where blob: "encrypt_file tag_crypto [] (replicate 24 0) [1, 2, 3] = Inr blob"
    by (simp add: encrypt_file_def chunks_of_short file_chunk_size_def tag_crypto_def)
  from file_roundtrip[OF tag_crypto_ok _ blob] blob show ?thesis by simp
qed

theorem truncation_rejected_witness:
  "\<exists>blob e. encrypt_file tag_crypto [] (replicate 24 0) [1, 2, 3] = Inr blob \<and>
     decrypt_file tag_crypto [] (take 50 blob) = Inl e"
proof -
  obtain blob where blob: "encrypt_file tag_crypto [] (replicate 24 0) [1, 2, 3] = Inr blob" "length blob = 51"
    by (simp add: encrypt_file_def chunks_of_short file_chunk_size_def tag_crypto_def)
  then show ?thesis
    using truncation_rejected[OF tag_crypto_ok tag_crypto_binds _ blob(1), of 50] by auto
qed

section \<open>One-time codes\<close>

definition totp_algorithm :: "string \<Rightarrow> string" where
  "totp_algorithm a =
     (let u = map (\<lambda>c. if 97 \<le> (of_char c :: nat) \<and> (of_char c :: nat) \<le> 122 then char_of ((of_char c :: nat) - 32) else c) (trim a)
      in if u = ''SHA256'' \<or> u = ''SHA512'' then u else ''SHA1'')"

text \<open>\<open>10u32.pow(digits)\<close> wraps in the release build.\<close>

definition totp_modulus :: "nat \<Rightarrow> nat" where
  "totp_modulus digits = 10 ^ digits mod 2 ^ 32"

definition zero_pad :: "nat \<Rightarrow> string \<Rightarrow> string" where
  "zero_pad w s = replicate (w - length s) (CHR ''0'') @ s"

definition dynamic_truncation :: "bytes \<Rightarrow> nat" where
  "dynamic_truncation mac =
     (let offset = unat (and (List.last mac) 15)
      in be_value (and (mac ! offset) 127 # map (\<lambda>i. mac ! (offset + i)) [1, 2, 3]))"

definition mint_totp_at :: "crypto \<Rightarrow> string \<Rightarrow> nat \<Rightarrow> nat \<Rightarrow> string \<Rightarrow> nat \<Rightarrow> vault_error + string" where
  "mint_totp_at c seed digits period algorithm secs =
     (let kept = concat (filter (\<lambda>x. x \<notin> set ws_seqs) (utf8_chars seed));
          normalized = map (\<lambda>x. if 97 \<le> (of_char x :: nat) \<and> (of_char x :: nat) \<le> 122 then char_of ((of_char x :: nat) - 32) else x)
            (trim_end_matches (\<lambda>x. x = CHR ''='') kept)
      in case base32_decode c normalized of
           None \<Rightarrow> Inl (Internal ''totp: seed is not valid base32'')
         | Some key \<Rightarrow>
             if key = [] then Inl (Internal ''totp: empty seed'')
             else (let d = clamp 6 10 digits;
                       mac = hmac c (totp_algorithm algorithm) key (be_bytes 8 (secs div max period 1))
                   in Inr (zero_pad d (show_nat (dynamic_truncation mac mod totp_modulus d)))))"


text \<open>Up to nine digits the modulus is the power of ten; ten digits overflow it.\<close>

lemma totp_modulus_exact: "d \<le> 9 \<Longrightarrow> totp_modulus d = 10 ^ d"
proof -
  assume "d \<le> 9"
  then have "(10::nat) ^ d \<le> 10 ^ 9" by (intro power_increasing) auto
  then show ?thesis by (simp add: totp_modulus_def)
qed

lemma ten_digit_overflow: "totp_modulus 10 = 1410065408"
  by (simp add: totp_modulus_def)

lemma ten_digit_code_wrong:
  "be_value [127, 255, 255, 255] mod totp_modulus 10 = 737418239" "be_value [127, 255, 255, 255] mod 10 ^ 10 = 2147483647"
  by (simp_all add: totp_modulus_def)

section \<open>Custody of the root\<close>

text \<open>The keyring's entries by account, the key file, and whether a database is there.\<close>

record custody =
  keyring :: "string \<rightharpoonup> bytes"
  key_file :: "bytes option"
  db_exists :: bool
  db_content :: bool

text \<open>Which keyring and file operations succeed; a store that succeeds may still not read back.\<close>

record custody_env =
  use_keyring :: bool
  get_ok :: bool
  set_ok :: bool
  readback_ok :: bool
  file_get_ok :: bool
  file_set_ok :: bool
  file_rm_ok :: bool

definition keyring_account_local :: string where
  "keyring_account_local = ''master''"

definition keyring_account :: "string option \<Rightarrow> string" where
  "keyring_account profile =
     (case profile of
        Some p \<Rightarrow> if trim p \<noteq> [] \<and> trim p \<noteq> ''local'' then ''v1-'' @ trim p else keyring_account_local
      | None \<Rightarrow> keyring_account_local)"

definition keyring_get :: "custody_env \<Rightarrow> string \<Rightarrow> custody \<Rightarrow> vault_error + bytes option" where
  "keyring_get e account k =
     (if \<not> get_ok e then Inl (Internal ''keyring get'')
      else Inr (case keyring k account of Some b \<Rightarrow> if length b = 32 then Some b else None | None \<Rightarrow> None))"

definition keyring_store_verified :: "custody_env \<Rightarrow> string \<Rightarrow> bytes \<Rightarrow> custody \<Rightarrow> bool \<times> custody" where
  "keyring_store_verified e account rk k =
     (if \<not> set_ok e then (False, k)
      else (readback_ok e, k\<lparr>keyring := (keyring k)(account \<mapsto> rk)\<rparr>))"

definition file_get :: "custody_env \<Rightarrow> custody \<Rightarrow> vault_error + bytes option" where
  "file_get e k =
     (if \<not> file_get_ok e then Inl IoErr
      else Inr (case key_file k of Some b \<Rightarrow> if length b = 32 then Some b else None | None \<Rightarrow> None))"

definition file_matches_root :: "custody_env \<Rightarrow> bytes \<Rightarrow> custody \<Rightarrow> bool" where
  "file_matches_root e rk k = (case file_get e k of Inr (Some b) \<Rightarrow> b = rk | _ \<Rightarrow> False)"

definition remove_key_file_if_present :: "custody_env \<Rightarrow> custody \<Rightarrow> custody" where
  "remove_key_file_if_present e k = (if file_rm_ok e then k\<lparr>key_file := None\<rparr> else k)"

definition file_set :: "custody_env \<Rightarrow> bytes \<Rightarrow> custody \<Rightarrow> vault_error + custody" where
  "file_set e rk k = (if file_set_ok e then Inr (k\<lparr>key_file := Some rk\<rparr>) else Inl IoErr)"

definition load_from_file :: "custody_env \<Rightarrow> string \<Rightarrow> bytes \<Rightarrow> custody \<Rightarrow> (vault_error + bytes) \<times> custody" where
  "load_from_file e account fresh k =
     (case file_get e k of
        Inl err \<Rightarrow> (Inl err, k)
      | Inr (Some rk) \<Rightarrow>
          (if use_keyring e then
             (case keyring_store_verified e account rk k of
                (True, k') \<Rightarrow> (Inr rk, remove_key_file_if_present e k')
              | (False, k') \<Rightarrow> (Inr rk, k'))
           else (Inr rk, k))
      | Inr None \<Rightarrow>
          (if db_content k then (Inl (Internal ''vault: refusing to mint a NEW vault root''), k)
           else (case (if use_keyring e then keyring_store_verified e account fresh k else (False, k)) of
                   (True, k') \<Rightarrow> (Inr fresh, k')
                 | (False, k') \<Rightarrow>
                     (case file_set e fresh k' of Inl err \<Rightarrow> (Inl err, k') | Inr k'' \<Rightarrow> (Inr fresh, k'')))))"

definition load_or_create :: "custody_env \<Rightarrow> string option \<Rightarrow> bytes \<Rightarrow> custody \<Rightarrow> (vault_error + bytes) \<times> custody" where
  "load_or_create e profile fresh k =
     (let account = keyring_account profile
      in if \<not> use_keyring e then load_from_file e account fresh k
         else (case keyring_get e account k of
                 Inl err \<Rightarrow> (Inl err, k)
               | Inr (Some rk) \<Rightarrow>
                   (Inr rk, if file_matches_root e rk k then remove_key_file_if_present e k else k)
               | Inr None \<Rightarrow>
                   if account \<noteq> keyring_account_local \<and> db_exists k then
                     (case keyring_get e keyring_account_local k of
                        Inl err \<Rightarrow> (Inl err, k)
                      | Inr (Some master) \<Rightarrow>
                          (Inr master, if set_ok e then k\<lparr>keyring := (keyring k)(account \<mapsto> master)\<rparr> else k)
                      | Inr None \<Rightarrow> load_from_file e account fresh k)
                   else load_from_file e account fresh k))"

definition persist_new_root :: "custody_env \<Rightarrow> string option \<Rightarrow> bytes \<Rightarrow> custody \<Rightarrow> vault_error + custody" where
  "persist_new_root e profile rk k =
     (case (if use_keyring e then keyring_store_verified e (keyring_account profile) rk k else (False, k)) of
        (True, k') \<Rightarrow> Inr (remove_key_file_if_present e k')
      | (False, k') \<Rightarrow> file_set e rk k')"

lemmas custody_ops = load_or_create_def load_from_file_def persist_new_root_def keyring_get_def file_get_def
  keyring_store_verified_def remove_key_file_if_present_def file_set_def file_matches_root_def

text \<open>The root in use is always on some durable store: no operation deletes the only copy.\<close>

definition durable :: "bytes \<Rightarrow> custody \<Rightarrow> bool" where
  "durable rk k \<longleftrightarrow> rk \<in> ran (keyring k) \<or> key_file k = Some rk"

lemma durable_update: "durable rk (k\<lparr>keyring := (keyring k)(a \<mapsto> rk)\<rparr>)"
  by (auto simp: durable_def ran_def)

lemma load_keeps_a_copy: "load_or_create e profile fresh k = (Inr rk, k') \<Longrightarrow> durable rk k'"
  by (auto simp: custody_ops Let_def durable_def ran_def split: if_splits option.splits prod.splits sum.splits bool.splits)

lemma persist_keeps_a_copy: "persist_new_root e profile rk k = Inr k' \<Longrightarrow> durable rk k'"
  by (auto simp: custody_ops durable_def ran_def split: if_splits option.splits prod.splits bool.splits)

text \<open>An existing database is never paired with a fresh root.\<close>

lemma no_fresh_root_over_database:
  "load_or_create e profile fresh k = (Inr rk, k') \<Longrightarrow> db_content k \<Longrightarrow> durable rk k"
  by (auto simp: custody_ops Let_def durable_def ran_def split: if_splits option.splits prod.splits sum.splits bool.splits)


text \<open>
  After a persist the next load returns the new root when the keyring is off, or when it took the store. When
  the store failed and the keyring still holds the old root, the file has the new root and the load returns the
  old one.
\<close>

lemma persist_then_load:
  "persist_new_root e profile rk k = Inr k' \<Longrightarrow> length rk = 32
    \<Longrightarrow> \<not> use_keyring e \<and> file_get_ok e \<or> use_keyring e \<and> set_ok e \<and> get_ok e
    \<Longrightarrow> fst (load_or_create e profile fresh k') = Inr rk"
  by (auto simp: custody_ops Let_def split: if_splits bool.splits prod.splits)

lemma failed_store_leaves_old_root:
  "use_keyring e \<Longrightarrow> \<not> set_ok e \<Longrightarrow> get_ok e \<Longrightarrow> file_set_ok e \<Longrightarrow> keyring k (keyring_account profile) = Some old
    \<Longrightarrow> length old = 32 \<Longrightarrow>
    \<exists>k'. persist_new_root e profile rk k = Inr k' \<and> key_file k' = Some rk \<and>
      fst (load_or_create e profile fresh k') = Inr old"
  by (simp add: custody_ops Let_def)

section \<open>Root keys\<close>

definition root_xor :: "bytes \<Rightarrow> bytes \<Rightarrow> bytes" where
  "root_xor a b = map2 xor a b"

fun root_diff :: "8 word \<Rightarrow> bytes \<Rightarrow> bytes \<Rightarrow> 8 word" where
  "root_diff d (x # xs) (y # ys) = root_diff (or d (xor x y)) xs ys"
| "root_diff d _ _ = d"

definition root_ct_eq :: "bytes \<Rightarrow> bytes \<Rightarrow> bool" where
  "root_ct_eq a b \<longleftrightarrow> root_diff 0 a b = 0"

definition is_root :: "bytes \<Rightarrow> bool" where
  "is_root b \<longleftrightarrow> length b = 32"

lemma length_root_xor [simp]: "length (root_xor a b) = min (length a) (length b)"
  by (simp add: root_xor_def)

lemma root_diff_zero: "length a = length b \<Longrightarrow> root_diff d a b = 0 \<longleftrightarrow> d = 0 \<and> a = b"
  by (induction d a b rule: root_diff.induct) (auto simp: word_or_zero word_xor_zero)

lemma root_ct_eq_iff: "length a = length b \<Longrightarrow> root_ct_eq a b \<longleftrightarrow> a = b"
  by (simp add: root_ct_eq_def root_diff_zero)

lemma root_xor_cancel: "length a = length b \<Longrightarrow> root_xor (root_xor a b) b = a"
  by (rule nth_equalityI) (simp_all add: root_xor_def xor.assoc)

lemma root_xor_comm: "root_xor a b = root_xor b a"
  by (simp add: root_xor_def list_eq_iff_nth_eq xor.commute)

lemma root_xor_assoc: "root_xor (root_xor a b) c = root_xor a (root_xor b c)"
  by (simp add: root_xor_def list_eq_iff_nth_eq xor.assoc)

lemma root_xor_eq_iff: "length a = 32 \<Longrightarrow> length b = 32 \<Longrightarrow> length c = 32 \<Longrightarrow> root_xor a b = c \<longleftrightarrow> b = root_xor a c"
  by (metis root_xor_cancel root_xor_comm)

end
