(* ===== verification/VaultLock.thy ===== *)
theory VaultLock
  imports Vault
begin

text \<open>
  The app-lock (\<open>src/src/local/vault_lock.rs\<close>), its control routes (\<open>api/v1/vault.rs\<close>), the recovery code
  (\<open>vault_recovery.rs\<close>) and the configuration table they write (\<open>store/config_kv.rs\<close>).

  Instants and durations are in nanoseconds. A passphrase and its number of characters, the salt and the
  mnemonic are arguments; the mnemonic's wrap key is a parameter.
\<close>

section \<open>The configuration table\<close>

type_synonym config_kv = "string \<rightharpoonup> string"

definition kv_set :: "string \<Rightarrow> string \<Rightarrow> config_kv \<Rightarrow> config_kv" where
  "kv_set k v m = m(k \<mapsto> v)"

definition kv_delete :: "string \<Rightarrow> config_kv \<Rightarrow> bool \<times> config_kv" where
  "kv_delete k m = (m k \<noteq> None, m(k := None))"

definition cfg_wrap :: string where "cfg_wrap = ''vault_lock.wrap_b64''"
definition cfg_salt :: string where "cfg_salt = ''vault_lock.salt_b64''"
definition cfg_m_cost :: string where "cfg_m_cost = ''vault_lock.m_cost_kib''"
definition cfg_t_cost :: string where "cfg_t_cost = ''vault_lock.t_cost''"
definition cfg_p_cost :: string where "cfg_p_cost = ''vault_lock.p_cost''"
definition cfg_recovery_wrap :: string where "cfg_recovery_wrap = ''vault_recovery.wrap_b64''"

lemmas cfg_defs = cfg_wrap_def cfg_salt_def cfg_m_cost_def cfg_t_cost_def cfg_p_cost_def cfg_recovery_wrap_def

section \<open>The lock\<close>

definition argon2_m_cost_full :: nat where "argon2_m_cost_full = 256 * 1024"
definition argon2_m_cost_low :: nat where "argon2_m_cost_low = 64 * 1024"
definition argon2_t_cost :: nat where "argon2_t_cost = 3"
definition argon2_p_cost :: nat where "argon2_p_cost = 1"

definition secs :: "nat \<Rightarrow> nat" where
  "secs n = n * 1000000000"

definition default_idle_secs :: nat where
  "default_idle_secs = 15 * 60"

datatype lock_mode = LockDisabled | LockUnlocked | LockLocked

record machine =
  mode :: lock_mode
  last_activity :: nat
  idle :: nat

record lock_state =
  ls_machine :: machine
  ls_config :: config_kv

text \<open>The statements that succeed, in order for the writes of \<open>enable\<close>, by key for the deletions.\<close>

record lock_env =
  le_now :: nat
  le_read_ok :: bool
  le_writes_ok :: nat
  le_delete_ok :: "string \<Rightarrow> bool"

definition load_lock :: "nat \<Rightarrow> config_kv \<Rightarrow> machine" where
  "load_lock now config =
     \<lparr>mode = (if config cfg_wrap \<noteq> None then LockLocked else LockDisabled), last_activity = now, idle = secs default_idle_secs\<rparr>"

definition disabled_lock :: "nat \<Rightarrow> machine" where
  "disabled_lock now = \<lparr>mode = LockDisabled, last_activity = now, idle = secs default_idle_secs\<rparr>"

definition is_locked :: "nat \<Rightarrow> machine \<Rightarrow> bool \<times> machine" where
  "is_locked now m =
     (case mode m of
        LockDisabled \<Rightarrow> (False, m)
      | LockLocked \<Rightarrow> (True, m)
      | LockUnlocked \<Rightarrow> if idle m \<le> now - last_activity m then (True, m\<lparr>mode := LockLocked\<rparr>) else (False, m))"

definition lock_guard :: "nat \<Rightarrow> machine \<Rightarrow> (vault_error + unit) \<times> machine" where
  "lock_guard now m = (case is_locked now m of (b, m') \<Rightarrow> (if b then Inl LockedErr else Inr (), m'))"

definition touch_lock :: "nat \<Rightarrow> machine \<Rightarrow> machine" where
  "touch_lock now m = (if mode m = LockUnlocked then m\<lparr>last_activity := now\<rparr> else m)"

definition lock_now :: "machine \<Rightarrow> machine" where
  "lock_now m = (if mode m \<noteq> LockDisabled then m\<lparr>mode := LockLocked\<rparr> else m)"

record lock_status =
  enabled :: bool
  locked :: bool
  idle_timeout_secs :: nat

definition status_of :: "nat \<Rightarrow> machine \<Rightarrow> lock_status \<times> machine" where
  "status_of now m =
     (case is_locked now m of (b, m') \<Rightarrow>
        (\<lparr>enabled = (mode m' \<noteq> LockDisabled), locked = b,
          idle_timeout_secs = (if mode m' = LockDisabled then 0 else idle m' div 1000000000)\<rparr>, m'))"

definition set_idle_secs :: "nat \<Rightarrow> machine \<Rightarrow> machine" where
  "set_idle_secs n m = m\<lparr>idle := secs (clamp 60 (24 * 3600) n)\<rparr>"

definition probe_cost_tier :: "crypto \<Rightarrow> nat \<times> nat \<times> nat" where
  "probe_cost_tier c =
     (if argon2id c (bytes_of ''probe'') (replicate 16 0) argon2_m_cost_full argon2_t_cost argon2_p_cost \<noteq> None
      then (argon2_m_cost_full, argon2_t_cost, argon2_p_cost)
      else (argon2_m_cost_low, argon2_t_cost, argon2_p_cost))"

definition is_configured :: "lock_env \<Rightarrow> config_kv \<Rightarrow> vault_error + bool" where
  "is_configured e config = (if le_read_ok e then Inr (config cfg_wrap \<noteq> None) else Inl IoErr)"

definition derive_key :: "crypto \<Rightarrow> string \<Rightarrow> bytes \<Rightarrow> nat \<Rightarrow> nat \<Rightarrow> nat \<Rightarrow> vault_error + bytes" where
  "derive_key c pass salt m t p =
     (case argon2id c (bytes_of pass) salt m t p of
        None \<Rightarrow> Inl (Internal ''argon2 derivation failed'') | Some k \<Rightarrow> Inr k)"

definition lock_writes :: "crypto \<Rightarrow> bytes \<Rightarrow> bytes \<Rightarrow> nat \<times> nat \<times> nat \<Rightarrow> bytes \<Rightarrow> (string \<times> string) list" where
  "lock_writes c rk salt tier key =
     (case tier of (m, t, p) \<Rightarrow>
        [(cfg_wrap, b64_encode c (root_xor rk key)), (cfg_salt, b64_encode c salt),
         (cfg_m_cost, show_nat m), (cfg_t_cost, show_nat t), (cfg_p_cost, show_nat p)])"

definition enable_lock ::
    "crypto \<Rightarrow> lock_env \<Rightarrow> bytes \<Rightarrow> bytes \<Rightarrow> string \<Rightarrow> lock_state \<Rightarrow> (vault_error + unit) \<times> lock_state" where
  "enable_lock c e rk salt pass s =
     (if length (utf8_chars pass) < 6 then (Inl (BadRequest ''passphrase must be at least 6 characters''), s)
      else (case probe_cost_tier c of (m, t, p) \<Rightarrow>
        (case derive_key c pass salt m t p of
           Inl err \<Rightarrow> (Inl err, s)
         | Inr key \<Rightarrow>
             (let writes = lock_writes c rk salt (m, t, p) key;
                  config = fold (\<lambda>(k, v). kv_set k v) (take (le_writes_ok e) writes) (ls_config s)
              in if le_writes_ok e < length writes then (Inl IoErr, s\<lparr>ls_config := config\<rparr>)
                 else (Inr (), \<lparr>ls_machine = (ls_machine s)\<lparr>mode := LockUnlocked, last_activity := le_now e\<rparr>,
                                ls_config = config\<rparr>)))))"

definition disable_lock :: "lock_env \<Rightarrow> lock_state \<Rightarrow> lock_state" where
  "disable_lock e s =
     \<lparr>ls_machine = (ls_machine s)\<lparr>mode := LockDisabled\<rparr>,
      ls_config = fold (\<lambda>k m. if le_delete_ok e k then snd (kv_delete k m) else m)
        [cfg_wrap, cfg_salt, cfg_m_cost, cfg_t_cost, cfg_p_cost] (ls_config s)\<rparr>"

text \<open>\<open>str::parse::<u32>\<close>.\<close>

definition parse_u32 :: "string \<Rightarrow> nat option" where
  "parse_u32 s =
     (case parse_digits (case s of c # r \<Rightarrow> if c = CHR ''+'' then r else s | [] \<Rightarrow> []) of
        Some n \<Rightarrow> if n < 2 ^ 32 then Some (nat n) else None | None \<Rightarrow> None)"

definition cost_of :: "string \<Rightarrow> nat \<Rightarrow> config_kv \<Rightarrow> nat" where
  "cost_of k d config = unwrap_or d (Option.bind (config k) parse_u32)"

definition unb64_32 :: "crypto \<Rightarrow> string \<Rightarrow> vault_error + bytes" where
  "unb64_32 c s =
     (case b64_decode c s of
        None \<Rightarrow> Inl (Internal ''bad wrap base64'')
      | Some raw \<Rightarrow> if length raw \<noteq> 32 then Inl (Internal ''wrap is not 32 bytes'') else Inr raw)"

definition unlock_lock :: "crypto \<Rightarrow> lock_env \<Rightarrow> bytes \<Rightarrow> string \<Rightarrow> lock_state \<Rightarrow> (vault_error + unit) \<times> lock_state" where
  "unlock_lock c e rk pass s =
     (if mode (ls_machine s) = LockDisabled then (Inr (), s)
      else if \<not> le_read_ok e then (Inl IoErr, s)
      else (case (ls_config s cfg_wrap, ls_config s cfg_salt) of
              (None, _) \<Rightarrow> (Inl (Internal ''vault lock: missing wrap''), s)
            | (_, None) \<Rightarrow> (Inl (Internal ''vault lock: missing salt''), s)
            | (Some wrap_b64, Some salt_b64) \<Rightarrow>
                (case unb64_32 c wrap_b64 of
                   Inl err \<Rightarrow> (Inl err, s)
                 | Inr wrap \<Rightarrow>
                     (case b64_decode c salt_b64 of
                        None \<Rightarrow> (Inl (Internal ''vault lock: bad salt''), s)
                      | Some salt \<Rightarrow>
                          (case derive_key c pass salt (cost_of cfg_m_cost argon2_m_cost_full (ls_config s))
                                  (cost_of cfg_t_cost argon2_t_cost (ls_config s))
                                  (cost_of cfg_p_cost argon2_p_cost (ls_config s)) of
                             Inl err \<Rightarrow> (Inl err, s)
                           | Inr key \<Rightarrow>
                               if \<not> root_ct_eq (root_xor wrap key) rk then (Inl BadCredential, s)
                               else (Inr (), s\<lparr>ls_machine := (ls_machine s)\<lparr>mode := LockUnlocked,
                                       last_activity := le_now e\<rparr>\<rparr>))))))"


section \<open>The recovery code\<close>

text \<open>\<open>wrap_key\<close> derives a key from a mnemonic, \<open>parse_mnemonic\<close> reads one from text.\<close>

definition generate_recovery ::
    "crypto \<Rightarrow> (string \<Rightarrow> bytes) \<Rightarrow> bool \<Rightarrow> string \<Rightarrow> bytes \<Rightarrow> config_kv \<Rightarrow> (vault_error + string) \<times> config_kv" where
  "generate_recovery c wrap_key ok mnemonic rk config =
     (if ok then (Inr mnemonic, kv_set cfg_recovery_wrap (b64_encode c (root_xor rk (wrap_key mnemonic))) config)
      else (Inl IoErr, config))"

definition restore_from ::
    "crypto \<Rightarrow> (string \<Rightarrow> bytes) \<Rightarrow> (string \<Rightarrow> string option) \<Rightarrow> bool \<Rightarrow> string \<Rightarrow> bytes option \<Rightarrow> config_kv \<Rightarrow> vault_error + bytes" where
  "restore_from c wrap_key parse_mnemonic ok phrase expected config =
     (if \<not> ok then Inl IoErr
      else (case config cfg_recovery_wrap of
              None \<Rightarrow> Inl (BadRequest ''no recovery code is configured for this vault'')
            | Some wrap_b64 \<Rightarrow>
                (case parse_mnemonic (trim phrase) of
                   None \<Rightarrow> Inl (BadRequest ''recovery code is not a valid mnemonic'')
                 | Some m \<Rightarrow>
                     (case unb64_32 c wrap_b64 of
                        Inl err \<Rightarrow> Inl err
                      | Inr wrap \<Rightarrow>
                          (let candidate = root_xor wrap (wrap_key m)
                           in case expected of
                                Some r \<Rightarrow> if \<not> root_ct_eq candidate r then Inl BadCredential else Inr candidate
                              | None \<Rightarrow> Inr candidate)))))"

definition rewrap_for_new_root :: "crypto \<Rightarrow> bytes \<Rightarrow> bytes \<Rightarrow> config_kv \<Rightarrow> vault_error + config_kv" where
  "rewrap_for_new_root c old new config =
     (case config cfg_recovery_wrap of
        None \<Rightarrow> Inr config
      | Some wrap_b64 \<Rightarrow>
          (case unb64_32 c wrap_b64 of
             Inl err \<Rightarrow> Inl err
           | Inr stored \<Rightarrow>
               Inr (kv_set cfg_recovery_wrap (b64_encode c (root_xor new (root_xor old stored))) config)))"

lemma root_xor_left_comm: "root_xor a (root_xor b c) = root_xor b (root_xor a c)"
  unfolding root_xor_assoc[symmetric] by (simp add: root_xor_comm[of a b])

lemma root_xor_self: "length a = length b \<Longrightarrow> root_xor a (root_xor a b) = b"
  using root_xor_cancel[of b a] by (simp add: root_xor_comm)

text \<open>The wrap binds a root and a mnemonic; re-wrapping moves it to the new root, and a second time back.\<close>

definition recovery_bound :: "crypto \<Rightarrow> bytes \<Rightarrow> bytes \<Rightarrow> config_kv \<Rightarrow> bool" where
  "recovery_bound c rk key config \<longleftrightarrow> config cfg_recovery_wrap = Some (b64_encode c (root_xor rk key))"

lemma generate_binds: "generate_recovery c wk True m rk config = (r, config') \<Longrightarrow> recovery_bound c rk (wk m) config'"
  by (auto simp: generate_recovery_def recovery_bound_def kv_set_def)

lemma restore_bound:
  "base64_ok c \<Longrightarrow> recovery_bound c rk (wk m) config \<Longrightarrow> length rk = 32 \<Longrightarrow> length (wk m) = 32 \<Longrightarrow> pm (trim p) = Some m
    \<Longrightarrow> restore_from c wk pm True p expected config
      = (case expected of None \<Rightarrow> Inr rk | Some r \<Rightarrow> if root_ct_eq rk r then Inr rk else Inl BadCredential)"
  by (simp add: restore_from_def recovery_bound_def unb64_32_def base64_ok_def root_xor_cancel split: option.split)

lemma rewrap_binds:
  assumes "base64_ok c" "recovery_bound c old key config" "length old = 32" "length new = 32" "length key = 32"
  shows "\<exists>config'. rewrap_for_new_root c old new config = Inr config' \<and> recovery_bound c new key config' \<and>
    (\<forall>k. k \<noteq> cfg_recovery_wrap \<longrightarrow> config' k = config k)"
proof -
  have "root_xor old (root_xor old key) = key"
    using assms(3,5) by (simp add: root_xor_self)
  then show ?thesis
    using assms by (simp add: rewrap_for_new_root_def recovery_bound_def unb64_32_def base64_ok_def kv_set_def)
qed

lemma rewrap_twice_goes_back:
  assumes "base64_ok c" "recovery_bound c old key config" "length old = 32" "length new = 32" "length key = 32"
    and "rewrap_for_new_root c old new config = Inr config'"
  shows "\<exists>config''. rewrap_for_new_root c old new config' = Inr config'' \<and> recovery_bound c old key config''"
proof -
  have bound: "recovery_bound c new key config'" using rewrap_binds[OF assms(1-5)] assms(6) by auto
  have "root_xor new (root_xor old (root_xor new key)) = root_xor old key"
    using assms(4,5) by (simp add: root_xor_left_comm[of new old] root_xor_self)
  then show ?thesis
    using bound assms by (simp add: rewrap_for_new_root_def recovery_bound_def unb64_32_def base64_ok_def kv_set_def)
qed

section \<open>The routes\<close>

definition on_machine :: "(machine \<Rightarrow> machine) \<Rightarrow> lock_state \<Rightarrow> lock_state" where
  "on_machine f s = s\<lparr>ls_machine := f (ls_machine s)\<rparr>"

definition guarded :: "nat \<Rightarrow> lock_state \<Rightarrow> (vault_error + unit) \<times> lock_state" where
  "guarded now s = (case lock_guard now (ls_machine s) of (r, m) \<Rightarrow> (r, s\<lparr>ls_machine := m\<rparr>))"

definition with_recovery ::
    "crypto \<Rightarrow> (string \<Rightarrow> bytes) \<Rightarrow> bool \<Rightarrow> string \<Rightarrow> bytes \<Rightarrow> lock_state \<Rightarrow> (vault_error + string) \<times> lock_state" where
  "with_recovery c wrap_key ok mnemonic rk s =
     (case generate_recovery c wrap_key ok mnemonic rk (ls_config s) of (r, config) \<Rightarrow> (r, s\<lparr>ls_config := config\<rparr>))"

definition enable_route ::
    "crypto \<Rightarrow> (string \<Rightarrow> bytes) \<Rightarrow> lock_env \<Rightarrow> bool \<Rightarrow> bytes \<Rightarrow> bytes \<Rightarrow> string \<Rightarrow> string \<Rightarrow> lock_state
     \<Rightarrow> (vault_error + string) \<times> lock_state" where
  "enable_route c wrap_key e ok rk salt mnemonic pass s =
     (case is_configured e (ls_config s) of
        Inl err \<Rightarrow> (Inl err, s)
      | Inr configured \<Rightarrow>
          (case (if configured then guarded (le_now e) s else (Inr (), s)) of
             (Inl err, s1) \<Rightarrow> (Inl err, s1)
           | (Inr _, s1) \<Rightarrow>
               (case enable_lock c e rk salt pass s1 of
                  (Inl err, s2) \<Rightarrow> (Inl err, s2)
                | (Inr _, s2) \<Rightarrow> with_recovery c wrap_key ok mnemonic rk s2)))"

definition disable_route :: "lock_env \<Rightarrow> lock_state \<Rightarrow> (vault_error + unit) \<times> lock_state" where
  "disable_route e s =
     (case guarded (le_now e) s of
        (Inl err, s1) \<Rightarrow> (Inl err, s1)
      | (Inr _, s1) \<Rightarrow> (Inr (), disable_lock e s1))"

definition recovery_route ::
    "crypto \<Rightarrow> (string \<Rightarrow> bytes) \<Rightarrow> nat \<Rightarrow> bool \<Rightarrow> string \<Rightarrow> bytes \<Rightarrow> lock_state \<Rightarrow> (vault_error + string) \<times> lock_state" where
  "recovery_route c wrap_key now ok mnemonic rk s =
     (case guarded now s of
        (Inl err, s1) \<Rightarrow> (Inl err, s1)
      | (Inr _, s1) \<Rightarrow> with_recovery c wrap_key ok mnemonic rk s1)"

text \<open>Every call on the lock, apart from an unlock that succeeds.\<close>

inductive lock_call :: "crypto \<Rightarrow> bytes \<Rightarrow> lock_state \<Rightarrow> lock_state \<Rightarrow> bool" for c rk where
  call_guard: "lock_call c rk s (snd (guarded now s))"
| call_touch: "lock_call c rk s (on_machine (touch_lock now) s)"
| call_lock: "lock_call c rk s (on_machine lock_now s)"
| call_status: "lock_call c rk s (on_machine (\<lambda>m. snd (status_of now m)) s)"
| call_set_idle: "lock_call c rk s (on_machine (set_idle_secs n) s)"
| call_enable: "lock_call c rk s (snd (enable_route c wk e ok rk salt mnemonic pass s))"
| call_disable: "lock_call c rk s (snd (disable_route e s))"
| call_recovery: "lock_call c rk s (snd (recovery_route c wk now ok mnemonic rk s))"
| call_unlock: "fst (unlock_lock c e rk pass s) \<noteq> Inr () \<Longrightarrow> lock_call c rk s (snd (unlock_lock c e rk pass s))"
| call_restart: "lock_call c rk s (s\<lparr>ls_machine := load_lock now (ls_config s)\<rparr>)"

definition locked_down :: "lock_state \<Rightarrow> bool" where
  "locked_down s \<longleftrightarrow> mode (ls_machine s) = LockLocked \<and> ls_config s cfg_wrap \<noteq> None"

lemma guarded_locked: "mode (ls_machine s) = LockLocked \<Longrightarrow> guarded now s = (Inl LockedErr, s)"
  by (simp add: guarded_def lock_guard_def is_locked_def)

lemma failed_unlock: "fst (unlock_lock c e rk pass s) \<noteq> Inr () \<Longrightarrow> snd (unlock_lock c e rk pass s) = s"
  by (auto simp: unlock_lock_def split: option.splits sum.splits if_splits)

lemma lock_call_locked:
  assumes "lock_call c rk s s'" "locked_down s"
  shows "locked_down s' \<and> ls_config s' = ls_config s"
proof -
  have m: "mode (ls_machine s) = LockLocked" and w: "ls_config s cfg_wrap \<noteq> None"
    using assms(2) by (auto simp: locked_down_def)
  from assms(1) show ?thesis
    using m w
    by cases (auto simp: locked_down_def guarded_locked on_machine_def touch_lock_def lock_now_def status_of_def
        is_locked_def set_idle_secs_def enable_route_def is_configured_def disable_route_def recovery_route_def
        failed_unlock load_lock_def)
qed

lemma lock_calls_locked:
  "(lock_call c rk)\<^sup>*\<^sup>* s s' \<Longrightarrow> locked_down s \<Longrightarrow> locked_down s' \<and> ls_config s' = ls_config s"
  by (induction rule: rtranclp.induct) (auto dest: lock_call_locked)


section \<open>What unlocks\<close>

lemma parse_u32_show: "n < 2 ^ 32 \<Longrightarrow> parse_u32 (show_nat n) = Some n"
proof -
  assume n: "n < 2 ^ 32"
  have "hd (show_nat n) \<noteq> CHR ''+''" using hd_show_nat[of n] by (auto simp: is_digit_def)
  then have "(case show_nat n of c # r \<Rightarrow> if c = CHR ''+'' then r else show_nat n | [] \<Rightarrow> []) = show_nat n"
    by (cases "show_nat n") auto
  then show ?thesis
    using show_nat_digits[of n] n by (simp add: parse_u32_def parse_digits_def digits_show_nat)
qed

text \<open>The configuration of a lock: its wrap under a key, its salt and its tier.\<close>

definition lock_entries :: "crypto \<Rightarrow> bytes \<Rightarrow> bytes \<Rightarrow> nat \<times> nat \<times> nat \<Rightarrow> bytes \<Rightarrow> config_kv \<Rightarrow> bool" where
  "lock_entries c rk salt tier key config \<longleftrightarrow> (\<forall>(k, v) \<in> set (lock_writes c rk salt tier key). config k = Some v)"

definition keys_32 :: "crypto \<Rightarrow> bool" where
  "keys_32 c \<longleftrightarrow> (\<forall>p s m t q k. argon2id c p s m t q = Some k \<longrightarrow> length k = 32)"

lemma cfg_distinct [simp]:
  "cfg_wrap \<noteq> cfg_salt" "cfg_wrap \<noteq> cfg_m_cost" "cfg_wrap \<noteq> cfg_t_cost" "cfg_wrap \<noteq> cfg_p_cost"
  "cfg_salt \<noteq> cfg_m_cost" "cfg_salt \<noteq> cfg_t_cost" "cfg_salt \<noteq> cfg_p_cost" "cfg_m_cost \<noteq> cfg_t_cost"
  "cfg_m_cost \<noteq> cfg_p_cost" "cfg_t_cost \<noteq> cfg_p_cost" "cfg_recovery_wrap \<noteq> cfg_wrap" "cfg_recovery_wrap \<noteq> cfg_salt"
  "cfg_recovery_wrap \<noteq> cfg_m_cost" "cfg_recovery_wrap \<noteq> cfg_t_cost" "cfg_recovery_wrap \<noteq> cfg_p_cost"
  by (simp_all add: cfg_defs)

lemma probe_tier: "case probe_cost_tier c of (m, t, p) \<Rightarrow> m < 2 ^ 32 \<and> t < 2 ^ 32 \<and> p < 2 ^ 32"
  by (simp add: probe_cost_tier_def argon2_m_cost_full_def argon2_m_cost_low_def argon2_t_cost_def argon2_p_cost_def)

lemma enable_lock_ok:
  assumes "enable_lock c e rk salt pass s = (Inr (), s')"
  shows "\<exists>m t p key. probe_cost_tier c = (m, t, p) \<and> derive_key c pass salt m t p = Inr key \<and>
    lock_entries c rk salt (m, t, p) key (ls_config s') \<and> mode (ls_machine s') = LockUnlocked"
proof -
  obtain m t p where tier: "probe_cost_tier c = (m, t, p)" by (metis prod_cases3)
  with assms obtain key where "derive_key c pass salt m t p = Inr key"
    by (auto simp: enable_lock_def split: sum.splits if_splits)
  with tier assms show ?thesis
    by (auto simp: enable_lock_def lock_entries_def lock_writes_def kv_set_def Let_def split: if_splits)
qed

text \<open>With the entries of some key in place, exactly the passphrases that derive this key unlock.\<close>

lemma unlock_with_entries:
  assumes "base64_ok c" "keys_32 c" "length rk = 32" "length key = 32" "m < 2 ^ 32" "t < 2 ^ 32" "p < 2 ^ 32"
    and "lock_entries c rk salt (m, t, p) key (ls_config s)"
    and "mode (ls_machine s) \<noteq> LockDisabled" "le_read_ok e"
  shows "fst (unlock_lock c e rk pass s) = Inr () \<longleftrightarrow> argon2id c (bytes_of pass) salt m t p = Some key"
proof -
  have cost: "cost_of cfg_m_cost argon2_m_cost_full (ls_config s) = m" "cost_of cfg_t_cost argon2_t_cost (ls_config s) = t"
    "cost_of cfg_p_cost argon2_p_cost (ls_config s) = p"
    using assms(5-8) by (simp_all add: cost_of_def lock_entries_def lock_writes_def parse_u32_show)
  have entries: "ls_config s cfg_wrap = Some (b64_encode c (root_xor rk key))" "ls_config s cfg_salt = Some (b64_encode c salt)"
    using assms(8) by (simp_all add: lock_entries_def lock_writes_def)
  have "root_ct_eq (root_xor (root_xor rk key) k) rk \<longleftrightarrow> k = key" if "length k = 32" for k
  proof -
    have "root_ct_eq (root_xor (root_xor rk key) k) rk \<longleftrightarrow> root_xor (root_xor rk key) k = rk"
      using that assms(3,4) by (intro root_ct_eq_iff) simp
    also have "\<dots> \<longleftrightarrow> k = root_xor (root_xor rk key) rk"
      using that assms(3,4) by (intro root_xor_eq_iff) simp_all
    also have "root_xor (root_xor rk key) rk = key"
      using assms(3,4) root_xor_cancel[of key rk] by (simp add: root_xor_comm)
    finally show ?thesis .
  qed
  then show ?thesis
    using assms(1-4,9,10) entries cost
    by (auto simp: unlock_lock_def unb64_32_def base64_ok_def derive_key_def keys_32_def split: option.splits)
qed

text \<open>A passphrase unlocks exactly when Argon2id takes it, over the salt and at the cost stored by the last
  enable, to the key of the passphrase that was set: after any calls that leave the entries alone, a session
  that is not disabled opens to that passphrase and, collisions of the derivation apart, to no other.\<close>

theorem unlock_exact:
  assumes "base64_ok c" "keys_32 c" "length rk = 32" "enable_lock c e rk salt pass s = (Inr (), s1)"
    and "\<forall>k. k \<noteq> cfg_recovery_wrap \<longrightarrow> ls_config s2 k = ls_config s1 k" "mode (ls_machine s2) \<noteq> LockDisabled" "le_read_ok e2"
  shows "case probe_cost_tier c of (m, t, p) \<Rightarrow>
    fst (unlock_lock c e2 rk pass' s2) = Inr () \<longleftrightarrow>
      argon2id c (bytes_of pass') salt m t p = argon2id c (bytes_of pass) salt m t p"
proof -
  obtain m t p key where tier: "probe_cost_tier c = (m, t, p)" and key: "derive_key c pass salt m t p = Inr key"
    and entries: "lock_entries c rk salt (m, t, p) key (ls_config s1)"
    using enable_lock_ok[OF assms(4)] by blast
  have k: "argon2id c (bytes_of pass) salt m t p = Some key" using key by (auto simp: derive_key_def split: option.splits)
  then have "length key = 32" using assms(2) by (auto simp: keys_32_def)
  moreover have "lock_entries c rk salt (m, t, p) key (ls_config s2)"
    using entries assms(5) by (simp add: lock_entries_def lock_writes_def cfg_distinct[symmetric] del: cfg_distinct)
  ultimately show ?thesis
    using unlock_with_entries[OF assms(1-3), of key m t p salt s2 e2 pass'] assms(6,7) probe_tier[of c] k
    by (simp add: tier)
qed

text \<open>C9. Once locked, with its wrap stored, the vault stays locked through any calls on its routes and any restart,
  other than an unlock that verifies: enabling, disabling and re-issuing the recovery code are refused, the
  stored material does not change, and every route that touches secrets answers that the vault is locked.\<close>

theorem locked_until_passphrase:
  assumes "locked_down s" "(lock_call c rk)\<^sup>*\<^sup>* s s'"
  shows "ls_config s' = ls_config s \<and> fst (guarded now s') = Inl LockedErr \<and>
    fst (disable_route e s') = Inl LockedErr \<and> fst (recovery_route c wk now ok mn rk s') = Inl LockedErr \<and>
    (le_read_ok e \<longrightarrow> fst (enable_route c wk e ok rk salt mn pass s') = Inl LockedErr)"
  using lock_calls_locked[OF assms(2,1)]
  by (auto simp: locked_down_def guarded_locked disable_route_def recovery_route_def enable_route_def is_configured_def)

text \<open>
  A second \<open>enable\<close> that fails after its first write leaves the new wrap over the old salt: the passphrase set
  before unlocks only if it derives, over the old salt, the key of the new passphrase over the new one.
\<close>

lemma partial_enable_locks_out:
  assumes "base64_ok c" "keys_32 c" "length rk = 32" "probe_cost_tier c = (m, t, p)"
    and "lock_entries c rk salt (m, t, p) key (ls_config s)" "mode (ls_machine s) \<noteq> LockDisabled"
    and "derive_key c pass' salt' m t p = Inr key'" "6 \<le> length (utf8_chars pass')" "le_writes_ok e = 1" "le_read_ok e2"
  shows "\<exists>s'. enable_lock c e rk salt' pass' s = (Inl IoErr, s') \<and>
    (fst (unlock_lock c e2 rk pass s') = Inr () \<longleftrightarrow> argon2id c (bytes_of pass) salt m t p = Some key')"
proof -
  let ?s' = "s\<lparr>ls_config := kv_set cfg_wrap (b64_encode c (root_xor rk key')) (ls_config s)\<rparr>"
  have "enable_lock c e rk salt' pass' s = (Inl IoErr, ?s')"
    using assms(4,7-9) by (simp add: enable_lock_def lock_writes_def Let_def)
  moreover have "lock_entries c rk salt (m, t, p) key' (ls_config ?s')"
    using assms(5) by (simp add: lock_entries_def lock_writes_def kv_set_def cfg_distinct[symmetric] del: cfg_distinct)
  moreover have "length key' = 32" using assms(2,7) by (auto simp: keys_32_def derive_key_def split: option.splits)
  ultimately show ?thesis
    using unlock_with_entries[OF assms(1-3), of key' m t p salt ?s' e2 pass] assms(4,6,10) probe_tier[of c] by simp
qed


section \<open>A concrete lock\<close>

lemma tag_crypto_base64: "base64_ok tag_crypto"
proof -
  have "byte (char_of (unat b)) = b" for b :: "8 word"
  proof -
    have "unat b < 256" using unsigned_less[of b] by simp
    then show ?thesis by (simp add: of_char_of)
  qed
  then have "map (\<lambda>x. byte (char_of (unat x))) x = x" for x :: bytes by (simp add: map_idI)
  then show ?thesis by (simp add: base64_ok_def tag_crypto_def bytes_of_def comp_def)
qed

lemma tag_crypto_keys: "keys_32 tag_crypto"
  by (auto simp: keys_32_def tag_crypto_def)

definition demo_lock_env :: lock_env where
  "demo_lock_env = \<lparr>le_now = 1, le_read_ok = True, le_writes_ok = 5, le_delete_ok = \<lambda>_. True\<rparr>"

definition demo_unset :: lock_state where
  "demo_unset = \<lparr>ls_machine = disabled_lock 0, ls_config = Map.empty\<rparr>"

definition demo_lock :: lock_state where
  "demo_lock = snd (enable_lock tag_crypto demo_lock_env (replicate 32 1) [] ''secret'' demo_unset)"

lemma demo_enabled: "enable_lock tag_crypto demo_lock_env (replicate 32 1) [] ''secret'' demo_unset = (Inr (), demo_lock)"
proof -
  have "length (utf8_chars ''secret'') = 6" by code_simp
  then have "fst (enable_lock tag_crypto demo_lock_env (replicate 32 1) [] ''secret'' demo_unset) = Inr ()"
    by (simp add: enable_lock_def derive_key_def tag_crypto_def demo_lock_env_def lock_writes_def Let_def split: prod.split)
  then show ?thesis by (simp add: demo_lock_def prod_eq_iff)
qed

lemma demo_lock_mode: "mode (ls_machine demo_lock) = LockUnlocked"
  using enable_lock_ok[OF demo_enabled] by blast

theorem unlock_exact_witness:
  "fst (unlock_lock tag_crypto demo_lock_env (replicate 32 1) ''secret'' demo_lock) = Inr () \<and>
   fst (unlock_lock tag_crypto demo_lock_env (replicate 32 1) ''wrong!'' demo_lock) \<noteq> Inr ()"
proof -
  have exact: "fst (unlock_lock tag_crypto demo_lock_env (replicate 32 1) q demo_lock) = Inr () \<longleftrightarrow>
      take 32 (bytes_of q @ replicate 32 0) = take 32 (bytes_of ''secret'' @ replicate 32 0)" for q
    using unlock_exact[OF tag_crypto_base64 tag_crypto_keys _ demo_enabled, of demo_lock demo_lock_env q]
    by (simp add: demo_lock_mode demo_lock_env_def tag_crypto_def split: prod.splits)
  show ?thesis unfolding exact by (simp add: bytes_of_def)
qed

theorem locked_until_passphrase_witness:
  "locked_down (on_machine lock_now demo_lock) \<and>
   fst (guarded 9 (on_machine lock_now demo_lock)) = Inl LockedErr"
proof -
  have "ls_config demo_lock cfg_wrap \<noteq> None"
    using enable_lock_ok[OF demo_enabled] by (auto simp: lock_entries_def lock_writes_def)
  then have "locked_down (on_machine lock_now demo_lock)"
    by (simp add: locked_down_def on_machine_def lock_now_def demo_lock_mode)
  then show ?thesis using locked_until_passphrase[of _ tag_crypto "[]" "on_machine lock_now demo_lock" 9] by blast
qed

end
