(* ===== verification/VaultRotate.thy ===== *)
theory VaultRotate
  imports VaultLock
begin

text \<open>
  Rotation of the vault's root and its completion after a crash (\<open>src/src/local/vault_rotate.rs\<close>), with the boot
  sequence that runs it (\<open>app/lifecycle.rs\<close>).

  A program runs on the disk with a budget of durable writes, or with none; when a budget is spent the process
  dies at the next write and the disk stays as it is. A database statement, a rename, a keyring call and the rekey are one write each; both tables are kept in
  listing order (newest first), which an update leaves as it is.
\<close>

section \<open>Programs that may crash\<close>

record secret_row =
  sr_id :: int
  sr_key :: string
  sr_blob :: string

record persona_row =
  pr_id :: int
  pr_credentials :: "string option"
  pr_totp :: "string option"
  pr_proxy :: "string option"
  pr_session :: "string option"

record rotate_journal =
  rj_generation :: int
  rj_root_hex :: string
  rj_in_keyring :: bool

text \<open>The key the database file is under, its tables in listing order, the root stores and the journal.\<close>

record disk =
  dk_key :: string
  dk_config :: config_kv
  dk_secrets :: "secret_row list"
  dk_personas :: "persona_row list"
  dk_custody :: custody
  dk_journal :: "rotate_journal option"

datatype 'a run = Crashed disk | Failed vault_error "nat option" disk | Done 'a "nat option" disk

type_synonym 'a prog = "nat option \<Rightarrow> disk \<Rightarrow> 'a run"

definition done_with :: "'a \<Rightarrow> 'a prog" where
  "done_with x = (\<lambda>n d. Done x n d)"

definition raise_err :: "vault_error \<Rightarrow> 'a prog" where
  "raise_err err = (\<lambda>n d. Failed err n d)"

definition and_then :: "'a prog \<Rightarrow> ('a \<Rightarrow> 'b prog) \<Rightarrow> 'b prog" where
  "and_then p f = (\<lambda>n d. case p n d of
     Crashed d' \<Rightarrow> Crashed d' | Failed err n' d' \<Rightarrow> Failed err n' d' | Done x n' d' \<Rightarrow> f x n' d')"

definition commit :: "(disk \<Rightarrow> disk) \<Rightarrow> unit prog" where
  "commit f = (\<lambda>n d. case n of
     Some 0 \<Rightarrow> Crashed d | Some (Suc m) \<Rightarrow> Done () (Some m) (f d) | None \<Rightarrow> Done () None (f d))"

definition with_disk :: "(disk \<Rightarrow> 'a prog) \<Rightarrow> 'a prog" where
  "with_disk f = (\<lambda>n d. f d n d)"

definition seq_prog :: "unit prog \<Rightarrow> 'a prog \<Rightarrow> 'a prog" where
  "seq_prog p q = and_then p (\<lambda>_. q)"

definition lift_result :: "vault_error + 'a \<Rightarrow> 'a prog" where
  "lift_result r = (case r of Inl err \<Rightarrow> raise_err err | Inr x \<Rightarrow> done_with x)"

definition set_config :: "string \<Rightarrow> string \<Rightarrow> unit prog" where
  "set_config k v = commit (\<lambda>d. d\<lparr>dk_config := kv_set k v (dk_config d)\<rparr>)"

definition set_custody :: "(custody \<Rightarrow> custody) \<Rightarrow> unit prog" where
  "set_custody f = commit (\<lambda>d. d\<lparr>dk_custody := f (dk_custody d)\<rparr>)"

section \<open>Hexadecimal\<close>

definition hex_char :: "nat \<Rightarrow> char" where
  "hex_char n = (if n < 10 then char_of (48 + n) else char_of (87 + n))"

definition to_hex :: "bytes \<Rightarrow> string" where
  "to_hex bs = concat (map (\<lambda>b. [hex_char (unat b div 16), hex_char (unat b mod 16)]) bs)"

definition hex_value :: "char \<Rightarrow> nat option" where
  "hex_value c =
     (let n = of_char c :: nat in
      if 48 \<le> n \<and> n \<le> 57 then Some (n - 48) else if 97 \<le> n \<and> n \<le> 102 then Some (n - 87)
      else if 65 \<le> n \<and> n \<le> 70 then Some (n - 55) else None)"

text \<open>\<open>u8::from_str_radix\<close> on two characters takes a plus sign.\<close>

definition hex_pair :: "char \<Rightarrow> char \<Rightarrow> 8 word option" where
  "hex_pair a b =
     (if a = CHR ''+'' then map_option of_nat (hex_value b)
      else (case (hex_value a, hex_value b) of (Some x, Some y) \<Rightarrow> Some (of_nat (x * 16 + y)) | _ \<Rightarrow> None))"

fun from_hex :: "string \<Rightarrow> bytes option" where
  "from_hex (a # b # r) = (case (hex_pair a b, from_hex r) of (Some x, Some xs) \<Rightarrow> Some (x # xs) | _ \<Rightarrow> None)"
| "from_hex [] = Some []"
| "from_hex [a] = None"

definition decode_root_hex :: "string \<Rightarrow> vault_error + bytes" where
  "decode_root_hex s0 =
     (let s = trim s0
      in if length s \<noteq> 64 then Inl (Internal ''rotation journal: bad root length'')
         else (case from_hex s of None \<Rightarrow> Inl (Internal ''rotation journal: bad hex'') | Some b \<Rightarrow> Inr b))"

section \<open>Rotation\<close>

definition cfg_gen :: string where "cfg_gen = ''vault_rotate.generation''"
definition cfg_phase :: string where "cfg_phase = ''vault_rotate.phase''"
definition cfg_rewrap_gen :: string where "cfg_rewrap_gen = ''vault_rotate.recovery_rewrap_generation''"

datatype rotate_phase = PhaseBegin | PhaseRekey | PhaseReseal | PhaseRewrap | PhasePersist | PhaseDone

definition phase_number :: "rotate_phase \<Rightarrow> int" where
  "phase_number p = (case p of PhaseBegin \<Rightarrow> 0 | PhaseRekey \<Rightarrow> 1 | PhaseReseal \<Rightarrow> 2 | PhaseRewrap \<Rightarrow> 3
     | PhasePersist \<Rightarrow> 4 | PhaseDone \<Rightarrow> 5)"

definition phase_of :: "int \<Rightarrow> rotate_phase" where
  "phase_of n = (if n = 1 then PhaseRekey else if n = 2 then PhaseReseal else if n = 3 then PhaseRewrap
     else if n = 4 then PhasePersist else if n = 5 then PhaseDone else PhaseBegin)"

definition set_phase :: "rotate_phase \<Rightarrow> unit prog" where
  "set_phase p = set_config cfg_phase (show_int (phase_number p))"

definition current_phase :: "config_kv \<Rightarrow> rotate_phase" where
  "current_phase config = unwrap_or PhaseDone (map_option phase_of (Option.bind (config cfg_phase) parse_i64))"

definition generation :: "config_kv \<Rightarrow> int" where
  "generation config = unwrap_or 0 (Option.bind (config cfg_gen) parse_i64)"

definition secret_value_aad :: "string \<Rightarrow> string" where
  "secret_value_aad k = ''vault_secrets|value_encrypted|'' @ k"

definition persona_aad :: "string \<Rightarrow> int \<Rightarrow> string" where
  "persona_aad column i = ''personas|'' @ column @ ''|'' @ show_int i"

definition rewrap_recovery_idempotent :: "crypto \<Rightarrow> bytes \<Rightarrow> bytes \<Rightarrow> int \<Rightarrow> unit prog" where
  "rewrap_recovery_idempotent c old new gen = with_disk (\<lambda>d.
     if Option.bind (dk_config d cfg_rewrap_gen) parse_i64 = Some gen then done_with ()
     else (case dk_config d cfg_recovery_wrap of
             None \<Rightarrow> set_config cfg_rewrap_gen (show_int gen)
           | Some _ \<Rightarrow>
               and_then (lift_result (rewrap_for_new_root c old new (dk_config d)))
                 (\<lambda>config'. seq_prog (commit (\<lambda>d. d\<lparr>dk_config := config'\<rparr>)) (set_config cfg_rewrap_gen (show_int gen)))))"

definition list_cap :: nat where
  "list_cap = 500"

text \<open>A blob under the new root is left alone; another is opened with the old root and sealed with the new one.\<close>

definition reseal_blob ::
    "crypto \<Rightarrow> (string \<Rightarrow> bytes) \<Rightarrow> bytes \<Rightarrow> bytes \<Rightarrow> string \<Rightarrow> string \<Rightarrow> vault_error + string option" where
  "reseal_blob c nonces old new blob aad =
     (case open_field c new blob aad of
        Inr _ \<Rightarrow> Inr None
      | Inl _ \<Rightarrow>
          (case open_field c old blob aad of
             Inl err \<Rightarrow> Inl err
           | Inr plain \<Rightarrow> map_sum id Some (seal_field c new (nonces aad) plain aad)))"

definition update_value :: "int \<Rightarrow> string \<Rightarrow> unit prog" where
  "update_value i blob =
     commit (\<lambda>d. d\<lparr>dk_secrets := map (\<lambda>r. if sr_id r = i then r\<lparr>sr_blob := blob\<rparr> else r) (dk_secrets d)\<rparr>)"

fun reseal_secrets :: "crypto \<Rightarrow> (string \<Rightarrow> bytes) \<Rightarrow> bytes \<Rightarrow> bytes \<Rightarrow> secret_row list \<Rightarrow> nat prog" where
  "reseal_secrets c nonces old new [] = done_with 0"
| "reseal_secrets c nonces old new (r # rs) =
     and_then (lift_result (reseal_blob c nonces old new (sr_blob r) (secret_value_aad (sr_key r))))
       (\<lambda>b. case b of
          None \<Rightarrow> reseal_secrets c nonces old new rs
        | Some blob \<Rightarrow> seq_prog (update_value (sr_id r) blob)
            (and_then (reseal_secrets c nonces old new rs) (\<lambda>n. done_with (n + 1))))"

text \<open>One persona column: the blob to write, if any.\<close>

definition reseal_column ::
    "crypto \<Rightarrow> (string \<Rightarrow> bytes) \<Rightarrow> bytes \<Rightarrow> bytes \<Rightarrow> int \<Rightarrow> string \<Rightarrow> string option \<Rightarrow> vault_error + string option" where
  "reseal_column c nonces old new i column blob =
     (case blob of None \<Rightarrow> Inr None | Some b \<Rightarrow> reseal_blob c nonces old new b (persona_aad column i))"

record persona_update =
  pu_credentials :: "string option"
  pu_totp :: "string option"
  pu_proxy :: "string option"
  pu_session :: "string option"

definition reseal_persona ::
    "crypto \<Rightarrow> (string \<Rightarrow> bytes) \<Rightarrow> bytes \<Rightarrow> bytes \<Rightarrow> persona_row \<Rightarrow> vault_error + persona_update" where
  "reseal_persona c nonces old new p =
     (let col = reseal_column c nonces old new (pr_id p) in
      case col ''credentials_encrypted'' (pr_credentials p) of Inl err \<Rightarrow> Inl err | Inr cr \<Rightarrow>
     (case col ''totp_seed_encrypted'' (pr_totp p) of Inl err \<Rightarrow> Inl err | Inr to \<Rightarrow>
     (case col ''proxy_config_encrypted'' (pr_proxy p) of Inl err \<Rightarrow> Inl err | Inr px \<Rightarrow>
     (case col ''session_state_encrypted'' (pr_session p) of Inl err \<Rightarrow> Inl err | Inr se \<Rightarrow>
        Inr \<lparr>pu_credentials = cr, pu_totp = to, pu_proxy = px, pu_session = se\<rparr>))))"

definition or_else :: "'a option \<Rightarrow> 'a option \<Rightarrow> 'a option" where
  "or_else x y = (case x of Some v \<Rightarrow> Some v | None \<Rightarrow> y)"

definition apply_update :: "persona_update \<Rightarrow> persona_row \<Rightarrow> persona_row" where
  "apply_update u p = p\<lparr>pr_credentials := or_else (pu_credentials u) (pr_credentials p),
     pr_totp := or_else (pu_totp u) (pr_totp p), pr_proxy := or_else (pu_proxy u) (pr_proxy p),
     pr_session := or_else (pu_session u) (pr_session p)\<rparr>"

definition update_persona :: "int \<Rightarrow> persona_update \<Rightarrow> unit prog" where
  "update_persona i u =
     commit (\<lambda>d. d\<lparr>dk_personas := map (\<lambda>p. if pr_id p = i then apply_update u p else p) (dk_personas d)\<rparr>)"

definition touched :: "persona_update \<Rightarrow> nat" where
  "touched u = length (filter (\<lambda>x. x \<noteq> None) [pu_credentials u, pu_totp u, pu_proxy u, pu_session u])"

fun reseal_personas :: "crypto \<Rightarrow> (string \<Rightarrow> bytes) \<Rightarrow> bytes \<Rightarrow> bytes \<Rightarrow> persona_row list \<Rightarrow> nat prog" where
  "reseal_personas c nonces old new [] = done_with 0"
| "reseal_personas c nonces old new (p # ps) =
     and_then (lift_result (reseal_persona c nonces old new p))
       (\<lambda>u. seq_prog (if 0 < touched u then update_persona (pr_id p) u else done_with ())
         (and_then (reseal_personas c nonces old new ps) (\<lambda>n. done_with (n + touched u))))"

definition reseal_all :: "crypto \<Rightarrow> (string \<Rightarrow> bytes) \<Rightarrow> bytes \<Rightarrow> bytes \<Rightarrow> (nat \<times> nat) prog" where
  "reseal_all c nonces old new =
     and_then (with_disk (\<lambda>d. reseal_secrets c nonces old new (take list_cap (dk_secrets d))))
       (\<lambda>m. and_then (with_disk (\<lambda>d. reseal_personas c nonces old new (take list_cap (dk_personas d))))
         (\<lambda>n. done_with (m, n)))"


text \<open>The key a root gives the database. Opening under another key is an error.\<close>

definition db_key :: "crypto \<Rightarrow> bytes \<Rightarrow> string" where
  "db_key c rk = to_hex (hkdf c rk ''writ-db-v1'')"

definition open_db :: "string \<Rightarrow> unit prog" where
  "open_db k = with_disk (\<lambda>d. if dk_key d = k then done_with () else raise_err (Internal ''db open''))"

definition rekey_db_file :: "string \<Rightarrow> string \<Rightarrow> unit prog" where
  "rekey_db_file old_key new_key = seq_prog (open_db old_key) (commit (\<lambda>d. d\<lparr>dk_key := new_key\<rparr>))"

section \<open>The journal\<close>

definition rotation_account :: "string option \<Rightarrow> string" where
  "rotation_account profile = keyring_account profile @ ''::rotate''"

definition put_journal :: "custody_env \<Rightarrow> rotate_journal \<Rightarrow> unit prog" where
  "put_journal e j = (if file_set_ok e then commit (\<lambda>d. d\<lparr>dk_journal := Some j\<rparr>) else raise_err IoErr)"

text \<open>The keyring copy first; the file holds the root only when the keyring did not take it.\<close>

definition write_journal :: "custody_env \<Rightarrow> string option \<Rightarrow> int \<Rightarrow> bytes \<Rightarrow> unit prog" where
  "write_journal e profile gen new =
     (if use_keyring e \<and> set_ok e then
        seq_prog (set_custody (\<lambda>k. snd (keyring_store_verified e (rotation_account profile) new k)))
          (put_journal e \<lparr>rj_generation = gen, rj_root_hex = if readback_ok e then [] else to_hex new,
             rj_in_keyring = readback_ok e\<rparr>)
      else put_journal e \<lparr>rj_generation = gen, rj_root_hex = to_hex new, rj_in_keyring = False\<rparr>)"

definition read_journal :: "custody_env \<Rightarrow> string option \<Rightarrow> disk \<Rightarrow> vault_error + bytes option" where
  "read_journal e profile d =
     (case dk_journal d of
        None \<Rightarrow> Inr None
      | Some j \<Rightarrow>
          if \<not> file_get_ok e then Inl IoErr
          else if rj_in_keyring j then
            (case keyring_get e (rotation_account profile) (dk_custody d) of
               Inr (Some b) \<Rightarrow> Inr (Some b)
             | _ \<Rightarrow> Inl (Internal ''rotation journal: the keyring entry is missing''))
          else map_sum id Some (decode_root_hex (rj_root_hex j)))"

definition drop_journal :: "custody_env \<Rightarrow> string option \<Rightarrow> unit prog" where
  "drop_journal e profile =
     seq_prog (if file_rm_ok e then commit (\<lambda>d. d\<lparr>dk_journal := None\<rparr>) else done_with ())
       (if set_ok e then set_custody (\<lambda>k. k\<lparr>keyring := (keyring k)(rotation_account profile := None)\<rparr>) else done_with ())"

text \<open>\<open>Vault::persist_new_root\<close>, its keyring and file steps one write each.\<close>

definition persist_file :: "custody_env \<Rightarrow> bytes \<Rightarrow> unit prog" where
  "persist_file e rk = (if file_set_ok e then set_custody (\<lambda>k. k\<lparr>key_file := Some rk\<rparr>) else raise_err IoErr)"

definition persist_root :: "custody_env \<Rightarrow> string option \<Rightarrow> bytes \<Rightarrow> unit prog" where
  "persist_root e profile rk =
     (if use_keyring e \<and> set_ok e then
        seq_prog (set_custody (\<lambda>k. snd (keyring_store_verified e (keyring_account profile) rk k)))
          (if readback_ok e then set_custody (remove_key_file_if_present e) else persist_file e rk)
      else persist_file e rk)"

lemma persist_root_refines:
  "persist_new_root e profile rk (dk_custody d) = Inr k
    \<Longrightarrow> persist_root e profile rk None d = Done () None (d\<lparr>dk_custody := k\<rparr>)"
  by (auto simp: persist_root_def persist_new_root_def persist_file_def seq_prog_def and_then_def set_custody_def
      commit_def file_set_def keyring_store_verified_def raise_err_def split: if_splits)

section \<open>The rotation and its recovery\<close>

record rotate_report =
  rr_generation :: int
  rr_secrets :: nat
  rr_personas :: nat

definition rotate_root ::
    "crypto \<Rightarrow> custody_env \<Rightarrow> string option \<Rightarrow> (string \<Rightarrow> bytes) \<Rightarrow> bytes \<Rightarrow> bytes \<Rightarrow> unit prog \<Rightarrow> rotate_report prog" where
  "rotate_root c e profile nonces old new rewrap =
     and_then (with_disk (\<lambda>d. done_with (generation (dk_config d) + 1))) (\<lambda>gen.
     seq_prog (set_config cfg_gen (show_int gen)) (
     seq_prog (set_phase PhaseBegin) (
     seq_prog (write_journal e profile gen new) (
     and_then (reseal_all c nonces old new) (\<lambda>counts.
     seq_prog (set_phase PhaseReseal) (
     seq_prog rewrap (
     seq_prog (set_phase PhaseRewrap) (
     seq_prog (rekey_db_file (db_key c old) (db_key c new)) (
     seq_prog (persist_root e profile new) (
     seq_prog (open_db (db_key c new)) (
     seq_prog (set_phase PhaseDone) (
     seq_prog (drop_journal e profile) (
     done_with \<lparr>rr_generation = gen, rr_secrets = fst counts, rr_personas = snd counts\<rparr>)))))))))))))"

definition rewrap_step :: "crypto \<Rightarrow> bytes \<Rightarrow> bytes \<Rightarrow> unit prog" where
  "rewrap_step c old new = with_disk (\<lambda>d. rewrap_recovery_idempotent c old new (generation (dk_config d)))"

definition rewrap_only ::
    "crypto \<Rightarrow> custody_env \<Rightarrow> string option \<Rightarrow> (string \<Rightarrow> bytes) \<Rightarrow> bytes \<Rightarrow> bytes \<Rightarrow> rotate_report prog" where
  "rewrap_only c e profile nonces old new = rotate_root c e profile nonces old new (rewrap_step c old new)"




section \<open>Weakest preconditions over crashes\<close>

text \<open>
  \<open>wp I p Q d\<close>: from \<open>d\<close> the program never fails, every crash leaves a disk with \<open>I\<close>, a run without a budget never
  crashes, and a completed run ends in \<open>Q\<close>.
\<close>

definition wp :: "(disk \<Rightarrow> bool) \<Rightarrow> 'a prog \<Rightarrow> ('a \<Rightarrow> disk \<Rightarrow> bool) \<Rightarrow> disk \<Rightarrow> bool" where
  "wp I p Q d \<longleftrightarrow> (\<forall>n. case p n d of
     Crashed d' \<Rightarrow> n \<noteq> None \<and> I d'
   | Failed err n' d' \<Rightarrow> False
   | Done x n' d' \<Rightarrow> Q x d' \<and> (n = None \<longrightarrow> n' = None))"

lemma wp_done [simp]: "wp I (done_with x) Q = Q x"
  by (rule ext) (simp add: wp_def done_with_def)

lemma wp_with_disk [simp]: "wp I (with_disk f) Q d \<longleftrightarrow> wp I (f d) Q d"
  by (simp add: wp_def with_disk_def)

lemma wp_lift [simp]: "wp I (lift_result (Inr x)) Q d \<longleftrightarrow> Q x d"
  by (simp add: lift_result_def)







section \<open>Re-sealing\<close>


type_synonym opener = "string \<Rightarrow> string \<Rightarrow> vault_error + bytes"

definition secret_item :: "opener \<Rightarrow> secret_row \<Rightarrow> int \<times> string \<times> (vault_error + bytes)" where
  "secret_item f r = (sr_id r, sr_key r, f (sr_blob r) (secret_value_aad (sr_key r)))"

definition column_item :: "opener \<Rightarrow> int \<Rightarrow> string \<Rightarrow> string option \<Rightarrow> (vault_error + bytes) option" where
  "column_item f i column blob = map_option (\<lambda>b. f b (persona_aad column i)) blob"

definition persona_columns :: "opener \<Rightarrow> persona_row \<Rightarrow> (vault_error + bytes) option list" where
  "persona_columns f p =
     [column_item f (pr_id p) ''credentials_encrypted'' (pr_credentials p),
      column_item f (pr_id p) ''totp_seed_encrypted'' (pr_totp p),
      column_item f (pr_id p) ''proxy_config_encrypted'' (pr_proxy p),
      column_item f (pr_id p) ''session_state_encrypted'' (pr_session p)]"

definition persona_item :: "opener \<Rightarrow> persona_row \<Rightarrow> int \<times> (vault_error + bytes) option list" where
  "persona_item f p = (pr_id p, persona_columns f p)"

















text \<open>The contents: what each secret and each persona column decrypts to.\<close>

record contents =
  co_secrets :: "(int \<times> string \<times> (vault_error + bytes)) list"
  co_personas :: "(int \<times> (vault_error + bytes) option list) list"

definition contents_by :: "opener \<Rightarrow> disk \<Rightarrow> contents" where
  "contents_by f d = \<lparr>co_secrets = map (secret_item f) (dk_secrets d), co_personas = map (persona_item f) (dk_personas d)\<rparr>"





section \<open>The stages of a rotation\<close>


lemma rotation_account_neq [simp]:
  "rotation_account profile \<noteq> keyring_account profile" "rotation_account profile \<noteq> keyring_account_local"
  "keyring_account profile \<noteq> rotation_account profile" "keyring_account_local \<noteq> rotation_account profile"
  by (auto simp: rotation_account_def keyring_account_def keyring_account_local_def split: option.splits if_splits)

text \<open>The root a load finds, when the stores answer.\<close>

definition valid_root :: "bytes option \<Rightarrow> bytes option" where
  "valid_root x = (case x of Some b \<Rightarrow> if length b = 32 then Some b else None | None \<Rightarrow> None)"

definition current_root :: "custody_env \<Rightarrow> string option \<Rightarrow> custody \<Rightarrow> bytes option" where
  "current_root e profile k =
     (if \<not> use_keyring e then valid_root (key_file k)
      else or_else (valid_root (keyring k (keyring_account profile)))
        (or_else (if keyring_account profile \<noteq> keyring_account_local \<and> db_exists k then valid_root (keyring k keyring_account_local) else None)
          (valid_root (key_file k))))"



lemma current_rotation_entry [simp]:
  "current_root e profile (k\<lparr>keyring := (keyring k)(rotation_account profile := x)\<rparr>) = current_root e profile k"
  by (simp add: current_root_def)




lemma nibble_bound: "unat (b :: 8 word) div 16 < 16"
proof -
  have "unat b < 256" using unsigned_less[of b] by simp
  then show ?thesis by (simp add: less_mult_imp_div_less)
qed

lemma hex_pair_byte: "hex_pair (hex_char (unat b div 16)) (hex_char (unat b mod 16)) = Some (b :: 8 word)"
proof -
  have hexval: "hex_value (hex_char n) = Some n" if "n < 16" for n
    using that by (auto simp: hex_value_def hex_char_def Let_def)
  have plus: "hex_char n \<noteq> CHR ''+''" if "n < 16" for n
  proof
    assume "hex_char n = CHR ''+''"
    then have "hex_value (hex_char n) = hex_value (CHR ''+'')" by simp
    with hexval[OF that] show False by (simp add: hex_value_def)
  qed
  have "unat b div 16 < 16" by (rule nibble_bound)
  moreover have "of_nat (unat b div 16 * 16 + unat b mod 16) = b"
    by (simp only: div_mult_mod_eq) simp
  ultimately show ?thesis by (simp add: hex_pair_def hexval plus)
qed

lemma from_to_hex [simp]: "from_hex (to_hex bs) = Some bs"
  by (induction bs) (simp_all add: to_hex_def hex_pair_byte)

lemma length_to_hex [simp]: "length (to_hex bs) = 2 * length bs"
  by (induction bs) (simp_all add: to_hex_def)

lemma trim_to_hex [simp]: "trim (to_hex bs) = to_hex bs"
proof -
  have "printable (hex_char n)" if "n < 16" for n
    using that by (auto simp: printable_def hex_char_def)
  then have "list_all printable (to_hex bs)" by (induction bs) (simp_all add: to_hex_def nibble_bound)
  then show ?thesis by (rule trim_printable)
qed


text \<open>A rotation: the cipher, the stores, the two roots and the contents to keep.\<close>

record rotation =
  ro_crypto :: crypto
  ro_env :: custody_env
  ro_profile :: "string option"
  ro_nonces :: "string \<Rightarrow> bytes"
  ro_old :: bytes
  ro_new :: bytes
  ro_contents :: contents

definition wrap_ok :: "crypto \<Rightarrow> config_kv \<Rightarrow> bool" where
  "wrap_ok c config \<longleftrightarrow> (\<forall>w. config cfg_recovery_wrap = Some w \<longrightarrow> (\<exists>r. unb64_32 c w = Inr r))"


definition root_is :: "rotation \<Rightarrow> bytes \<Rightarrow> disk \<Rightarrow> bool" where
  "root_is x rk d \<longleftrightarrow> current_root (ro_env x) (ro_profile x) (dk_custody d) = Some rk"



definition journaled :: "rotation \<Rightarrow> disk \<Rightarrow> bool" where
  "journaled x d \<longleftrightarrow> read_journal (ro_env x) (ro_profile x) d = Inr (Some (ro_new x))"







lemma contents_frame [simp]:
  "contents_by f (d\<lparr>dk_key := a\<rparr>) = contents_by f d" "contents_by f (d\<lparr>dk_config := b\<rparr>) = contents_by f d"
  "contents_by f (d\<lparr>dk_custody := k\<rparr>) = contents_by f d" "contents_by f (d\<lparr>dk_journal := j\<rparr>) = contents_by f d"
  by (simp_all add: contents_by_def)

lemma root_is_frame [simp]:
  "root_is x rk (d\<lparr>dk_key := a\<rparr>) = root_is x rk d" "root_is x rk (d\<lparr>dk_config := b\<rparr>) = root_is x rk d"
  "root_is x rk (d\<lparr>dk_secrets := s\<rparr>) = root_is x rk d" "root_is x rk (d\<lparr>dk_personas := p\<rparr>) = root_is x rk d"
  "root_is x rk (d\<lparr>dk_journal := j\<rparr>) = root_is x rk d"
  by (simp_all add: root_is_def)

lemma journaled_frame [simp]:
  "journaled x (d\<lparr>dk_key := a\<rparr>) = journaled x d" "journaled x (d\<lparr>dk_config := b\<rparr>) = journaled x d"
  "journaled x (d\<lparr>dk_secrets := s\<rparr>) = journaled x d" "journaled x (d\<lparr>dk_personas := p\<rparr>) = journaled x d"
  by (simp_all add: journaled_def read_journal_def split: option.split)


lemma wrap_ok_set [simp]: "k \<noteq> cfg_recovery_wrap \<Longrightarrow> wrap_ok c (kv_set k v config) = wrap_ok c config"
  by (simp add: wrap_ok_def kv_set_def)

lemma rotate_keys [simp]:
  "cfg_gen \<noteq> cfg_recovery_wrap" "cfg_phase \<noteq> cfg_recovery_wrap" "cfg_rewrap_gen \<noteq> cfg_recovery_wrap"
  by (simp_all add: cfg_gen_def cfg_phase_def cfg_rewrap_gen_def cfg_recovery_wrap_def)





































section \<open>Rotation survives crashes\<close>

definition disk_of :: "'a run \<Rightarrow> disk" where
  "disk_of r = (case r of Crashed d \<Rightarrow> d | Failed _ _ d \<Rightarrow> d | Done _ _ d \<Rightarrow> d)"














section \<open>What a rotation leaves behind\<close>

text \<open>Rows past the first listing are not read: they stay as they are, under the root that is then discarded.\<close>

lemma reseal_secrets_other:
  "reseal_secrets c nonces old new rs n d = Done m n' d' \<Longrightarrow> sr_id r \<notin> sr_id ` set rs \<Longrightarrow> r \<in> set (dk_secrets d)
    \<Longrightarrow> r \<in> set (dk_secrets d')"
proof (induction rs arbitrary: n d m n' d')
  case Nil
  then show ?case by (simp add: done_with_def)
next
  case (Cons s rs)
  from Cons.prems(1) obtain b where b: "reseal_blob c nonces old new (sr_blob s) (secret_value_aad (sr_key s)) = Inr b"
    by (auto simp: and_then_def lift_result_def raise_err_def split: sum.splits)
  show ?case
  proof (cases b)
    case None
    then show ?thesis using Cons b by (auto simp: and_then_def lift_result_def done_with_def)
  next
    case (Some blob)
    let ?d = "d\<lparr>dk_secrets := map (\<lambda>r. if sr_id r = sr_id s then r\<lparr>sr_blob := blob\<rparr> else r) (dk_secrets d)\<rparr>"
    have "r \<in> set (dk_secrets ?d)" using Cons.prems(2,3) by (force simp: image_iff)
    moreover obtain m1 n1 where "reseal_secrets c nonces old new rs n1 ?d = Done m1 n' d'"
      using Cons.prems(1) b Some
      by (auto simp: and_then_def lift_result_def done_with_def seq_prog_def update_value_def commit_def
          split: run.splits option.splits nat.splits)
    ultimately show ?thesis using Cons.IH Cons.prems(2) by simp
  qed
qed

lemma reseal_misses_the_rest:
  assumes "reseal_secrets c nonces old new (take list_cap (dk_secrets d)) n d = Done m n' d'"
    and "distinct (map sr_id (dk_secrets d))" "r \<in> set (drop list_cap (dk_secrets d))"
  shows "r \<in> set (dk_secrets d')"
proof (rule reseal_secrets_other[OF assms(1)])
  have "distinct (map sr_id (take list_cap (dk_secrets d)) @ map sr_id (drop list_cap (dk_secrets d)))"
    using assms(2) by (metis append_take_drop_id map_append)
  then show "sr_id r \<notin> sr_id ` set (take list_cap (dk_secrets d))" using assms(3) by auto
  show "r \<in> set (dk_secrets d)" using assms(3) by (rule in_set_dropD)
qed

text \<open>
  A crash between the two writes of the re-wrap: the next boot finds no marker, applies the change of roots again,
  and the recovery code is back on the old root while the marker says it moved.
\<close>

lemma rewrap_crash_undoes:
  assumes "base64_ok c" "recovery_bound c old key (dk_config d)" "length old = 32" "length new = 32" "length key = 32"
    and "Option.bind (dk_config d cfg_rewrap_gen) parse_i64 \<noteq> Some gen"
  shows "\<exists>d1 d2. rewrap_recovery_idempotent c old new gen (Some 1) d = Crashed d1 \<and>
    rewrap_recovery_idempotent c old new gen None d1 = Done () None d2 \<and> recovery_bound c old key (dk_config d2)"
proof -
  obtain config where config: "rewrap_for_new_root c old new (dk_config d) = Inr config" "recovery_bound c new key config"
      "\<forall>k. k \<noteq> cfg_recovery_wrap \<longrightarrow> config k = dk_config d k"
    using rewrap_binds[OF assms(1-5)] by blast
  obtain config' where config': "rewrap_for_new_root c old new config = Inr config'" "recovery_bound c old key config'"
    using rewrap_twice_goes_back[OF assms(1-5) config(1)] by blast
  let ?d1 = "d\<lparr>dk_config := config\<rparr>"
  let ?d2 = "d\<lparr>dk_config := kv_set cfg_rewrap_gen (show_int gen) config'\<rparr>"
  note run = rewrap_recovery_idempotent_def with_disk_def and_then_def lift_result_def done_with_def seq_prog_def
    commit_def set_config_def recovery_bound_def
  have "rewrap_recovery_idempotent c old new gen (Some 1) d = Crashed ?d1"
    using assms(2,6) config by (simp add: run)
  moreover have "rewrap_recovery_idempotent c old new gen None ?d1 = Done () None ?d2"
    using assms(6) config config' by (simp add: run)
  moreover have "recovery_bound c old key (dk_config ?d2)"
    using config'(2) by (simp add: recovery_bound_def kv_set_def cfg_rewrap_gen_def cfg_recovery_wrap_def)
  ultimately show ?thesis by blast
qed

text \<open>
  The app-lock's entries are left as they were, so they bind the passphrase to the old root: after a rotation the
  passphrase that was set no longer unlocks.
\<close>

lemma stale_lock_refuses:
  assumes "base64_ok c" "keys_32 c" "length old = 32" "length new = 32" "length key = 32" "old \<noteq> new"
    and "m < 2 ^ 32" "t < 2 ^ 32" "p < 2 ^ 32" "lock_entries c old salt (m, t, p) key (ls_config s)"
    and "mode (ls_machine s) \<noteq> LockDisabled" "le_read_ok e" "argon2id c (bytes_of pass) salt m t p = Some key"
  shows "fst (unlock_lock c e new pass s) \<noteq> Inr ()"
proof -
  let ?key = "root_xor new (root_xor old key)"
  have "root_xor new ?key = root_xor old key"
    using assms(3-5) by (intro root_xor_self) simp
  then have "lock_entries c new salt (m, t, p) ?key (ls_config s)"
    using assms(10) by (simp add: lock_entries_def lock_writes_def)
  moreover have "?key \<noteq> key"
  proof
    assume eq: "?key = key"
    have "root_xor new ?key = root_xor old key" by fact
    then have "root_xor new key = root_xor old key" using eq by simp
    then have "root_xor (root_xor new key) key = root_xor (root_xor old key) key" by simp
    then show False using assms(3-6) by (simp add: root_xor_cancel)
  qed
  ultimately show ?thesis
    using unlock_with_entries[OF assms(1,2,4), of ?key m t p salt s e pass] assms(3-5,7-9,11-13) by auto
qed


definition leaves_key :: "string \<Rightarrow> 'a prog \<Rightarrow> bool" where
  "leaves_key k p \<longleftrightarrow> (\<forall>n d. dk_config (disk_of (p n d)) k = dk_config d k)"

lemma leaves_done [intro!]: "leaves_key k (done_with x)" and leaves_raise [intro!]: "leaves_key k (raise_err err)"
  and leaves_lift [intro!]: "leaves_key k (lift_result r)"
  by (auto simp: leaves_key_def done_with_def raise_err_def disk_of_def lift_result_def split: sum.split)

lemma leaves_then [intro!]: "leaves_key k p \<Longrightarrow> (\<And>x. leaves_key k (f x)) \<Longrightarrow> leaves_key k (and_then p f)"
proof (unfold leaves_key_def, intro allI)
  fix n d
  assume p: "\<forall>n d. dk_config (disk_of (p n d)) k = dk_config d k" and f: "\<And>x. \<forall>n d. dk_config (disk_of (f x n d)) k = dk_config d k"
  show "dk_config (disk_of (and_then p f n d)) k = dk_config d k"
    using p[rule_format, of n d] f by (cases "p n d") (simp_all add: and_then_def, simp_all add: disk_of_def)
qed

lemma leaves_seq [intro!]: "leaves_key k p \<Longrightarrow> leaves_key k q \<Longrightarrow> leaves_key k (seq_prog p q)"
  unfolding seq_prog_def by auto

lemma leaves_with_disk [intro!]: "(\<And>d. leaves_key k (f d)) \<Longrightarrow> leaves_key k (with_disk f)"
  by (simp add: leaves_key_def with_disk_def)

lemma leaves_commit: "(\<And>d. dk_config (f d) k = dk_config d k) \<Longrightarrow> leaves_key k (commit f)"
  by (simp add: leaves_key_def commit_def disk_of_def split: option.split nat.split)

lemma leaves_config: "k \<noteq> k' \<Longrightarrow> leaves_key k (set_config k' v)" and leaves_custody: "leaves_key k (set_custody f)"
  by (auto simp: set_config_def set_custody_def kv_set_def intro!: leaves_commit)

lemma leaves_reseal_secrets [intro!]: "leaves_key k (reseal_secrets c nonces old new rs)"
  by (induction rs) (auto simp: update_value_def intro!: leaves_commit split: option.split)

lemma leaves_reseal_personas [intro!]: "leaves_key k (reseal_personas c nonces old new ps)"
  by (induction ps) (auto simp: update_persona_def intro!: leaves_commit)

lemma leaves_rewrap:
  assumes "k \<noteq> cfg_recovery_wrap" "k \<noteq> cfg_rewrap_gen"
  shows "leaves_key k (rewrap_step c old new)"
proof -
  have "leaves_key k (rewrap_recovery_idempotent c old new gen)" for gen
    unfolding leaves_key_def
  proof (intro allI)
    fix n d
    have "rewrap_for_new_root c old new config = Inr config' \<Longrightarrow> config' k = config k" for config config'
      using assms(1) by (auto simp: rewrap_for_new_root_def kv_set_def split: option.splits sum.splits)
    then show "dk_config (disk_of (rewrap_recovery_idempotent c old new gen n d)) k = dk_config d k"
      using assms(2)
      by (auto simp: rewrap_recovery_idempotent_def with_disk_def and_then_def lift_result_def done_with_def raise_err_def
          seq_prog_def commit_def set_config_def disk_of_def kv_set_def split: option.splits nat.splits sum.splits)
  qed
  then show ?thesis by (auto simp: rewrap_step_def)
qed

lemma rotation_leaves_lock:
  assumes "k \<in> {cfg_wrap, cfg_salt, cfg_m_cost, cfg_t_cost, cfg_p_cost}"
  shows "leaves_key k (rewrap_only c e profile nonces old new)"
proof -
  have k: "k \<noteq> cfg_recovery_wrap" "k \<noteq> cfg_rewrap_gen" "k \<noteq> cfg_gen" "k \<noteq> cfg_phase"
    using assms by (auto simp: cfg_defs cfg_rewrap_gen_def cfg_gen_def cfg_phase_def)
  show ?thesis
    using k unfolding rewrap_only_def rotate_root_def set_phase_def reseal_all_def
    by (auto simp: write_journal_def put_journal_def rekey_db_file_def open_db_def persist_root_def persist_file_def drop_journal_def
        intro!: leaves_config leaves_rewrap leaves_custody leaves_commit)
qed

text \<open>Together: the passphrase of a lock set before a rotation does not unlock after it.\<close>

lemma rotation_strands_lock:
  assumes "base64_ok c" "keys_32 c" "length old = 32" "length new = 32" "length key = 32" "old \<noteq> new"
    and "m < 2 ^ 32" "t < 2 ^ 32" "p < 2 ^ 32" "lock_entries c old salt (m, t, p) key (dk_config d)"
    and "rewrap_only c env profile nonces old new None d = Done report None d'"
    and "mode mc \<noteq> LockDisabled" "le_read_ok e" "argon2id c (bytes_of pass) salt m t p = Some key"
  shows "fst (unlock_lock c e new pass \<lparr>ls_machine = mc, ls_config = dk_config d'\<rparr>) \<noteq> Inr ()"
proof -
  have "dk_config d' k = dk_config d k" if "k \<in> {cfg_wrap, cfg_salt, cfg_m_cost, cfg_t_cost, cfg_p_cost}" for k
    using rotation_leaves_lock[OF that, of c env profile nonces old new] assms(11)
    unfolding leaves_key_def by (metis disk_of_def run.case(3))
  then have "lock_entries c old salt (m, t, p) key (dk_config d')"
    using assms(10) by (simp add: lock_entries_def lock_writes_def)
  with assms show ?thesis by (intro stale_lock_refuses[where old = old and key = key and m = m and t = t and p = p and salt = salt]) simp_all
qed

section \<open>A concrete rotation\<close>












section \<open>Files\<close>

text \<open>Files migrate when they are read: a blob under the previous root is opened there and sealed again.\<close>

definition reencrypt_file_blob :: "crypto \<Rightarrow> bytes \<Rightarrow> bytes \<Rightarrow> bytes \<Rightarrow> bytes \<Rightarrow> vault_error + bytes option" where
  "reencrypt_file_blob c base current previous blob =
     (case decrypt_file c current blob of
        Inr _ \<Rightarrow> Inr None
      | Inl _ \<Rightarrow>
          (case decrypt_file c previous blob of
             Inl err \<Rightarrow> Inl err
           | Inr plain \<Rightarrow> map_sum id Some (encrypt_file c current base plain)))"

lemma reencrypt_keeps_file:
  assumes "aead_ok c" "length base = 24" "decrypt_file c current blob = Inl err" "decrypt_file c previous blob = Inr plain"
    and "reencrypt_file_blob c base current previous blob = Inr r"
  shows "\<exists>blob'. r = Some blob' \<and> decrypt_file c current blob' = Inr plain \<and>
    reencrypt_file_blob c base current previous blob' = Inr None"
proof -
  obtain blob' where blob': "encrypt_file c current base plain = Inr blob'" "r = Some blob'"
    using assms(3-5) by (cases "encrypt_file c current base plain") (auto simp: reencrypt_file_blob_def)
  then show ?thesis
    using decrypt_encrypted[OF assms(1,2) blob'(1)] by (simp add: reencrypt_file_blob_def)
qed

end
