(* ===== verification/DataRows.thy ===== *)
theory DataRows
  imports FlowExpr "HOL-Library.List_Lexorder" "HOL-Library.Char_ord" "HOL-Library.Product_Lexorder" "HOL-Library.Multiset"
begin

text \<open>
  The table of extracted data (\<open>src/src/local/data_query.rs\<close>): which keys of a run's result are user data, the records of
  a run, the table of several runs, its filters, order and pages, and its CSV and JSON forms. The JSON text of a
  value and the parsing of numbers are those of \<open>text_env\<close>.
\<close>

type_synonym fields = "(string \<times> json) list"

definition push_new :: "'a \<Rightarrow> 'a list \<Rightarrow> 'a list" where
  "push_new x xs = (if x \<in> set xs then xs else xs @ [x])"

section \<open>Keys\<close>

definition reserved_toplevel :: "string list" where
  "reserved_toplevel = [''extracted_data'', ''steps'', ''steps_completed'', ''screenshots'', ''success'', ''error'',
     ''auth_session'', ''needs_reassignment'', ''ai_session_id'', ''workflow_id'']"

definition meta_flag_keys :: "string list" where
  "meta_flag_keys = [''dry_run'', ''stopped_before_commit'', ''captcha_info'', ''error_context'']"

definition internal_keys :: "string list" where
  "internal_keys = [''auth_session'', ''session_state'', ''session_storage'', ''local_storage'', ''localstorage'', ''cookies'',
     ''screenshot'', ''screenshots'', ''fingerprint'', ''headers'', ''raw_response'', ''raw_html'', ''response'',
     ''response_body'', ''responsebody'', ''raw'', ''raw_data'', ''html'', ''page_html'', ''page_source'', ''har'',
     ''network_log'', ''console_log'', ''step_results'', ''session_expired'', ''needs_reassignment'',
     ''reassignment_reason'', ''auth_failed'', ''login_success'', ''logged_in'', ''is_logged_in'', ''stopped_before_commit'']"

definition meta_prefixes :: "string list" where
  "meta_prefixes = [''ai_repair'', ''captcha'']"

definition wrapper_keys :: "string list" where
  "wrapper_keys = [''extracted_data'', ''result'', ''results'', ''data'', ''items'', ''records'', ''rows'', ''output'',
     ''outputs'', ''extracted'', ''values'']"

definition is_meta_key :: "string \<Rightarrow> bool" where
  "is_meta_key k \<longleftrightarrow> starts_with k ''_'' \<or>
     (let kl = ascii_lower k
      in kl \<in> set meta_flag_keys \<or> kl \<in> set internal_keys \<or> list_ex (starts_with kl) meta_prefixes)"

text \<open>The recursion of \<open>strip_meta_value\<close> and of \<open>redact_secret_keys_value\<close>, which differ in the test.\<close>

fun drop_keys :: "(string \<Rightarrow> bool) \<Rightarrow> json \<Rightarrow> json" where
  "drop_keys bad (JObj ms) = JObj (map (\<lambda>(k, v). (k, drop_keys bad v)) (filter (\<lambda>(k, v). \<not> bad k) ms))"
| "drop_keys bad (JArr xs) = JArr (map (drop_keys bad) xs)"
| "drop_keys bad v = v"

definition drop_fields :: "(string \<Rightarrow> bool) \<Rightarrow> fields \<Rightarrow> fields" where
  "drop_fields bad ms = (case drop_keys bad (JObj ms) of JObj m \<Rightarrow> m | _ \<Rightarrow> [])"

definition strip_meta :: "fields \<Rightarrow> fields" where
  "strip_meta = drop_fields is_meta_key"

definition secret_needles :: "string list" where
  "secret_needles = [''password'', ''passwd'', ''pwd'', ''secret'', ''token'', ''apikey'', ''api_key'', ''api-key'', ''otp'',
     ''cvv'', ''cvc'', ''ssn'', ''private_key'', ''private-key'', ''privatekey'', ''credential'', ''card_number'',
     ''card-number'', ''cardnumber'']"

definition is_word_char :: "char \<Rightarrow> bool" where
  "is_word_char c \<longleftrightarrow> is_digit c \<or> c = CHR ''_'' \<or> (let n = of_char c :: nat in 65 \<le> n \<and> n \<le> 90 \<or> 97 \<le> n \<and> n \<le> 122)"

text \<open>Each occurrence of the needle in turn, with the byte before it.\<close>

fun word_at :: "bool \<Rightarrow> string \<Rightarrow> string \<Rightarrow> bool" where
  "word_at before_ok needle [] = False"
| "word_at before_ok needle (c # s) =
     (starts_with (c # s) needle \<and> before_ok \<and>
        (case drop (length needle) (c # s) of [] \<Rightarrow> True | d # _ \<Rightarrow> \<not> is_word_char d)
      \<or> word_at (\<not> is_word_char c) needle s)"

definition is_word :: "string \<Rightarrow> string \<Rightarrow> bool" where
  "is_word haystack needle = word_at True needle haystack"

definition is_secret_input_key :: "string \<Rightarrow> bool" where
  "is_secret_input_key key \<longleftrightarrow>
     (let k = ascii_lower key in list_ex (contains_str k) secret_needles \<or> is_word k ''pan'')"

definition redact_secret_keys :: "fields \<Rightarrow> fields" where
  "redact_secret_keys = drop_fields is_secret_input_key"

definition redact_inputs :: "fields \<Rightarrow> fields" where
  "redact_inputs inputs = filter (\<lambda>(k, v). \<not> is_secret_input_key k) inputs"

definition input_ctx_keys :: "string list" where
  "input_ctx_keys = [''_queued_form_data'', ''merged_form_data'', ''form_data'', ''inputs'']"

fun first_inputs :: "fields \<Rightarrow> string list \<Rightarrow> fields" where
  "first_inputs ctx [] = []"
| "first_inputs ctx (k # ks) =
     (case map_of ctx k of Some (JObj v) \<Rightarrow> if v \<noteq> [] then v else first_inputs ctx ks | _ \<Rightarrow> first_inputs ctx ks)"

definition task_inputs :: "json \<Rightarrow> fields" where
  "task_inputs trigger_context =
     (case as_object trigger_context of None \<Rightarrow> [] | Some ctx \<Rightarrow> first_inputs ctx input_ctx_keys)"

section \<open>The records of a run\<close>

fun is_scalar :: "json \<Rightarrow> bool" where
  "is_scalar (JObj _) = False"
| "is_scalar (JArr _) = False"
| "is_scalar _ = True"

text \<open>An optional minus, digits, a fraction and an exponent, each with at least one digit, and nothing after.\<close>

definition skip_digits :: "string \<Rightarrow> string option" where
  "skip_digits s = (case s of c # r \<Rightarrow> if is_digit c then Some (dropWhile is_digit r) else None | [] \<Rightarrow> None)"

definition skip_sign :: "char list \<Rightarrow> string \<Rightarrow> string" where
  "skip_sign signs s = (case s of c # r \<Rightarrow> if c \<in> set signs then r else s | [] \<Rightarrow> [])"

definition skip_fraction :: "string \<Rightarrow> string option" where
  "skip_fraction s = (case s of c # r \<Rightarrow> if c = CHR ''.'' then skip_digits r else Some s | [] \<Rightarrow> Some [])"

definition skip_exponent :: "string \<Rightarrow> string option" where
  "skip_exponent s =
     (case s of c # r \<Rightarrow> if c \<in> {CHR ''e'', CHR ''E''} then skip_digits (skip_sign ''+-'' r) else Some s | [] \<Rightarrow> Some [])"

definition looks_numeric :: "string \<Rightarrow> bool" where
  "looks_numeric s \<longleftrightarrow>
     Option.bind (Option.bind (skip_digits (skip_sign ''-'' (trim s))) skip_fraction) skip_exponent = Some []"

definition scalar_row :: "json \<Rightarrow> bool" where
  "scalar_row v = (case v of JArr cells \<Rightarrow> list_all is_scalar cells | _ \<Rightarrow> False)"

definition header_name :: "json \<Rightarrow> string option" where
  "header_name v = (case v of JStr s \<Rightarrow> if trim s = [] then None else Some s | _ \<Rightarrow> None)"

fun header_names :: "json list \<Rightarrow> string list option" where
  "header_names [] = Some []"
| "header_names (v # vs) = Option.bind (header_name v) (\<lambda>n. map_option ((#) n) (header_names vs))"

definition cells :: "json \<Rightarrow> json list" where
  "cells v = (case as_array v of Some c \<Rightarrow> c | None \<Rightarrow> [])"

definition detect_table :: "json list \<Rightarrow> string list option" where
  "detect_table items =
     (case items of
        header # rest \<Rightarrow>
          if rest = [] \<or> \<not> list_all scalar_row items \<or> cells header = [] then None
          else (case header_names (cells header) of
                  None \<Rightarrow> None
                | Some names \<Rightarrow>
                    if length (filter (\<lambda>c. \<not> looks_numeric c) names) * 2 < length names then None
                    else if \<not> distinct (map trim names) then None
                    else if length (filter (\<lambda>r. map_option length (as_array r) = Some (length names)) rest) * 10
                            < length rest * 9 then None
                    else Some names)
      | [] \<Rightarrow> None)"

type_synonym record_list = "(nat \<times> fields) list"

definition table_record :: "string list \<Rightarrow> json list \<Rightarrow> fields" where
  "table_record header row =
     fold (\<lambda>(j, name). map_insert name (if j < length row then row ! j else JNull)) (enumerate 0 header) []"

definition column_record :: "json list \<Rightarrow> fields" where
  "column_record row = fold (\<lambda>(j, c). map_insert (''col_'' @ show_nat (j + 1)) c) (enumerate 0 row) []"

definition item_record :: "json \<Rightarrow> fields" where
  "item_record v = (case v of JObj o' \<Rightarrow> o' | _ \<Rightarrow> [(''value'', v)])"

definition coerce_list :: "json list \<Rightarrow> record_list" where
  "coerce_list items =
     (case detect_table items of
        Some header \<Rightarrow> map (\<lambda>(i, row). (i + 1, table_record header (cells row))) (enumerate 0 (tl items))
      | None \<Rightarrow>
          if items \<noteq> [] \<and> list_all scalar_row items
          then map (\<lambda>(i, row). (i, column_record (cells row))) (enumerate 0 items)
          else map (\<lambda>(i, item). (i, item_record item)) (enumerate 0 items))"

definition is_list :: "json \<Rightarrow> bool" where
  "is_list v \<longleftrightarrow> as_array v \<noteq> None"

text \<open>The records of the non-empty lists of an object, in key order, numbered through, with the key each came from.\<close>

definition expand_lists :: "fields \<Rightarrow> string list \<Rightarrow> (string \<times> fields) list" where
  "expand_lists m ks = concat (map (\<lambda>k. case map_of m k of
     Some (JArr items) \<Rightarrow> map (\<lambda>(_, rec). (k, rec)) (coerce_list items) | _ \<Rightarrow> []) ks)"

type_synonym coerced = "record_list \<times> bool \<times> (nat \<times> string) list"

definition coerce_object :: "fields \<Rightarrow> coerced" where
  "coerce_object obj =
     (let stripped = strip_meta obj
      in if stripped = [] then ([], False, [])
         else (let list_keys = sort (map fst (filter (\<lambda>(k, v). is_list v) stripped))
               in if list_keys \<noteq> []
                  then (let nonempty = filter (\<lambda>k. case map_of stripped k of Some (JArr a) \<Rightarrow> a \<noteq> [] | _ \<Rightarrow> False) list_keys
                        in if nonempty = [] then ([], True, [])
                           else (let out = enumerate 0 (expand_lists stripped nonempty)
                                 in (map (\<lambda>(i, k, rec). (i, rec)) out, True, map (\<lambda>(i, k, rec). (i, k)) out)))
                  else (case stripped of
                          [(k, JObj inner)] \<Rightarrow>
                            if ascii_lower k \<in> set wrapper_keys
                            then (let inner' = strip_meta inner in if inner' = [] then ([], False, []) else ([(0, inner')], True, []))
                            else ([(0, stripped)], True, [])
                        | _ \<Rightarrow> ([(0, stripped)], True, []))))"

definition coerce_records :: "json \<Rightarrow> coerced" where
  "coerce_records ed =
     (case ed of
        JArr items \<Rightarrow> if items = [] then ([], True, []) else (coerce_list items, True, [])
      | JObj obj \<Rightarrow> coerce_object obj
      | _ \<Rightarrow> ([], False, []))"

definition declared_columns :: "string list \<Rightarrow> string list" where
  "declared_columns declared = fold (\<lambda>f out. if f \<noteq> [] then push_new f out else out) declared []"

definition project :: "string list \<Rightarrow> fields \<Rightarrow> fields" where
  "project allow c = concat (map (\<lambda>k. case map_of c k of Some v \<Rightarrow> [(k, v)] | None \<Rightarrow> []) allow)"

definition clean_record :: "string list \<Rightarrow> fields \<Rightarrow> fields" where
  "clean_record allow r = (let c = strip_meta r in if allow \<noteq> [] then project allow c else redact_secret_keys c)"

definition top_level :: "fields \<Rightarrow> fields" where
  "top_level obj = filter (\<lambda>(k, v). \<not> is_meta_key k \<and> k \<notin> set reserved_toplevel) obj"

definition records_from_result :: "json \<Rightarrow> string list \<Rightarrow> coerced" where
  "records_from_result result_data declared =
     (case as_object result_data of
        None \<Rightarrow> ([], False, [])
      | Some obj \<Rightarrow>
          (let found = (case map_of obj ''extracted_data'' of Some ed \<Rightarrow> coerce_records ed | None \<Rightarrow> ([], False, []));
               (records, bearing, sources) =
                 (if fst found = [] \<and> \<not> fst (snd found) \<and> top_level obj \<noteq> []
                  then coerce_records (JObj (top_level obj)) else found);
               allow = declared_columns declared;
               cleaned = filter (\<lambda>(i, c). c \<noteq> []) (map (\<lambda>(i, r). (i, clean_record allow r)) records)
           in (cleaned, if cleaned = [] then bearing \<and> records = [] else True, sources)))"

definition record_count :: "json \<Rightarrow> nat" where
  "record_count result_data = length (fst (records_from_result result_data []))"

section \<open>Rows\<close>

record run_input =
  ri_run_id :: int
  ri_run_at :: "string option"
  ri_status :: "string option"
  ri_success :: "bool option"
  ri_duration_ms :: "int option"
  ri_result_data :: json
  ri_trigger_context :: json

record data_row =
  dr_run_id :: int
  dr_run_at :: "string option"
  dr_status :: "string option"
  dr_success :: "bool option"
  dr_duration_ms :: "int option"
  dr_record_index :: nat
  dr_fields :: fields
  dr_inputs :: fields

definition input_prefix :: string where
  "input_prefix = ''input.''"

definition or_null :: "json option \<Rightarrow> json" where
  "or_null x = (case x of Some v \<Rightarrow> v | None \<Rightarrow> JNull)"

definition row_value :: "data_row \<Rightarrow> string \<Rightarrow> json" where
  "row_value r key =
     (if key = ''run_at'' then or_null (map_option JStr (dr_run_at r))
      else if key = ''status'' then or_null (map_option JStr (dr_status r))
      else if key = ''run_id'' then JInt (dr_run_id r)
      else if key = ''success'' then or_null (map_option JBool (dr_success r))
      else if key = ''duration_ms'' then or_null (map_option JInt (dr_duration_ms r))
      else (case strip_prefix input_prefix key of
              Some name \<Rightarrow> or_null (map_of (dr_inputs r) name)
            | None \<Rightarrow> or_null (map_of (dr_fields r) key)))"

definition row_of :: "run_input \<Rightarrow> fields \<Rightarrow> nat \<times> fields \<Rightarrow> data_row" where
  "row_of run inputs = (\<lambda>(i, rec). \<lparr>dr_run_id = ri_run_id run, dr_run_at = ri_run_at run, dr_status = ri_status run,
     dr_success = ri_success run, dr_duration_ms = ri_duration_ms run, dr_record_index = i, dr_fields = rec, dr_inputs = inputs\<rparr>)"

text \<open>One run's step of the loop: the columns seen, the input columns seen, the rows.\<close>

definition flatten_run :: "string list \<Rightarrow> bool \<Rightarrow> run_input \<Rightarrow> string list \<times> string list \<times> data_row list
    \<Rightarrow> string list \<times> string list \<times> data_row list" where
  "flatten_run allow include_inputs run = (\<lambda>(cols, icols, rows).
     (let records = fst (records_from_result (ri_result_data run) allow)
      in if records = [] then (cols, icols, rows)
         else (let inputs = (if include_inputs then redact_inputs (task_inputs (ri_trigger_context run)) else [])
               in (fold push_new (concat (map (\<lambda>(i, rec). map fst rec) records)) cols,
                   fold push_new (map fst inputs) icols,
                   rows @ map (row_of run inputs) records))))"

definition flatten :: "run_input list \<Rightarrow> string list \<Rightarrow> bool \<Rightarrow> string list \<times> data_row list" where
  "flatten runs declared include_inputs =
     (let allow = declared_columns declared;
          (cols, icols, rows) = fold (flatten_run allow include_inputs) runs ([], [], [])
      in ((if allow \<noteq> [] then allow else cols) @ (if include_inputs then map (\<lambda>c. input_prefix @ c) icols else []), rows))"

record run_digest_info =
  dg_n :: nat
  dg_cols :: "string list"
  dg_nonnull :: bool
  dg_bearing :: bool

definition run_digest :: "run_input \<Rightarrow> string list \<Rightarrow> run_digest_info" where
  "run_digest run declared =
     (let (records, bearing, sources) = records_from_result (ri_result_data run) (declared_columns declared)
      in \<lparr>dg_n = length records,
          dg_cols = fold push_new (concat (map (\<lambda>(i, rec). map fst rec) records)) [],
          dg_nonnull = (case Option.bind (as_object (ri_result_data run)) (\<lambda>o'. map_of o' ''extracted_data'') of
                          Some v \<Rightarrow> v \<noteq> JNull | None \<Rightarrow> False),
          dg_bearing = bearing\<rparr>)"

section \<open>Cells\<close>

fun cell_text :: "text_env \<Rightarrow> json \<Rightarrow> string" where
  "cell_text env JNull = []"
| "cell_text env (JStr s) = s"
| "cell_text env (JBool b) = (if b then ''true'' else ''false'')"
| "cell_text env v = json_text env v"

fun json_f64 :: "json \<Rightarrow> f64 option" where
  "json_f64 (JInt n) = Some (Fin (i64_to_f64 n))"
| "json_f64 (JFloat r) = Some (Fin r)"
| "json_f64 _ = None"

fun to_number :: "text_env \<Rightarrow> json \<Rightarrow> f64 option" where
  "to_number env (JStr s) = parse_f64 env (trim s)"
| "to_number env v = json_f64 v"

fun is_empty_val :: "json \<Rightarrow> bool" where
  "is_empty_val JNull = True"
| "is_empty_val (JStr s) = (trim s = [])"
| "is_empty_val (JArr xs) = (xs = [])"
| "is_empty_val (JObj ms) = (ms = [])"
| "is_empty_val _ = False"

datatype sort_key = SortKey nat f64 string

fun sort_key_for :: "text_env \<Rightarrow> json \<Rightarrow> sort_key" where
  "sort_key_for env JNull = SortKey 3 (Fin 0) []"
| "sort_key_for env (JBool b) = SortKey 1 (Fin (if b then 1 else 0)) []"
| "sort_key_for env (JInt n) = SortKey 1 (Fin (i64_to_f64 n)) []"
| "sort_key_for env (JFloat r) = SortKey 1 (Fin r) []"
| "sort_key_for env (JStr s) =
     (let t = trim s
      in if t = [] then SortKey 3 (Fin 0) []
         else (case parse_f64 env t of
                 Some n \<Rightarrow> SortKey 1 n []
               | None \<Rightarrow> SortKey 2 (Fin 0) (ascii_lower t)))"
| "sort_key_for env v = SortKey 2 (Fin 0) (ascii_lower (cell_text env v))"

datatype ordering = Less | Equal | Greater

definition compare_of :: "'a :: linorder \<Rightarrow> 'a \<Rightarrow> ordering" where
  "compare_of a b = (if a < b then Less else if a = b then Equal else Greater)"

definition partial_cmp :: "f64 \<Rightarrow> f64 \<Rightarrow> ordering option" where
  "partial_cmp a b = (if ieee_lt a b then Some Less else if ieee_eq a b then Some Equal else if ieee_lt b a then Some Greater else None)"

fun sort_key_cmp :: "sort_key \<Rightarrow> sort_key \<Rightarrow> ordering" where
  "sort_key_cmp (SortKey a x s) (SortKey b y t) =
     (case compare_of a b of
        Equal \<Rightarrow> (case partial_cmp x y of
                   Some Less \<Rightarrow> Less
                 | Some Greater \<Rightarrow> Greater
                 | _ \<Rightarrow> compare_of s t)
      | o' \<Rightarrow> o')"

definition contains_lower :: "text_env \<Rightarrow> string \<Rightarrow> json \<Rightarrow> bool" where
  "contains_lower env needle v = contains_str (ascii_lower (cell_text env v)) needle"

definition row_matches :: "text_env \<Rightarrow> data_row \<Rightarrow> string \<Rightarrow> bool" where
  "row_matches env r needle \<longleftrightarrow>
     list_ex (\<lambda>(k, v). contains_lower env needle v) (dr_fields r) \<or>
     list_ex (\<lambda>(k, v). contains_lower env needle v) (dr_inputs r) \<or>
     contains_str (ascii_lower (unwrap_or [] (dr_status r))) needle \<or>
     contains_str (show_int (dr_run_id r)) needle"

record clause =
  cl_col :: string
  cl_op :: string
  cl_value :: "json option"
  cl_values :: "json list option"
  cl_min :: "json option"
  cl_max :: "json option"

definition folded :: "text_env \<Rightarrow> json \<Rightarrow> string" where
  "folded env v = ascii_lower (trim (cell_text env v))"

definition clause_matches :: "text_env \<Rightarrow> data_row \<Rightarrow> clause \<Rightarrow> bool" where
  "clause_matches env r c =
     (if cl_col c = [] \<or> cl_op c = [] then True
      else (let val = row_value r (cl_col c);
                target = unwrap_or [] (map_option (folded env) (cl_value c))
            in if cl_op c = ''empty'' then is_empty_val val
               else if cl_op c = ''nonempty'' then \<not> is_empty_val val
               else if cl_op c = ''contains'' then contains_lower env target val
               else if cl_op c = ''eq'' then folded env val = target
               else if cl_op c = ''ne'' then folded env val \<noteq> target
               else if cl_op c = ''in''
               then folded env val \<in> set (map (folded env) (unwrap_or [] (cl_values c)))
               else if cl_op c = ''between''
               then (case to_number env val of
                       None \<Rightarrow> False
                     | Some n \<Rightarrow>
                         (case Option.bind (cl_min c) (to_number env) of Some mn \<Rightarrow> \<not> ieee_lt n mn | None \<Rightarrow> True) \<and>
                         (case Option.bind (cl_max c) (to_number env) of Some mx \<Rightarrow> \<not> ieee_lt mx n | None \<Rightarrow> True))
               else True))"

section \<open>The table\<close>

record table_query =
  tq_q :: "string option"
  tq_col_filters :: "(string \<times> string) list"
  tq_filters :: "clause list"
  tq_sort_by :: "string option"
  tq_sort_dir :: string
  tq_offset :: nat
  tq_limit :: "nat option"

record data_table =
  dt_columns :: "string list"
  dt_declared :: bool
  dt_rows :: "data_row list"
  dt_total :: nat

definition keep_q :: "text_env \<Rightarrow> string option \<Rightarrow> data_row list \<Rightarrow> data_row list" where
  "keep_q env q rows =
     (case q of
        None \<Rightarrow> rows
      | Some s \<Rightarrow> (let needle = ascii_lower (trim s) in if needle = [] then rows else filter (\<lambda>r. row_matches env r needle) rows))"

definition keep_col :: "text_env \<Rightarrow> string \<times> string \<Rightarrow> data_row list \<Rightarrow> data_row list" where
  "keep_col env = (\<lambda>(col, s) rows.
     (let sub = ascii_lower (trim s) in if sub = [] then rows else filter (\<lambda>r. contains_lower env sub (row_value r col)) rows))"

definition keep_clause :: "text_env \<Rightarrow> clause \<Rightarrow> data_row list \<Rightarrow> data_row list" where
  "keep_clause env c rows = (if cl_col c \<noteq> [] \<and> cl_op c \<noteq> [] then filter (\<lambda>r. clause_matches env r c) rows else rows)"

definition sort_column :: "string list \<Rightarrow> string option \<Rightarrow> string" where
  "sort_column columns sort_by =
     (case sort_by of
        Some s \<Rightarrow> if s \<in> set (columns @ [''run_at'', ''status'', ''duration_ms'', ''run_id'']) then s else ''run_at''
      | None \<Rightarrow> ''run_at'')"

definition row_cmp :: "text_env \<Rightarrow> string \<Rightarrow> data_row \<Rightarrow> data_row \<Rightarrow> ordering" where
  "row_cmp env key a b =
     (if key = ''run_at'' then compare_of (unwrap_or [] (dr_run_at a)) (unwrap_or [] (dr_run_at b))
      else sort_key_cmp (sort_key_for env (row_value a key)) (sort_key_for env (row_value b key)))"

text \<open>
  \<open>sort_by\<close> is stable: by insertion, an element goes before the first greater one. On a comparison that is not a
  total order it may panic, which is \<open>None\<close>.
\<close>

fun insert_by :: "('a \<Rightarrow> 'a \<Rightarrow> ordering) \<Rightarrow> 'a \<Rightarrow> 'a list \<Rightarrow> 'a list" where
  "insert_by cmp x [] = [x]"
| "insert_by cmp x (y # ys) = (if cmp x y = Greater then y # insert_by cmp x ys else x # y # ys)"

definition total_on :: "('a \<Rightarrow> 'a \<Rightarrow> ordering) \<Rightarrow> 'a list \<Rightarrow> bool" where
  "total_on cmp xs \<longleftrightarrow>
     (\<forall>x\<in>set xs. \<forall>y\<in>set xs. (cmp x y = Less \<longleftrightarrow> cmp y x = Greater) \<and>
        (\<forall>z\<in>set xs. cmp x y \<noteq> Greater \<and> cmp y z \<noteq> Greater \<longrightarrow> cmp x z \<noteq> Greater))"

definition sort_by :: "('a \<Rightarrow> 'a \<Rightarrow> ordering) \<Rightarrow> 'a list \<Rightarrow> 'a list option" where
  "sort_by cmp xs = (if total_on cmp xs then Some (foldr (insert_by cmp) xs []) else None)"

definition page :: "nat \<Rightarrow> nat option \<Rightarrow> 'a list \<Rightarrow> 'a list" where
  "page offset limit xs = (case limit of None \<Rightarrow> drop offset xs | Some n \<Rightarrow> take n (drop offset xs))"

definition matching_rows :: "text_env \<Rightarrow> table_query \<Rightarrow> data_row list \<Rightarrow> data_row list" where
  "matching_rows env query rows =
     fold (keep_clause env) (tq_filters query) (fold (keep_col env) (tq_col_filters query) (keep_q env (tq_q query) rows))"

definition build_table :: "text_env \<Rightarrow> run_input list \<Rightarrow> string list \<Rightarrow> table_query \<Rightarrow> bool \<Rightarrow> data_table option" where
  "build_table env runs declared query include_inputs =
     (let (columns, all) = flatten runs declared include_inputs;
          rows = matching_rows env query all;
          key = sort_column columns (tq_sort_by query);
          reverse = (ascii_lower (tq_sort_dir query) \<noteq> ''asc'')
      in map_option (\<lambda>sorted_rows.
           \<lparr>dt_columns = columns, dt_declared = declared_columns declared \<noteq> [],
            dt_rows = page (tq_offset query) (tq_limit query) (if reverse then rev sorted_rows else sorted_rows),
            dt_total = length rows\<rparr>) (sort_by (row_cmp env key) rows))"

section \<open>JSON and CSV\<close>

definition run_meta :: "data_row \<Rightarrow> fields" where
  "run_meta r = [(''run_id'', JInt (dr_run_id r)), (''run_at'', or_null (map_option JStr (dr_run_at r))),
     (''status'', or_null (map_option JStr (dr_status r))), (''record_index'', JInt (int (dr_record_index r)))]"

definition row_to_json :: "data_row \<Rightarrow> string list \<Rightarrow> json" where
  "row_to_json r columns = JObj (fold (\<lambda>c. map_insert c (row_value r c)) columns (run_meta r))"

definition row_to_table_json :: "data_row \<Rightarrow> string list \<Rightarrow> json" where
  "row_to_table_json r columns =
     JObj (run_meta r @ [(''fields'', JObj (fold (\<lambda>c. map_insert c (row_value r c)) columns []))])"

definition csv_field :: "string \<Rightarrow> string" where
  "csv_field s =
     (if set s \<inter> {CHR '','', CHR 0x22, CHR 10, CHR 13} \<noteq> {}
      then CHR 0x22 # concat (map (\<lambda>c. if c = CHR 0x22 then [CHR 0x22, CHR 0x22] else [c]) s) @ [CHR 0x22]
      else s)"

definition crlf :: string where
  "crlf = [CHR 13, CHR 10]"

definition csv_line :: "string list \<Rightarrow> string" where
  "csv_line row = join_with '','' (map csv_field row) @ crlf"

definition csv_header :: "string list \<Rightarrow> string list" where
  "csv_header columns = [''run_id'', ''run_at'', ''status''] @ columns"

definition csv_cells :: "text_env \<Rightarrow> string list \<Rightarrow> data_row \<Rightarrow> string list" where
  "csv_cells env columns r =
     [show_int (dr_run_id r), unwrap_or [] (dr_run_at r), unwrap_or [] (dr_status r)] @
     map (\<lambda>c. cell_text env (row_value r c)) columns"

definition to_csv :: "text_env \<Rightarrow> string list \<Rightarrow> data_row list \<Rightarrow> string" where
  "to_csv env columns rows = csv_line (csv_header columns) @ concat (map (\<lambda>r. csv_line (csv_cells env columns r)) rows)"

section \<open>What surfaces\<close>







lemma project_allowed: "(k, v) \<in> set (project allow c) \<Longrightarrow> k \<in> set allow"
  by (auto simp: project_def split: option.splits)


lemma record_clean:
  "(i, rec) \<in> set (fst (records_from_result v declared)) \<Longrightarrow> rec \<noteq> [] \<and> (\<exists>r. rec = clean_record (declared_columns declared) r)"
  by (auto simp: records_from_result_def Let_def split: option.splits prod.splits if_splits)

lemma declared_step: "declared_columns (declared @ [f]) = (if f \<noteq> [] then push_new f (declared_columns declared) else declared_columns declared)"
  by (simp add: declared_columns_def)

lemma declared_columns_props: "distinct (declared_columns ds) \<and> set (declared_columns ds) = {f \<in> set ds. f \<noteq> []}"
proof (induction ds rule: rev_induct)
  case Nil
  then show ?case by (simp add: declared_columns_def)
next
  case (snoc f ds)
  then show ?case unfolding declared_step by (auto simp: push_new_def)
qed

lemma push_fold_all: "distinct ys \<Longrightarrow> set ys \<inter> set acc = {} \<Longrightarrow> fold push_new ys acc = acc @ ys"
  by (induction ys arbitrary: acc) (auto simp: push_new_def)

lemma declared_columns_idem: "declared_columns (declared_columns ds) = declared_columns ds"
proof -
  have "fold (\<lambda>f out. if f \<noteq> [] then push_new f out else out) ys acc = fold push_new ys acc"
    if "[] \<notin> set ys" for ys acc :: "string list"
    using that by (induction ys arbitrary: acc) auto
  moreover have "[] \<notin> set (declared_columns ds)" using declared_columns_props[of ds] by auto
  ultimately have "declared_columns (declared_columns ds) = fold push_new (declared_columns ds) []"
    unfolding declared_columns_def[of "declared_columns ds"] by blast
  then show ?thesis using push_fold_all[of "declared_columns ds" "[]"] declared_columns_props[of ds] by simp
qed

definition run_inputs :: "bool \<Rightarrow> run_input \<Rightarrow> fields" where
  "run_inputs include_inputs run = (if include_inputs then redact_inputs (task_inputs (ri_trigger_context run)) else [])"

definition run_records :: "string list \<Rightarrow> run_input \<Rightarrow> record_list" where
  "run_records declared run = fst (records_from_result (ri_result_data run) (declared_columns declared))"

definition run_rows :: "string list \<Rightarrow> bool \<Rightarrow> run_input \<Rightarrow> data_row list" where
  "run_rows declared include_inputs run = map (row_of run (run_inputs include_inputs run)) (run_records declared run)"

text \<open>The loop of \<open>flatten\<close> in closed form.\<close>

definition record_keys :: "record_list \<Rightarrow> string list" where
  "record_keys records = concat (map (\<lambda>(i, rec). map fst rec) records)"

lemma flatten_run_unfold:
  "flatten_run (declared_columns declared) inc run (cols, icols, rows) =
     (fold push_new (record_keys (run_records declared run)) cols,
      (if run_records declared run = [] then icols else fold push_new (map fst (run_inputs inc run)) icols),
      rows @ run_rows declared inc run)"
  by (simp add: flatten_run_def run_records_def run_rows_def record_keys_def run_inputs_def Let_def)

lemma flatten_fold:
  "fold (flatten_run (declared_columns declared) inc) runs (cols, icols, rows) =
     (fold push_new (concat (map (\<lambda>run. record_keys (run_records declared run)) runs)) cols,
      fold push_new (concat (map (\<lambda>run. if run_records declared run = [] then [] else map fst (run_inputs inc run)) runs)) icols,
      rows @ concat (map (run_rows declared inc) runs))"
  by (induction runs arbitrary: cols icols rows) (simp_all add: flatten_run_unfold)

lemma flatten_rows: "snd (flatten runs declared inc) = concat (map (run_rows declared inc) runs)"
  by (simp add: flatten_def flatten_fold Let_def)

lemma flatten_columns:
  "fst (flatten runs declared inc) =
     (if declared_columns declared \<noteq> [] then declared_columns declared
      else fold push_new (concat (map (\<lambda>run. record_keys (run_records declared run)) runs)) []) @
     (if inc then map (\<lambda>c. input_prefix @ c) (fold push_new
        (concat (map (\<lambda>run. if run_records declared run = [] then [] else map fst (run_inputs inc run)) runs)) []) else [])"
  by (simp add: flatten_def flatten_fold Let_def)

lemma row_clean:
  assumes "r \<in> set (run_rows declared inc run)"
  shows "\<exists>rec. dr_fields r = clean_record (declared_columns declared) rec" "dr_fields r \<noteq> []" "dr_inputs r = run_inputs inc run"
  using assms record_clean[of _ _ "ri_result_data run" "declared_columns declared"]
  by (auto simp: run_rows_def run_records_def row_of_def declared_columns_idem)

lemma set_insert_by: "set (insert_by cmp x ys) = insert x (set ys)"
  by (induction ys) auto

lemma mset_insert_by: "mset (insert_by cmp x ys) = add_mset x (mset ys)"
  by (induction ys) auto

lemma mset_sort_by: "sort_by cmp xs = Some ys \<Longrightarrow> mset ys = mset xs"
proof -
  have "mset (foldr (insert_by cmp) xs []) = mset xs" by (induction xs) (simp_all add: mset_insert_by)
  then show "sort_by cmp xs = Some ys \<Longrightarrow> mset ys = mset xs" by (auto simp: sort_by_def split: if_splits)
qed


text \<open>The conjunction of the filters.\<close>

definition matches_query :: "text_env \<Rightarrow> table_query \<Rightarrow> data_row \<Rightarrow> bool" where
  "matches_query env query r \<longleftrightarrow>
     (case tq_q query of None \<Rightarrow> True | Some q \<Rightarrow> ascii_lower (trim q) = [] \<or> row_matches env r (ascii_lower (trim q))) \<and>
     (\<forall>(col, s)\<in>set (tq_col_filters query). ascii_lower (trim s) = [] \<or> contains_lower env (ascii_lower (trim s)) (row_value r col)) \<and>
     (\<forall>c\<in>set (tq_filters query). clause_matches env r c)"

lemma keep_clause_filter: "keep_clause env c rows = filter (\<lambda>r. clause_matches env r c) rows"
  by (auto simp: keep_clause_def clause_matches_def)

lemma keep_col_filter:
  "keep_col env (col, s) rows = filter (\<lambda>r. ascii_lower (trim s) = [] \<or> contains_lower env (ascii_lower (trim s)) (row_value r col)) rows"
  by (simp add: keep_col_def Let_def)

lemma keep_cols_filter:
  "fold (keep_col env) cs rows = filter (\<lambda>r. \<forall>(col, s)\<in>set cs. ascii_lower (trim s) = [] \<or>
     contains_lower env (ascii_lower (trim s)) (row_value r col)) rows"
proof (induction cs arbitrary: rows)
  case (Cons c cs)
  obtain col s where c: "c = (col, s)" by fastforce
  show ?case unfolding fold_Cons comp_def Cons.IH unfolding c keep_col_filter by (auto intro!: filter_cong)
qed simp

lemma keep_clauses_filter: "fold (keep_clause env) cs rows = filter (\<lambda>r. \<forall>c\<in>set cs. clause_matches env r c) rows"
  by (induction cs arbitrary: rows) (auto simp: keep_clause_filter intro!: filter_cong)

lemma matching_rows_filter: "matching_rows env query rows = filter (matches_query env query) rows"
  by (auto simp: matching_rows_def keep_q_def keep_cols_filter keep_clauses_filter matches_query_def Let_def
      intro!: filter_cong split: option.split)



text \<open>The inputs are filtered at the top level only: a secret inside an object input stays.\<close>

lemma nested_input_secret_stays:
  "\<not> is_secret_input_key k \<Longrightarrow> (k, JObj [(''password'', JStr p)]) \<in> set inputs
    \<Longrightarrow> (k, JObj [(''password'', JStr p)]) \<in> set (redact_inputs inputs)"
  by (simp add: redact_inputs_def)

text \<open>A scraped column named like a run column shows the run's value.\<close>

lemma status_column_shadowed: "row_value r ''status'' = or_null (map_option JStr (dr_status r))"
  by (simp add: row_value_def)

section \<open>Order and pages\<close>

lemma total_on_subset: "total_on cmp xs \<Longrightarrow> set ys \<subseteq> set xs \<Longrightarrow> total_on cmp ys"
  unfolding total_on_def by (meson subsetD)

lemma insert_by_sorted:
  assumes "total_on cmp (x # ys)" "sorted_wrt (\<lambda>a b. cmp a b \<noteq> Greater) ys"
  shows "sorted_wrt (\<lambda>a b. cmp a b \<noteq> Greater) (insert_by cmp x ys)"
  using assms
proof (induction ys)
  case Nil
  then show ?case by simp
next
  case (Cons y ys)
  have le: "cmp y x \<noteq> Greater" if "cmp x y = Greater"
    using Cons.prems(1) that unfolding total_on_def by (metis list.set_intros ordering.distinct(3))
  have trans: "cmp x z \<noteq> Greater" if "cmp x y \<noteq> Greater" "z \<in> set ys" for z
  proof -
    have "cmp y z \<noteq> Greater" using Cons.prems(2) that(2) by simp
    then show ?thesis using Cons.prems(1) that unfolding total_on_def by (metis list.set_intros)
  qed
  have "total_on cmp (x # ys)" using Cons.prems(1) by (rule total_on_subset) auto
  then show ?case using Cons le trans by (auto simp: set_insert_by)
qed

lemma sort_by_sorted:
  assumes "sort_by cmp xs = Some ys"
  shows "sorted_wrt (\<lambda>a b. cmp a b \<noteq> Greater) ys"
proof -
  have ys: "total_on cmp xs" "ys = foldr (insert_by cmp) xs []" using assms by (auto simp: sort_by_def split: if_splits)
  have "sorted_wrt (\<lambda>a b. cmp a b \<noteq> Greater) (foldr (insert_by cmp) zs [])" if "total_on cmp zs" for zs
    using that
  proof (induction zs)
    case (Cons z zs)
    have "set (foldr (insert_by cmp) zs []) = set zs" by (induction zs) (simp_all add: set_insert_by)
    then have "total_on cmp (z # foldr (insert_by cmp) zs [])" using Cons.prems by (auto intro: total_on_subset)
    moreover have "total_on cmp zs" using Cons.prems by (rule total_on_subset) auto
    ultimately show ?case using Cons.IH by (simp add: insert_by_sorted)
  qed simp
  with ys show ?thesis by blast
qed

text \<open>
  A page of the table: the total counts exactly the rows of the flattened runs that meet every filter; the
  rows are the requested window of an arrangement of exactly these rows, each once, ordered by the sort column,
  ascending or descending as asked; an unknown sort column means the run time.
\<close>

theorem table_page:
  assumes "build_table env runs declared query include_inputs = Some t"
  shows "let rows = filter (matches_query env query) (snd (flatten runs declared include_inputs));
      key = sort_column (dt_columns t) (tq_sort_by query); asc = (ascii_lower (tq_sort_dir query) = ''asc'')
    in dt_total t = length rows \<and>
       (\<exists>all. mset all = mset rows \<and> dt_rows t = page (tq_offset query) (tq_limit query) all \<and>
          sorted_wrt (\<lambda>a b. if asc then row_cmp env key a b \<noteq> Greater else row_cmp env key b a \<noteq> Greater) all)"
proof -
  obtain columns all where fl: "flatten runs declared include_inputs = (columns, all)" by fastforce
  let ?rows = "filter (matches_query env query) all" and ?cmp = "row_cmp env (sort_column columns (tq_sort_by query))"
  obtain ys where ys: "sort_by ?cmp ?rows = Some ys"
    and t: "t = \<lparr>dt_columns = columns, dt_declared = declared_columns declared \<noteq> [],
       dt_rows = page (tq_offset query) (tq_limit query) (if ascii_lower (tq_sort_dir query) \<noteq> ''asc'' then rev ys else ys),
       dt_total = length ?rows\<rparr>"
    using assms by (auto simp: build_table_def fl matching_rows_filter Let_def)
  note sorted = sort_by_sorted[OF ys] and mset = mset_sort_by[OF ys]
  show ?thesis
  proof (cases "ascii_lower (tq_sort_dir query) = ''asc''")
    case True
    then show ?thesis using sorted mset by (auto simp: t fl Let_def intro!: exI[of _ ys])
  next
    case False
    have "sorted_wrt (\<lambda>a b. ?cmp b a \<noteq> Greater) (rev ys)" using sorted by (simp add: sorted_wrt_rev)
    then show ?thesis using False mset by (auto simp: t fl Let_def intro!: exI[of _ "rev ys"])
  qed
qed

text \<open>The sort keys are a total order unless one is not a number, as the text \<open>nan\<close> is.\<close>

definition key_rank :: "sort_key \<Rightarrow> nat \<times> nat \<times> rat \<times> string" where
  "key_rank k = (case k of SortKey a x s \<Rightarrow>
     (a, (case x of NegInf \<Rightarrow> 0 | Fin r \<Rightarrow> 1 | PosInf \<Rightarrow> 2 | NaN \<Rightarrow> 3), (case x of Fin r \<Rightarrow> r | _ \<Rightarrow> 0), s))"

definition nan_key :: "sort_key \<Rightarrow> bool" where
  "nan_key k = (case k of SortKey a x s \<Rightarrow> x = NaN)"

lemma sort_key_cmp_rank:
  "\<not> nan_key k \<Longrightarrow> \<not> nan_key l \<Longrightarrow> sort_key_cmp k l = compare_of (key_rank k) (key_rank l)"
  by (cases k; cases l; rename_tac a x s b y t; case_tac x; case_tac y)
    (auto simp: nan_key_def key_rank_def compare_of_def partial_cmp_def ieee_eq_def less_prod_def')

lemma total_on_rank:
  fixes f :: "'a \<Rightarrow> 'b :: linorder"
  shows "(\<And>x y. x \<in> set xs \<Longrightarrow> y \<in> set xs \<Longrightarrow> cmp x y = compare_of (f x) (f y)) \<Longrightarrow> total_on cmp xs"
  by (auto simp: total_on_def compare_of_def)

lemma table_defined:
  assumes "\<forall>run\<in>set runs. \<forall>r\<in>set (run_rows declared include_inputs run).
    \<not> nan_key (sort_key_for env (row_value r (sort_column (fst (flatten runs declared include_inputs)) (tq_sort_by query))))"
  shows "\<exists>t. build_table env runs declared query include_inputs = Some t"
proof -
  let ?key = "sort_column (fst (flatten runs declared include_inputs)) (tq_sort_by query)"
  let ?rows = "filter (matches_query env query) (snd (flatten runs declared include_inputs))"
  have "total_on (row_cmp env ?key) ?rows"
  proof (cases "?key = ''run_at''")
    case True
    then show ?thesis by (intro total_on_rank[where f = "\<lambda>r. unwrap_or [] (dr_run_at r)"]) (simp add: row_cmp_def)
  next
    case False
    show ?thesis
      by (rule total_on_rank[where f = "\<lambda>r. key_rank (sort_key_for env (row_value r ?key))"])
        (use False assms in \<open>auto simp: row_cmp_def flatten_rows sort_key_cmp_rank\<close>)
  qed
  then show ?thesis by (auto simp: build_table_def sort_by_def matching_rows_filter Let_def split: prod.split)
qed

lemma nan_breaks_order:
  assumes "parse_f64 env ''nan'' = Some NaN"
  shows "sort_by (\<lambda>a b. sort_key_cmp (sort_key_for env a) (sort_key_for env b)) [JFloat 2, JStr ''nan'', JFloat 1] = None"
proof -
  have "trim ''nan'' = ''nan''" by (rule trim_printable) (simp add: printable_def)
  then show ?thesis
    using assms by (auto simp: sort_by_def total_on_def compare_of_def partial_cmp_def ieee_eq_def)
qed

section \<open>CSV read back\<close>

text \<open>
  The reader of RFC 4180 that the exported text is meant for: a cell is bare or in double quotes, a doubled quote
  inside quotes stands for one, CRLF ends a record. \<open>None\<close> is a text that does not parse.
\<close>

datatype csv_state = Bare | InQuotes | AfterQuote

fun csv_go :: "csv_state \<Rightarrow> string \<Rightarrow> string list \<Rightarrow> string \<Rightarrow> string list list option" where
  "csv_go st field row [] = (if st = Bare \<and> field = [] \<and> row = [] then Some [] else None)"
| "csv_go InQuotes field row (c # cs) =
     (if c = CHR 0x22 then csv_go AfterQuote field row cs else csv_go InQuotes (field @ [c]) row cs)"
| "csv_go st field row (c # cs) =
     (if c = CHR '','' then csv_go Bare [] (row @ [field]) cs
      else if c = CHR 0x22 then
        (if st = AfterQuote then csv_go InQuotes (field @ [c]) row cs
         else if field = [] then csv_go InQuotes [] row cs else None)
      else if c = CHR 13 then
        (case cs of CHR 10 # rest \<Rightarrow> map_option ((#) (row @ [field])) (csv_go Bare [] [] rest) | _ \<Rightarrow> None)
      else if st = AfterQuote then None
      else csv_go Bare (field @ [c]) row cs)"

definition csv_read :: "string \<Rightarrow> string list list option" where
  "csv_read = csv_go Bare [] []"

definition csv_special :: "char set" where
  "csv_special = {CHR '','', CHR 0x22, CHR 10, CHR 13}"

lemma csv_go_quoted:
  "csv_go InQuotes acc row (concat (map (\<lambda>c. if c = CHR 0x22 then [CHR 0x22, CHR 0x22] else [c]) s) @ CHR 0x22 # rest) =
     csv_go AfterQuote (acc @ s) row rest"
  by (induction s arbitrary: acc) auto

lemma csv_go_bare: "set s \<inter> csv_special = {} \<Longrightarrow> csv_go Bare acc row (s @ rest) = csv_go Bare (acc @ s) row rest"
  by (induction s arbitrary: acc) (auto simp: csv_special_def)

lemma csv_go_comma: "st \<noteq> InQuotes \<Longrightarrow> csv_go st field row (CHR '','' # rest) = csv_go Bare [] (row @ [field]) rest"
  by (cases st) auto

lemma csv_go_crlf: "st \<noteq> InQuotes \<Longrightarrow> csv_go st field row (crlf @ rest) = map_option ((#) (row @ [field])) (csv_read rest)"
  by (cases st) (auto simp: crlf_def csv_read_def)

lemma csv_go_field:
  obtains st where "st \<noteq> InQuotes" "csv_go Bare [] row (csv_field s @ rest) = csv_go st s row rest"
proof (cases "set s \<inter> csv_special = {}")
  case True
  then show ?thesis using that[of Bare] csv_go_bare[OF True, of "[]"] by (simp add: csv_field_def csv_special_def)
next
  case False
  then show ?thesis using that[of AfterQuote] csv_go_quoted[of "[]"] by (simp add: csv_field_def csv_special_def)
qed

lemma csv_go_line:
  "csv_go Bare [] acc (join_with '','' (map csv_field (c # cs)) @ crlf @ rest) = map_option ((#) (acc @ c # cs)) (csv_read rest)"
proof (induction cs arbitrary: acc c)
  case Nil
  obtain st where "st \<noteq> InQuotes" "csv_go Bare [] acc (csv_field c @ crlf @ rest) = csv_go st c acc (crlf @ rest)"
    using csv_go_field .
  then show ?case by (simp add: csv_go_crlf)
next
  case (Cons d ds)
  let ?more = "join_with '','' (map csv_field (d # ds)) @ crlf @ rest"
  obtain st where "st \<noteq> InQuotes" "csv_go Bare [] acc (csv_field c @ CHR '','' # ?more) = csv_go st c acc (CHR '','' # ?more)"
    using csv_go_field .
  then show ?case using Cons.IH[of "acc @ [c]" d] by (simp add: csv_go_comma)
qed

lemma csv_read_line: "row \<noteq> [] \<Longrightarrow> csv_read (csv_line row @ rest) = map_option ((#) row) (csv_read rest)"
  using csv_go_line[of "[]" "hd row" "tl row" rest] by (simp add: csv_read_def csv_line_def)

text \<open>
  C15. Export loses no cell: an RFC 4180 reader gets from the exported text exactly the header and, row by row, the
  text of every cell, whatever commas, quotes and line ends the scraped values hold.
\<close>

theorem csv_roundtrip:
  "csv_read (to_csv env columns rows) = Some (csv_header columns # map (csv_cells env columns) rows)"
proof -
  have "csv_read (concat (map (\<lambda>r. csv_line (csv_cells env columns r)) rows)) = Some (map (csv_cells env columns) rows)"
    by (induction rows) (simp_all add: csv_read_line csv_cells_def, simp add: csv_read_def)
  then show ?thesis by (simp add: to_csv_def csv_read_line csv_header_def)
qed

section \<open>Digests\<close>

lemma digest_fields:
  "dg_n (run_digest run declared) = length (run_records declared run)"
  "dg_cols (run_digest run declared) = fold push_new (record_keys (run_records declared run)) []"
  by (simp_all add: run_digest_def run_records_def record_keys_def split_def Let_def)

lemma push_new_set: "set (fold push_new xs acc) = set acc \<union> set xs"
  by (induction xs arbitrary: acc) (auto simp: push_new_def)

lemma push_new_distinct: "distinct acc \<Longrightarrow> distinct (fold push_new xs acc)"
  by (induction xs arbitrary: acc) (auto simp: push_new_def)

lemma push_known: "set xs \<subseteq> set acc \<Longrightarrow> fold push_new xs acc = acc"
  by (induction xs) (auto simp: push_new_def)

lemma push_again: "fold push_new (fold push_new ys []) acc = fold push_new ys acc"
proof (induction ys arbitrary: acc rule: rev_induct)
  case (snoc y ys)
  have known: "y \<in> set (fold push_new ys b) \<longleftrightarrow> y \<in> set b \<or> y \<in> set ys" for b by (simp add: push_new_set)
  show ?case
  proof (cases "y \<in> set ys")
    case True
    then have "push_new y (fold push_new ys b) = fold push_new ys b" for b using known by (simp add: push_new_def)
    then show ?thesis using snoc by simp
  next
    case False
    then have "push_new y (fold push_new ys []) = fold push_new ys [] @ [y]" using known[of "[]"] by (simp add: push_new_def)
    then show ?thesis using snoc by simp
  qed
qed simp

text \<open>
  The stored digests of the runs answer what the full parse answers: the number of rows is the sum of the
  digests' counts, and without declared outputs the columns are the digests' columns pushed in run order.
\<close>

theorem digests_agree_with_flatten:
  "length (snd (flatten runs declared inc)) = sum_list (map (\<lambda>run. dg_n (run_digest run declared)) runs) \<and>
   fst (flatten runs declared False) =
     (if declared_columns declared \<noteq> [] then declared_columns declared
      else fold push_new (concat (map (\<lambda>run. dg_cols (run_digest run declared)) runs)) [])"
proof -
  have "fold push_new (concat (map (\<lambda>run. fold push_new (f run) []) runs)) acc = fold push_new (concat (map f runs)) acc"
    for f :: "run_input \<Rightarrow> string list" and acc by (induction runs arbitrary: acc) (simp_all add: push_again)
  then show ?thesis
    by (simp add: flatten_rows flatten_columns digest_fields length_concat run_rows_def comp_def)
qed

section \<open>Well-formed rows\<close>

text \<open>A parsed JSON value: no object has a key twice, at any depth.\<close>

fun json_ok :: "json \<Rightarrow> bool" where
  "json_ok (JObj ms) = (distinct (map fst ms) \<and> list_all json_ok (map snd ms))"
| "json_ok (JArr xs) = list_all json_ok xs"
| "json_ok _ = True"

definition record_ok :: "fields \<Rightarrow> bool" where
  "record_ok r \<longleftrightarrow> distinct (map fst r)"

definition records_ok :: "record_list \<Rightarrow> bool" where
  "records_ok rs \<longleftrightarrow> distinct (map fst rs) \<and> (\<forall>(i, r)\<in>set rs. record_ok r)"

lemma json_ok_member: "json_ok (JObj ms) \<Longrightarrow> map_of ms k = Some v \<Longrightarrow> json_ok v"
  by (drule map_of_SomeD) (force simp: list_all_iff)

lemma json_ok_record: "json_ok (JObj ms) \<Longrightarrow> record_ok ms"
  by (simp add: record_ok_def)

lemma json_ok_drop: "json_ok v \<Longrightarrow> json_ok (drop_keys bad v)"
proof (induction bad v rule: drop_keys.induct)
  case (1 bad ms)
  have keys: "map fst (map (\<lambda>(k, v). (k, drop_keys bad v)) ns) = map fst ns" for ns :: fields by auto
  have "distinct (map fst (filter (\<lambda>(k, v). \<not> bad k) ms))" using 1(2) by (simp add: distinct_map_filter)
  moreover have "json_ok (drop_keys bad v)" if "(k, v) \<in> set ms" "\<not> bad k" for k v
    using 1(1)[of "(k, v)" k v] 1(2) that by (force simp: list_all_iff)
  ultimately show ?case by (simp only: drop_keys.simps json_ok.simps keys) (auto simp: list_all_iff)
next
  case (2 bad xs)
  then show ?case by (auto simp: list_all_iff)
qed auto

lemma json_ok_strip: "json_ok (JObj ms) \<Longrightarrow> json_ok (JObj (strip_meta ms))"
  using json_ok_drop[of "JObj ms" is_meta_key] by (simp add: strip_meta_def drop_fields_def)

lemma map_insert_keys: "set (map fst (map_insert k v m)) = insert k (set (map fst m))"
  by (induction k v m rule: map_insert.induct) auto

lemma map_insert_ok: "record_ok m \<Longrightarrow> record_ok (map_insert k v m)"
  unfolding record_ok_def by (induction k v m rule: map_insert.induct) (use map_insert_keys in \<open>auto\<close>)

lemma map_inserts_ok: "record_ok m \<Longrightarrow> record_ok (fold (\<lambda>(j, c). map_insert (name j c) (val j c)) xs m)"
  by (induction xs arbitrary: m) (auto simp: map_insert_ok)

lemma numbered_ok:
  assumes "inj g" "\<And>x. x \<in> set xs \<Longrightarrow> record_ok (f x)"
  shows "records_ok (map (\<lambda>(i, x). (g i, f x)) (enumerate k xs))"
proof -
  have "map fst (map (\<lambda>(i, x). (g i, f x)) (enumerate k xs)) = map g [k..<k + length xs]"
  proof -
    have "map fst (map (\<lambda>(i, x). (g i, f x)) es) = map g (map fst es)" for es by auto
    then show ?thesis by (simp only: map_fst_enumerate)
  qed
  then have "distinct (map fst (map (\<lambda>(i, x). (g i, f x)) (enumerate k xs)))"
    using assms(1) by (simp add: distinct_map inj_on_def inj_def)
  then show ?thesis using assms(2) by (auto simp: records_ok_def dest!: in_set_enumerate_eq[THEN iffD1])
qed

lemma table_record_ok: "record_ok (table_record header row)"
  unfolding table_record_def by (rule map_inserts_ok) (simp add: record_ok_def)

lemma column_record_ok: "record_ok (column_record row)"
  unfolding column_record_def by (rule map_inserts_ok) (simp add: record_ok_def)

lemma item_record_ok: "json_ok v \<Longrightarrow> record_ok (item_record v)"
  by (cases v) (simp_all add: item_record_def record_ok_def)

lemma coerce_list_ok:
  assumes "\<And>v. v \<in> set items \<Longrightarrow> json_ok v"
  shows "records_ok (coerce_list items)"
proof (cases "detect_table items")
  case (Some header)
  then show ?thesis
    using numbered_ok[of "\<lambda>i. i + 1" "tl items" "\<lambda>row. table_record header (cells row)" 0] table_record_ok
    by (simp add: coerce_list_def inj_def)
next
  case None
  then show ?thesis
    using numbered_ok[of "\<lambda>i. i" items "\<lambda>row. column_record (cells row)" 0] column_record_ok
      numbered_ok[of "\<lambda>i. i" items item_record 0] item_record_ok assms
    by (auto simp: coerce_list_def)
qed

lemma expand_lists_ok:
  assumes "json_ok (JObj m)" "(k, rec) \<in> set (expand_lists m ks)"
  shows "record_ok rec"
proof -
  obtain items i where items: "map_of m k = Some (JArr items)" "(i, rec) \<in> set (coerce_list items)"
    using assms(2) that by (auto simp: expand_lists_def split: option.splits json.splits) metis
  have "json_ok (JArr items)" using json_ok_member[OF assms(1) items(1)] .
  then have "records_ok (coerce_list items)" by (intro coerce_list_ok) (simp add: list_all_iff)
  with items(2) show ?thesis by (auto simp: records_ok_def)
qed

lemma single_ok: "record_ok r \<Longrightarrow> records_ok [(i, r)]"
  by (simp add: records_ok_def)

lemma none_ok: "records_ok []"
  by (simp add: records_ok_def)

lemma coerce_object_ok:
  assumes ok: "json_ok (JObj obj)"
  shows "records_ok (fst (coerce_object obj))"
proof -
  define m where "m = strip_meta obj"
  have m: "json_ok (JObj m)" unfolding m_def using ok by (rule json_ok_strip)
  have expanded: "records_ok (map (\<lambda>(i, k, rec). (i, rec)) (enumerate 0 (expand_lists m ks)))" for ks
    using numbered_ok[of "\<lambda>i. i" "expand_lists m ks" snd 0] expand_lists_ok[OF m] by (auto simp: split_def)
  have inner: "record_ok (strip_meta i)" if "m = [(k, JObj i)]" for k i
    using m that json_ok_strip[of i] by (intro json_ok_record) simp
  show ?thesis
    using expanded inner json_ok_record[OF m]
    by (auto simp: coerce_object_def m_def[symmetric] Let_def none_ok single_ok split: list.splits prod.splits json.splits)
qed

lemma coerce_records_ok: "json_ok ed \<Longrightarrow> records_ok (fst (coerce_records ed))"
  by (cases ed) (auto simp: coerce_records_def none_ok list_all_iff intro: coerce_list_ok coerce_object_ok)

lemma clean_record_ok:
  assumes "record_ok r" "distinct allow"
  shows "record_ok (clean_record allow r)"
proof -
  have keys: "map fst (map (\<lambda>(k, v). (k, drop_keys bad v)) ns) = map fst ns" for bad and ns :: fields by auto
  have drop: "record_ok (drop_fields bad s)" if "record_ok s" for bad s
    using that unfolding record_ok_def drop_fields_def drop_keys.simps json.case keys by (rule distinct_map_filter)
  have "map fst (project allow s) = filter (\<lambda>k. map_of s k \<noteq> None) allow" for s
    by (induction allow) (auto simp: project_def split: option.splits)
  then have "record_ok (project allow s)" for s using assms(2) by (simp add: record_ok_def)
  then show ?thesis using drop assms(1) by (simp add: clean_record_def Let_def strip_meta_def redact_secret_keys_def)
qed

lemma run_records_ok: "json_ok (ri_result_data run) \<Longrightarrow> records_ok (run_records declared run)"
proof (cases "as_object (ri_result_data run)")
  case None
  then show ?thesis by (simp add: run_records_def records_from_result_def none_ok)
next
  case (Some obj)
  assume ok: "json_ok (ri_result_data run)"
  let ?allow = "declared_columns (declared_columns declared)"
  have obj: "json_ok (JObj obj)" using ok Some by (cases "ri_result_data run") simp_all
  then have top: "json_ok (JObj (top_level obj))"
    by (auto simp: top_level_def list_all_iff intro: distinct_map_filter)
  have clean: "records_ok (filter (\<lambda>(i, c). c \<noteq> []) (map (\<lambda>(i, r). (i, clean_record ?allow r)) rs))" if "records_ok rs" for rs
  proof -
    have "map fst (map (\<lambda>(i, r). (i, clean_record ?allow r)) rs) = map fst rs" by auto
    then have "distinct (map fst (map (\<lambda>(i, r). (i, clean_record ?allow r)) rs))" using that by (simp only: records_ok_def)
    then have "distinct (map fst (filter (\<lambda>(i, c). c \<noteq> []) (map (\<lambda>(i, r). (i, clean_record ?allow r)) rs)))"
      by (rule distinct_map_filter)
    then show ?thesis using that clean_record_ok declared_columns_props[of "declared_columns declared"]
      unfolding records_ok_def by (auto simp del: map_map)
  qed
  have "\<exists>c. records_ok (fst c) \<and> run_records declared run =
      filter (\<lambda>(i, c). c \<noteq> []) (map (\<lambda>(i, r). (i, clean_record ?allow r)) (fst c))"
    using Some json_ok_member[OF obj] coerce_records_ok coerce_records_ok[OF top] none_ok
    by (auto simp: run_records_def records_from_result_def Let_def split_def split: option.splits)
  then show ?thesis using clean by metis
qed

lemma row_index: "map (\<lambda>r. (dr_run_id r, dr_record_index r)) (run_rows declared inc run)
    = map (Pair (ri_run_id run)) (map fst (run_records declared run))"
  by (auto simp: run_rows_def row_of_def)

lemma concat_map_run:
  assumes "distinct (map f xs)" "\<And>x. x \<in> set xs \<Longrightarrow> distinct (g x)" "\<And>x y. x \<in> set xs \<Longrightarrow> y \<in> set (g x) \<Longrightarrow> fst y = f x"
  shows "distinct (concat (map g xs))"
  using assms
proof (induction xs)
  case (Cons x xs)
  have "set (g x) \<inter> (\<Union>z\<in>set xs. set (g z)) = {}" using Cons.prems by fastforce
  then show ?case using Cons by auto
qed simp

text \<open>
  The flat table is well typed, for runs of distinct ids whose stored result is a parsed JSON value: no row is
  empty or has a key twice, every key of a row is one of the table's columns, the columns without the inputs are
  pairwise distinct, and a row is identified by its run and its index in the run.
\<close>

theorem flatten_well_typed:
  assumes "\<And>run. run \<in> set runs \<Longrightarrow> json_ok (ri_result_data run)" "distinct (map ri_run_id runs)"
  shows "(\<forall>r\<in>set (snd (flatten runs declared inc)).
      dr_fields r \<noteq> [] \<and> distinct (map fst (dr_fields r)) \<and> fst ` set (dr_fields r) \<subseteq> set (fst (flatten runs declared inc))) \<and>
    distinct (fst (flatten runs declared False)) \<and>
    distinct (map (\<lambda>r. (dr_run_id r, dr_record_index r)) (snd (flatten runs declared inc)))"
proof -
  have ok: "records_ok (run_records declared run)" if "run \<in> set runs" for run using run_records_ok assms(1) that .
  have "dr_fields r \<noteq> [] \<and> distinct (map fst (dr_fields r)) \<and> fst ` set (dr_fields r) \<subseteq> set (fst (flatten runs declared inc))"
    if r: "r \<in> set (snd (flatten runs declared inc))" for r
  proof -
    obtain run where run: "run \<in> set runs" "r \<in> set (run_rows declared inc run)" using r by (auto simp: flatten_rows)
    then obtain i where i: "(i, dr_fields r) \<in> set (run_records declared run)" by (auto simp: run_rows_def row_of_def)
    obtain rec where rec: "dr_fields r = clean_record (declared_columns declared) rec" using row_clean(1)[OF run(2)] by blast
    have "fst ` set (dr_fields r) \<subseteq> set (fst (flatten runs declared inc))"
    proof (cases "declared_columns declared = []")
      case True
      have "fst ` set (dr_fields r) \<subseteq> set (record_keys (run_records declared run))" using i by (force simp: record_keys_def)
      then show ?thesis using True run(1) by (auto simp: flatten_columns push_new_set)
    next
      case False
      then have "fst ` set (dr_fields r) \<subseteq> set (declared_columns declared)"
        using project_allowed by (auto simp: rec clean_record_def Let_def)
      then show ?thesis using False by (auto simp: flatten_columns)
    qed
    then show ?thesis using ok[OF run(1)] i row_clean(2)[OF run(2)] by (auto simp: records_ok_def record_ok_def)
  qed
  moreover have "distinct (fst (flatten runs declared False))"
    using declared_columns_props by (simp add: flatten_columns push_new_distinct)
  moreover have "distinct (concat (map (\<lambda>run. map (\<lambda>r. (dr_run_id r, dr_record_index r)) (run_rows declared inc run)) runs))"
    using ok by (intro concat_map_run[OF assms(2)]) (auto simp: row_index distinct_map inj_on_def records_ok_def)
  ultimately show ?thesis by (simp add: flatten_rows map_concat comp_def)
qed

section \<open>A table of two runs\<close>

definition sample_run :: "int \<Rightarrow> string \<Rightarrow> json \<Rightarrow> run_input" where
  "sample_run i t extracted = \<lparr>ri_run_id = i, ri_run_at = Some t, ri_status = Some ''completed'', ri_success = Some True,
     ri_duration_ms = Some 7, ri_result_data = JObj [(''extracted_data'', extracted)],
     ri_trigger_context = JObj [(''inputs'', JObj [(''city'', JStr ''Oslo'')])]\<rparr>"

definition sample_runs :: "run_input list" where
  "sample_runs = [sample_run 1 ''a'' (JArr [JObj [(''n'', JInt 3)], JObj [(''n'', JInt 1)]]), sample_run 2 ''b'' (JObj [(''n'', JInt 2)])]"

definition sample_query :: table_query where
  "sample_query = \<lparr>tq_q = None, tq_col_filters = [], tq_filters = [], tq_sort_by = None, tq_sort_dir = ''desc'', tq_offset = 0, tq_limit = Some 2\<rparr>"


definition sample_row :: "int \<Rightarrow> string \<Rightarrow> nat \<Rightarrow> int \<Rightarrow> data_row" where
  "sample_row i t ix n = \<lparr>dr_run_id = i, dr_run_at = Some t, dr_status = Some ''completed'', dr_success = Some True,
     dr_duration_ms = Some 7, dr_record_index = ix, dr_fields = [(''n'', JInt n)], dr_inputs = [(''city'', JStr ''Oslo'')]\<rparr>"

lemma sample_flat:
  "flatten sample_runs [] True = ([''n'', ''input.city''], [sample_row 1 ''a'' 0 3, sample_row 1 ''a'' 1 1, sample_row 2 ''b'' 0 2])"
  by code_simp

lemma sample_keep: "matching_rows env sample_query rows = rows"
  by (simp add: matching_rows_def keep_q_def sample_query_def)

lemma sample_key: "sort_column [''n'', ''input.city''] (tq_sort_by sample_query) = ''run_at''"
  by (simp add: sort_column_def sample_query_def)

lemma sample_cmp: "row_cmp env ''run_at'' (sample_row i t ix n) (sample_row i' t' ix' n') = compare_of t t'"
  by (simp add: row_cmp_def sample_row_def)

lemma sample_sort:
  "sort_by (row_cmp env ''run_at'') [sample_row 1 ''a'' 0 3, sample_row 1 ''a'' 1 1, sample_row 2 ''b'' 0 2] =
     Some [sample_row 1 ''a'' 0 3, sample_row 1 ''a'' 1 1, sample_row 2 ''b'' 0 2]"
  by (simp add: sort_by_def total_on_def sample_cmp compare_of_def less_char_def)

lemma sample_table:
  "build_table env sample_runs [] sample_query True = Some \<lparr>dt_columns = [''n'', ''input.city''], dt_declared = False,
     dt_rows = [sample_row 2 ''b'' 0 2, sample_row 1 ''a'' 1 1], dt_total = 3\<rparr>"
proof -
  have dir: "ascii_lower (tq_sort_dir sample_query) = ''desc''" by code_simp
  have none: "declared_columns [] = []" by code_simp
  show ?thesis
    unfolding build_table_def sample_flat Let_def prod.case sample_keep sample_key sample_sort dir none
    by (simp add: page_def sample_query_def)
qed


lemma flatten_well_typed_witness:
  "distinct (map (\<lambda>r. (dr_run_id r, dr_record_index r)) (snd (flatten sample_runs [] True)))"
proof -
  have "json_ok (ri_result_data run)" if "run \<in> set sample_runs" for run using that by (auto simp: sample_runs_def sample_run_def)
  then show ?thesis using flatten_well_typed[of sample_runs "[]" True] by (simp add: sample_runs_def sample_run_def)
qed

lemma table_page_witness:
  "\<forall>env. length (filter (matches_query env sample_query) (snd (flatten sample_runs [] True))) = 3 \<and>
     (\<exists>all. mset all = mset (snd (flatten sample_runs [] True)) \<and> page 0 (Some 2) all = [sample_row 2 ''b'' 0 2, sample_row 1 ''a'' 1 1] \<and>
        sorted_wrt (\<lambda>a b. row_cmp env ''run_at'' b a \<noteq> Greater) all)"
proof
  fix env
  have dir: "ascii_lower (tq_sort_dir sample_query) \<noteq> ''asc''" by code_simp
  have all: "matches_query env sample_query r" for r by (simp add: matches_query_def sample_query_def)
  have window: "tq_offset sample_query = 0" "tq_limit sample_query = Some 2" by (simp_all add: sample_query_def)
  show "length (filter (matches_query env sample_query) (snd (flatten sample_runs [] True))) = 3 \<and>
     (\<exists>all. mset all = mset (snd (flatten sample_runs [] True)) \<and> page 0 (Some 2) all = [sample_row 2 ''b'' 0 2, sample_row 1 ''a'' 1 1] \<and>
        sorted_wrt (\<lambda>a b. row_cmp env ''run_at'' b a \<noteq> Greater) all)"
    using table_page[OF sample_table[of env]] dir unfolding Let_def window
    by (simp add: sample_flat all sample_key[simplified] window) metis
qed

end
