(* ===== verification/DataLineage.thy ===== *)
theory DataLineage
  imports DataRows
begin

text \<open>
  Record lineage (src/src/local/data_query.rs): the normal form of a value, the identity of a record and its uid,
  the difference of two versions, and the walk along the chain of snapshots that yields the current dataset, the
  history of every record and the counts of every run.  SHA-256 and serde_json's writer are arguments.
\<close>

record lineage_env =
  le_text :: text_env
  le_sha256 :: "string \<Rightarrow> string"

text \<open>A \<open>BTreeMap\<close> is the list of its entries in key order.\<close>

fun bt_insert :: "'k :: linorder \<Rightarrow> 'v \<Rightarrow> ('k \<times> 'v) list \<Rightarrow> ('k \<times> 'v) list" where
  "bt_insert k v [] = [(k, v)]"
| "bt_insert k v ((k', v') # m) =
     (if k < k' then (k, v) # (k', v') # m else if k = k' then (k, v) # m else (k', v') # bt_insert k v m)"

text \<open>Entries pushed one by one under their key, then read in key order.\<close>

definition bt_groups :: "('a \<Rightarrow> 'k :: linorder) \<Rightarrow> 'a list \<Rightarrow> ('k \<times> 'a list) list" where
  "bt_groups f xs = map (\<lambda>k. (k, filter (\<lambda>x. f x = k) xs)) (sort (remdups (map f xs)))"

section \<open>Numbers\<close>

text \<open>The exponent \<open>e\<close> with \<open>10\<^sup>e \<le> a < 10\<^sup>e\<^sup>+\<^sup>1\<close>, from the lengths of numerator and denominator.\<close>

definition decimal_exp :: "rat \<Rightarrow> int" where
  "decimal_exp a =
     (let (n, d) = quotient_of a; k = int (length (show_int n)) - int (length (show_int d))
      in if 10 powi k \<le> a then k else k - 1)"

text \<open>The nearest number of \<open>k\<close> decimal digits, below or above, that reads back as \<open>a\<close>.\<close>

definition decimal_of :: "rat \<Rightarrow> nat \<Rightarrow> (int \<times> int) option" where
  "decimal_of a k =
     (let p = decimal_exp a - int k + 1; x = a / 10 powi p; lo = \<lfloor>x\<rfloor>; hi = lo + 1;
          good = (\<lambda>m. f64_round (of_int m * 10 powi p) = a)
      in if good lo \<and> (x - of_int lo \<le> 1 / 2 \<or> \<not> good hi) then Some (lo, p)
         else if good hi then Some (if hi = 10 ^ k then (1, p + int k) else (hi, p)) else None)"

fun shortest_from :: "rat \<Rightarrow> nat list \<Rightarrow> int \<times> int" where
  "shortest_from a [] = (0, 0)"
| "shortest_from a (k # ks) = (case decimal_of a k of Some d \<Rightarrow> d | None \<Rightarrow> shortest_from a ks)"

definition place_point :: "string \<Rightarrow> int \<Rightarrow> string" where
  "place_point ds p =
     (if 0 \<le> p then ds @ replicate (nat p) (CHR ''0'')
      else (let frac = nat (- p); padded = replicate (Suc frac - length ds) (CHR ''0'') @ ds; cut = length padded - frac
            in take cut padded @ ''.'' @ drop cut padded))"

text \<open>\<open>Display\<close> of an f64: the shortest digits that read back, never in exponent form.\<close>

fun f64_display :: "f64 \<Rightarrow> string" where
  "f64_display NaN = ''NaN''"
| "f64_display PosInf = ''inf''"
| "f64_display NegInf = ''-inf''"
| "f64_display (Fin r) =
     (if r = 0 then ''0''
      else (let (m, p) = shortest_from \<bar>r\<bar> [1..<18]
            in (if r < 0 then ''-'' else []) @ place_point (show_int m) p))"

text \<open>The exponent of a text is written without a plus sign and leading zeros.\<close>

definition clean_exponent :: "string \<Rightarrow> string" where
  "clean_exponent s =
     (let mant = takeWhile (\<lambda>c. c \<notin> set ''eE'') s
      in case drop (length mant) s of
           [] \<Rightarrow> s
         | _ # exp0 \<Rightarrow>
             (let exp = unwrap_or exp0 (strip_prefix ''+'' exp0);
                  (sign, digits) = (case strip_prefix ''-'' exp of Some d \<Rightarrow> (''-'', d) | None \<Rightarrow> ([], exp));
                  digits = dropWhile (\<lambda>c. c = CHR ''0'') digits;
                  digits = (if digits = [] then ''0'' else digits)
              in mant @ ''e'' @ sign @ digits))"

definition norm_number :: "f64 \<Rightarrow> string" where
  "norm_number x =
     (case x of
        Fin r \<Rightarrow> if r = of_int (rat_trunc r) \<and> \<bar>r\<bar> < 9007199254740992 then show_int (rat_trunc r)
                 else clean_exponent (f64_display x)
      | _ \<Rightarrow> clean_exponent (f64_display x))"

section \<open>Normal forms\<close>

definition norm_string :: "lineage_env \<Rightarrow> string \<Rightarrow> string" where
  "norm_string env s =
     (let t = trim s
      in if t = [] then []
         else if looks_numeric t then
           (case parse_f64 (le_text env) t of Some (Fin r) \<Rightarrow> norm_number (Fin r) | _ \<Rightarrow> t)
         else t)"

definition json_string :: "lineage_env \<Rightarrow> string \<Rightarrow> string" where
  "json_string env s = json_text (le_text env) (JStr s)"

fun norm_scalar :: "lineage_env \<Rightarrow> json \<Rightarrow> string" where
  "norm_scalar env (JBool b) = (if b then ''true'' else ''false'')"
| "norm_scalar env (JStr s) = norm_string env s"
| "norm_scalar env JNull = []"
| "norm_scalar env v = norm_number (unwrap_or (Fin 0) (json_f64 v))"

fun encode_value :: "lineage_env \<Rightarrow> json \<Rightarrow> string" where
  "encode_value env (JObj ms) =
     ''{'' @ join_with '','' (map snd (sort_key fst (map (\<lambda>(k, v). (k, json_string env k @ '':'' @ encode_value env v)) ms))) @ ''}''"
| "encode_value env (JArr xs) = ''['' @ join_with '','' (map (encode_value env) xs) @ '']''"
| "encode_value env v = json_string env (norm_scalar env v)"

definition norm :: "lineage_env \<Rightarrow> json \<Rightarrow> string" where
  "norm env v = (case v of JObj _ \<Rightarrow> encode_value env v | JArr _ \<Rightarrow> encode_value env v | _ \<Rightarrow> norm_scalar env v)"

definition norm_field :: "lineage_env \<Rightarrow> fields \<Rightarrow> string \<Rightarrow> string" where
  "norm_field env rec f = norm env (or_null (map_of rec f))"

section \<open>Uids\<close>

definition record_hash :: "lineage_env \<Rightarrow> fields \<Rightarrow> string" where
  "record_hash env rec = le_sha256 env (encode_value env (JObj rec))"

definition ordinal_suffix :: "nat \<Rightarrow> string" where
  "ordinal_suffix n = (if 1 \<le> n then CHR 0x1E # ''#'' @ show_nat n else [])"

definition uid_digest_input :: "lineage_env \<Rightarrow> string list \<Rightarrow> fields \<Rightarrow> nat \<Rightarrow> bool \<Rightarrow> string" where
  "uid_digest_input env identity rec ordinal singleton =
     (if singleton then ''__singleton__''
      else join_with [CHR 0x1E] (map (\<lambda>f. f @ CHR 0x1F # norm_field env rec f) identity)) @ ordinal_suffix ordinal"

definition record_uid :: "lineage_env \<Rightarrow> string list \<Rightarrow> fields \<Rightarrow> nat \<Rightarrow> bool \<Rightarrow> string" where
  "record_uid env identity rec ordinal singleton = take 16 (le_sha256 env (uid_digest_input env identity rec ordinal singleton))"

text \<open>The members of one identity, content first, with their ordinals.\<close>

definition group_uids :: "lineage_env \<Rightarrow> string list \<Rightarrow> record_list \<Rightarrow> (string \<times> nat \<times> fields) list" where
  "group_uids env identity members =
     map (\<lambda>(ordinal, i, rec). (record_uid env identity rec ordinal False, i, rec))
       (enumerate 0 (sort_key (\<lambda>(i, rec). (record_hash env rec, i)) members))"

definition assign_uids :: "lineage_env \<Rightarrow> record_list \<Rightarrow> string \<Rightarrow> string list \<Rightarrow> (string \<times> nat \<times> fields) list" where
  "assign_uids env records mode identity =
     (if mode = ''singleton'' then
        (case records of [] \<Rightarrow> [] | (i, rec) # _ \<Rightarrow> [(record_uid env [] rec 0 True, i, rec)])
      else sort_key (\<lambda>(_, i, _). i)
        (concat (map (\<lambda>(base, members). group_uids env identity members)
           (bt_groups (\<lambda>(i, rec). uid_digest_input env identity rec 0 False) records))))"

section \<open>The identity of a record\<close>

record identity =
  id_mode :: string
  id_fields :: "string list"
  id_rejected :: "string list option"
  id_coverage :: "rat option"

definition usize_f64 :: "nat \<Rightarrow> rat" where
  "usize_f64 n = i64_to_f64 (int n)"

definition identity_tiers :: "string list option list" where
  "identity_tiers =
     [Some [''id'', ''uid'', ''uuid'', ''key''], Some [''url'', ''link'', ''href'', ''permalink''],
      Some [''sku'', ''slug'', ''email'', ''handle''], None, Some [''name'', ''title'']]"

definition non_empty_values :: "lineage_env \<Rightarrow> string \<Rightarrow> fields list \<Rightarrow> string list" where
  "non_empty_values env col run = filter (\<lambda>v. v \<noteq> []) (map (\<lambda>r. norm_field env r col) run)"

definition uniqueness :: "lineage_env \<Rightarrow> string \<Rightarrow> fields list \<Rightarrow> rat" where
  "uniqueness env col run =
     (let vals = non_empty_values env col run
      in if length vals < 2 then 1 else f64_div (usize_f64 (card (set vals))) (usize_f64 (length vals)))"

definition qualifies :: "lineage_env \<Rightarrow> fields list list \<Rightarrow> string \<Rightarrow> bool" where
  "qualifies env runs col \<longleftrightarrow>
     (let total = length (concat runs); non_empty = length (non_empty_values env col (concat runs))
      in \<not> non_empty * 10 < total * 9 \<and>
         f64_round (95 / 100)
           \<le> f64_div (fold (\<lambda>run ratio_sum. f64_add ratio_sum (uniqueness env col run)) runs 0) (usize_f64 (length runs)))"

definition in_tier :: "string list option \<Rightarrow> string \<Rightarrow> bool" where
  "in_tier tier c =
     (case tier of None \<Rightarrow> ends_with c ''_id'' \<or> ends_with c ''_url'' | Some names \<Rightarrow> c \<in> set names)"

definition auto_identity :: "lineage_env \<Rightarrow> fields list list \<Rightarrow> string list \<Rightarrow> string option" where
  "auto_identity env runs columns =
     (if concat runs = [] then None
      else List.find (qualifies env runs) (concat (map (\<lambda>tier. filter (in_tier tier) columns) identity_tiers)))"

definition key_fields :: "string \<Rightarrow> string list" where
  "key_fields key = filter (\<lambda>f. f \<noteq> []) (map trim (split_byte (CHR '','') key))"

definition key_coverage :: "lineage_env \<Rightarrow> fields list list \<Rightarrow> string list \<Rightarrow> rat" where
  "key_coverage env runs names =
     (if concat runs = [] then 0
      else f64_div (usize_f64 (length (filter (\<lambda>r. list_ex (\<lambda>f. norm_field env r f \<noteq> []) names) (concat runs))))
             (usize_f64 (length (concat runs))))"

definition choose_identity :: "lineage_env \<Rightarrow> fields list list \<Rightarrow> string list \<Rightarrow> string option \<Rightarrow> identity" where
  "choose_identity env runs columns explicit_key =
     (let names = (case explicit_key of Some key \<Rightarrow> key_fields key | None \<Rightarrow> []);
          coverage = key_coverage env runs names
      in if names \<noteq> [] \<and> concat runs \<noteq> [] \<and> 1 / 2 \<le> coverage
         then \<lparr>id_mode = ''explicit'', id_fields = names, id_rejected = None, id_coverage = None\<rparr>
         else (let rejected = (if names \<noteq> [] then Some names else None);
                   cov = (if names \<noteq> [] then Some coverage else None);
                   bearing = filter (\<lambda>r. r \<noteq> []) runs
               in if bearing \<noteq> [] \<and> length bearing * 95 \<le> length (filter (\<lambda>r. length r = 1) bearing) * 100
                  then \<lparr>id_mode = ''singleton'', id_fields = [], id_rejected = rejected, id_coverage = cov\<rparr>
                  else (case auto_identity env runs columns of
                          Some f \<Rightarrow> \<lparr>id_mode = ''auto'', id_fields = [f], id_rejected = rejected, id_coverage = cov\<rparr>
                        | None \<Rightarrow> \<lparr>id_mode = ''hash'', id_fields = columns, id_rejected = rejected, id_coverage = cov\<rparr>)))"

text \<open>The runs of a chain.\<close>

record flat_run =
  fr_run_id :: int
  fr_run_at :: "string option"
  fr_status :: "string option"
  fr_success :: "bool option"
  fr_duration_ms :: "int option"
  fr_records :: record_list
  fr_data_bearing :: bool
  fr_sources :: "(nat \<times> string) list"

definition flatten_runs :: "run_input list \<Rightarrow> string list \<Rightarrow> flat_run list" where
  "flatten_runs runs declared =
     map (\<lambda>run. (let (records, bearing, sources) = records_from_result (ri_result_data run) (declared_columns declared)
        in \<lparr>fr_run_id = ri_run_id run, fr_run_at = ri_run_at run, fr_status = ri_status run, fr_success = ri_success run,
            fr_duration_ms = ri_duration_ms run, fr_records = records, fr_data_bearing = bearing, fr_sources = sources\<rparr>)) runs"

definition canonical_columns :: "flat_run list \<Rightarrow> string list \<Rightarrow> string list" where
  "canonical_columns flat declared =
     fold (\<lambda>run cols. fold (\<lambda>(i, rec) cols. fold push_new (map fst rec) cols) (fr_records run) cols) flat (declared_columns declared)"

section \<open>The difference of two versions\<close>

definition diff_max_depth :: nat where
  "diff_max_depth = 3"

definition diff_collapse_at :: nat where
  "diff_collapse_at = 20"

definition both_keys :: "fields \<Rightarrow> fields \<Rightarrow> string list" where
  "both_keys om nm = sort (remdups (map fst om @ map fst nm))"

definition norm_opt :: "lineage_env \<Rightarrow> json option \<Rightarrow> string" where
  "norm_opt env v = (case v of Some x \<Rightarrow> norm env x | None \<Rightarrow> [])"

definition leaf_diff :: "lineage_env \<Rightarrow> json option \<Rightarrow> json option \<Rightarrow> string list \<Rightarrow> string list" where
  "leaf_diff env ov nv path = (if norm_opt env ov \<noteq> norm_opt env nv then [join_with ''.'' path] else [])"

function diff_walk :: "lineage_env \<Rightarrow> json option \<Rightarrow> json option \<Rightarrow> string list \<Rightarrow> nat \<Rightarrow> string list" where
  "diff_walk env ov nv path depth =
     (case (ov, nv) of
        (Some (JObj om), Some (JObj nm)) \<Rightarrow>
          if depth < diff_max_depth
          then concat (map (\<lambda>k. diff_walk env (map_of om k) (map_of nm k) (path @ [k]) (depth + 1)) (both_keys om nm))
          else leaf_diff env ov nv path
      | _ \<Rightarrow> leaf_diff env ov nv path)"
  by pat_completeness auto
termination
  by (relation "measure (\<lambda>(env, ov, nv, path, depth). diff_max_depth - depth)") auto

declare diff_walk.simps [simp del]

definition top_key :: "string \<Rightarrow> string" where
  "top_key p = takeWhile (\<lambda>c. c \<noteq> CHR ''.'') p"

definition diff_leaves :: "lineage_env \<Rightarrow> fields \<Rightarrow> fields \<Rightarrow> string list" where
  "diff_leaves env old new = concat (map (\<lambda>k. diff_walk env (map_of old k) (map_of new k) [k] 1) (both_keys old new))"

definition diff_fields :: "lineage_env \<Rightarrow> fields \<Rightarrow> fields \<Rightarrow> string list \<times> nat" where
  "diff_fields env old new =
     (let leaves = diff_leaves env old new
      in (concat (map (\<lambda>(top, ps). if diff_collapse_at < length ps then [top] else ps) (bt_groups top_key leaves)), length leaves))"

section \<open>The chain of snapshots\<close>

record version =
  vr_fields :: fields
  vr_run_id :: int
  vr_run_at :: string
  vr_index :: nat

record change_point =
  cp_run_id :: int
  cp_run_at :: string
  cp_index :: nat
  cp_fields :: fields
  cp_changed_fields :: "string list"
  cp_leaf_count :: nat

datatype change = New | Changed | Same | Missing

type_synonym status = "change \<times> string list \<times> nat"

record run_delta =
  rd_new :: nat
  rd_changed :: nat
  rd_removed :: nat
  rd_unchanged :: nat

record detail_row =
  de_index :: nat
  de_uid :: string
  de_change :: change
  de_changed_fields :: "string list"
  de_leaf_count :: nat
  de_versions :: nat
  de_fields :: fields

record run_detail =
  rt_run_id :: int
  rt_prev_run_id :: "int option"
  rt_delta :: run_delta
  rt_rows :: "detail_row list"
  rt_removed :: "(string \<times> fields) list"

record run_entry =
  re_run_id :: int
  re_run_at :: string
  re_record_count :: nat
  re_explicit_empty :: bool
  re_delta :: "run_delta option"

record latest_row =
  lr_uid :: string
  lr_change :: change
  lr_changed_fields :: "string list"
  lr_leaf_count :: nat
  lr_first_seen :: string
  lr_last_seen :: string
  lr_versions :: nat
  lr_fields :: fields
  lr_run_id :: int
  lr_index :: nat

record lineage =
  ln_runs_index :: "run_entry list"
  ln_latest :: "latest_row list"
  ln_histories :: "(string \<times> change_point list) list"
  ln_first_seen :: "(string \<times> string) list"
  ln_last_seen :: "(string \<times> string) list"
  ln_run_detail :: "run_detail option"

text \<open>The variables of the walk: the ones that outlive a run, and the ones of the run at hand.\<close>

record walk =
  wk_last_version :: "(string \<times> version) list"
  wk_first_seen :: "(string \<times> string) list"
  wk_last_seen :: "(string \<times> string) list"
  wk_change_points :: "(string \<times> change_point list) list"
  wk_latest_status :: "(string \<times> status) list"
  wk_runs_index :: "run_entry list"
  wk_prev_uids :: "string set option"
  wk_prev_run_id :: "int option"
  wk_run_detail :: "run_detail option"
  wk_cur :: "string set"
  wk_delta :: run_delta
  wk_detail_rows :: "detail_row list"

text \<open>\<open>map[key]\<close>, which panics without the key.\<close>

definition bt_index :: "('k \<times> 'v) list \<Rightarrow> 'k \<Rightarrow> 'v" where
  "bt_index m k = the (map_of m k)"

definition points_of :: "walk \<Rightarrow> string \<Rightarrow> change_point list" where
  "points_of s uid = unwrap_or [] (map_of (wk_change_points s) uid)"

definition push_point :: "string \<Rightarrow> change_point \<Rightarrow> walk \<Rightarrow> walk" where
  "push_point uid p s = s\<lparr>wk_change_points := bt_insert uid (points_of s uid @ [p]) (wk_change_points s)\<rparr>"

definition point_at :: "flat_run \<Rightarrow> nat \<Rightarrow> fields \<Rightarrow> string list \<Rightarrow> nat \<Rightarrow> change_point" where
  "point_at run i rec paths leaf_count =
     \<lparr>cp_run_id = fr_run_id run, cp_run_at = unwrap_or [] (fr_run_at run), cp_index = i, cp_fields = rec,
      cp_changed_fields = paths, cp_leaf_count = leaf_count\<rparr>"

text \<open>The record against its previous version: its status, with what is noted for it.\<close>

definition classify :: "lineage_env \<Rightarrow> flat_run \<Rightarrow> string \<Rightarrow> nat \<Rightarrow> fields \<Rightarrow> walk \<Rightarrow> status \<times> walk" where
  "classify env run uid i rec s =
     (if map_of (wk_first_seen s) uid = None
      then ((New, [], 0),
            push_point uid (point_at run i rec [] 0)
              (s\<lparr>wk_first_seen := bt_insert uid (unwrap_or [] (fr_run_at run)) (wk_first_seen s),
                 wk_delta := (wk_delta s)\<lparr>rd_new := rd_new (wk_delta s) + 1\<rparr>\<rparr>))
      else (let (paths, leaf_count) = diff_fields env (vr_fields (bt_index (wk_last_version s) uid)) rec
            in if paths \<noteq> []
               then ((Changed, paths, leaf_count),
                     push_point uid (point_at run i rec paths leaf_count)
                       (s\<lparr>wk_delta := (wk_delta s)\<lparr>rd_changed := rd_changed (wk_delta s) + 1\<rparr>\<rparr>))
               else ((Same, [], 0), s\<lparr>wk_delta := (wk_delta s)\<lparr>rd_unchanged := rd_unchanged (wk_delta s) + 1\<rparr>\<rparr>)))"

definition see_record :: "lineage_env \<Rightarrow> flat_run \<Rightarrow> bool \<Rightarrow> string \<times> nat \<times> fields \<Rightarrow> walk \<Rightarrow> walk" where
  "see_record env run want_detail = (\<lambda>(uid, i, rec) s0.
     (let ((ch, paths, leaf_count), s) = classify env run uid i rec (s0\<lparr>wk_cur := insert uid (wk_cur s0)\<rparr>);
          run_at = unwrap_or [] (fr_run_at run);
          s = s\<lparr>wk_latest_status := bt_insert uid (ch, paths, leaf_count) (wk_latest_status s),
                wk_last_seen := bt_insert uid run_at (wk_last_seen s),
                wk_last_version := bt_insert uid
                  \<lparr>vr_fields = rec, vr_run_id = fr_run_id run, vr_run_at = run_at, vr_index = i\<rparr> (wk_last_version s)\<rparr>
      in if want_detail
         then s\<lparr>wk_detail_rows := wk_detail_rows s @
           [\<lparr>de_index = i, de_uid = uid, de_change = ch, de_changed_fields = paths, de_leaf_count = leaf_count,
             de_versions = length (points_of s uid), de_fields = rec\<rparr>]\<rparr>
         else s))"

definition no_delta :: run_delta where
  "no_delta = \<lparr>rd_new = 0, rd_changed = 0, rd_removed = 0, rd_unchanged = 0\<rparr>"

text \<open>The uids of the previous snapshot that this one lacks, in order.\<close>

definition removed_uids :: "walk \<Rightarrow> string list" where
  "removed_uids s = (case wk_prev_uids s of Some prev \<Rightarrow> sorted_list_of_set (prev - wk_cur s) | None \<Rightarrow> [])"

definition close_run :: "flat_run \<Rightarrow> bool \<Rightarrow> walk \<Rightarrow> walk" where
  "close_run run want_detail s =
     (let delta = (wk_delta s)\<lparr>rd_removed := rd_removed (wk_delta s) + length (removed_uids s)\<rparr>;
          entry = \<lparr>re_run_id = fr_run_id run, re_run_at = unwrap_or [] (fr_run_at run),
                   re_record_count = length (fr_records run), re_explicit_empty = (fr_records run = []),
                   re_delta = (if wk_prev_uids s = None then None else Some delta)\<rparr>;
          detail = \<lparr>rt_run_id = fr_run_id run, rt_prev_run_id = wk_prev_run_id s, rt_delta = delta, rt_rows = wk_detail_rows s,
                    rt_removed = map (\<lambda>u. (u, vr_fields (bt_index (wk_last_version s) u))) (removed_uids s)\<rparr>
      in s\<lparr>wk_delta := delta, wk_runs_index := wk_runs_index s @ [entry],
           wk_run_detail := (if want_detail then Some detail else wk_run_detail s),
           wk_prev_uids := Some (wk_cur s), wk_prev_run_id := Some (fr_run_id run)\<rparr>)"

definition walk_run :: "lineage_env \<Rightarrow> string \<Rightarrow> string list \<Rightarrow> int option \<Rightarrow> flat_run \<Rightarrow> walk \<Rightarrow> walk" where
  "walk_run env mode identity detail_run run s =
     (let want_detail = (detail_run = Some (fr_run_id run))
      in close_run run want_detail
           (fold (see_record env run want_detail) (assign_uids env (fr_records run) mode identity)
              (s\<lparr>wk_cur := {}, wk_delta := no_delta, wk_detail_rows := []\<rparr>)))"

definition walk_start :: walk where
  "walk_start = \<lparr>wk_last_version = [], wk_first_seen = [], wk_last_seen = [], wk_change_points = [], wk_latest_status = [],
     wk_runs_index = [], wk_prev_uids = None, wk_prev_run_id = None, wk_run_detail = None, wk_cur = {},
     wk_delta = no_delta, wk_detail_rows = []\<rparr>"

definition latest_of :: "walk \<Rightarrow> string \<times> version \<Rightarrow> latest_row" where
  "latest_of s = (\<lambda>(uid, v).
     (let (ch, paths, leaf_count) = (if uid \<in> unwrap_or {} (wk_prev_uids s) then bt_index (wk_latest_status s) uid else (Missing, [], 0))
      in \<lparr>lr_uid = uid, lr_change = ch, lr_changed_fields = paths, lr_leaf_count = leaf_count,
          lr_first_seen = bt_index (wk_first_seen s) uid, lr_last_seen = bt_index (wk_last_seen s) uid,
          lr_versions = length (bt_index (wk_change_points s) uid), lr_fields = vr_fields v,
          lr_run_id = vr_run_id v, lr_index = vr_index v\<rparr>))"

definition change_rank :: "change \<Rightarrow> nat" where
  "change_rank c = (case c of New \<Rightarrow> 0 | Changed \<Rightarrow> 1 | Same \<Rightarrow> 2 | Missing \<Rightarrow> 3)"

definition then_by :: "ordering \<Rightarrow> ordering \<Rightarrow> ordering" where
  "then_by a b = (if a = Equal then b else a)"

definition latest_cmp :: "latest_row \<Rightarrow> latest_row \<Rightarrow> ordering" where
  "latest_cmp a b = then_by (compare_of (change_rank (lr_change a)) (change_rank (lr_change b)))
     (then_by (compare_of (lr_last_seen b) (lr_last_seen a)) (compare_of (lr_uid a) (lr_uid b)))"

definition walk_chain :: "lineage_env \<Rightarrow> string \<Rightarrow> string list \<Rightarrow> int option \<Rightarrow> flat_run list \<Rightarrow> walk" where
  "walk_chain env mode identity detail_run runs =
     fold (walk_run env mode identity detail_run) (filter fr_data_bearing runs) walk_start"

definition build_lineage :: "lineage_env \<Rightarrow> flat_run list \<Rightarrow> string \<Rightarrow> string list \<Rightarrow> int option \<Rightarrow> lineage option" where
  "build_lineage env runs mode identity detail_run =
     (let s = walk_chain env mode identity detail_run runs
      in map_option (\<lambda>latest. \<lparr>ln_runs_index = rev (wk_runs_index s), ln_latest = latest, ln_histories = wk_change_points s,
            ln_first_seen = wk_first_seen s, ln_last_seen = wk_last_seen s, ln_run_detail = wk_run_detail s\<rparr>)
          (sort_by latest_cmp (map (latest_of s) (wk_last_version s))))"

section \<open>Ordered maps\<close>

lemma map_of_bt_insert [simp]: "map_of (bt_insert k v m) = (map_of m)(k \<mapsto> v)"
  by (induction k v m rule: bt_insert.induct) (auto simp: fun_eq_iff)

lemma bt_insert_keys: "fst ` set (bt_insert k v m) = insert k (fst ` set m)"
  by (induction k v m rule: bt_insert.induct) auto

definition bt_ok :: "('k :: linorder \<times> 'v) list \<Rightarrow> bool" where
  "bt_ok m \<longleftrightarrow> sorted_wrt (<) (map fst m)"

lemma bt_ok_insert [simp]: "bt_ok m \<Longrightarrow> bt_ok (bt_insert k v m)"
  unfolding bt_ok_def
proof (induction k v m rule: bt_insert.induct)
  case (2 k v k' v' m)
  have keys: "set (map fst (bt_insert k v m)) = insert k (set (map fst m))" using bt_insert_keys[of k v m] by simp
  have "\<forall>x\<in>set (map fst (bt_insert k v m)). k' < x" if "k' < k" unfolding keys using 2(2) that by auto
  then show ?case using 2 by (auto simp: not_less_iff_gr_or_eq)
qed simp

lemma bt_ok_Nil [simp]: "bt_ok []"
  by (simp add: bt_ok_def)

text \<open>A sorted map is what it looks up.\<close>

lemma bt_table:
  assumes "bt_ok m" "map_of m = (\<lambda>k. if k \<in> K then Some (f k) else None)"
  shows "m = map (\<lambda>k. (k, f k)) (sorted_list_of_set K)"
proof -
  have dom: "set (map fst m) = K" using assms(2) dom_map_of_conv_image_fst[of m] by (auto simp: dom_def split: if_splits)
  then have fin: "finite K" by auto
  have sorted: "sorted (map fst m)" "distinct (map fst m)" using assms(1) strict_sorted_iff by (auto simp: bt_ok_def)
  have keys: "map fst m = sorted_list_of_set K"
    using sorted dom fin by (intro sorted_distinct_set_unique) simp_all
  have "snd p = f (fst p)" if "p \<in> set m" for p
  proof -
    have "map_of m (fst p) = Some (snd p)" using that sorted(2) by (cases p) (auto intro: map_of_is_SomeI)
    then show ?thesis using assms(2) by (auto split: if_splits)
  qed
  then have "m = map (\<lambda>k. (k, f k)) (map fst m)" by (auto intro!: map_idI[symmetric])
  then show ?thesis by (simp only: keys)
qed

section \<open>The history of a record\<close>

text \<open>A record as it appears in the chain: its snapshot, its uid, its index there and its fields.\<close>

type_synonym appearance = "flat_run \<times> string \<times> nat \<times> fields"

definition chain_events :: "lineage_env \<Rightarrow> string \<Rightarrow> string list \<Rightarrow> flat_run list \<Rightarrow> appearance list" where
  "chain_events env mode identity chain =
     concat (map (\<lambda>run. map (Pair run) (assign_uids env (fr_records run) mode identity)) chain)"

definition app_uid :: "appearance \<Rightarrow> string" where
  "app_uid = (\<lambda>(run, uid, i, rec). uid)"

definition app_at :: "appearance \<Rightarrow> string" where
  "app_at = (\<lambda>(run, uid, i, rec). unwrap_or [] (fr_run_at run))"

definition app_fields :: "appearance \<Rightarrow> fields" where
  "app_fields = (\<lambda>(run, uid, i, rec). rec)"

definition app_version :: "appearance \<Rightarrow> version" where
  "app_version = (\<lambda>(run, uid, i, rec).
     \<lparr>vr_fields = rec, vr_run_id = fr_run_id run, vr_run_at = unwrap_or [] (fr_run_at run), vr_index = i\<rparr>)"

definition appearances :: "string \<Rightarrow> appearance list \<Rightarrow> appearance list" where
  "appearances u evs = filter (\<lambda>a. app_uid a = u) evs"

text \<open>What an appearance is against the appearance before it.\<close>

definition mark :: "lineage_env \<Rightarrow> appearance list \<Rightarrow> appearance \<Rightarrow> status" where
  "mark env before a =
     (if before = [] then (New, [], 0)
      else (let (paths, n) = diff_fields env (app_fields (last before)) (app_fields a)
            in if paths \<noteq> [] then (Changed, paths, n) else (Same, [], 0)))"

definition note_of :: "status \<Rightarrow> appearance \<Rightarrow> change_point list" where
  "note_of st a = (case (st, a) of ((ch, paths, n), run, uid, i, rec) \<Rightarrow> if ch = Same then [] else [point_at run i rec paths n])"

text \<open>The change points of a record: its appearances, without those equal to the one before.\<close>

definition history :: "lineage_env \<Rightarrow> appearance list \<Rightarrow> change_point list" where
  "history env as = concat (map (\<lambda>i. note_of (mark env (take i as) (as ! i)) (as ! i)) [0..<length as])"

lemma history_Nil [simp]: "history env [] = []"
  by (simp add: history_def)

lemma history_snoc: "history env (as @ [a]) = history env as @ note_of (mark env as a) a"
proof -
  have old: "map (\<lambda>i. note_of (mark env (take i (as @ [a])) ((as @ [a]) ! i)) ((as @ [a]) ! i)) [0..<length as]
      = map (\<lambda>i. note_of (mark env (take i as) (as ! i)) (as ! i)) [0..<length as]"
    by (rule map_cong) (auto simp: nth_append)
  have "take (length as) (as @ [a]) = as" by simp
  then show ?thesis by (simp del: take_append map_eq_conv add: history_def old)
qed

lemma appearances_snoc: "appearances u (evs @ [a]) = (if app_uid a = u then appearances u evs @ [a] else appearances u evs)"
  by (simp add: appearances_def)

text \<open>The maps of the walk are tables of the appearances.\<close>

definition tabled :: "(string \<times> 'v) list \<Rightarrow> appearance list \<Rightarrow> (appearance list \<Rightarrow> 'v) \<Rightarrow> bool" where
  "tabled m evs f \<longleftrightarrow> bt_ok m \<and> (\<forall>u. map_of m u = (if appearances u evs = [] then None else Some (f (appearances u evs))))"

lemma tabled_insert:
  assumes "tabled m evs f" "v = f (appearances (app_uid a) evs @ [a])"
  shows "tabled (bt_insert (app_uid a) v m) (evs @ [a]) f"
  using assms by (auto simp: tabled_def appearances_snoc)

lemma tabled_keep:
  assumes "tabled m evs f" "f (appearances (app_uid a) evs @ [a]) = f (appearances (app_uid a) evs)" "appearances (app_uid a) evs \<noteq> []"
  shows "tabled m (evs @ [a]) f"
  using assms by (auto simp: tabled_def appearances_snoc)

definition records_history :: "lineage_env \<Rightarrow> appearance list \<Rightarrow> walk \<Rightarrow> bool" where
  "records_history env evs s \<longleftrightarrow>
     tabled (wk_first_seen s) evs (\<lambda>as. app_at (hd as)) \<and>
     tabled (wk_last_seen s) evs (\<lambda>as. app_at (last as)) \<and>
     tabled (wk_last_version s) evs (\<lambda>as. app_version (last as)) \<and>
     tabled (wk_change_points s) evs (history env) \<and>
     tabled (wk_latest_status s) evs (\<lambda>as. mark env (butlast as) (last as))"

lemma records_history_frame:
  "records_history env evs (s\<lparr>wk_cur := c\<rparr>) = records_history env evs s"
  "records_history env evs (s\<lparr>wk_delta := d\<rparr>) = records_history env evs s"
  "records_history env evs (s\<lparr>wk_detail_rows := r\<rparr>) = records_history env evs s"
  "records_history env evs (s\<lparr>wk_runs_index := ri\<rparr>) = records_history env evs s"
  "records_history env evs (s\<lparr>wk_run_detail := rd\<rparr>) = records_history env evs s"
  "records_history env evs (s\<lparr>wk_prev_uids := p\<rparr>) = records_history env evs s"
  "records_history env evs (s\<lparr>wk_prev_run_id := q\<rparr>) = records_history env evs s"
  by (simp_all add: records_history_def)

text \<open>What the step does to the history, whichever branch it takes.\<close>

lemma classify_mark:
  assumes "records_history env evs s"
  shows "fst (classify env run uid i rec s) = mark env (appearances uid evs) (run, uid, i, rec)"
    and "wk_first_seen (snd (classify env run uid i rec s)) =
      (if appearances uid evs = [] then bt_insert uid (unwrap_or [] (fr_run_at run)) (wk_first_seen s) else wk_first_seen s)"
    and "wk_change_points (snd (classify env run uid i rec s)) =
      (if fst (mark env (appearances uid evs) (run, uid, i, rec)) = Same then wk_change_points s
       else bt_insert uid (history env (appearances uid evs @ [(run, uid, i, rec)])) (wk_change_points s))"
    and "wk_last_seen (snd (classify env run uid i rec s)) = wk_last_seen s"
    and "wk_last_version (snd (classify env run uid i rec s)) = wk_last_version s"
    and "wk_latest_status (snd (classify env run uid i rec s)) = wk_latest_status s"
proof -
  let ?as = "appearances uid evs"
  have first: "map_of (wk_first_seen s) uid = (if ?as = [] then None else Some (app_at (hd ?as)))"
    and prev: "map_of (wk_last_version s) uid = (if ?as = [] then None else Some (app_version (last ?as)))"
    and points: "map_of (wk_change_points s) uid = (if ?as = [] then None else Some (history env ?as))"
    using assms by (simp_all add: records_history_def tabled_def)
  have old: "points_of s uid = history env ?as" by (simp add: points_of_def points unwrap_or_def)
  have fields: "vr_fields (app_version b) = app_fields b" for b by (cases b) (simp add: app_version_def app_fields_def)
  have new: "app_fields (run, uid, i, rec) = rec" by (simp add: app_fields_def)
  show "fst (classify env run uid i rec s) = mark env ?as (run, uid, i, rec)"
    by (simp add: classify_def mark_def first bt_index_def prev fields new split_def Let_def)
  show "wk_first_seen (snd (classify env run uid i rec s)) =
      (if ?as = [] then bt_insert uid (unwrap_or [] (fr_run_at run)) (wk_first_seen s) else wk_first_seen s)"
    by (simp add: classify_def first push_point_def split_def Let_def)
  show "wk_change_points (snd (classify env run uid i rec s)) =
      (if fst (mark env ?as (run, uid, i, rec)) = Same then wk_change_points s
       else bt_insert uid (history env (?as @ [(run, uid, i, rec)])) (wk_change_points s))"
    using old by (auto simp: classify_def mark_def first bt_index_def prev fields new history_snoc note_of_def push_point_def
        points_of_def split_def Let_def)
qed (auto simp: classify_def push_point_def split_def Let_def)

lemma mark_first: "fst (mark env [] a) \<noteq> Same"
  by (simp add: mark_def)

lemma see_record_history:
  assumes "records_history env evs s"
  shows "records_history env (evs @ [(run, uid, i, rec)]) (see_record env run want (uid, i, rec) s)"
proof -
  let ?a = "(run, uid, i, rec)" and ?as = "appearances uid evs" and ?s = "s\<lparr>wk_cur := insert uid (wk_cur s)\<rparr>"
  have h: "records_history env evs ?s" using assms by (simp add: records_history_frame)
  note c = classify_mark[OF h, of run uid i rec]
  have a: "app_uid ?a = uid" "app_at ?a = unwrap_or [] (fr_run_at run)" by (simp_all add: app_uid_def app_at_def)
  have version: "app_version ?a = \<lparr>vr_fields = rec, vr_run_id = fr_run_id run, vr_run_at = unwrap_or [] (fr_run_at run), vr_index = i\<rparr>"
    by (simp add: app_version_def)
  have tab: "tabled (wk_first_seen s) evs (\<lambda>as. app_at (hd as))" "tabled (wk_last_seen s) evs (\<lambda>as. app_at (last as))"
    "tabled (wk_last_version s) evs (\<lambda>as. app_version (last as))" "tabled (wk_change_points s) evs (history env)"
    "tabled (wk_latest_status s) evs (\<lambda>as. mark env (butlast as) (last as))"
    using assms by (simp_all add: records_history_def)
  have "tabled (if ?as = [] then bt_insert uid (unwrap_or [] (fr_run_at run)) (wk_first_seen s) else wk_first_seen s)
      (evs @ [?a]) (\<lambda>as. app_at (hd as))"
    using tabled_insert[OF tab(1), of _ ?a] tabled_keep[OF tab(1), of ?a] by (auto simp: a)
  moreover have "tabled (if fst (mark env ?as ?a) = Same then wk_change_points s
      else bt_insert uid (history env (?as @ [?a])) (wk_change_points s)) (evs @ [?a]) (history env)"
  proof (cases "fst (mark env ?as ?a) = Same")
    case True
    then have "?as \<noteq> []" "history env (?as @ [?a]) = history env ?as"
      using mark_first by (auto simp: history_snoc note_of_def split: prod.splits)
    then show ?thesis using True tabled_keep[OF tab(4), of ?a] by (simp add: a)
  next
    case False
    then show ?thesis using tabled_insert[OF tab(4), of _ ?a] by (simp add: a)
  qed
  moreover have "tabled (bt_insert uid (unwrap_or [] (fr_run_at run)) (wk_last_seen s)) (evs @ [?a]) (\<lambda>as. app_at (last as))"
    "tabled (bt_insert uid (app_version ?a) (wk_last_version s)) (evs @ [?a]) (\<lambda>as. app_version (last as))"
    "tabled (bt_insert uid (mark env ?as ?a) (wk_latest_status s)) (evs @ [?a]) (\<lambda>as. mark env (butlast as) (last as))"
    using tabled_insert[OF tab(2), of _ ?a] tabled_insert[OF tab(3), of _ ?a] tabled_insert[OF tab(5), of _ ?a] by (simp_all add: a)
  ultimately show ?thesis
    by (auto simp: see_record_def Let_def split_def records_history_def c[simplified] version)
qed

lemma see_records_history:
  "records_history env evs s \<Longrightarrow>
     records_history env (evs @ map (Pair run) rs) (fold (see_record env run want) rs s)"
proof (induction rs arbitrary: evs s)
  case (Cons r rs)
  obtain uid i rec where r: "r = (uid, i, rec)" by (cases r)
  show ?case using Cons.IH[OF see_record_history[OF Cons.prems, of run uid i rec want]] by (simp add: r)
qed simp

lemma close_run_history: "records_history env evs (close_run run want s) = records_history env evs s"
  by (simp add: close_run_def Let_def records_history_frame)

lemma walk_run_history:
  assumes "records_history env evs s"
  shows "records_history env (evs @ map (Pair run) (assign_uids env (fr_records run) mode identity))
    (walk_run env mode identity detail run s)"
  unfolding walk_run_def Let_def close_run_history
  by (rule see_records_history) (use assms in \<open>simp add: records_history_def\<close>)

lemma walk_runs_history:
  "records_history env evs s \<Longrightarrow>
     records_history env (evs @ chain_events env mode identity chain) (fold (walk_run env mode identity detail) chain s)"
proof (induction chain arbitrary: evs s)
  case Nil
  then show ?case by (simp add: chain_events_def)
next
  case (Cons run chain)
  show ?case using Cons.IH[OF walk_run_history[OF Cons.prems]] by (simp add: chain_events_def)
qed

lemma walk_start_history: "records_history env [] walk_start"
  by (simp add: records_history_def tabled_def walk_start_def appearances_def)

definition run_uids :: "lineage_env \<Rightarrow> string \<Rightarrow> string list \<Rightarrow> flat_run \<Rightarrow> string list" where
  "run_uids env mode identity run = map fst (assign_uids env (fr_records run) mode identity)"

lemma classify_frame:
  "wk_cur (snd (classify env run uid i rec s)) = wk_cur s"
  "wk_prev_uids (snd (classify env run uid i rec s)) = wk_prev_uids s"
  "wk_prev_run_id (snd (classify env run uid i rec s)) = wk_prev_run_id s"
  "wk_runs_index (snd (classify env run uid i rec s)) = wk_runs_index s"
  "wk_run_detail (snd (classify env run uid i rec s)) = wk_run_detail s"
  "wk_detail_rows (snd (classify env run uid i rec s)) = wk_detail_rows s"
  by (auto simp: classify_def push_point_def split_def Let_def)

lemma see_record_frame:
  "wk_cur (see_record env run want r s) = insert (fst r) (wk_cur s)"
  "wk_prev_uids (see_record env run want r s) = wk_prev_uids s"
  "wk_prev_run_id (see_record env run want r s) = wk_prev_run_id s"
  "wk_runs_index (see_record env run want r s) = wk_runs_index s"
  "wk_run_detail (see_record env run want r s) = wk_run_detail s"
  by (auto simp: see_record_def split_def Let_def classify_frame)

lemma see_records_frame:
  "wk_cur (fold (see_record env run want) rs s) = fst ` set rs \<union> wk_cur s"
  "wk_prev_uids (fold (see_record env run want) rs s) = wk_prev_uids s"
  "wk_prev_run_id (fold (see_record env run want) rs s) = wk_prev_run_id s"
  "wk_runs_index (fold (see_record env run want) rs s) = wk_runs_index s"
  "wk_run_detail (fold (see_record env run want) rs s) = wk_run_detail s"
  by (induction rs arbitrary: s) (auto simp: see_record_frame)

lemma walk_run_prev: "wk_prev_uids (walk_run env mode identity detail run s) = Some (set (run_uids env mode identity run))"
  by (simp add: walk_run_def close_run_def Let_def see_records_frame run_uids_def)

definition newest_uids :: "lineage_env \<Rightarrow> string \<Rightarrow> string list \<Rightarrow> flat_run list \<Rightarrow> string set" where
  "newest_uids env mode identity chain = (if chain = [] then {} else set (run_uids env mode identity (last chain)))"

lemma walk_chain_prev:
  "unwrap_or {} (wk_prev_uids (fold (walk_run env mode identity detail) chain walk_start)) = newest_uids env mode identity chain"
  by (cases chain rule: rev_cases) (simp_all add: newest_uids_def walk_start_def unwrap_or_def walk_run_prev)

text \<open>The row of the current dataset that the appearances of a record ask for.\<close>

definition latest_spec :: "lineage_env \<Rightarrow> appearance list \<Rightarrow> string set \<Rightarrow> string \<Rightarrow> latest_row" where
  "latest_spec env evs newest u =
     (let as = appearances u evs;
          (ch, paths, n) = (if u \<in> newest then mark env (butlast as) (last as) else (Missing, [], 0))
      in \<lparr>lr_uid = u, lr_change = ch, lr_changed_fields = paths, lr_leaf_count = n, lr_first_seen = app_at (hd as),
          lr_last_seen = app_at (last as), lr_versions = length (history env as), lr_fields = app_fields (last as),
          lr_run_id = vr_run_id (app_version (last as)), lr_index = vr_index (app_version (last as))\<rparr>)"

lemma appearances_iff: "appearances u evs \<noteq> [] \<longleftrightarrow> u \<in> app_uid ` set evs"
  by (auto simp: appearances_def filter_empty_conv)

lemma tabled_table:
  assumes "tabled m evs f"
  shows "m = map (\<lambda>u. (u, f (appearances u evs))) (sorted_list_of_set (app_uid ` set evs))"
proof (rule bt_table)
  show "bt_ok m" using assms by (simp add: tabled_def)
  show "map_of m = (\<lambda>u. if u \<in> app_uid ` set evs then Some (f (appearances u evs)) else None)"
    using assms by (auto simp: tabled_def fun_eq_iff appearances_iff[symmetric])
qed

lemma tabled_index: "tabled m evs f \<Longrightarrow> appearances u evs \<noteq> [] \<Longrightarrow> bt_index m u = f (appearances u evs)"
  by (simp add: tabled_def bt_index_def)

lemma latest_of_spec:
  assumes "records_history env evs s" "appearances u evs \<noteq> []" "v = app_version (last (appearances u evs))"
  shows "latest_of s (u, v) = latest_spec env evs (unwrap_or {} (wk_prev_uids s)) u"
proof -
  have fields: "vr_fields (app_version b) = app_fields b" for b by (cases b) (simp add: app_version_def app_fields_def)
  have "bt_index (wk_first_seen s) u = app_at (hd (appearances u evs))"
    "bt_index (wk_last_seen s) u = app_at (last (appearances u evs))"
    "bt_index (wk_change_points s) u = history env (appearances u evs)"
    "bt_index (wk_latest_status s) u = mark env (butlast (appearances u evs)) (last (appearances u evs))"
    using assms(1,2) by (auto simp: records_history_def tabled_index)
  then show ?thesis by (simp add: latest_of_def latest_spec_def Let_def split_def assms(3) fields)
qed

lemma latest_cmp_total: "total_on latest_cmp rows"
  unfolding total_on_def latest_cmp_def then_by_def compare_of_def by (auto split: if_splits)

text \<open>
  C11. The lineage pass answers what the history of the records asks for: it always returns, and for the snapshots of
  the chain it yields for every record its first and last sighting and its change points - the appearances that
  differ from the one before - and, in the default order, one row per record: its last version, marked missing when
  the newest snapshot lacks it, and otherwise by its difference from its previous appearance.
\<close>

theorem lineage_is_history:
  "let chain = filter fr_data_bearing runs; evs = chain_events env mode identity chain;
       us = sorted_list_of_set (app_uid ` set evs); newest = newest_uids env mode identity chain
   in \<exists>l. build_lineage env runs mode identity detail = Some l \<and>
        ln_first_seen l = map (\<lambda>u. (u, app_at (hd (appearances u evs)))) us \<and>
        ln_last_seen l = map (\<lambda>u. (u, app_at (last (appearances u evs)))) us \<and>
        ln_histories l = map (\<lambda>u. (u, history env (appearances u evs))) us \<and>
        mset (ln_latest l) = mset (map (latest_spec env evs newest) us) \<and>
        sorted_wrt (\<lambda>a b. latest_cmp a b \<noteq> Greater) (ln_latest l)"
proof -
  define chain where "chain = filter fr_data_bearing runs"
  define s where "s = fold (walk_run env mode identity detail) chain walk_start"
  define evs where "evs = chain_events env mode identity chain"
  let ?us = "sorted_list_of_set (app_uid ` set evs)"
  have h: "records_history env evs s"
    using walk_runs_history[OF walk_start_history, of env mode identity chain detail] by (simp add: s_def evs_def)
  have newest: "unwrap_or {} (wk_prev_uids s) = newest_uids env mode identity chain"
    unfolding s_def by (rule walk_chain_prev)
  obtain latest where latest: "sort_by latest_cmp (map (latest_of s) (wk_last_version s)) = Some latest"
    using latest_cmp_total by (simp add: sort_by_def)
  have versions: "wk_last_version s = map (\<lambda>u. (u, app_version (last (appearances u evs)))) ?us"
    using h by (intro tabled_table) (simp add: records_history_def)
  have "map (latest_of s) (wk_last_version s) = map (latest_spec env evs (newest_uids env mode identity chain)) ?us"
    unfolding versions map_map comp_def using latest_of_spec[OF h _ refl] by (auto simp: newest appearances_iff)
  then have rows: "mset latest = mset (map (latest_spec env evs (newest_uids env mode identity chain)) ?us)"
    using mset_sort_by[OF latest] by simp
  have tables: "wk_first_seen s = map (\<lambda>u. (u, app_at (hd (appearances u evs)))) ?us"
    "wk_last_seen s = map (\<lambda>u. (u, app_at (last (appearances u evs)))) ?us"
    "wk_change_points s = map (\<lambda>u. (u, history env (appearances u evs))) ?us"
    using h by (auto simp: records_history_def dest: tabled_table)
  have built: "build_lineage env runs mode identity detail = Some \<lparr>ln_runs_index = rev (wk_runs_index s), ln_latest = latest,
      ln_histories = wk_change_points s, ln_first_seen = wk_first_seen s, ln_last_seen = wk_last_seen s,
      ln_run_detail = wk_run_detail s\<rparr>"
    using latest by (simp add: build_lineage_def walk_chain_def s_def chain_def Let_def)
  show ?thesis
    unfolding Let_def chain_def[symmetric] evs_def[symmetric] built
    using tables rows sort_by_sorted[OF latest] by simp
qed

section \<open>The snapshots\<close>

fun marks :: "lineage_env \<Rightarrow> appearance list \<Rightarrow> appearance list \<Rightarrow> status list" where
  "marks env before [] = []"
| "marks env before (a # as) = mark env (appearances (app_uid a) before) a # marks env (before @ [a]) as"

fun detail_spec :: "lineage_env \<Rightarrow> appearance list \<Rightarrow> appearance list \<Rightarrow> detail_row list" where
  "detail_spec env before [] = []"
| "detail_spec env before ((run, uid, i, rec) # as) =
     (let (ch, paths, n) = mark env (appearances uid before) (run, uid, i, rec)
      in \<lparr>de_index = i, de_uid = uid, de_change = ch, de_changed_fields = paths, de_leaf_count = n,
          de_versions = length (history env (appearances uid before @ [(run, uid, i, rec)])), de_fields = rec\<rparr>
         # detail_spec env (before @ [(run, uid, i, rec)]) as)"

definition counted :: "change \<Rightarrow> status list \<Rightarrow> nat" where
  "counted ch sts = length (filter (\<lambda>st. fst st = ch) sts)"

definition add_marks :: "status list \<Rightarrow> run_delta \<Rightarrow> run_delta" where
  "add_marks sts d = d\<lparr>rd_new := rd_new d + counted New sts, rd_changed := rd_changed d + counted Changed sts,
     rd_unchanged := rd_unchanged d + counted Same sts\<rparr>"

lemma add_marks_Nil: "add_marks [] d = d"
  by (simp add: add_marks_def counted_def)

lemma add_marks_Cons: "add_marks (st # sts) d = add_marks sts (add_marks [st] d)"
  by (simp add: add_marks_def counted_def)

lemma classify_delta:
  "wk_delta (snd (classify env run uid i rec s)) = add_marks [fst (classify env run uid i rec s)] (wk_delta s)"
  by (auto simp: classify_def push_point_def add_marks_def counted_def split_def Let_def)

lemma see_record_delta:
  assumes "records_history env evs s"
  shows "wk_delta (see_record env run want (uid, i, rec) s) =
    add_marks [mark env (appearances uid evs) (run, uid, i, rec)] (wk_delta s)"
  using classify_mark(1)[of env evs "s\<lparr>wk_cur := insert uid (wk_cur s)\<rparr>" run uid i rec] assms
  by (simp add: see_record_def split_def Let_def classify_delta records_history_frame)

lemma see_record_detail:
  assumes "records_history env evs s"
  shows "wk_detail_rows (see_record env run True (uid, i, rec) s) = wk_detail_rows s @ detail_spec env evs [(run, uid, i, rec)]"
proof -
  let ?a = "(run, uid, i, rec)" and ?s = "s\<lparr>wk_cur := insert uid (wk_cur s)\<rparr>"
  have h: "records_history env evs ?s" using assms by (simp add: records_history_frame)
  have "records_history env (evs @ [?a]) (see_record env run True (uid, i, rec) s)" by (rule see_record_history[OF assms])
  then have "points_of (see_record env run True (uid, i, rec) s) uid = history env (appearances uid evs @ [?a])"
    by (simp add: points_of_def records_history_def tabled_def appearances_snoc app_uid_def unwrap_or_def)
  moreover have "points_of (see_record env run True (uid, i, rec) s) uid = points_of (snd (classify env run uid i rec ?s)) uid"
    by (simp add: see_record_def points_of_def split_def Let_def)
  ultimately show ?thesis
    using classify_mark(1)[OF h, of run uid i rec]
    by (simp add: see_record_def split_def Let_def classify_frame points_of_def)
qed

lemma detail_spec_Cons: "detail_spec env before (a # as) = detail_spec env before [a] @ detail_spec env (before @ [a]) as"
  by (cases a) (simp add: split_def Let_def)

lemma see_records_marks:
  assumes "records_history env evs s"
  shows "wk_delta (fold (see_record env run want) rs s) = add_marks (marks env evs (map (Pair run) rs)) (wk_delta s)"
  using assms
proof (induction rs arbitrary: evs s)
  case Nil
  then show ?case by (simp add: add_marks_Nil)
next
  case (Cons r rs)
  obtain uid i rec where r: "r = (uid, i, rec)" by (cases r)
  have uid: "app_uid (run, uid, i, rec) = uid" by (simp add: app_uid_def)
  show ?case
    using Cons.IH[OF see_record_history[OF Cons.prems, of run uid i rec want]]
    by (simp add: r uid see_record_delta[OF Cons.prems] add_marks_Cons[of _ "marks _ _ _"])
qed

lemma see_records_detail:
  assumes "records_history env evs s"
  shows "wk_detail_rows (fold (see_record env run True) rs s) = wk_detail_rows s @ detail_spec env evs (map (Pair run) rs)"
  using assms
proof (induction rs arbitrary: evs s)
  case (Cons r rs)
  obtain uid i rec where r: "r = (uid, i, rec)" by (cases r)
  show ?case
    using Cons.IH[OF see_record_history[OF Cons.prems, of run uid i rec True]]
    by (simp add: r see_record_detail[OF Cons.prems] detail_spec_Cons[of _ _ _ "map _ _"] del: detail_spec.simps(2))
qed simp

definition gone :: "lineage_env \<Rightarrow> string \<Rightarrow> string list \<Rightarrow> flat_run list \<Rightarrow> flat_run \<Rightarrow> string set" where
  "gone env mode identity before run = newest_uids env mode identity before - set (run_uids env mode identity run)"

definition delta_spec :: "lineage_env \<Rightarrow> string \<Rightarrow> string list \<Rightarrow> flat_run list \<Rightarrow> flat_run \<Rightarrow> run_delta" where
  "delta_spec env mode identity before run =
     (let sts = marks env (chain_events env mode identity before) (chain_events env mode identity [run])
      in \<lparr>rd_new = counted New sts, rd_changed = counted Changed sts, rd_removed = card (gone env mode identity before run),
          rd_unchanged = counted Same sts\<rparr>)"

definition entry_spec :: "lineage_env \<Rightarrow> string \<Rightarrow> string list \<Rightarrow> flat_run list \<Rightarrow> flat_run \<Rightarrow> run_entry" where
  "entry_spec env mode identity before run =
     \<lparr>re_run_id = fr_run_id run, re_run_at = unwrap_or [] (fr_run_at run), re_record_count = length (fr_records run),
      re_explicit_empty = (fr_records run = []),
      re_delta = (if before = [] then None else Some (delta_spec env mode identity before run))\<rparr>"

definition detail_of :: "lineage_env \<Rightarrow> string \<Rightarrow> string list \<Rightarrow> flat_run list \<Rightarrow> flat_run \<Rightarrow> run_detail" where
  "detail_of env mode identity before run =
     \<lparr>rt_run_id = fr_run_id run, rt_prev_run_id = (if before = [] then None else Some (fr_run_id (last before))),
      rt_delta = delta_spec env mode identity before run,
      rt_rows = detail_spec env (chain_events env mode identity before) (chain_events env mode identity [run]),
      rt_removed = map (\<lambda>u. (u, app_fields (last (appearances u (chain_events env mode identity before)))))
        (sorted_list_of_set (gone env mode identity before run))\<rparr>"

text \<open>Something of every snapshot, from the snapshots before it and itself.\<close>

definition along :: "('a list \<Rightarrow> 'a \<Rightarrow> 'b) \<Rightarrow> 'a list \<Rightarrow> 'b list" where
  "along f xs = map (\<lambda>i. f (take i xs) (xs ! i)) [0..<length xs]"

lemma along_Nil [simp]: "along f [] = []"
  by (simp add: along_def)

lemma along_snoc [simp]: "along f (xs @ [x]) = along f xs @ [f xs x]"
proof -
  have old: "map (\<lambda>i. f (take i (xs @ [x])) ((xs @ [x]) ! i)) [0..<length xs] = map (\<lambda>i. f (take i xs) (xs ! i)) [0..<length xs]"
    by (rule map_cong) (auto simp: nth_append)
  have "take (length xs) (xs @ [x]) = xs" by simp
  then show ?thesis by (simp del: take_append map_eq_conv add: along_def old)
qed

definition last_detail :: "(flat_run list \<Rightarrow> flat_run \<Rightarrow> run_detail) \<Rightarrow> int option \<Rightarrow> flat_run list \<Rightarrow> run_detail option" where
  "last_detail f wanted chain =
     (let ds = filter (\<lambda>d. wanted = Some (rt_run_id d)) (along f chain) in if ds = [] then None else Some (last ds))"

lemma walk_run_id: "wk_prev_run_id (walk_run env mode identity detail run s) = Some (fr_run_id run)"
  by (simp add: walk_run_def close_run_def Let_def)

lemma chain_events_snoc: "chain_events env mode identity (chain @ [run])
    = chain_events env mode identity chain @ chain_events env mode identity [run]"
  by (simp add: chain_events_def)

lemma run_events: "chain_events env mode identity [run] = map (Pair run) (assign_uids env (fr_records run) mode identity)"
  by (simp add: chain_events_def)

lemma run_events_uids: "app_uid ` set (chain_events env mode identity [run]) = set (run_uids env mode identity run)"
  by (force simp: run_events run_uids_def app_uid_def)

lemma newest_appears: "u \<in> newest_uids env mode identity chain \<Longrightarrow> appearances u (chain_events env mode identity chain) \<noteq> []"
  by (cases chain rule: rev_cases)
    (auto simp: newest_uids_def appearances_iff chain_events_snoc image_Un run_events_uids simp del: chain_events_def)

lemma absent_appearances:
  "u \<notin> set (run_uids env mode identity run) \<Longrightarrow>
     appearances u (evs @ chain_events env mode identity [run]) = appearances u evs"
  using run_events_uids[of env mode identity run] by (auto simp: appearances_def filter_empty_conv)

text \<open>The state of the walk after a chain.\<close>

definition snapshots_ok :: "lineage_env \<Rightarrow> string \<Rightarrow> string list \<Rightarrow> int option \<Rightarrow> flat_run list \<Rightarrow> walk \<Rightarrow> bool" where
  "snapshots_ok env mode identity wanted chain s \<longleftrightarrow>
     records_history env (chain_events env mode identity chain) s \<and>
     wk_runs_index s = along (entry_spec env mode identity) chain \<and>
     wk_prev_uids s = (if chain = [] then None else Some (newest_uids env mode identity chain)) \<and>
     wk_prev_run_id s = (if chain = [] then None else Some (fr_run_id (last chain))) \<and>
     wk_run_detail s = last_detail (detail_of env mode identity) wanted chain"

lemma finite_gone: "finite (gone env mode identity before run)"
  by (simp add: gone_def newest_uids_def)

lemma length_sorted_set: "length (sorted_list_of_set (A :: 'a :: linorder set)) = card A"
  by simp

lemma walk_run_snapshots:
  assumes "snapshots_ok env mode identity wanted chain s"
  shows "snapshots_ok env mode identity wanted (chain @ [run]) (walk_run env mode identity wanted run s)"
proof -
  let ?evs = "chain_events env mode identity chain" and ?run = "chain_events env mode identity [run]"
  let ?rs = "assign_uids env (fr_records run) mode identity" and ?want = "wanted = Some (fr_run_id run)"
  define s2 where "s2 = fold (see_record env run ?want) ?rs (s\<lparr>wk_cur := {}, wk_delta := no_delta, wk_detail_rows := []\<rparr>)"
  have h0: "records_history env ?evs (s\<lparr>wk_cur := {}, wk_delta := no_delta, wk_detail_rows := []\<rparr>)"
    using assms by (simp add: snapshots_ok_def records_history_def)
  have h2: "records_history env (?evs @ ?run) s2" unfolding s2_def run_events by (rule see_records_history[OF h0])
  have frame: "wk_cur s2 = set (run_uids env mode identity run)" "wk_prev_uids s2 = wk_prev_uids s"
    "wk_prev_run_id s2 = wk_prev_run_id s" "wk_runs_index s2 = wk_runs_index s" "wk_run_detail s2 = wk_run_detail s"
    by (simp_all add: s2_def see_records_frame run_uids_def)
  have delta: "wk_delta s2 = add_marks (marks env ?evs ?run) no_delta"
    unfolding s2_def by (simp add: see_records_marks[OF h0] run_events)
  have rows: "wk_detail_rows s2 = detail_spec env ?evs ?run" if ?want
    unfolding s2_def using that by (simp add: see_records_detail[OF h0] run_events)
  have removed: "removed_uids s2 = sorted_list_of_set (gone env mode identity chain run)"
    using assms by (simp add: removed_uids_def frame snapshots_ok_def gone_def newest_uids_def)
  have version: "vr_fields (bt_index (wk_last_version s2) u) = app_fields (last (appearances u ?evs))"
    if "u \<in> gone env mode identity chain run" for u
  proof -
    have u: "appearances u (?evs @ ?run) = appearances u ?evs" "appearances u ?evs \<noteq> []"
      using that absent_appearances newest_appears by (auto simp: gone_def)
    have "bt_index (wk_last_version s2) u = app_version (last (appearances u (?evs @ ?run)))"
      using h2 u by (intro tabled_index) (auto simp: records_history_def)
    then show ?thesis unfolding u(1) by (cases "last (appearances u ?evs)") (simp add: app_version_def app_fields_def)
  qed
  have total: "(wk_delta s2)\<lparr>rd_removed := rd_removed (wk_delta s2) + length (removed_uids s2)\<rparr> = delta_spec env mode identity chain run"
    by (simp add: delta removed add_marks_def no_delta_def delta_spec_def Let_def)
  have gone_rows: "map (\<lambda>u. (u, vr_fields (bt_index (wk_last_version s2) u))) (removed_uids s2) =
      map (\<lambda>u. (u, app_fields (last (appearances u ?evs)))) (sorted_list_of_set (gone env mode identity chain run))"
    using version finite_gone[of env mode identity chain run] by (auto simp: removed)
  have walk: "walk_run env mode identity wanted run s = close_run run ?want s2"
    by (simp add: walk_run_def s2_def Let_def)
  show ?thesis
    unfolding walk snapshots_ok_def close_run_history chain_events_snoc
    using assms h2 rows
    by (auto simp: close_run_def Let_def total gone_rows frame snapshots_ok_def entry_spec_def last_detail_def detail_of_def
        newest_uids_def)
qed

lemma walk_chain_snapshots:
  "snapshots_ok env mode identity wanted chain (fold (walk_run env mode identity wanted) chain walk_start)"
proof (induction chain rule: rev_induct)
  case Nil
  then show ?case
    using walk_start_history by (simp add: snapshots_ok_def walk_start_def chain_events_def last_detail_def)
next
  case (snoc run chain)
  then show ?case using walk_run_snapshots by simp
qed

lemma counted_total: "counted New sts + counted Changed sts + counted Same sts + counted Missing sts = length sts"
proof (induction sts)
  case (Cons st sts)
  then show ?case by (cases "fst st") (simp_all add: counted_def)
qed (simp add: counted_def)

lemma mark_not_missing: "fst (mark env before a) \<noteq> Missing"
  by (auto simp: mark_def split: prod.splits)

lemma marks_not_missing: "counted Missing (marks env before as) = 0"
  by (induction env before as rule: marks.induct) (auto simp: counted_def mark_not_missing)

lemma length_marks: "length (marks env before as) = length as"
  by (induction env before as rule: marks.induct) simp_all

text \<open>
  The snapshot index: newest first, one entry per snapshot of the chain, whose counts compare each keyed record
  with its own previous appearance and the removed ones with the snapshot just before; new, changed and unchanged
  together are the snapshot's keyed records.  The requested snapshot's detail is that of its last occurrence.
\<close>

theorem snapshots_indexed:
  "let chain = filter fr_data_bearing runs
   in \<exists>l. build_lineage env runs mode identity wanted = Some l \<and>
        ln_runs_index l = rev (along (entry_spec env mode identity) chain) \<and>
        ln_run_detail l = last_detail (detail_of env mode identity) wanted chain \<and>
        (\<forall>before run. rd_new (delta_spec env mode identity before run) + rd_changed (delta_spec env mode identity before run)
           + rd_unchanged (delta_spec env mode identity before run) = length (assign_uids env (fr_records run) mode identity))"
proof -
  define chain where "chain = filter fr_data_bearing runs"
  define s where "s = fold (walk_run env mode identity wanted) chain walk_start"
  have s: "snapshots_ok env mode identity wanted chain s" unfolding s_def by (rule walk_chain_snapshots)
  obtain latest where latest: "sort_by latest_cmp (map (latest_of s) (wk_last_version s)) = Some latest"
    using latest_cmp_total by (simp add: sort_by_def)
  have "rd_new (delta_spec env mode identity before run) + rd_changed (delta_spec env mode identity before run)
      + rd_unchanged (delta_spec env mode identity before run) = length (assign_uids env (fr_records run) mode identity)" for before run
    using counted_total[of "marks env (chain_events env mode identity before) (chain_events env mode identity [run])"]
    by (simp add: delta_spec_def Let_def marks_not_missing length_marks run_events)
  with latest s show ?thesis
    unfolding Let_def chain_def[symmetric]
    by (simp add: build_lineage_def walk_chain_def chain_def[symmetric] s_def[symmetric] Let_def snapshots_ok_def)
qed

section \<open>Identity of records\<close>











text \<open>A value that holds the separator can pass for the second of two equal records.\<close>

lemma digest_collision:
  "uid_digest_input env [f] a 1 False = uid_digest_input env [f] b 0 False"
  if "norm_field env b f = norm_field env a f @ CHR 0x1E # ''#1''"
  using that by (simp add: uid_digest_input_def ordinal_suffix_def) code_simp





definition short_hash :: "lineage_env \<Rightarrow> string \<Rightarrow> string" where
  "short_hash env s = take 16 (le_sha256 env s)"

lemma digest_base: "uid_digest_input env names rec n False = uid_digest_input env names rec 0 False @ ordinal_suffix n"
  by (simp add: uid_digest_input_def ordinal_suffix_def)

lemma enumerate_map: "map (\<lambda>(n, x). g n (f x)) (enumerate k xs) = map (\<lambda>(n, y). g n y) (enumerate k (map f xs))"
  by (induction xs arbitrary: k) auto

text \<open>The uids of one identity with the contents they name, from the contents alone.\<close>

definition group_table :: "lineage_env \<Rightarrow> string \<Rightarrow> string list \<Rightarrow> (string \<times> string) list" where
  "group_table env base hashes = map (\<lambda>(n, h). (short_hash env (base @ ordinal_suffix n), h)) (enumerate 0 (sort hashes))"

lemma sort_by_content: "map (\<lambda>(i, rec). h rec) (sort_key (\<lambda>(i, rec). (h rec, i)) members) = sort (map (\<lambda>(i, rec). h rec) members)"
  for h :: "fields \<Rightarrow> string" and members :: record_list
proof (rule properties_for_sort[symmetric])
  show "mset (map (\<lambda>(i, rec). h rec) (sort_key (\<lambda>(i, rec). (h rec, i)) members)) = mset (map (\<lambda>(i, rec). h rec) members)" by simp
  have "sorted (map (\<lambda>(i, rec). (h rec, i)) (sort_key (\<lambda>(i, rec). (h rec, i)) members))" by simp
  then show "sorted (map (\<lambda>(i, rec). h rec) (sort_key (\<lambda>(i, rec). (h rec, i)) members))"
    unfolding sorted_map by (rule sorted_wrt_mono_rel[rotated]) (auto simp: less_eq_prod_def)
qed

lemma group_uids_table:
  assumes "\<And>i rec. (i, rec) \<in> set members \<Longrightarrow> uid_digest_input env names rec 0 False = base"
  shows "map (\<lambda>(u, i, rec). (u, record_hash env rec)) (group_uids env names members) =
    group_table env base (map (\<lambda>(i, rec). record_hash env rec) members)"
proof -
  let ?sorted = "sort_key (\<lambda>(i, rec). (record_hash env rec, i)) members"
  have "map (\<lambda>(u, i, rec). (u, record_hash env rec)) (group_uids env names members)
      = map (\<lambda>(n, p). (record_uid env names (snd p) n False, record_hash env (snd p))) (enumerate 0 ?sorted)"
    by (simp add: group_uids_def split_def)
  also have "\<dots> = map (\<lambda>(n, p). (short_hash env (base @ ordinal_suffix n), (\<lambda>(i, rec). record_hash env rec) p)) (enumerate 0 ?sorted)"
  proof (rule map_cong[OF refl])
    fix q assume "q \<in> set (enumerate 0 ?sorted)"
    then have "snd q \<in> set (map snd (enumerate 0 ?sorted))" by (simp del: map_snd_enumerate)
    then have "uid_digest_input env names (snd (snd q)) 0 False = base" using assms[of "fst (snd q)" "snd (snd q)"] by simp
    then show "(\<lambda>(n, p). (record_uid env names (snd p) n False, record_hash env (snd p))) q =
        (\<lambda>(n, p). (short_hash env (base @ ordinal_suffix n), (\<lambda>(i, rec). record_hash env rec) p)) q"
      using digest_base[of env names "snd (snd q)" "fst q"] by (simp add: record_uid_def short_hash_def split_def)
  qed
  also have "\<dots> = map (\<lambda>(n, h). (short_hash env (base @ ordinal_suffix n), h)) (enumerate 0 (map (\<lambda>(i, rec). record_hash env rec) ?sorted))"
    by (rule enumerate_map)
  finally show ?thesis by (simp only: group_table_def sort_by_content)
qed

definition base_digest :: "lineage_env \<Rightarrow> string list \<Rightarrow> fields \<Rightarrow> string" where
  "base_digest env names rec = uid_digest_input env names rec 0 False"

definition uid_table :: "lineage_env \<Rightarrow> string list \<Rightarrow> fields list \<Rightarrow> (string \<times> string) list" where
  "uid_table env names recs =
     concat (map (\<lambda>b. group_table env b (map (record_hash env) (filter (\<lambda>rec. base_digest env names rec = b) recs)))
       (sort (remdups (map (base_digest env names) recs))))"

lemma sort_remdups_set: "set xs = set ys \<Longrightarrow> sort (remdups xs) = sort (remdups ys)"
  by (rule sorted_distinct_set_unique) simp_all

lemma sort_mset: "mset xs = mset ys \<Longrightarrow> sort xs = sort ys"
  by (rule properties_for_sort) simp_all

lemma uid_table_perm:
  assumes "mset recs = mset recs'"
  shows "uid_table env names recs = uid_table env names recs'"
proof -
  have "sort (map (record_hash env) (filter (\<lambda>rec. base_digest env names rec = b) recs))
      = sort (map (record_hash env) (filter (\<lambda>rec. base_digest env names rec = b) recs'))" for b
    using assms by (intro sort_mset) simp
  moreover have "sort (remdups (map (base_digest env names) recs)) = sort (remdups (map (base_digest env names) recs'))"
    using assms by (intro sort_remdups_set) (metis mset_map mset_eq_setD)
  ultimately show ?thesis by (simp add: uid_table_def group_table_def)
qed

lemma assign_uids_table:
  assumes "mode \<noteq> ''singleton''"
  shows "mset (map (\<lambda>(u, i, rec). (u, record_hash env rec)) (assign_uids env records mode names)) =
    mset (uid_table env names (map snd records))"
proof -
  let ?f = "\<lambda>(i, rec). uid_digest_input env names rec 0 False"
  have keys: "map ?f records = map (base_digest env names) (map snd records)" by (auto simp: base_digest_def)
  have members: "map (\<lambda>(i, rec). record_hash env rec) (filter (\<lambda>x. ?f x = b) records) =
      map (record_hash env) (filter (\<lambda>rec. base_digest env names rec = b) (map snd records))" for b
    by (induction records) (auto simp: base_digest_def)
  have "map (\<lambda>(u, i, rec). (u, record_hash env rec)) (group_uids env names (filter (\<lambda>x. ?f x = b) records)) =
      group_table env b (map (record_hash env) (filter (\<lambda>rec. base_digest env names rec = b) (map snd records)))" for b
    unfolding members[symmetric] by (rule group_uids_table) auto
  then have "map (\<lambda>(u, i, rec). (u, record_hash env rec)) (concat (map (\<lambda>(base, ms). group_uids env names ms) (bt_groups ?f records))) =
      uid_table env names (map snd records)"
    by (simp only: map_concat bt_groups_def uid_table_def keys map_map comp_def prod.case)
  moreover have "mset (map g (sort_key k xs)) = mset (map g xs)" for g :: "string \<times> nat \<times> fields \<Rightarrow> string \<times> string" and k :: "_ \<Rightarrow> nat" and xs
    by simp
  ultimately show ?thesis using assms unfolding assign_uids_def by (simp only: if_False)
qed

text \<open>
  C14. A record keeps its uid wherever it stands: reordering the records of a snapshot, and renumbering them, leaves
  the uids with the contents they name as they were, equal records included.
\<close>

theorem uids_position_free:
  assumes "mode \<noteq> ''singleton''" "mset (map snd records) = mset (map snd records')"
  shows "mset (map (\<lambda>(u, i, rec). (u, record_hash env rec)) (assign_uids env records mode names)) =
    mset (map (\<lambda>(u, i, rec). (u, record_hash env rec)) (assign_uids env records' mode names))"
  unfolding assign_uids_table[OF assms(1)] uid_table_perm[OF assms(2)] ..

section \<open>Distinct uids\<close>






section \<open>What counts as a change\<close>

lemma both_keys_commute: "both_keys a b = both_keys b a"
  unfolding both_keys_def by (rule sort_remdups_set) auto

lemma leaf_diff_commute: "leaf_diff env x y path = leaf_diff env y x path"
  by (auto simp: leaf_diff_def)

lemma diff_walk_leaf:
  "\<not> (\<exists>om nm. x = Some (JObj om) \<and> y = Some (JObj nm)) \<or> \<not> depth < diff_max_depth
    \<Longrightarrow> diff_walk env x y path depth = leaf_diff env x y path"
  by (subst diff_walk.simps) (auto split: option.splits json.splits)

lemma diff_walk_objects:
  "depth < diff_max_depth \<Longrightarrow> diff_walk env (Some (JObj om)) (Some (JObj nm)) path depth =
     concat (map (\<lambda>k. diff_walk env (map_of om k) (map_of nm k) (path @ [k]) (depth + 1)) (both_keys om nm))"
  by (subst diff_walk.simps) simp

text \<open>Both versions are walked to the same depth.\<close>

lemma diff_walk_cases:
  obtains (objects) om nm where "x = Some (JObj om)" "y = Some (JObj nm)" "depth < diff_max_depth"
  | (leaf) "\<And>env path. diff_walk env x y path depth = leaf_diff env x y path" "\<And>env path. diff_walk env y x path depth = leaf_diff env y x path"
proof (cases "(\<exists>om nm. x = Some (JObj om) \<and> y = Some (JObj nm)) \<and> depth < diff_max_depth")
  case True
  then show ?thesis using objects by blast
next
  case False
  then show ?thesis using leaf[OF diff_walk_leaf diff_walk_leaf] by blast
qed

lemma diff_walk_commute: "diff_walk env x y path depth = diff_walk env y x path depth"
proof (induction env x y path depth rule: diff_walk.induct)
  case (1 env x y path depth)
  show ?case
  proof (cases x y depth rule: diff_walk_cases)
    case (objects om nm)
    have "map (\<lambda>k. diff_walk env (map_of om k) (map_of nm k) (path @ [k]) (depth + 1)) (both_keys om nm) =
        map (\<lambda>k. diff_walk env (map_of nm k) (map_of om k) (path @ [k]) (depth + 1)) (both_keys om nm)"
      using 1 objects by (intro map_cong) auto
    then show ?thesis by (simp only: objects diff_walk_objects[OF objects(3)] both_keys_commute[of nm om])
  next
    case leaf
    then show ?thesis by (simp add: leaf_diff_commute)
  qed
qed

lemma diff_walk_same: "x = y \<Longrightarrow> diff_walk env x y path depth = []"
proof (induction env x y path depth rule: diff_walk.induct)
  case (1 env x y path depth)
  show ?case
  proof (cases x y depth rule: diff_walk_cases)
    case (objects om nm)
    have "diff_walk env (map_of om k) (map_of nm k) (path @ [k]) (depth + 1) = []" if "k \<in> set (both_keys om nm)" for k
      using 1(1)[OF refl] objects 1(2) that by auto
    then show ?thesis by (simp add: objects diff_walk_objects[OF objects(3)])
  next
    case leaf
    then show ?thesis using 1(2) by (simp add: leaf_diff_def)
  qed
qed

lemma concat_groups_Nil: "concat (map (\<lambda>(top, ps). if n < length ps then [top] else ps) (bt_groups f xs)) = [] \<longleftrightarrow> xs = []"
proof
  assume none: "concat (map (\<lambda>(top, ps). if n < length ps then [top] else ps) (bt_groups f xs)) = []"
  show "xs = []"
  proof (rule ccontr)
    assume "xs \<noteq> []"
    then obtain x where x: "x \<in> set xs" by (cases xs) auto
    then have "(f x, filter (\<lambda>y. f y = f x) xs) \<in> set (bt_groups f xs)" by (simp add: bt_groups_def)
    moreover have "filter (\<lambda>y. f y = f x) xs \<noteq> []" using x by (auto simp: filter_empty_conv)
    ultimately show False using none by (fastforce split: if_splits)
  qed
qed (simp add: bt_groups_def)

lemma diff_fields_Nil: "fst (diff_fields env a b) = [] \<longleftrightarrow> diff_leaves env a b = []"
  unfolding diff_fields_def Let_def fst_conv by (rule concat_groups_Nil)

text \<open>
  A field whose normal form changes is a change of the record, unless both versions of it are objects, which are
  compared member by member; the comparison is symmetric, and a record does not differ from itself.
\<close>

theorem changed_field_reported:
  assumes "norm_opt env (map_of old k) \<noteq> norm_opt env (map_of new k)"
    and "\<not> (\<exists>om nm. map_of old k = Some (JObj om) \<and> map_of new k = Some (JObj nm))"
  shows "fst (diff_fields env old new) \<noteq> [] \<and> 0 < snd (diff_fields env old new) \<and>
    diff_fields env old new = diff_fields env new old \<and> diff_fields env old old = ([], 0)"
proof -
  have "k \<in> set (both_keys old new)"
    using assms(1) by (auto simp: both_keys_def norm_opt_def map_of_eq_None_iff split: option.splits)
      (metis domI dom_map_of_conv_image_fst image_eqI)+
  moreover have "diff_walk env (map_of old k) (map_of new k) [k] 1 \<noteq> []"
    using assms by (simp add: diff_walk_leaf leaf_diff_def)
  ultimately have "diff_leaves env old new \<noteq> []" by (auto simp: diff_leaves_def)
  moreover have "diff_leaves env old new = diff_leaves env new old"
    by (simp add: diff_leaves_def both_keys_commute[of old] diff_walk_commute[of env "map_of old _"])
  moreover have "diff_leaves env old old = []" by (simp add: diff_leaves_def diff_walk_same)
  moreover have "snd (diff_fields env a b) = length (diff_leaves env a b)" for a b by (simp add: diff_fields_def Let_def)
  moreover have "diff_fields env a b = diff_fields env b a" if "diff_leaves env a b = diff_leaves env b a" for a b
    using that by (simp add: diff_fields_def)
  ultimately show ?thesis using diff_fields_Nil[of env] by (simp add: prod_eq_iff)
qed

text \<open>Members that are null count as absent: two versions of different content, and hash, can count as the same.\<close>

lemma null_member_same:
  "diff_fields env [(''a'', JObj [])] [(''a'', JObj [(''b'', JNull)])] = ([], 0)"
proof -
  have keys: "both_keys [(''a'', JObj [])] [(''a'', JObj [(''b'', JNull)])] = [''a'']" "both_keys [] [(''b'', JNull)] = [''b'']"
    by code_simp+
  have "diff_walk env (Some (JObj [])) (Some (JObj [(''b'', JNull)])) p 1 = []" for p
    by (simp add: diff_walk_objects diff_max_depth_def keys diff_walk_leaf leaf_diff_def norm_opt_def norm_def)
  then have "diff_leaves env [(''a'', JObj [])] [(''a'', JObj [(''b'', JNull)])] = []" by (simp add: diff_leaves_def keys)
  then show ?thesis by (simp add: diff_fields_def bt_groups_def)
qed

text \<open>More than twenty changed columns whose names share the text before a dot collapse to that text, no column.\<close>

lemma dotted_columns_collapse:
  assumes "\<And>p. p \<in> set (diff_leaves env old new) \<Longrightarrow> top_key p = t" "20 < length (diff_leaves env old new)"
  shows "fst (diff_fields env old new) = [t]"
proof -
  have "filter (\<lambda>p. top_key p = t) (diff_leaves env old new) = diff_leaves env old new" using assms(1) by (intro filter_True) simp
  moreover have "set (map top_key (diff_leaves env old new)) = set [t]" using assms by (cases "diff_leaves env old new") auto
  then have "sort (remdups (map top_key (diff_leaves env old new))) = [t]" using sort_remdups_set[of _ "[t]"] by simp
  ultimately show ?thesis using assms(2) by (simp add: diff_fields_def Let_def bt_groups_def diff_collapse_at_def)
qed

section \<open>A chain of two snapshots\<close>

text \<open>An environment whose hash is the text itself: the digests below are shorter than sixteen characters.\<close>

definition plain_env :: lineage_env where
  "plain_env = \<lparr>le_text = \<lparr>json_text = (\<lambda>v. case v of JStr s \<Rightarrow> s | _ \<Rightarrow> []), parse_f64 = (\<lambda>_. None), fixed_digits = (\<lambda>_ _. []),
     uppercase = (\<lambda>s. s), lowercase = (\<lambda>s. s), regex_test = (\<lambda>_ _. None), regex_group = (\<lambda>_ _. None)\<rparr>, le_sha256 = (\<lambda>s. s)\<rparr>"

definition flag :: "bool \<Rightarrow> fields" where
  "flag b = [(''n'', JBool b)]"



lemma uids_position_free_witness:
  "mset (map (\<lambda>(u, i, rec). (u, record_hash plain_env rec)) (assign_uids plain_env [(0, flag True), (1, flag False)] ''auto'' [''n''])) =
   mset (map (\<lambda>(u, i, rec). (u, record_hash plain_env rec)) (assign_uids plain_env [(0, flag False), (1, flag True)] ''auto'' [''n'']))"
  by (rule uids_position_free) (simp_all add: add_mset_commute)


lemma changed_field_reported_witness:
  "fst (diff_fields plain_env (flag True) (flag False)) \<noteq> [] \<and> 0 < snd (diff_fields plain_env (flag True) (flag False))"
proof -
  have "norm_opt plain_env (map_of (flag True) ''n'') \<noteq> norm_opt plain_env (map_of (flag False) ''n'')"
    by (simp add: flag_def norm_opt_def norm_def)
  moreover have "\<not> (\<exists>om nm. map_of (flag True) ''n'' = Some (JObj om) \<and> map_of (flag False) ''n'' = Some (JObj nm))" by (simp add: flag_def)
  ultimately show ?thesis using changed_field_reported[of plain_env "flag True" "''n''" "flag False"] by blast
qed

section \<open>Indexing and exponents\<close>

text \<open>\<open>map[key]\<close> is read only where the key is: the walk does not panic.\<close>

lemma walk_indexes_present:
  assumes "records_history env evs s"
  shows "map_of (wk_first_seen s) u \<noteq> None \<longleftrightarrow> map_of (wk_last_version s) u \<noteq> None"
    and "u \<in> fst ` set (wk_last_version s) \<Longrightarrow> map_of (wk_first_seen s) u \<noteq> None \<and> map_of (wk_last_seen s) u \<noteq> None \<and>
      map_of (wk_change_points s) u \<noteq> None \<and> map_of (wk_latest_status s) u \<noteq> None"
proof -
  show "map_of (wk_first_seen s) u \<noteq> None \<longleftrightarrow> map_of (wk_last_version s) u \<noteq> None"
    using assms by (simp add: records_history_def tabled_def)
  assume "u \<in> fst ` set (wk_last_version s)"
  then have "map_of (wk_last_version s) u \<noteq> None" by (simp add: map_of_eq_None_iff)
  then have "appearances u evs \<noteq> []" using assms by (auto simp: records_history_def tabled_def split: if_splits)
  then show "map_of (wk_first_seen s) u \<noteq> None \<and> map_of (wk_last_seen s) u \<noteq> None \<and>
      map_of (wk_change_points s) u \<noteq> None \<and> map_of (wk_latest_status s) u \<noteq> None"
    using assms by (simp add: records_history_def tabled_def del: not_None_eq)
qed

lemma previous_uids_present:
  assumes "snapshots_ok env mode identity wanted chain s" "u \<in> unwrap_or {} (wk_prev_uids s)"
  shows "map_of (wk_last_version s) u \<noteq> None"
  using assms newest_appears[of u env mode identity chain]
  by (auto simp: snapshots_ok_def records_history_def tabled_def unwrap_or_def split: if_splits)

text \<open>The displayed number has no exponent, so the exponent's clean-up never runs on a finite number.\<close>

lemma show_int_plain: "set (show_int i) \<inter> set ''eE'' = {}"
proof -
  have "set (show_nat n) \<inter> set ''eE'' = {}" for n using show_nat_digits[of n] by (auto simp: list_all_iff is_digit_def)
  then show ?thesis by (simp add: show_int_def)
qed

lemma place_point_plain: "set ds \<inter> set ''eE'' = {} \<Longrightarrow> set (place_point ds p) \<inter> set ''eE'' = {}"
  by (auto simp: place_point_def Let_def dest!: in_set_takeD in_set_dropD)

lemma f64_display_plain: "set (f64_display (Fin r)) \<inter> set ''eE'' = {}"
proof -
  obtain m p where d: "shortest_from \<bar>r\<bar> [1..<18] = (m, p)" by fastforce
  show ?thesis using place_point_plain[OF show_int_plain, of m p] unfolding f64_display.simps d Let_def prod.case by simp
qed

lemma clean_exponent_plain: "set s \<inter> set ''eE'' = {} \<Longrightarrow> clean_exponent s = s"
proof -
  assume "set s \<inter> set ''eE'' = {}"
  then have "takeWhile (\<lambda>c. c \<notin> set ''eE'') s = s" by (auto simp: takeWhile_eq_all_conv)
  then show ?thesis unfolding clean_exponent_def Let_def by (simp only: drop_all order_refl list.case)
qed

lemma norm_number_plain:
  "norm_number (Fin r) = (if r = of_int (rat_trunc r) \<and> \<bar>r\<bar> < 9007199254740992 then show_int (rat_trunc r) else f64_display (Fin r))"
  unfolding norm_number_def f64.case clean_exponent_plain[OF f64_display_plain] ..

end
