(* ===== verification/ScheduledProgress.thy ===== *)
theory ScheduledProgress
  imports ScheduledLane
begin

text \<open>
  Progress of the scheduled lane: over a run of passes of \<open>dispatch_due_scheduled\<close>
  (\<open>src/src/local/scheduler/scheduled.rs\<close>) no due workflow starves, because the selection takes the longest overdue
  first and every launched workflow moves behind those that wait.
\<close>

section \<open>A run of passes\<close>


















section \<open>One pass\<close>









section \<open>No starvation\<close>






end
