(* ===== verification/CrawlFetch.thy ===== *)
theory CrawlFetch
  imports Robots F64 UrlGuard
begin

text \<open>
  One page of the crawler (\<open>src/src/crawl_shard/mod.rs\<close>): scope, the session it replays, the pace per host, the
  HTTP lane, the recognition of refusals and documents, and the escalation to the browser.  The URL parser, the
  HTTP client, the browser, the page extractor and the document sidecar are arguments.
\<close>

section \<open>Refusals\<close>

definition rate_limit_statuses :: "nat list" where
  "rate_limit_statuses = [429]"

definition block_statuses :: "nat list" where
  "block_statuses = [401, 403, 407, 429, 451]"

definition consec_block_abort :: nat where
  "consec_block_abort = 3"

definition retry_after_max_s :: nat where
  "retry_after_max_s = 3600"

definition challenge_markers :: "string list" where
  "challenge_markers =
     [''just a moment'', ''checking your browser'', ''cf-browser-verification'', ''cf_chl_opt'',
      ''/cdn-cgi/challenge-platform'', ''captcha-delivery.com'', ''g-recaptcha'', ''h-captcha'', ''hcaptcha.com'',
      ''px-captcha'', ''are you a robot'', ''enable javascript and cookies to continue'', ''access denied'',
      ''request unsuccessful. incapsula'']"

definition challenge_scan_chars :: nat where
  "challenge_scan_chars = 20000"

text \<open>\<open>lower\<close> is \<open>char::to_lowercase\<close> of every character of a text.\<close>

definition classify_block :: "(string \<Rightarrow> string) \<Rightarrow> nat option \<Rightarrow> string \<Rightarrow> string option" where
  "classify_block lower status body =
     (if (case status of Some s \<Rightarrow> s \<in> set rate_limit_statuses | None \<Rightarrow> False) then Some ''rate_limited''
      else if (case status of Some s \<Rightarrow> s \<in> set block_statuses | None \<Rightarrow> False) then Some ''forbidden''
      else if body \<noteq> [] \<and>
        (let low = lower (concat (take challenge_scan_chars (utf8_chars body)))
         in list_ex (\<lambda>m. contains_str low m) challenge_markers) then Some ''challenge''
      else None)"

text \<open>\<open>parse::<u32>\<close> of the header, clamped.\<close>

definition parse_seconds :: "string \<Rightarrow> nat option" where
  "parse_seconds s =
     (case (case s of CHR ''+'' # r \<Rightarrow> parse_digits r | _ \<Rightarrow> parse_digits s) of
        Some n \<Rightarrow> if n < 2 ^ 32 then Some (nat n) else None
      | None \<Rightarrow> None)"

definition parse_retry_after :: "string option \<Rightarrow> nat option" where
  "parse_retry_after v = map_option (\<lambda>s. min s retry_after_max_s) (Option.bind v (\<lambda>s. parse_seconds (trim s)))"

section \<open>Addresses and scope\<close>

text \<open>What the crawler reads of a parsed URL; \<open>up_text\<close> is its text without the fragment.\<close>

record url_parts =
  up_scheme :: string
  up_host :: "string option"
  up_path :: string
  up_query :: "string option"
  up_text :: string

type_synonym url_parser = "string \<Rightarrow> url_parts option"

definition host_of :: "url_parser \<Rightarrow> string \<Rightarrow> string" where
  "host_of parse url = unwrap_or [] (Option.bind (parse url) (\<lambda>u. map_option ascii_lower (up_host u)))"

definition registrable :: "string \<Rightarrow> string" where
  "registrable host =
     (let labels = split_byte (CHR ''.'') host
      in if 2 \<le> length labels then join_with ''.'' (drop (length labels - 2) labels) else host)"

definition normalize_url :: "url_parser \<Rightarrow> string \<Rightarrow> string" where
  "normalize_url parse raw = (case parse raw of Some u \<Rightarrow> up_text u | None \<Rightarrow> trim raw)"

text \<open>The page's own settings; the filters are compiled expressions, as predicates.\<close>

record crawl_config =
  seed_host :: string
  seed_reg :: string
  same_domain :: bool
  allow_subdomains :: bool
  include_res :: "(string \<Rightarrow> bool) list"
  exclude_res :: "(string \<Rightarrow> bool) list"
  cfg_max_depth :: int
  page_budget :: int
  delay_ms :: nat
  respect_robots :: bool
  extract_mode :: string
  render_mode :: string
  ocr_mode :: string
  browser_available :: bool
  want_thumbnails :: bool

definition under_domain :: "string \<Rightarrow> string \<Rightarrow> bool" where
  "under_domain host domain \<longleftrightarrow> host = domain \<or> ends_with host (CHR ''.'' # domain)"

definition in_domain_scope :: "url_parser \<Rightarrow> crawl_config \<Rightarrow> string \<Rightarrow> bool" where
  "in_domain_scope parse cfg url \<longleftrightarrow>
     (let h = host_of parse url
      in h \<noteq> [] \<and>
         (\<not> same_domain cfg \<or>
          (if allow_subdomains cfg then h = seed_host cfg \<or> under_domain h (seed_reg cfg) else h = seed_host cfg)))"

definition filter_path :: "url_parser \<Rightarrow> string \<Rightarrow> string" where
  "filter_path parse url =
     (case parse url of
        Some u \<Rightarrow> (case up_query u of Some q \<Rightarrow> if q \<noteq> [] then up_path u @ ''?'' @ q else up_path u | None \<Rightarrow> up_path u)
      | None \<Rightarrow> ''/'')"

definition passes_path_filters :: "url_parser \<Rightarrow> crawl_config \<Rightarrow> string \<Rightarrow> bool" where
  "passes_path_filters parse cfg url \<longleftrightarrow>
     (let path = filter_path parse url
      in \<not> list_ex (\<lambda>re. re path) (exclude_res cfg) \<and> (include_res cfg = [] \<or> list_ex (\<lambda>re. re path) (include_res cfg)))"

section \<open>The session\<close>

record shard_cookie =
  sc_name :: string
  sc_value :: string
  sc_domain :: string
  sc_path :: string
  sc_expires :: rat
  sc_http_only :: bool
  sc_secure :: bool
  sc_same_site :: "string option"

record crawl_auth =
  ca_cookies :: "shard_cookie list"
  ca_local_storage :: "(string \<times> string) list"
  ca_session_storage :: "(string \<times> string) list"
  ca_headers :: "(string \<times> string) list"
  ca_domain :: string
  ca_user_agent :: "string option"

definition no_auth :: crawl_auth where
  "no_auth = \<lparr>ca_cookies = [], ca_local_storage = [], ca_session_storage = [], ca_headers = [], ca_domain = [], ca_user_agent = None\<rparr>"

definition auth_is_empty :: "crawl_auth \<Rightarrow> bool" where
  "auth_is_empty a \<longleftrightarrow> ca_cookies a = [] \<and> ca_local_storage a = [] \<and> ca_session_storage a = [] \<and> ca_headers a = []"

definition has_storage :: "crawl_auth \<Rightarrow> bool" where
  "has_storage a \<longleftrightarrow> ca_local_storage a \<noteq> [] \<or> ca_session_storage a \<noteq> []"

definition host_in_domain :: "url_parser \<Rightarrow> crawl_auth \<Rightarrow> string \<Rightarrow> bool" where
  "host_in_domain parse a url \<longleftrightarrow>
     ca_domain a \<noteq> [] \<and>
     (case Option.bind (parse url) up_host of None \<Rightarrow> False | Some h \<Rightarrow> under_domain (ascii_lower h) (ca_domain a))"

definition header_replay_allowed :: "url_parser \<Rightarrow> crawl_auth \<Rightarrow> string \<Rightarrow> bool" where
  "header_replay_allowed parse a url \<longleftrightarrow> ca_headers a \<noteq> [] \<and> starts_with url ''https://'' \<and> host_in_domain parse a url"

definition cookie_matches :: "url_parser \<Rightarrow> string \<Rightarrow> shard_cookie \<Rightarrow> bool" where
  "cookie_matches parse url c \<longleftrightarrow>
     sc_domain c \<noteq> [] \<and>
     (case parse url of
        None \<Rightarrow> False
      | Some u \<Rightarrow>
          (case up_host u of
             None \<Rightarrow> False
           | Some h \<Rightarrow>
               under_domain (ascii_lower h) (sc_domain c) \<and>
               (sc_path c = [] \<or> sc_path c = ''/'' \<or> starts_with (up_path u) (sc_path c)) \<and>
               (\<not> sc_secure c \<or> up_scheme u = ''https'')))"

definition cookie_header_for :: "url_parser \<Rightarrow> string \<Rightarrow> shard_cookie list \<Rightarrow> string option" where
  "cookie_header_for parse url cookies =
     (let pairs = map (\<lambda>c. sc_name c @ ''='' @ sc_value c) (filter (cookie_matches parse url) cookies)
      in if pairs = [] then None else Some (join_with ''; '' pairs))"

text \<open>Reading the session from the stored blob.\<close>

fun num_f64 :: "json \<Rightarrow> rat option" where
  "num_f64 (JInt n) = Some (i64_to_f64 n)"
| "num_f64 (JFloat r) = Some r"
| "num_f64 _ = None"

definition strip_dots :: "string \<Rightarrow> string" where
  "strip_dots s = trim_start_matches (\<lambda>c. c = CHR ''.'') s"

definition cookie_of :: "json \<Rightarrow> shard_cookie option" where
  "cookie_of c =
     (case (get_str ''name'' c, get_str ''value'' c) of
        (Some n, Some v) \<Rightarrow>
          Some \<lparr>sc_name = n, sc_value = v, sc_domain = ascii_lower (strip_dots (unwrap_or [] (get_str ''domain'' c))),
             sc_path = unwrap_or ''/'' (get_str ''path'' c),
             sc_expires = unwrap_or (- 1) (Option.bind (json_get ''expires'' c) num_f64),
             sc_http_only = unwrap_or False (get_bool ''httpOnly'' c), sc_secure = unwrap_or False (get_bool ''secure'' c),
             sc_same_site = get_str ''sameSite'' c\<rparr>
      | _ \<Rightarrow> None)"

definition string_members :: "json option \<Rightarrow> (string \<times> string) list" where
  "string_members v =
     (case Option.bind v as_object of
        Some ms \<Rightarrow> List.map_filter (\<lambda>(k, x). map_option (Pair k) (as_str x)) ms | None \<Rightarrow> [])"

definition merge_item :: "json \<Rightarrow> (string \<times> string) list \<Rightarrow> (string \<times> string) list" where
  "merge_item item m =
     (case (get_str ''name'' item, get_str ''value'' item) of
        (Some n, Some v) \<Rightarrow> if map_of m n = None then m @ [(n, v)] else m | _ \<Rightarrow> m)"

definition merge_origin :: "json \<Rightarrow> (string \<times> string) list \<Rightarrow> (string \<times> string) list" where
  "merge_origin origin m = (case get_array ''localStorage'' origin of Some items \<Rightarrow> fold merge_item items m | None \<Rightarrow> m)"

text \<open>\<open>min_by_key\<close>: the first of the shortest.\<close>

fun shortest :: "string list \<Rightarrow> string option" where
  "shortest [] = None"
| "shortest (d # ds) = (case shortest ds of Some e \<Rightarrow> if length e < length d then Some e else Some d | None \<Rightarrow> Some d)"

definition anchor_domain :: "string \<Rightarrow> shard_cookie list \<Rightarrow> string" where
  "anchor_domain auth_domain cookies =
     (if auth_domain \<noteq> [] then ascii_lower (strip_dots auth_domain)
      else unwrap_or [] (shortest (filter (\<lambda>d. d \<noteq> []) (map sc_domain cookies))))"

definition auth_from_session :: "json option \<Rightarrow> string \<Rightarrow> crawl_auth" where
  "auth_from_session session_state auth_domain =
     (case session_state of
        None \<Rightarrow> no_auth
      | Some ss \<Rightarrow>
          if ss = JNull then no_auth
          else (let cookies = List.map_filter cookie_of (unwrap_or [] (get_array ''cookies'' ss));
                    local = string_members (json_get ''localStorage'' ss);
                    local = (case get_array ''origins'' ss of Some os \<Rightarrow> fold merge_origin os local | None \<Rightarrow> local);
                    headers = fold (\<lambda>(k, v). AList.update (ascii_lower k) v) (string_members (json_get ''headers'' ss)) [];
                    agent = Option.bind (json_get ''fingerprint'' ss) (\<lambda>fp.
                      Option.bind (case json_get ''userAgent'' fp of Some v \<Rightarrow> Some v | None \<Rightarrow> json_get ''user_agent'' fp) (\<lambda>v.
                      Option.bind (as_str v) (\<lambda>s. if s \<noteq> [] then Some s else None)))
                in \<lparr>ca_cookies = cookies, ca_local_storage = local,
                    ca_session_storage = string_members (json_get ''sessionStorage'' ss), ca_headers = headers,
                    ca_domain = anchor_domain auth_domain cookies, ca_user_agent = agent\<rparr>))"

section \<open>The pace per host\<close>

definition host_slot_prune_at :: nat where
  "host_slot_prune_at = 512"

definition slot_key :: "url_parser \<Rightarrow> string \<Rightarrow> string" where
  "slot_key parse url = unwrap_or [] (Option.bind (parse url) (\<lambda>u. map_option (\<lambda>h. registrable (ascii_lower h)) (up_host u)))"

text \<open>The instant the request may start, with the table of the next free instants.\<close>

definition claim_slot :: "string \<Rightarrow> nat \<Rightarrow> nat \<Rightarrow> (string \<times> nat) list \<Rightarrow> nat \<times> (string \<times> nat) list" where
  "claim_slot key delay now slots =
     (let start = (case map_of slots key of Some t \<Rightarrow> max t now | None \<Rightarrow> now);
          slots' = AList.update key (start + delay) slots
      in (start, if host_slot_prune_at < length slots' then filter (\<lambda>(k, t). now < t \<or> k = key) slots' else slots'))"

definition claim_host_slot :: "url_parser \<Rightarrow> string \<Rightarrow> nat \<Rightarrow> nat \<Rightarrow> (string \<times> nat) list \<Rightarrow> nat \<times> (string \<times> nat) list" where
  "claim_host_slot parse url delay now slots =
     (if delay = 0 then (now, slots) else claim_slot (slot_key parse url) delay now slots)"

section \<open>The HTTP lane\<close>

record http_request =
  rq_url :: string
  rq_headers :: "(string \<times> string) list"

record fetched =
  ft_status :: nat
  ft_final_url :: string
  ft_content_type :: string
  ft_text :: "string option"
  ft_raw :: "string option"
  ft_retry_after :: "nat option"

definition fetch_request :: "url_parser \<Rightarrow> string \<Rightarrow> crawl_auth \<Rightarrow> http_request" where
  "fetch_request parse url auth =
     \<lparr>rq_url = url,
      rq_headers =
        [(''Accept'', ''text/html,application/xhtml+xml,application/xml;q=0.9,*/*;q=0.8''), (''Accept-Language'', ''en-US,en;q=0.9'')] @
        (case cookie_header_for parse url (ca_cookies auth) of Some c \<Rightarrow> [(''cookie'', c)] | None \<Rightarrow> []) @
        (case ca_user_agent auth of Some ua \<Rightarrow> [(''user-agent'', ua)] | None \<Rightarrow> []) @
        (if header_replay_allowed parse auth url then ca_headers auth else [])\<rparr>"

text \<open>
  What leaves with one fetch: the client follows the addresses a server redirects it to, in order, while fewer than ten
  requests were made and the redirect policy of \<open>build_http_client\<close> lets it; \<open>n\<close> counts the requests made. \<open>carry\<close> is
  the client's own choice of what the next request keeps of the headers of the one before, given both addresses.
\<close>

fun client_requests ::
    "(string \<Rightarrow> parsed_url option) \<Rightarrow> (string \<Rightarrow> string \<Rightarrow> (string \<times> string) list \<Rightarrow> (string \<times> string) list) \<Rightarrow> string list \<Rightarrow> nat
      \<Rightarrow> http_request \<Rightarrow> http_request list" where
  "client_requests parse carry [] n q = [q]"
| "client_requests parse carry (to # locs) n q =
     (if 10 \<le> n then [q]
      else if is_redirect_target_safe parse to
      then q # client_requests parse carry locs (Suc n) \<lparr>rq_url = to, rq_headers = carry (rq_url q) to (rq_headers q)\<rparr>
      else [q])"

text \<open>Bodies are read in chunks against a budget; the advertised length only refuses early.\<close>

datatype body_error = TooLarge nat nat | Transport string

definition body_error_text :: "body_error \<Rightarrow> string" where
  "body_error_text e =
     (case e of
        TooLarge limit observed \<Rightarrow> ''response body too large: '' @ show_nat observed @ '' bytes exceeds the '' @ show_nat limit @ ''-byte budget''
      | Transport s \<Rightarrow> ''read body failed: '' @ s)"

fun read_chunks :: "nat \<Rightarrow> string \<Rightarrow> (string + string) list \<Rightarrow> body_error + string" where
  "read_chunks limit out [] = Inr out"
| "read_chunks limit out (Inl e # _) = Inl (Transport e)"
| "read_chunks limit out (Inr chunk # rest) =
     (if limit < length out + length chunk then Inl (TooLarge limit (length out + length chunk))
      else read_chunks limit (out @ chunk) rest)"

text \<open>What is answered: the status, the final address, the headers read, the body's chunks and its decoding as text.\<close>

record http_answer =
  an_status :: nat
  an_final_url :: string
  an_retry_after :: "string option"
  an_content_type :: "string option"
  an_length :: "nat option"
  an_chunks :: "(string + string) list"
  an_decode :: "string \<Rightarrow> body_error + string"

definition html_max :: nat where
  "html_max = 10 * 1024 * 1024"

definition doc_max :: nat where
  "doc_max = 32 * 1024 * 1024"

definition read_bytes_capped :: "http_answer \<Rightarrow> nat \<Rightarrow> body_error + string" where
  "read_bytes_capped a limit =
     (case an_length a of
        Some len \<Rightarrow> if limit < len then Inl (TooLarge limit len) else read_chunks limit [] (an_chunks a)
      | None \<Rightarrow> read_chunks limit [] (an_chunks a))"

definition read_text_capped :: "http_answer \<Rightarrow> nat \<Rightarrow> body_error + string" where
  "read_text_capped a limit = (case read_bytes_capped a limit of Inl e \<Rightarrow> Inl e | Inr bytes \<Rightarrow> an_decode a bytes)"

definition texty :: "string \<Rightarrow> bool" where
  "texty ct \<longleftrightarrow> ct = [] \<or> contains_str ct ''html'' \<or> contains_str ct ''xml'' \<or> starts_with ct ''text/'' \<or>
     contains_str ct ''json'' \<or> contains_str ct ''csv''"

definition text_limit :: "string \<Rightarrow> nat" where
  "text_limit ct = (if contains_str ct ''json'' \<or> contains_str ct ''csv'' \<or> contains_str ct ''tab-separated'' then doc_max else html_max)"

definition http_fetch :: "url_parser \<Rightarrow> (http_request \<Rightarrow> string + http_answer) \<Rightarrow> string \<Rightarrow> crawl_auth \<Rightarrow> string + fetched" where
  "http_fetch parse send url auth =
     (case send (fetch_request parse url auth) of
        Inl e \<Rightarrow> Inl (''fetch failed: '' @ e)
      | Inr a \<Rightarrow>
          (let ct = ascii_lower (unwrap_or [] (an_content_type a));
               base = \<lparr>ft_status = an_status a, ft_final_url = an_final_url a, ft_content_type = ct, ft_text = None, ft_raw = None,
                       ft_retry_after = parse_retry_after (an_retry_after a)\<rparr>
           in if texty ct
              then (case read_text_capped a (text_limit ct) of Inl e \<Rightarrow> Inl (body_error_text e) | Inr t \<Rightarrow> Inr (base\<lparr>ft_text := Some t\<rparr>))
              else (case read_bytes_capped a doc_max of Inl e \<Rightarrow> Inl (body_error_text e) | Inr b \<Rightarrow> Inr (base\<lparr>ft_raw := Some b\<rparr>))))"

section \<open>Documents\<close>

definition bytes :: "nat list \<Rightarrow> string" where
  "bytes ns = map char_of ns"

definition before :: "char \<Rightarrow> string \<Rightarrow> string" where
  "before c s = takeWhile (\<lambda>x. x \<noteq> c) s"

definition after_last :: "char \<Rightarrow> string \<Rightarrow> string" where
  "after_last c s = rev (takeWhile (\<lambda>x. x \<noteq> c) (rev s))"

definition is_image_head :: "string \<Rightarrow> bool" where
  "is_image_head head \<longleftrightarrow>
     list_ex (\<lambda>p. starts_with head (bytes p))
       [[137, 80, 78, 71], [255, 216, 255], [71, 73, 70, 56], [66, 77], [73, 73, 42, 0], [77, 77, 0, 42]] \<or>
     (starts_with head ''RIFF'' \<and> 12 \<le> length head \<and> take 4 (drop 8 head) = ''WEBP'')"

definition office_type :: "string \<Rightarrow> bool" where
  "office_type c \<longleftrightarrow> contains_str c ''openxmlformats-officedocument'' \<or> c = ''application/msword'' \<or>
     c = ''application/vnd.ms-excel'' \<or> c = ''application/vnd.ms-powerpoint''"

definition doc_suffixes :: "string list" where
  "doc_suffixes = [''.pdf'', ''.docx'', ''.xlsx'', ''.pptx'', ''.doc'', ''.xls'', ''.ppt'', ''.json'', ''.csv'', ''.tsv'',
     ''.png'', ''.jpg'', ''.jpeg'', ''.webp'', ''.gif'', ''.bmp'', ''.tif'', ''.tiff'']"

definition is_nonhtml :: "string \<Rightarrow> string \<Rightarrow> string \<Rightarrow> bool" where
  "is_nonhtml content_type head url \<longleftrightarrow>
     (let c = ascii_lower (trim (before (CHR '';'') content_type)); u = ascii_lower (before (CHR ''?'') url)
      in starts_with head ''%PDF'' \<or> is_image_head head \<or>
         (starts_with head (''PK'' @ bytes [3, 4]) \<and>
            (office_type c \<or> ends_with u ''.docx'' \<or> ends_with u ''.xlsx'' \<or> ends_with u ''.pptx'')) \<or>
         c = ''application/pdf'' \<or> office_type c \<or> starts_with c ''image/'' \<or>
         c = ''application/json'' \<or> c = ''text/json'' \<or> ends_with c ''+json'' \<or>
         c = ''text/csv'' \<or> c = ''application/csv'' \<or> c = ''text/tab-separated-values'' \<or>
         ((c = [] \<or> c = ''application/octet-stream'') \<and> list_ex (ends_with u) doc_suffixes))"

fun first_of_lines :: "nat \<Rightarrow> string list \<Rightarrow> string" where
  "first_of_lines n [] = []"
| "first_of_lines n (l # ls) =
     (let s = trim (trim_start_matches (\<lambda>c. c \<in> set ''#>-* '') (trim l))
      in if s \<noteq> [] then concat (take n (utf8_chars s)) else first_of_lines n ls)"

definition first_line :: "string \<Rightarrow> nat \<Rightarrow> string" where
  "first_line t limit = first_of_lines limit (lines t)"

text \<open>\<open>split_whitespace().count()\<close>: the runs of characters that are no white space.\<close>

fun count_words :: "bool \<Rightarrow> string list \<Rightarrow> nat" where
  "count_words inside [] = 0"
| "count_words inside (c # cs) =
     (if c \<in> set ws_seqs then count_words False cs else (if inside then 0 else 1) + count_words True cs)"

definition word_count :: "string \<Rightarrow> nat" where
  "word_count s = count_words False (utf8_chars s)"

definition tag_row :: "string \<Rightarrow> json \<Rightarrow> json \<Rightarrow> json" where
  "tag_row key v r = (case r of JObj ms \<Rightarrow> JObj (map_insert key v ms) | _ \<Rightarrow> r)"

definition tag_content_kind :: "string \<Rightarrow> json list \<Rightarrow> json list" where
  "tag_content_kind kind rows = map (tag_row ''content_kind'' (JStr kind)) rows"

definition doc_stub_row ::
    "string \<Rightarrow> int \<Rightarrow> string \<Rightarrow> nat \<Rightarrow> string \<Rightarrow> bool \<Rightarrow> string \<Rightarrow> string \<times> json list \<times> string \<times> string" where
  "doc_stub_row url depth content_type content_bytes now captured reason =
     (let seg = after_last (CHR ''/'') url; title = (if seg \<noteq> [] then seg else url);
          k = after_last (CHR ''/'') (before (CHR '';'') content_type); kind = (if k \<noteq> [] then k else ''document'')
      in (title,
          [JObj [(''url'', JStr url), (''title'', JStr title), (''markdown'', JStr []), (''word_count'', JInt 0), (''depth'', JInt depth),
             (''fetched_at'', JStr now), (''content_kind'', JStr kind), (''content_bytes'', JInt (int content_bytes)),
             (''extraction_skipped'', JStr reason), (''captured'', JBool captured)]],
          kind, ''doc''))"

definition schema_rows :: "json \<Rightarrow> string \<Rightarrow> string \<Rightarrow> json list" where
  "schema_rows doc url kind =
     List.map_filter (\<lambda>r. map_option (\<lambda>ms.
        JObj (map_insert ''content_kind'' (JStr kind)
          (if map_of ms ''_source_url'' = None then ms @ [(''_source_url'', JStr url)] else ms))) (as_object r))
       (unwrap_or [] (get_array ''records'' doc))"

definition rows_from_doc :: "json \<Rightarrow> string \<Rightarrow> int \<Rightarrow> string \<Rightarrow> string \<Rightarrow> string \<times> json list \<times> string \<times> string" where
  "rows_from_doc doc url depth now mode =
     (let kind = unwrap_or ''unknown'' (Option.bind (case json_get ''content_kind'' doc of Some v \<Rightarrow> Some v | None \<Rightarrow> json_get ''kind'' doc) as_str);
          md = (case get_str ''markdown'' doc of Some s \<Rightarrow> s | None \<Rightarrow> unwrap_or [] (get_str ''text'' doc));
          title = unwrap_or (first_line md 200) (Option.bind (json_get ''meta'' doc) (get_str ''title''));
          records = (if mode = ''schema'' then schema_rows doc url kind else []);
          row = [(''url'', JStr url), (''title'', JStr title), (''markdown'', JStr md), (''word_count'', JInt (int (word_count md))),
                 (''depth'', JInt depth), (''fetched_at'', JStr now), (''content_kind'', JStr kind)];
          conf = Option.bind (json_get ''ocr'' doc) (json_get ''confidence'');
          row = (case conf of Some v \<Rightarrow> if v \<noteq> JNull then map_insert ''ocr_confidence'' v row else row | None \<Rightarrow> row)
      in (title, if records \<noteq> [] then records else [JObj row], kind, if kind = ''ocr'' then ''ocr'' else ''doc''))"

section \<open>One page\<close>

record page_link =
  pl_url :: string
  pl_text :: string

record page_extract =
  ex_title :: string
  ex_rows :: "json list"
  ex_links :: "page_link list"
  ex_favicon :: "string option"
  ex_text_len :: nat

record page_data =
  pd_title :: string
  pd_rows :: "json list"
  pd_links :: "page_link list"
  pd_favicon :: "string option"
  pd_content_kind :: string
  pd_lane :: string
  pd_screenshot :: "string option"
  pd_file :: "json option"

record block_info =
  bi_kind :: string
  bi_status :: "nat option"
  bi_retry_after :: "nat option"

datatype page_outcome =
    Extracted page_data
  | NeedsBrowser "string option" "block_info option"
  | Blocked block_info
  | Failed string

record frontier_item =
  fi_url :: string
  fi_depth :: int

record resolved =
  ro_url :: string
  ro_depth :: int
  ro_outcome :: page_outcome
  ro_escalated :: bool
  ro_fetched_at :: string

text \<open>
  The foreign parts of a fetch: the client, the browser when there is one (the rendered address, its text and a
  picture), the page extractor with its time budget, the document sidecar and the artifact store.
\<close>

record page_env =
  pe_parse :: url_parser
  pe_lower :: "string \<Rightarrow> string"
  pe_send :: "http_request \<Rightarrow> string + http_answer"
  pe_browser :: "(string \<Rightarrow> bool \<Rightarrow> (string \<times> string \<times> string option) option) option"
  pe_extract :: "string \<Rightarrow> string \<Rightarrow> int \<Rightarrow> string \<Rightarrow> string + page_extract"
  pe_doc_configured :: bool
  pe_doc_extract :: "string \<Rightarrow> string \<Rightarrow> string \<Rightarrow> string \<Rightarrow> json option"
  pe_capture :: "string \<Rightarrow> string \<Rightarrow> string \<Rightarrow> json option"
  pe_lossy :: "string \<Rightarrow> string"
  pe_now :: string

definition min_text_for_http :: nat where
  "min_text_for_http = 200"

definition html_page :: "page_extract \<Rightarrow> string \<Rightarrow> string option \<Rightarrow> page_outcome" where
  "html_page ex lane shot = Extracted
     \<lparr>pd_title = ex_title ex, pd_rows = tag_content_kind ''html'' (ex_rows ex), pd_links = ex_links ex, pd_favicon = ex_favicon ex,
      pd_content_kind = ''html'', pd_lane = lane, pd_screenshot = shot, pd_file = None\<rparr>"

definition may_browser :: "crawl_config \<Rightarrow> bool" where
  "may_browser cfg \<longleftrightarrow> browser_available cfg \<and> render_mode cfg \<noteq> ''http''"

text \<open>An answer of 400 and above: refused, or failed.\<close>

definition refused_or_failed :: "page_env \<Rightarrow> crawl_config \<Rightarrow> fetched \<Rightarrow> page_outcome" where
  "refused_or_failed env cfg f =
     (case classify_block (pe_lower env) (Some (ft_status f)) [] of
        Some kind \<Rightarrow>
          (let info = \<lparr>bi_kind = kind, bi_status = Some (ft_status f), bi_retry_after = ft_retry_after f\<rparr>
           in if may_browser cfg then NeedsBrowser None (Some info) else Blocked info)
      | None \<Rightarrow> if may_browser cfg then NeedsBrowser None None else Failed (''HTTP '' @ show_nat (ft_status f)))"

definition body_bytes :: "fetched \<Rightarrow> string" where
  "body_bytes f = (case ft_raw f of Some raw \<Rightarrow> raw | None \<Rightarrow> unwrap_or [] (ft_text f))"

definition document_page :: "page_env \<Rightarrow> crawl_config \<Rightarrow> int \<Rightarrow> fetched \<Rightarrow> page_outcome" where
  "document_page env cfg depth f =
     (let doc = (if pe_doc_configured env
                 then pe_doc_extract env (body_bytes f) (ft_content_type f) (ft_final_url f) (ocr_mode cfg) else None);
          stored = pe_capture env (ft_final_url f) (body_bytes f) (ft_content_type f);
          (title, rows, kind, lane) =
            (case doc of
               Some d \<Rightarrow> rows_from_doc d (ft_final_url f) depth (pe_now env) (extract_mode cfg)
             | None \<Rightarrow> doc_stub_row (ft_final_url f) depth (ft_content_type f) (length (body_bytes f)) (pe_now env) (stored \<noteq> None)
                         (if pe_doc_configured env then ''doc-extract failed'' else ''doc-extract not configured''));
          rows = (case stored of Some v \<Rightarrow> map (tag_row ''file'' v) rows | None \<Rightarrow> rows)
      in Extracted \<lparr>pd_title = title, pd_rows = rows, pd_links = [], pd_favicon = None, pd_content_kind = kind, pd_lane = lane,
           pd_screenshot = None, pd_file = stored\<rparr>)"

definition body_text :: "page_env \<Rightarrow> fetched \<Rightarrow> string" where
  "body_text env f = (case ft_text f of Some t \<Rightarrow> t | None \<Rightarrow> pe_lossy env (unwrap_or [] (ft_raw f)))"

definition http_page :: "page_env \<Rightarrow> crawl_config \<Rightarrow> int \<Rightarrow> fetched \<Rightarrow> page_outcome" where
  "http_page env cfg depth f =
     (let html = body_text env f;
          wall = (if may_browser cfg then None else classify_block (pe_lower env) None html);
          keep = render_mode cfg = ''auto'' \<and> browser_available cfg
      in case wall of
           Some kind \<Rightarrow> Blocked \<lparr>bi_kind = kind, bi_status = Some (ft_status f), bi_retry_after = ft_retry_after f\<rparr>
         | None \<Rightarrow>
             if render_mode cfg = ''browser'' \<and> browser_available cfg then NeedsBrowser (Some html) None
             else (case pe_extract env html (ft_final_url f) depth (pe_now env) of
                     Inl reason \<Rightarrow> Failed reason
                   | Inr ex \<Rightarrow> if keep \<and> ex_text_len ex < min_text_for_http then NeedsBrowser (Some html) None
                              else html_page ex ''http'' None))"

definition fetch_and_extract :: "page_env \<Rightarrow> crawl_config \<Rightarrow> crawl_auth \<Rightarrow> frontier_item \<Rightarrow> page_outcome" where
  "fetch_and_extract env cfg auth item =
     (case http_fetch (pe_parse env) (pe_send env) (fi_url item) auth of
        Inl reason \<Rightarrow> if may_browser cfg then NeedsBrowser None None else Failed reason
      | Inr f \<Rightarrow>
          if 400 \<le> ft_status f then refused_or_failed env cfg f
          else if is_nonhtml (ft_content_type f) (take 64 (body_bytes f)) (ft_final_url f)
          then document_page env cfg (fi_depth item) f
          else http_page env cfg (fi_depth item) f)"

text \<open>The picture of a rendered page without text is read as a document.\<close>

definition ocr_page :: "page_env \<Rightarrow> crawl_config \<Rightarrow> int \<Rightarrow> string \<Rightarrow> page_extract \<Rightarrow> string option \<Rightarrow> page_outcome option" where
  "ocr_page env cfg depth final_url ex shot =
     (if ocr_mode cfg \<noteq> ''off'' \<and> pe_doc_configured env \<and> ex_text_len ex < min_text_for_http
      then Option.bind shot (\<lambda>png.
           Option.bind (pe_doc_extract env png ''image/jpeg'' final_url (ocr_mode cfg)) (\<lambda>doc.
             if (case get_str ''text'' doc of Some s \<Rightarrow> trim s \<noteq> [] | None \<Rightarrow> False)
             then (let (title, rows, kind, lane) = rows_from_doc doc final_url depth (pe_now env) (extract_mode cfg)
                   in Some (Extracted \<lparr>pd_title = title, pd_rows = rows, pd_links = ex_links ex, pd_favicon = ex_favicon ex,
                        pd_content_kind = kind, pd_lane = ''ocr'',
                        pd_screenshot = (if want_thumbnails cfg then Some png else None), pd_file = None\<rparr>))
             else None))
      else None)"

definition rendered_page ::
    "page_env \<Rightarrow> crawl_config \<Rightarrow> int \<Rightarrow> block_info option \<Rightarrow> string \<times> string \<times> string option \<Rightarrow> page_outcome" where
  "rendered_page env cfg depth blocked_fallback = (\<lambda>(final_url, html, shot).
     (case classify_block (pe_lower env) None html of
        Some kind \<Rightarrow> Blocked (unwrap_or \<lparr>bi_kind = kind, bi_status = None, bi_retry_after = None\<rparr> blocked_fallback)
      | None \<Rightarrow>
          (case pe_extract env html final_url depth (pe_now env) of
             Inl reason \<Rightarrow> Failed reason
           | Inr ex \<Rightarrow> unwrap_or (html_page ex ''browser'' (if want_thumbnails cfg then shot else None))
                        (ocr_page env cfg depth final_url ex shot))))"

definition degraded_page :: "page_env \<Rightarrow> string \<Rightarrow> int \<Rightarrow> string option \<Rightarrow> block_info option \<Rightarrow> page_outcome" where
  "degraded_page env url depth thin_html blocked_fallback =
     (case blocked_fallback of
        Some info \<Rightarrow> Blocked info
      | None \<Rightarrow>
          (case thin_html of
             Some html \<Rightarrow>
               (case pe_extract env html url depth (pe_now env) of
                  Inl reason \<Rightarrow> Failed reason | Inr ex \<Rightarrow> html_page ex ''http'' None)
           | None \<Rightarrow> Failed ''no content (HTTP failed, browser unavailable)''))"

definition resolve_outcome :: "page_env \<Rightarrow> crawl_config \<Rightarrow> string \<Rightarrow> int \<Rightarrow> page_outcome \<Rightarrow> page_outcome" where
  "resolve_outcome env cfg url depth outcome =
     (case outcome of
        NeedsBrowser thin_html blocked_fallback \<Rightarrow>
          (case Option.bind (pe_browser env)
             (\<lambda>render. render url ((ocr_mode cfg \<noteq> ''off'' \<and> pe_doc_configured env) \<or> want_thumbnails cfg)) of
             Some r \<Rightarrow> rendered_page env cfg depth blocked_fallback r
           | None \<Rightarrow> degraded_page env url depth thin_html blocked_fallback)
      | _ \<Rightarrow> outcome)"

definition is_needs_browser :: "page_outcome \<Rightarrow> bool" where
  "is_needs_browser o' = (case o' of NeedsBrowser _ _ \<Rightarrow> True | _ \<Rightarrow> False)"

definition fetch_resolve :: "page_env \<Rightarrow> crawl_config \<Rightarrow> crawl_auth \<Rightarrow> frontier_item \<Rightarrow> resolved" where
  "fetch_resolve env cfg auth item =
     (let out = fetch_and_extract env cfg auth item; escalated = is_needs_browser out
      in \<lparr>ro_url = fi_url item, ro_depth = fi_depth item,
          ro_outcome = (if escalated then resolve_outcome env cfg (fi_url item) (fi_depth item) out else out),
          ro_escalated = escalated, ro_fetched_at = pe_now env\<rparr>)"

section \<open>What leaves with a request\<close>

lemma under_domain_host: "under_domain h d \<longleftrightarrow> h = d \<or> (\<exists>sub. h = sub @ CHR ''.'' # d)"
  by (auto simp: under_domain_def ends_with_iff)

text \<open>The host a request goes to.\<close>

definition request_host :: "url_parser \<Rightarrow> string \<Rightarrow> string option" where
  "request_host parse url = map_option ascii_lower (Option.bind (parse url) up_host)"








text \<open>
  The documented behaviour of the client at a redirect: it keeps headers or drops them, those that carry credentials at
  least when the host changes, and adds at most a referer.
\<close>

definition credential_headers :: "string list" where
  "credential_headers = [''authorization'', ''cookie'', ''cookie2'', ''proxy-authorization'', ''www-authenticate'']"





text \<open>A cookie's path is compared as text, so \<open>/admin\<close> covers \<open>/administrator\<close>; an expired cookie is still sent.\<close>

lemma cookie_path_is_prefix:
  assumes "parse url = Some u" "up_host u = Some h" "under_domain (ascii_lower h) (sc_domain c)" "sc_domain c \<noteq> []" "\<not> sc_secure c"
    "sc_path c = ''/admin''" "up_path u = ''/administrator''"
  shows "cookie_matches parse url c"
  using assms by (simp add: cookie_matches_def starts_with_def)

lemma expired_cookie_sent: "cookie_matches parse url (c\<lparr>sc_expires := e\<rparr>) = cookie_matches parse url c"
  by (simp add: cookie_matches_def split: option.split)

text \<open>Without a domain from the coordinator the anchor is the shortest cookie domain, whoever set it.\<close>

lemma anchor_is_shortest:
  "ca_cookies auth = [c, d] \<Longrightarrow> sc_domain c = ''shop.example.com'' \<Longrightarrow> sc_domain d = ''t.co'' \<Longrightarrow>
     anchor_domain [] (ca_cookies auth) = ''t.co''"
  by (simp add: anchor_domain_def)

lemma headers_follow_tracker:
  assumes "ca_domain auth = ''t.co''" "ca_headers auth \<noteq> []" "parse ''https://t.co/x'' = Some u" "up_host u = Some ''t.co''"
  shows "header_replay_allowed parse auth ''https://t.co/x''"
proof -
  have "ascii_lower ''t.co'' = ''t.co''" "starts_with ''https://t.co/x'' ''https://''" by code_simp+
  then show ?thesis using assms by (simp add: header_replay_allowed_def host_in_domain_def under_domain_def)
qed

section \<open>Bodies\<close>

lemma read_chunks_bound: "read_chunks limit out cs = Inr b \<Longrightarrow> length out \<le> limit \<Longrightarrow> length b \<le> limit"
  by (induction limit out cs rule: read_chunks.induct) (auto split: if_splits)

lemma read_chunks_all: "read_chunks limit out cs = Inr b \<Longrightarrow> \<exists>ds. cs = map Inr ds \<and> b = out @ concat ds"
proof (induction limit out cs rule: read_chunks.induct)
  case (3 limit out c cs)
  then obtain ds where "cs = map Inr ds" "b = (out @ c) @ concat ds" by (auto split: if_splits)
  then show ?case by (intro exI[of _ "c # ds"]) simp
qed simp_all


lemma body_within_budget: "read_bytes_capped a limit = Inr b \<Longrightarrow> length b \<le> limit"
  by (auto simp: read_bytes_capped_def split: option.splits if_splits dest: read_chunks_bound)

section \<open>Refusals are reported or overcome\<close>

lemma resolve_not_needs_browser: "\<not> is_needs_browser (resolve_outcome env cfg url depth out)"
  by (auto simp: resolve_outcome_def rendered_page_def degraded_page_def html_page_def ocr_page_def is_needs_browser_def unwrap_or_def Let_def
      split: page_outcome.splits option.splits sum.splits Option.bind_splits prod.splits if_splits)

lemma fetch_resolve_resolved: "\<not> is_needs_browser (ro_outcome (fetch_resolve env cfg auth item))"
  using resolve_not_needs_browser by (simp add: fetch_resolve_def Let_def)


text \<open>
  A refusal is never banked nor lost: a page the host answered with a refusing status comes out either as blocked,
  with that status and the host's own retry time, or - only where a browser may be tried - as a page a browser
  rendered without a wall, or as the failure to extract such a page.
\<close>

theorem refusal_not_banked:
  assumes "http_fetch (pe_parse env) (pe_send env) (fi_url item) auth = Inr f" "ft_status f \<in> set block_statuses"
  shows "(\<exists>info. ro_outcome (fetch_resolve env cfg auth item) = Blocked info \<and> bi_status info = Some (ft_status f) \<and>
        bi_retry_after info = ft_retry_after f) \<or>
    (may_browser cfg \<and> (\<exists>render shot final_url html. pe_browser env = Some render \<and>
        render (fi_url item) shot = Some (final_url, html) \<and> classify_block (pe_lower env) None (fst html) = None \<and>
        ((\<exists>p. ro_outcome (fetch_resolve env cfg auth item) = Extracted p \<and> pd_lane p \<in> {''browser'', ''ocr''}) \<or>
         (\<exists>reason. ro_outcome (fetch_resolve env cfg auth item) = Failed reason))))"
proof -
  have "classify_block (pe_lower env) (Some (ft_status f)) [] \<noteq> None" using assms(2) by (simp add: classify_block_def)
  then obtain kind where kind: "classify_block (pe_lower env) (Some (ft_status f)) [] = Some kind" by blast
  define info where "info = \<lparr>bi_kind = kind, bi_status = Some (ft_status f), bi_retry_after = ft_retry_after f\<rparr>"
  have "400 \<le> ft_status f" using assms(2) by (auto simp: block_statuses_def)
  then have out: "fetch_and_extract env cfg auth item = (if may_browser cfg then NeedsBrowser None (Some info) else Blocked info)"
    by (simp add: fetch_and_extract_def assms(1) refused_or_failed_def kind info_def)
  have bi: "bi_status info = Some (ft_status f)" "bi_retry_after info = ft_retry_after f" by (simp_all add: info_def)
  show ?thesis
  proof (cases "may_browser cfg")
    case False
    then show ?thesis using bi out by (simp add: fetch_resolve_def Let_def is_needs_browser_def)
  next
    case True
    let ?shot = "(ocr_mode cfg \<noteq> ''off'' \<and> pe_doc_configured env) \<or> want_thumbnails cfg"
    have res: "ro_outcome (fetch_resolve env cfg auth item) =
        (case Option.bind (pe_browser env) (\<lambda>render. render (fi_url item) ?shot) of
           Some r \<Rightarrow> rendered_page env cfg (fi_depth item) (Some info) r | None \<Rightarrow> Blocked info)"
      using True out by (simp add: fetch_resolve_def Let_def is_needs_browser_def resolve_outcome_def degraded_page_def split: option.split)
    show ?thesis
    proof (cases "Option.bind (pe_browser env) (\<lambda>render. render (fi_url item) ?shot)")
      case None
      then show ?thesis using bi by (simp add: res)
    next
      case (Some r)
      obtain final_url html shot where r: "r = (final_url, html, shot)" by (cases r)
      obtain render where render: "pe_browser env = Some render" "render (fi_url item) ?shot = Some (final_url, html, shot)"
        using Some r by (auto simp: bind_eq_Some_conv)
      show ?thesis
      proof (cases "classify_block (pe_lower env) None html")
        case (Some k)
        then show ?thesis using bi \<open>Option.bind _ _ = Some r\<close> by (simp add: res r rendered_page_def)
      next
        case None
        have "(\<exists>p. rendered_page env cfg (fi_depth item) (Some info) r = Extracted p \<and> pd_lane p \<in> {''browser'', ''ocr''}) \<or>
            (\<exists>reason. rendered_page env cfg (fi_depth item) (Some info) r = Failed reason)"
          using None by (auto simp: r rendered_page_def html_page_def ocr_page_def unwrap_or_def Let_def
              split: sum.splits option.splits Option.bind_splits prod.splits if_splits)
        then show ?thesis using render None True \<open>Option.bind _ _ = Some r\<close> unfolding res by fastforce
      qed
    qed
  qed
qed

section \<open>The pace\<close>

lemma claim_slot_props:
  assumes "claim_slot key delay now slots = (start, slots')" "distinct (map fst slots)"
  shows "now \<le> start" "distinct (map fst slots')" "map_of slots' key = Some (start + delay)"
    and "k \<noteq> key \<Longrightarrow> map_of slots k = Some t \<Longrightarrow> map_of slots' k = Some t \<or> t \<le> now"
    and "map_of slots key = Some t \<Longrightarrow> t \<le> start"
proof -
  let ?s = "AList.update key (start + delay) slots"
  have start: "start = (case map_of slots key of Some t \<Rightarrow> max t now | None \<Rightarrow> now)"
    and slots': "slots' = (if host_slot_prune_at < length ?s then filter (\<lambda>(k, t). now < t \<or> k = key) ?s else ?s)"
    using assms(1) by (auto simp: claim_slot_def Let_def)
  have d: "distinct (map fst ?s)" using assms(2) by (rule distinct_update)
  have keep: "map_of (filter P ?s) k = Some t" if "map_of ?s k = Some t" "P (k, t)" for P k t
    using d that by (simp add: map_of_eq_Some_iff distinct_map_filter)
  show "now \<le> start" "map_of slots key = Some t \<Longrightarrow> t \<le> start" by (auto simp: start split: option.split)
  show "distinct (map fst slots')" using d by (simp add: slots' distinct_map_filter)
  show "map_of slots' key = Some (start + delay)" using keep[of key "start + delay"] by (simp add: slots' update_conv)
  show "k \<noteq> key \<Longrightarrow> map_of slots k = Some t \<Longrightarrow> map_of slots' k = Some t \<or> t \<le> now"
    using keep[of k t "\<lambda>(k, t). now < t \<or> k = key"] by (auto simp: slots' update_conv)
qed

text \<open>The starts of a run of requests: address, delay and the time each asks at.\<close>

fun paced :: "url_parser \<Rightarrow> (string \<times> nat \<times> nat) list \<Rightarrow> (string \<times> nat) list \<Rightarrow> nat list" where
  "paced parse [] slots = []"
| "paced parse ((url, delay, now) # rs) slots =
     (let (start, slots') = claim_host_slot parse url delay now slots in start # paced parse rs slots')"

definition free_from :: "string \<Rightarrow> nat \<Rightarrow> nat \<Rightarrow> (string \<times> nat) list \<Rightarrow> bool" where
  "free_from k b now slots \<longleftrightarrow> distinct (map fst slots) \<and> ((\<exists>t. map_of slots k = Some t \<and> b \<le> t) \<or> b \<le> now)"

lemma claim_free_from:
  assumes "claim_host_slot parse url delay now slots = (start, slots')" "free_from k b now slots"
  shows "now \<le> start" "free_from k b now slots'" "slot_key parse url = k \<Longrightarrow> 0 < delay \<Longrightarrow> b \<le> start"
proof -
  show "now \<le> start"
    using assms claim_slot_props(1) by (fastforce simp: claim_host_slot_def free_from_def split: if_splits)
  show "free_from k b now slots'" "slot_key parse url = k \<Longrightarrow> 0 < delay \<Longrightarrow> b \<le> start"
  proof -
    show "slot_key parse url = k \<Longrightarrow> 0 < delay \<Longrightarrow> b \<le> start"
      using assms claim_slot_props(1,5) by (fastforce simp: claim_host_slot_def free_from_def split: if_splits)
    show "free_from k b now slots'"
    proof (cases "delay = 0")
      case False
      then have c: "claim_slot (slot_key parse url) delay now slots = (start, slots')" and d: "distinct (map fst slots)"
        using assms by (auto simp: claim_host_slot_def free_from_def)
      note p = claim_slot_props[OF c d]
      show ?thesis
      proof (cases "k = slot_key parse url")
        case True
        then show ?thesis using p assms(2) by (fastforce simp: free_from_def)
      next
        case other: False
        then show ?thesis using p(2) p(4)[OF other] assms(2) by (fastforce simp: free_from_def)
      qed
    qed (use assms in \<open>simp add: claim_host_slot_def\<close>)
  qed
qed


lemma paced_after:
  assumes "free_from k b now0 slots" "sorted (map (\<lambda>r. snd (snd r)) rs)" "\<And>r. r \<in> set rs \<Longrightarrow> now0 \<le> snd (snd r)"
    and "j < length rs" "slot_key parse (fst (rs ! j)) = k" "0 < fst (snd (rs ! j))"
  shows "b \<le> paced parse rs slots ! j"
  using assms
proof (induction rs arbitrary: slots j now0)
  case (Cons r rs)
  obtain url delay now where r: "r = (url, delay, now)" by (cases r)
  obtain start slots' where c: "claim_host_slot parse url delay now slots = (start, slots')" by fastforce
  have "free_from k b now slots" using Cons.prems(1) Cons.prems(3)[of r] by (auto simp: free_from_def r)
  note p = claim_free_from[OF c this]
  show ?case
  proof (cases j)
    case 0
    then show ?thesis using p(3) Cons.prems(5,6) by (simp add: r c)
  next
    case (Suc i)
    have "now \<le> snd (snd q)" if "q \<in> set rs" for q using Cons.prems(2) that by (simp add: r)
    then have "b \<le> paced parse rs slots' ! i"
      using Cons.prems(2,4-6) Suc by (intro Cons.IH[OF p(2)]) simp_all
    then show ?thesis by (simp add: r c Suc)
  qed
qed simp

text \<open>
  The pace holds for the process: over any run of requests, by any number of workers and crawls, two requests
  to the same site start at least the first one's delay apart, as long as the later one asks for a delay at all, and
  none starts before it asked.
\<close>

theorem requests_paced:
  assumes "sorted (map (\<lambda>r. snd (snd r)) rs)" "distinct (map fst slots)" "i < j" "j < length rs"
    and "slot_key parse (fst (rs ! i)) = slot_key parse (fst (rs ! j))" "0 < fst (snd (rs ! j))"
  shows "paced parse rs slots ! i + fst (snd (rs ! i)) \<le> paced parse rs slots ! j \<and> snd (snd (rs ! i)) \<le> paced parse rs slots ! i"
  using assms
proof (induction rs arbitrary: slots i j)
  case (Cons r rs)
  obtain url delay now where r: "r = (url, delay, now)" by (cases r)
  obtain start slots' where c: "claim_host_slot parse url delay now slots = (start, slots')" by fastforce
  have "free_from k 0 now slots" for k using Cons.prems(2) by (simp add: free_from_def)
  note p = claim_free_from[OF c this]
  obtain j' where j: "j = Suc j'" using Cons.prems(3) by (cases j) auto
  show ?case
  proof (cases i)
    case 0
    have "free_from (slot_key parse url) (start + delay) now slots'"
    proof (cases "delay = 0")
      case True
      then show ?thesis using c Cons.prems(2) by (simp add: claim_host_slot_def free_from_def)
    next
      case False
      then have claim: "claim_slot (slot_key parse url) delay now slots = (start, slots')" using c by (simp add: claim_host_slot_def)
      show ?thesis using claim_slot_props(2,3)[OF claim Cons.prems(2)] by (simp add: free_from_def)
    qed
    moreover have "now \<le> snd (snd q)" if "q \<in> set rs" for q using Cons.prems(1) that by (simp add: r)
    ultimately have "start + delay \<le> paced parse rs slots' ! j'"
      using Cons.prems j 0 r by (intro paced_after) simp_all
    then show ?thesis using p(1) by (simp add: r c 0 j)
  next
    case (Suc i')
    have "paced parse rs slots' ! i' + fst (snd (rs ! i')) \<le> paced parse rs slots' ! j' \<and> snd (snd (rs ! i')) \<le> paced parse rs slots' ! i'"
      using Cons.prems j Suc p(2) by (intro Cons.IH) (simp_all add: free_from_def)
    then show ?thesis by (simp add: r c Suc j)
  qed
qed simp

section \<open>A small site\<close>

text \<open>A parser for addresses of one host, and a client that answers with one status.\<close>

definition sample_parse :: url_parser where
  "sample_parse s = (if starts_with s ''https://a.co/''
     then Some \<lparr>up_scheme = ''https'', up_host = Some ''a.co'', up_path = drop 12 s, up_query = None, up_text = s\<rparr> else None)"

definition sample_auth :: crawl_auth where
  "sample_auth = no_auth\<lparr>ca_headers := [(''x-api-key'', ''k'')], ca_domain := ''a.co''\<rparr>"

definition sample_page_env :: "nat \<Rightarrow> page_env" where
  "sample_page_env status = \<lparr>pe_parse = sample_parse, pe_lower = ascii_lower,
     pe_send = (\<lambda>rq. Inr \<lparr>an_status = status, an_final_url = rq_url rq, an_retry_after = Some ''60'', an_content_type = Some ''text/html'',
       an_length = None, an_chunks = [Inr ''hello''], an_decode = Inr\<rparr>),
     pe_browser = None, pe_extract = (\<lambda>html url depth now. Inr \<lparr>ex_title = [], ex_rows = [JObj [(''url'', JStr url)]],
       ex_links = [\<lparr>pl_url = ''https://a.co/b'', pl_text = []\<rparr>], ex_favicon = None, ex_text_len = length html\<rparr>),
     pe_doc_configured = False, pe_doc_extract = (\<lambda>_ _ _ _. None), pe_capture = (\<lambda>_ _ _. None), pe_lossy = (\<lambda>s. s), pe_now = ''t''\<rparr>"

definition sample_config :: crawl_config where
  "sample_config = \<lparr>seed_host = ''a.co'', seed_reg = ''a.co'', same_domain = True, allow_subdomains = False, include_res = [],
     exclude_res = [], cfg_max_depth = 1, page_budget = 5, delay_ms = 10, respect_robots = False, extract_mode = ''markdown'',
     render_mode = ''auto'', ocr_mode = ''auto'', browser_available = False, want_thumbnails = False\<rparr>"

text \<open>A client that keeps all headers at a redirect but the credentials when the host changes.\<close>

definition sample_carry :: "string \<Rightarrow> string \<Rightarrow> (string \<times> string) list \<Rightarrow> (string \<times> string) list" where
  "sample_carry here to hs =
     (if request_host sample_parse here = request_host sample_parse to then hs
      else filter (\<lambda>(name, v). ascii_lower name \<notin> set credential_headers) hs)"

definition sample_guard :: "string \<Rightarrow> parsed_url option" where
  "sample_guard url = Some \<lparr>scheme = ''https'', host_str = Some ''example.com''\<rparr>"


lemma sample_redirected:
  "client_requests sample_guard sample_carry [''https://b.co/''] 1 q =
     [q, \<lparr>rq_url = ''https://b.co/'', rq_headers = sample_carry (rq_url q) ''https://b.co/'' (rq_headers q)\<rparr>]"
proof -
  have "is_redirect_target_safe sample_guard ''https://b.co/''"
    using sample_parts(1,2) by (simp add: is_redirect_target_safe_def sample_guard_def)
  then show ?thesis by simp
qed

lemma sample_sent: "(''x-api-key'', ''k'') \<in> set (rq_headers (fetch_request sample_parse ''https://a.co/x'' sample_auth))"
proof -
  have "header_replay_allowed sample_parse sample_auth ''https://a.co/x''" by code_simp
  then show ?thesis by (simp add: fetch_request_def sample_auth_def no_auth_def)
qed

text \<open>A captured header that the client does not count as a credential goes along to another site.\<close>

lemma captured_header_follows_redirect:
  "\<exists>q \<in> set (client_requests sample_guard sample_carry [''https://b.co/''] 1 (fetch_request sample_parse ''https://a.co/x'' sample_auth)).
     rq_url q = ''https://b.co/'' \<and> (''x-api-key'', ''k'') \<in> set (rq_headers q)"
proof -
  have "ascii_lower ''x-api-key'' \<notin> set credential_headers" by code_simp
  then show ?thesis using sample_sent unfolding sample_redirected by (auto simp: sample_carry_def)
qed


lemma refusal_not_banked_witness:
  "\<exists>info. ro_outcome (fetch_resolve (sample_page_env 429) sample_config no_auth \<lparr>fi_url = ''https://a.co/x'', fi_depth = 0\<rparr>) = Blocked info \<and>
     bi_status info = Some 429 \<and> bi_retry_after info = Some 60"
proof -
  let ?item = "\<lparr>fi_url = ''https://a.co/x'', fi_depth = 0\<rparr>"
  have fetch: "http_fetch (pe_parse (sample_page_env 429)) (pe_send (sample_page_env 429)) (fi_url ?item) no_auth =
      Inr \<lparr>ft_status = 429, ft_final_url = ''https://a.co/x'', ft_content_type = ''text/html'', ft_text = Some ''hello'', ft_raw = None,
        ft_retry_after = Some 60\<rparr>"
  proof -
    have ct: "ascii_lower ''text/html'' = ''text/html''" "texty ''text/html''" by code_simp+
    have "\<not> contains_str ''text/html'' ''json''" "\<not> contains_str ''text/html'' ''csv''" "\<not> contains_str ''text/html'' ''tab-separated''"
      by code_simp+
    then have limit: "text_limit ''text/html'' = 10485760" by (simp add: text_limit_def html_max_def)
    have "trim ''60'' = ''60''" by (rule trim_printable) (simp add: printable_def)
    moreover have "parse_digits ''60'' = Some 60" by code_simp
    ultimately have wait: "parse_retry_after (Some ''60'') = Some 60"
      by (simp add: parse_retry_after_def parse_seconds_def retry_after_max_s_def)
    show ?thesis
      by (simp add: http_fetch_def sample_page_env_def Let_def ct limit wait read_text_capped_def read_bytes_capped_def fetch_request_def)
  qed
  have "\<not> may_browser sample_config" by (simp add: may_browser_def sample_config_def)
  then show ?thesis using refusal_not_banked[OF fetch, of sample_config] by (simp add: block_statuses_def)
qed

lemma requests_paced_witness:
  "paced sample_parse [(''https://a.co/x'', 10, 5), (''https://a.co/y'', 10, 6)] [] ! 0 + 10
     \<le> paced sample_parse [(''https://a.co/x'', 10, 5), (''https://a.co/y'', 10, 6)] [] ! 1"
proof -
  have "slot_key sample_parse ''https://a.co/x'' = slot_key sample_parse ''https://a.co/y''" by code_simp
  then show ?thesis
    using requests_paced[of "[(''https://a.co/x'', 10, 5), (''https://a.co/y'', 10, 6)]" "[]" 0 1 sample_parse] by simp
qed

end
