(* ===== verification/CrawlRun.thy ===== *)
theory CrawlRun
  imports CrawlFetch
begin

text \<open>
  The crawl loop that runs on this machine (\<open>src/crawl_shard/mod.rs\<close>: \<open>admit\<close>, \<open>run_crawl\<close>, \<open>flush\<close>) and its
  durable row (\<open>src/local/store/crawl_jobs.rs\<close>). Admission decides which addresses join the frontier; the loop
  keeps a window of workers over it, and every finished worker's page is counted and its links admitted. The
  pages themselves come from \<open>CrawlFetch.fetch_resolve\<close>, in whatever order the workers finish.
\<close>

section \<open>Admission\<close>

definition flush_batch :: nat where
  "flush_batch = 25"

definition sitemap_hard_cap :: nat where
  "sitemap_hard_cap = 5000"

definition visited_hard_cap :: nat where
  "visited_hard_cap = 200000"

record counters =
  discovered :: int
  pages_done :: int
  pages_failed :: int
  pages_skipped :: int
  max_depth_seen :: int

text \<open>
  What admission asks of the outside: the address parser, the navigation guard with its name resolution, and the
  robots file of an origin. An address is vetted at most once and an origin's file is fetched at most once in a
  crawl, so answers that change over time are functions of their argument here.
\<close>

record admit_env =
  ae_parse :: url_parser
  ae_safe :: "string \<Rightarrow> bool"
  ae_robots_parse :: "string \<Rightarrow> crawl_url option"
  ae_robots_fetch :: "string \<Rightarrow> string option"

record crawl_state =
  cr_robots :: robots_cache
  cr_visited :: "string list"
  cr_frontier :: "frontier_item list"
  cr_counters :: counters
  cr_running :: "frontier_item list"
  cr_started :: "frontier_item list"
  cr_buffer :: "json list"
  cr_saved :: "json list list"
  cr_stopping :: bool
  cr_cancel_poll :: nat

definition fetchable :: "string \<Rightarrow> bool" where
  "fetchable url \<longleftrightarrow> starts_with url ''http://'' \<or> starts_with url ''https://''"

definition in_scope :: "admit_env \<Rightarrow> crawl_config \<Rightarrow> string \<Rightarrow> int \<Rightarrow> bool" where
  "in_scope env cfg url depth \<longleftrightarrow>
     in_domain_scope (ae_parse env) cfg url \<and> (0 < depth \<longrightarrow> passes_path_filters (ae_parse env) cfg url)"

definition skip_page :: "counters \<Rightarrow> counters" where
  "skip_page c = c\<lparr>pages_skipped := pages_skipped c + 1\<rparr>"

definition discover_page :: "int \<Rightarrow> counters \<Rightarrow> counters" where
  "discover_page depth c = c\<lparr>discovered := discovered c + 1, max_depth_seen := max (max_depth_seen c) depth\<rparr>"

text \<open>The robots verdict of an address, and the cache after asking.\<close>

definition ask_robots :: "admit_env \<Rightarrow> crawl_config \<Rightarrow> string \<Rightarrow> robots_cache \<Rightarrow> bool \<times> robots_cache" where
  "ask_robots env cfg url cache =
     (if respect_robots cfg then cache_allowed (ae_robots_parse env) (ae_robots_fetch env) url cache else (True, cache))"

definition admit :: "admit_env \<Rightarrow> crawl_config \<Rightarrow> string \<Rightarrow> int \<Rightarrow> crawl_state \<Rightarrow> crawl_state" where
  "admit env cfg raw depth s =
     (if cfg_max_depth cfg < depth \<or> page_budget cfg \<le> discovered (cr_counters s) then s
      else let url = normalize_url (ae_parse env) raw in
        if \<not> fetchable url \<or> \<not> in_scope env cfg url depth then s
        else if visited_hard_cap \<le> length (cr_visited s) \<and> url \<notin> set (cr_visited s) then s
        else if url \<in> set (cr_visited s) then s
        else let s = s\<lparr>cr_visited := url # cr_visited s\<rparr> in
          if \<not> ae_safe env url then s\<lparr>cr_counters := skip_page (cr_counters s)\<rparr>
          else let (allowed, cache) = ask_robots env cfg url (cr_robots s); s = s\<lparr>cr_robots := cache\<rparr> in
            if \<not> allowed then s\<lparr>cr_counters := skip_page (cr_counters s)\<rparr>
            else s\<lparr>cr_counters := discover_page depth (cr_counters s),
                   cr_frontier := cr_frontier s @ [\<lparr>fi_url = url, fi_depth = depth\<rparr>]\<rparr>)"

text \<open>The loop over a page's links or a sitemap's addresses stops at the budget.\<close>

fun admit_all :: "admit_env \<Rightarrow> crawl_config \<Rightarrow> string list \<Rightarrow> int \<Rightarrow> crawl_state \<Rightarrow> crawl_state" where
  "admit_all env cfg [] depth s = s"
| "admit_all env cfg (u # us) depth s =
     (if page_budget cfg \<le> discovered (cr_counters s) then s
      else admit_all env cfg us depth (admit env cfg u depth s))"

definition fresh_crawl :: crawl_state where
  "fresh_crawl = \<lparr>cr_robots = Map.empty, cr_visited = [], cr_frontier = [],
     cr_counters = \<lparr>discovered = 0, pages_done = 0, pages_failed = 0, pages_skipped = 0, max_depth_seen = 0\<rparr>,
     cr_running = [], cr_started = [], cr_buffer = [], cr_saved = [], cr_stopping = False, cr_cancel_poll = 0\<rparr>"

definition seed_crawl :: "admit_env \<Rightarrow> crawl_config \<Rightarrow> string \<Rightarrow> string list \<Rightarrow> crawl_state" where
  "seed_crawl env cfg seed sitemap = admit_all env cfg (take sitemap_hard_cap sitemap) 0 (admit env cfg seed 0 fresh_crawl)"

section \<open>The worker pool\<close>

text \<open>
  What one turn of the loop meets: the cancellation flag it reads, which of the running workers finishes first
  (any index, taken modulo their number), the world that worker fetched in (none when it panicked), and whether a
  batch could be written.
\<close>

record turn =
  tn_cancel :: bool
  tn_pick :: nat
  tn_world :: "page_env option"
  tn_writes :: bool

definition poll_cancel :: "bool \<Rightarrow> crawl_state \<Rightarrow> crawl_state" where
  "poll_cancel requested s =
     (if cr_stopping s then s
      else let n = cr_cancel_poll s + 1; s = s\<lparr>cr_cancel_poll := n\<rparr> in
        if 4 dvd n \<and> requested then s\<lparr>cr_stopping := True, cr_frontier := []\<rparr> else s)"

text \<open>Refilling the window; \<open>cr_started\<close> remembers what was handed to a worker, for the statements only.\<close>

definition refill :: "nat \<Rightarrow> crawl_state \<Rightarrow> crawl_state" where
  "refill width s =
     (if cr_stopping s then s
      else let n = width - length (cr_running s); next = take n (cr_frontier s) in
        s\<lparr>cr_running := cr_running s @ next, cr_started := cr_started s @ next, cr_frontier := drop n (cr_frontier s)\<rparr>)"

definition flush :: "bool \<Rightarrow> crawl_state \<Rightarrow> crawl_state" where
  "flush writes s =
     (if cr_buffer s = [] then s
      else s\<lparr>cr_buffer := [], cr_saved := (if writes then cr_saved s @ [cr_buffer s] else cr_saved s)\<rparr>)"

definition count_failed :: "crawl_state \<Rightarrow> crawl_state" where
  "count_failed s = s\<lparr>cr_counters := (cr_counters s)\<lparr>pages_failed := pages_failed (cr_counters s) + 1\<rparr>\<rparr>"

definition bank_page :: "admit_env \<Rightarrow> crawl_config \<Rightarrow> int \<Rightarrow> page_data \<Rightarrow> crawl_state \<Rightarrow> crawl_state" where
  "bank_page env cfg depth p s =
     (let s = s\<lparr>cr_counters := (cr_counters s)\<lparr>pages_done := pages_done (cr_counters s) + 1\<rparr>, cr_buffer := cr_buffer s @ pd_rows p\<rparr>
      in if cr_stopping s then s else admit_all env cfg (map pl_url (pd_links p)) (depth + 1) s)"

definition settle :: "admit_env \<Rightarrow> crawl_config \<Rightarrow> resolved \<Rightarrow> crawl_state \<Rightarrow> crawl_state" where
  "settle env cfg out s =
     (case ro_outcome out of Extracted p \<Rightarrow> bank_page env cfg (ro_depth out) p s | _ \<Rightarrow> count_failed s)"

definition take_worker :: "nat \<Rightarrow> crawl_state \<Rightarrow> frontier_item \<times> crawl_state" where
  "take_worker pick s =
     (let i = pick mod length (cr_running s)
      in (cr_running s ! i, s\<lparr>cr_running := take i (cr_running s) @ drop (Suc i) (cr_running s)\<rparr>))"

text \<open>One turn; \<open>False\<close> is the loop's \<open>break\<close>.\<close>

definition crawl_turn :: "admit_env \<Rightarrow> crawl_config \<Rightarrow> crawl_auth \<Rightarrow> nat \<Rightarrow> turn \<Rightarrow> crawl_state \<Rightarrow> bool \<times> crawl_state" where
  "crawl_turn env cfg auth width t s =
     (let s = refill width (poll_cancel (tn_cancel t) s)
      in if cr_running s = [] then (False, s)
         else let (item, s) = take_worker (tn_pick t) s in
           (True, (case tn_world t of
              None \<Rightarrow> count_failed s
            | Some world \<Rightarrow>
                (let s = settle env cfg (fetch_resolve world cfg auth item) s
                 in if flush_batch \<le> length (cr_buffer s) then flush (tn_writes t) s else s))))"

text \<open>The loop over the turns that happen; \<open>True\<close> when it reached its \<open>break\<close>.\<close>

fun crawl_loop :: "admit_env \<Rightarrow> crawl_config \<Rightarrow> crawl_auth \<Rightarrow> nat \<Rightarrow> turn list \<Rightarrow> crawl_state \<Rightarrow> bool \<times> crawl_state" where
  "crawl_loop env cfg auth width [] s = (False, s)"
| "crawl_loop env cfg auth width (t # ts) s =
     (let (continues, s') = crawl_turn env cfg auth width t s
      in if continues then crawl_loop env cfg auth width ts s' else (True, s'))"

definition crawl_width :: "int \<Rightarrow> nat" where
  "crawl_width max_concurrent = nat (max 1 max_concurrent)"

text \<open>The whole crawl: its final status, counters and saved batches; \<open>None\<close> when the given turns do not suffice.\<close>

definition crawl_outcome ::
    "admit_env \<Rightarrow> crawl_config \<Rightarrow> crawl_auth \<Rightarrow> int \<Rightarrow> string \<Rightarrow> string list \<Rightarrow> turn list \<Rightarrow> bool \<Rightarrow> (string \<times> counters \<times> json list list) option" where
  "crawl_outcome env cfg auth max_concurrent seed sitemap ts writes =
     (let (ended, s) = crawl_loop env cfg auth (crawl_width max_concurrent) ts (seed_crawl env cfg seed sitemap)
      in if ended then Some (if cr_stopping s then ''cancelled'' else ''completed'', cr_counters s, cr_saved (flush writes s)) else None)"

section \<open>What the frontier may hold\<close>

text \<open>The verdict of an origin's robots file, asked for on its own.\<close>

definition robots_verdict :: "admit_env \<Rightarrow> string \<Rightarrow> bool" where
  "robots_verdict env url = fst (cache_allowed (ae_robots_parse env) (ae_robots_fetch env) url Map.empty)"

definition permitted :: "admit_env \<Rightarrow> crawl_config \<Rightarrow> frontier_item \<Rightarrow> bool" where
  "permitted env cfg item \<longleftrightarrow>
     fi_depth item \<le> cfg_max_depth cfg \<and> fetchable (fi_url item) \<and> in_scope env cfg (fi_url item) (fi_depth item) \<and>
     ae_safe env (fi_url item) \<and> (\<not> respect_robots cfg \<or> robots_verdict env (fi_url item))"

definition robots_faithful :: "admit_env \<Rightarrow> robots_cache \<Rightarrow> bool" where
  "robots_faithful env cache \<longleftrightarrow> (\<forall>origin rules. cache origin = Some rules \<longrightarrow> rules = fetch_rules (ae_robots_fetch env) origin)"

definition handed :: "crawl_state \<Rightarrow> frontier_item list" where
  "handed s = cr_started s @ cr_frontier s"

definition admissions_ok :: "admit_env \<Rightarrow> crawl_config \<Rightarrow> crawl_state \<Rightarrow> bool" where
  "admissions_ok env cfg s \<longleftrightarrow>
     list_all (permitted env cfg) (handed s) \<and> distinct (map fi_url (handed s)) \<and>
     set (map fi_url (handed s)) \<subseteq> set (cr_visited s) \<and> length (cr_visited s) \<le> visited_hard_cap \<and>
     robots_faithful env (cr_robots s)"

definition books_ok :: "crawl_config \<Rightarrow> crawl_state \<Rightarrow> bool" where
  "books_ok cfg s \<longleftrightarrow>
     (let c = cr_counters s
      in discovered c \<le> max 0 (page_budget cfg) \<and> int (length (handed s)) \<le> discovered c \<and>
         (cr_stopping s \<longrightarrow> cr_frontier s = []) \<and> (\<not> cr_stopping s \<longrightarrow> int (length (handed s)) = discovered c) \<and>
         0 \<le> pages_done c \<and> 0 \<le> pages_failed c \<and>
         pages_done c + pages_failed c + int (length (cr_running s)) = int (length (cr_started s)))"

lemma cached_verdict:
  assumes "robots_faithful env cache"
  shows "fst (cache_allowed (ae_robots_parse env) (ae_robots_fetch env) url cache) = robots_verdict env url"
    and "robots_faithful env (snd (cache_allowed (ae_robots_parse env) (ae_robots_fetch env) url cache))"
  using assms unfolding robots_faithful_def robots_verdict_def
  by (auto simp: cache_allowed_def Let_def split: option.splits)

lemma ask_robots_ok:
  assumes "robots_faithful env cache" "ask_robots env cfg url cache = (allowed, cache')"
  shows "robots_faithful env cache'" "allowed \<Longrightarrow> \<not> respect_robots cfg \<or> robots_verdict env url"
  using assms cached_verdict[OF assms(1), of url] by (auto simp: ask_robots_def split: if_splits)

text \<open>An admission leaves the pool alone and either adds one vetted address or changes no address at all.\<close>

lemma admit_frame:
  "cr_running (admit env cfg raw depth s) = cr_running s" "cr_started (admit env cfg raw depth s) = cr_started s"
  "cr_stopping (admit env cfg raw depth s) = cr_stopping s" "cr_buffer (admit env cfg raw depth s) = cr_buffer s"
  "cr_saved (admit env cfg raw depth s) = cr_saved s" "cr_cancel_poll (admit env cfg raw depth s) = cr_cancel_poll s"
  "pages_done (cr_counters (admit env cfg raw depth s)) = pages_done (cr_counters s)"
  "pages_failed (cr_counters (admit env cfg raw depth s)) = pages_failed (cr_counters s)"
  by (simp_all add: admit_def Let_def skip_page_def discover_page_def split: prod.split)

lemma admit_cases:
  assumes "robots_faithful env (cr_robots s)"
  obtains
    (quiet) "cr_frontier (admit env cfg raw depth s) = cr_frontier s" "discovered (cr_counters (admit env cfg raw depth s)) = discovered (cr_counters s)"
  | (added) url where "cr_frontier (admit env cfg raw depth s) = cr_frontier s @ [\<lparr>fi_url = url, fi_depth = depth\<rparr>]"
      "discovered (cr_counters (admit env cfg raw depth s)) = discovered (cr_counters s) + 1"
      "discovered (cr_counters s) < page_budget cfg" "permitted env cfg \<lparr>fi_url = url, fi_depth = depth\<rparr>"
      "url \<notin> set (cr_visited s)" "url \<in> set (cr_visited (admit env cfg raw depth s))"
proof (cases "cr_frontier (admit env cfg raw depth s) = cr_frontier s")
  case True
  then show ?thesis using quiet by (simp add: admit_def Let_def skip_page_def split: prod.splits if_splits)
next
  case False
  let ?url = "normalize_url (ae_parse env) raw"
  obtain allowed cache where ask: "ask_robots env cfg ?url (cr_robots s) = (allowed, cache)" by fastforce
  have "\<not> cfg_max_depth cfg < depth" "discovered (cr_counters s) < page_budget cfg" "fetchable ?url" "in_scope env cfg ?url depth"
    "?url \<notin> set (cr_visited s)" "ae_safe env ?url" "allowed"
    "admit env cfg raw depth s = s\<lparr>cr_visited := ?url # cr_visited s, cr_robots := cache,
       cr_counters := discover_page depth (cr_counters s), cr_frontier := cr_frontier s @ [\<lparr>fi_url = ?url, fi_depth = depth\<rparr>]\<rparr>"
    using False by (auto simp: admit_def Let_def ask split: if_splits)
  then show ?thesis using added[of ?url] ask_robots_ok[OF assms ask] by (simp add: permitted_def discover_page_def)
qed

lemma admit_visited:
  "set (cr_visited s) \<subseteq> set (cr_visited (admit env cfg raw depth s))"
  "length (cr_visited s) \<le> visited_hard_cap \<Longrightarrow> length (cr_visited (admit env cfg raw depth s)) \<le> visited_hard_cap"
  by (auto simp: admit_def Let_def skip_page_def discover_page_def split: prod.split)

lemma admit_robots:
  "robots_faithful env (cr_robots s) \<Longrightarrow> robots_faithful env (cr_robots (admit env cfg raw depth s))"
  using ask_robots_ok(1) by (fastforce simp: admit_def Let_def split: prod.split)

lemma admit_admissions:
  assumes "admissions_ok env cfg s"
  shows "admissions_ok env cfg (admit env cfg raw depth s)"
proof -
  have faithful: "robots_faithful env (cr_robots s)" using assms by (simp add: admissions_ok_def)
  have stays: "length (cr_visited (admit env cfg raw depth s)) \<le> visited_hard_cap" "robots_faithful env (cr_robots (admit env cfg raw depth s))"
    using assms admit_visited(2) admit_robots[OF faithful] by (simp_all add: admissions_ok_def)
  from faithful show ?thesis
  proof (cases rule: admit_cases[of env s cfg raw depth])
    case quiet
    then show ?thesis using assms stays admit_visited(1)[of s env cfg raw depth]
      by (auto simp: admissions_ok_def handed_def admit_frame)
  next
    case (added url)
    then show ?thesis using assms stays admit_visited(1)[of s env cfg raw depth]
      by (auto simp: admissions_ok_def handed_def admit_frame)
  qed
qed

lemma admit_books:
  assumes "admissions_ok env cfg s" "books_ok cfg s" "\<not> cr_stopping s"
  shows "books_ok cfg (admit env cfg raw depth s)"
proof -
  have "robots_faithful env (cr_robots s)" using assms by (simp add: admissions_ok_def)
  then show ?thesis
    by (cases rule: admit_cases[of env s cfg raw depth])
      (use assms in \<open>simp_all add: books_ok_def handed_def Let_def admit_frame\<close>)
qed

lemma admit_all_ok:
  "admissions_ok env cfg s \<Longrightarrow> books_ok cfg s \<Longrightarrow> \<not> cr_stopping s \<Longrightarrow>
    admissions_ok env cfg (admit_all env cfg us depth s) \<and> books_ok cfg (admit_all env cfg us depth s)"
  by (induction us arbitrary: s) (simp_all add: admit_admissions admit_books admit_frame)

lemma admit_all_frame:
  "cr_running (admit_all env cfg us depth s) = cr_running s" "cr_started (admit_all env cfg us depth s) = cr_started s"
  "cr_stopping (admit_all env cfg us depth s) = cr_stopping s" "cr_buffer (admit_all env cfg us depth s) = cr_buffer s"
  "cr_saved (admit_all env cfg us depth s) = cr_saved s" "cr_cancel_poll (admit_all env cfg us depth s) = cr_cancel_poll s"
  "pages_done (cr_counters (admit_all env cfg us depth s)) = pages_done (cr_counters s)"
  "pages_failed (cr_counters (admit_all env cfg us depth s)) = pages_failed (cr_counters s)"
  by (induction us arbitrary: s) (simp_all add: admit_frame)

section \<open>Every turn keeps the books\<close>

lemma fresh_ok: "admissions_ok env cfg fresh_crawl" "books_ok cfg fresh_crawl"
  by (simp_all add: admissions_ok_def books_ok_def handed_def fresh_crawl_def robots_faithful_def Let_def)

lemma seeded_ok:
  "admissions_ok env cfg (seed_crawl env cfg seed sitemap) \<and> books_ok cfg (seed_crawl env cfg seed sitemap)"
  unfolding seed_crawl_def
  by (intro admit_all_ok admit_admissions admit_books fresh_ok) (simp_all add: fresh_crawl_def admit_frame)

lemma seed_frame:
  "cr_running (seed_crawl env cfg seed sitemap) = []" "cr_started (seed_crawl env cfg seed sitemap) = []"
  "cr_stopping (seed_crawl env cfg seed sitemap) = False"
  by (simp_all add: seed_crawl_def admit_all_frame admit_frame fresh_crawl_def)

lemma poll_ok:
  "admissions_ok env cfg s \<Longrightarrow> admissions_ok env cfg (poll_cancel r s)"
  "books_ok cfg s \<Longrightarrow> books_ok cfg (poll_cancel r s)"
  "cr_running (poll_cancel r s) = cr_running s"
  by (simp_all add: poll_cancel_def admissions_ok_def books_ok_def handed_def Let_def)

lemma refill_handed: "handed (refill width s) = handed s"
  by (simp add: refill_def handed_def Let_def)

lemma refill_ok:
  "admissions_ok env cfg s \<Longrightarrow> admissions_ok env cfg (refill width s)"
  "books_ok cfg s \<Longrightarrow> books_ok cfg (refill width s)"
  "length (cr_running s) \<le> width \<Longrightarrow> length (cr_running (refill width s)) \<le> width"
  by (auto simp: admissions_ok_def books_ok_def refill_handed Let_def) (auto simp: refill_def Let_def)

lemma refill_starves: "0 < width \<Longrightarrow> \<not> cr_stopping s \<Longrightarrow> cr_running (refill width s) = [] \<Longrightarrow> cr_frontier (refill width s) = []"
  by (auto simp: refill_def Let_def)

lemma take_worker_ok:
  assumes "take_worker pick s = (item, s')" "cr_running s \<noteq> []"
  shows "Suc (length (cr_running s')) = length (cr_running s)" "item \<in> set (cr_running s)"
    and "s' = s\<lparr>cr_running := cr_running s'\<rparr>"
proof -
  let ?i = "pick mod length (cr_running s)"
  have "?i < length (cr_running s)" using assms(2) by simp
  then show "Suc (length (cr_running s')) = length (cr_running s)" "item \<in> set (cr_running s)" "s' = s\<lparr>cr_running := cr_running s'\<rparr>"
    using assms(1) by (auto simp: take_worker_def Let_def)
qed

text \<open>Between taking a worker and counting its page the books are one page short.\<close>

definition one_short :: "crawl_config \<Rightarrow> crawl_state \<Rightarrow> bool" where
  "one_short cfg s \<longleftrightarrow> books_ok cfg (s\<lparr>cr_counters := (cr_counters s)\<lparr>pages_failed := pages_failed (cr_counters s) + 1\<rparr>\<rparr>)
     \<and> 0 \<le> pages_failed (cr_counters s)"

lemma take_worker_short:
  assumes "take_worker pick s = (item, s')" "cr_running s \<noteq> []" "books_ok cfg s"
  shows "one_short cfg s'"
proof -
  have e: "s' = s\<lparr>cr_running := cr_running s'\<rparr>" by (rule take_worker_ok[OF assms(1,2)])
  have l: "Suc (length (cr_running s')) = length (cr_running s)" by (rule take_worker_ok[OF assms(1,2)])
  then have "int (length (cr_running s')) + 1 = int (length (cr_running s))" by linarith
  then show ?thesis using assms(3) by (subst e) (simp add: one_short_def books_ok_def handed_def Let_def)
qed

lemma count_failed_ok:
  "one_short cfg s \<Longrightarrow> books_ok cfg (count_failed s)" "admissions_ok env cfg s \<Longrightarrow> admissions_ok env cfg (count_failed s)"
  "cr_running (count_failed s) = cr_running s"
  by (simp_all add: one_short_def count_failed_def admissions_ok_def handed_def)

lemma bank_page_ok:
  assumes "admissions_ok env cfg s" "one_short cfg s"
  shows "admissions_ok env cfg (bank_page env cfg depth p s) \<and> books_ok cfg (bank_page env cfg depth p s)"
proof -
  let ?s = "s\<lparr>cr_counters := (cr_counters s)\<lparr>pages_done := pages_done (cr_counters s) + 1\<rparr>, cr_buffer := cr_buffer s @ pd_rows p\<rparr>"
  have "admissions_ok env cfg ?s" "books_ok cfg ?s"
    using assms by (simp_all add: admissions_ok_def one_short_def books_ok_def handed_def Let_def)
  then show ?thesis using admit_all_ok[of env cfg ?s] by (simp add: bank_page_def Let_def)
qed

lemma settle_ok:
  assumes "admissions_ok env cfg s" "one_short cfg s"
  shows "admissions_ok env cfg (settle env cfg out s) \<and> books_ok cfg (settle env cfg out s)"
  using assms bank_page_ok count_failed_ok by (simp add: settle_def split: page_outcome.split)

lemma settle_running: "cr_running (settle env cfg out s) = cr_running s"
  by (simp add: settle_def bank_page_def Let_def admit_all_frame count_failed_ok(3) split: page_outcome.split)

lemma flush_ok:
  "admissions_ok env cfg s \<Longrightarrow> admissions_ok env cfg (flush w s)" "books_ok cfg s \<Longrightarrow> books_ok cfg (flush w s)"
  "cr_running (flush w s) = cr_running s"
  by (simp_all add: flush_def admissions_ok_def books_ok_def handed_def)

lemma admissions_running [simp]: "admissions_ok env cfg (s\<lparr>cr_running := ws\<rparr>) = admissions_ok env cfg s"
  by (simp add: admissions_ok_def handed_def)

definition pool_ok :: "admit_env \<Rightarrow> crawl_config \<Rightarrow> nat \<Rightarrow> crawl_state \<Rightarrow> bool" where
  "pool_ok env cfg width s \<longleftrightarrow> admissions_ok env cfg s \<and> books_ok cfg s \<and> length (cr_running s) \<le> width"

lemma crawl_turn_ok:
  assumes "pool_ok env cfg width s"
  shows "pool_ok env cfg width (snd (crawl_turn env cfg auth width t s))"
proof -
  define r where "r = refill width (poll_cancel (tn_cancel t) s)"
  have r: "admissions_ok env cfg r" "books_ok cfg r" "length (cr_running r) \<le> width"
    using assms unfolding r_def pool_ok_def by (simp_all add: refill_ok poll_ok)
  show ?thesis
  proof (cases "cr_running r = []")
    case True
    then show ?thesis using r by (simp add: crawl_turn_def Let_def r_def pool_ok_def)
  next
    case False
    obtain item s' where w: "take_worker (tn_pick t) r = (item, s')" by fastforce
    have s': "admissions_ok env cfg s'" "one_short cfg s'" "length (cr_running s') \<le> width"
      using take_worker_ok(1)[OF w False] take_worker_short[OF w False r(2)] r
      by (subst take_worker_ok(3)[OF w False], simp_all)
    show ?thesis using False s' settle_ok[OF s'(1,2)] count_failed_ok(1)[OF s'(2)] count_failed_ok(2)[OF s'(1)] count_failed_ok(3)
      by (simp add: crawl_turn_def Let_def r_def[symmetric] w pool_ok_def flush_ok settle_running split: option.split)
  qed
qed

section \<open>The crawl stays within its bounds and ends\<close>

lemma crawl_loop_ok: "pool_ok env cfg width s \<Longrightarrow> pool_ok env cfg width (snd (crawl_loop env cfg auth width ts s))"
proof (induction ts arbitrary: s)
  case (Cons t ts)
  then show ?case using crawl_turn_ok[of env cfg width s auth t] by (auto split: prod.split)
qed simp

lemma seed_pool: "pool_ok env cfg width (seed_crawl env cfg seed sitemap)"
  using seeded_ok by (simp add: pool_ok_def seed_frame)

definition completed :: "crawl_state \<Rightarrow> int" where
  "completed s = pages_done (cr_counters s) + pages_failed (cr_counters s)"

lemma completed_frame:
  "completed (refill width s) = completed s" "completed (poll_cancel r s) = completed s" "completed (flush w s) = completed s"
  "completed (count_failed s) = completed s + 1" "completed (settle env cfg out s) = completed s + 1"
  by (simp_all add: completed_def refill_def poll_cancel_def flush_def count_failed_def settle_def bank_page_def Let_def
        admit_all_frame split: page_outcome.split)

lemma completed_worker: "completed (snd (take_worker pick s)) = completed s"
  by (simp add: completed_def take_worker_def Let_def)

lemma crawl_turn_progress:
  "crawl_turn env cfg auth width t s = (True, s') \<Longrightarrow> completed s' = completed s + 1"
  using completed_worker[of "tn_pick t" "refill width (poll_cancel (tn_cancel t) s)"]
  by (auto simp: crawl_turn_def Let_def completed_frame split: if_splits prod.splits option.splits)

lemma pool_completed: "pool_ok env cfg width s \<Longrightarrow> completed s \<le> max 0 (page_budget cfg)"
  by (auto simp: pool_ok_def books_ok_def completed_def handed_def Let_def)

lemma crawl_loop_ends:
  assumes "pool_ok env cfg width s" "nat (max 0 (page_budget cfg) - completed s) < length ts"
  shows "fst (crawl_loop env cfg auth width ts s)"
  using assms
proof (induction ts arbitrary: s)
  case (Cons t ts)
  obtain c s' where turn: "crawl_turn env cfg auth width t s = (c, s')" by fastforce
  have s': "pool_ok env cfg width s'" using crawl_turn_ok[OF Cons.prems(1), of auth t] by (simp add: turn)
  show ?case
  proof (cases c)
    case True
    then have "completed s' = completed s + 1" using crawl_turn_progress[of env cfg auth width t s s'] turn by simp
    then have "nat (max 0 (page_budget cfg) - completed s') < length ts" using Cons.prems(2) pool_completed[OF s'] by simp
    then show ?thesis using Cons.IH[OF s'] by (simp add: turn True)
  qed (simp add: turn)
qed simp

text \<open>Where the loop breaks nothing runs, and nothing waits unless the crawl was cancelled.\<close>

definition drained :: "crawl_state \<Rightarrow> bool" where
  "drained s \<longleftrightarrow> cr_running s = [] \<and> cr_frontier s = []"

lemma crawl_turn_stops:
  assumes "crawl_turn env cfg auth width t s = (False, s')" "0 < width" "books_ok cfg s"
  shows "drained s'"
proof -
  let ?r = "refill width (poll_cancel (tn_cancel t) s)"
  have "s' = ?r" "cr_running ?r = []" using assms(1) by (auto simp: crawl_turn_def Let_def split: if_splits prod.splits)
  moreover have "books_ok cfg ?r" using assms(3) by (simp add: refill_ok poll_ok)
  moreover have "cr_stopping ?r = cr_stopping (poll_cancel (tn_cancel t) s)" by (simp add: refill_def Let_def)
  ultimately show ?thesis using refill_starves[OF assms(2)] by (auto simp: drained_def books_ok_def Let_def)
qed

lemma crawl_loop_drains:
  "fst (crawl_loop env cfg auth width ts s) \<Longrightarrow> 0 < width \<Longrightarrow> pool_ok env cfg width s \<Longrightarrow>
    drained (snd (crawl_loop env cfg auth width ts s))"
proof (induction ts arbitrary: s)
  case (Cons t ts)
  obtain c s' where turn: "crawl_turn env cfg auth width t s = (c, s')" by fastforce
  show ?case
  proof (cases c)
    case True
    then show ?thesis using Cons.prems Cons.IH[of s'] crawl_turn_ok[OF Cons.prems(3), of auth t] by (simp add: turn)
  next
    case False
    then show ?thesis using Cons.prems crawl_turn_stops[of env cfg auth width t s s'] by (simp add: turn pool_ok_def)
  qed
qed simp







lemma crawl_loop_settled:
  assumes "nat (page_budget cfg) < length ts"
  shows "\<exists>s. crawl_loop env cfg auth (crawl_width n) ts (seed_crawl env cfg seed sitemap) = (True, s) \<and> cr_running s = [] \<and>
    pages_done (cr_counters s) + pages_failed (cr_counters s) = int (length (cr_started s)) \<and>
    (cr_stopping s \<or> pages_done (cr_counters s) + pages_failed (cr_counters s) = discovered (cr_counters s))"
proof -
  let ?s0 = "seed_crawl env cfg seed sitemap" and ?w = "crawl_width n"
  obtain ended s where s: "crawl_loop env cfg auth ?w ts ?s0 = (ended, s)" by fastforce
  have "0 \<le> completed ?s0" using seeded_ok by (simp add: completed_def books_ok_def Let_def)
  then have "fst (crawl_loop env cfg auth ?w ts ?s0)" using assms by (intro crawl_loop_ends[OF seed_pool]) simp
  then have ended by (simp add: s)
  moreover have "pool_ok env cfg ?w (snd (crawl_loop env cfg auth ?w ts ?s0))" by (rule crawl_loop_ok[OF seed_pool])
  then have "books_ok cfg s" by (simp add: s pool_ok_def)
  moreover have "drained (snd (crawl_loop env cfg auth ?w ts ?s0))"
    using \<open>ended\<close> by (intro crawl_loop_drains seed_pool) (simp add: s, simp add: crawl_width_def)
  then have "drained s" by (simp add: s)
  ultimately show ?thesis using s by (auto simp: books_ok_def drained_def handed_def Let_def)
qed

lemma crawl_outcome_some:
  assumes "nat (page_budget cfg) < length ts"
  shows "\<exists>status c batches. crawl_outcome env cfg auth n seed sitemap ts writes = Some (status, c, batches)"
  using crawl_loop_settled[OF assms, of env auth n seed sitemap] by (auto simp: crawl_outcome_def)


definition sample_admit :: admit_env where
  "sample_admit = \<lparr>ae_parse = sample_parse, ae_safe = (\<lambda>_. True), ae_robots_parse = (\<lambda>_. None), ae_robots_fetch = (\<lambda>_. None)\<rparr>"

definition sample_turn :: "bool \<Rightarrow> turn" where
  "sample_turn requested = \<lparr>tn_cancel = requested, tn_pick = 0, tn_world = None, tn_writes = True\<rparr>"


text \<open>
  A cancellation is read on every fourth turn only: a crawl that needs three turns or fewer ends as completed, and
  its completion automations run, although \<open>request_cancel\<close> has accepted the request before the first page.
\<close>

lemma early_cancel_missed:
  "map_option fst (crawl_outcome sample_admit sample_config no_auth 1 ''https://a.co/'' [] (replicate 4 (sample_turn True)) True) = Some ''completed''"
proof -
  have url: "normalize_url sample_parse ''https://a.co/'' = ''https://a.co/''" "in_domain_scope sample_parse sample_config ''https://a.co/''"
    "fetchable ''https://a.co/''" by code_simp+
  have "seed_crawl sample_admit sample_config ''https://a.co/'' [] =
      fresh_crawl\<lparr>cr_visited := [''https://a.co/''], cr_frontier := [\<lparr>fi_url = ''https://a.co/'', fi_depth = 0\<rparr>],
        cr_counters := (cr_counters fresh_crawl)\<lparr>discovered := 1\<rparr>\<rparr>"
    using url by (simp add: seed_crawl_def admit_def Let_def sample_admit_def in_scope_def fresh_crawl_def ask_robots_def discover_page_def
          visited_hard_cap_def) (simp add: sample_config_def)
  moreover have "replicate 4 t = [t, t, t, t]" for t :: turn by (simp add: numeral_eq_Suc)
  moreover have "\<not> 4 dvd Suc (Suc 0)" by (simp add: numeral_2_eq_2[symmetric] del: Suc_1)
  ultimately show ?thesis
    by (simp add: crawl_outcome_def crawl_width_def sample_turn_def fresh_crawl_def crawl_turn_def poll_cancel_def
          refill_def take_worker_def count_failed_def Let_def)
qed

end
