(* ===== verification/CrawlShard.thy ===== *)
theory CrawlShard
  imports CrawlFetch "HOL-Library.Multiset"
begin

text \<open>
  One shard of a coordinator's crawl (\<open>run_crawl_shard\<close>, \<open>run_shard_from_message\<close> in \<open>src/crawl_shard/mod.rs\<close>):
  a batch of addresses, fetched through a window of workers, with the report sent back to the coordinator. The
  coordinator requeues what a host refused and drops what failed, so what the report says of each address matters.
\<close>

section \<open>The message\<close>

definition shard_concurrency :: nat where
  "shard_concurrency = 6"

definition shard_discovered_cap :: nat where
  "shard_discovered_cap = 3000"

record shard_extract =
  se_mode :: string
  se_delay_ms :: nat
  se_render_mode :: string
  se_ocr_mode :: string

text \<open>The shard's own configuration: scope, depth and budget are the coordinator's and inert here.\<close>

definition build_shard_config :: "shard_extract \<Rightarrow> bool \<Rightarrow> crawl_config" where
  "build_shard_config spec has_browser = \<lparr>seed_host = [], seed_reg = [], same_domain = False, allow_subdomains = True,
     include_res = [], exclude_res = [], cfg_max_depth = 0, page_budget = 0, delay_ms = se_delay_ms spec, respect_robots = False,
     extract_mode = (if se_mode spec = ''schema'' then ''schema'' else ''markdown''), render_mode = se_render_mode spec,
     ocr_mode = se_ocr_mode spec, browser_available = has_browser, want_thumbnails = True\<rparr>"

definition one_of :: "string list \<Rightarrow> string \<Rightarrow> string option \<Rightarrow> string" where
  "one_of allowed fallback v = (case v of Some s \<Rightarrow> if s \<in> set allowed then s else fallback | None \<Rightarrow> fallback)"

definition step_delay :: "json \<Rightarrow> int option" where
  "step_delay config =
     Option.bind (get_array ''steps'' config) (\<lambda>steps.
       case steps of [] \<Rightarrow> None | st # _ \<Rightarrow> Option.bind (json_get ''config'' st) (get_i64 ''delay_ms''))"

definition shard_item :: "json \<Rightarrow> frontier_item option" where
  "shard_item v = map_option (\<lambda>url. \<lparr>fi_url = url, fi_depth = unwrap_or 0 (get_i64 ''depth'' v)\<rparr>) (get_str ''url'' v)"

definition shard_items :: "json \<Rightarrow> frontier_item list" where
  "shard_items tc = unwrap_or [] (map_option (List.map_filter shard_item) (get_array ''_crawl_shard'' tc))"

definition shard_context :: "json \<Rightarrow> json" where
  "shard_context config = unwrap_or (JObj []) (json_get ''trigger_context'' config)"

definition shard_spec :: "json \<Rightarrow> shard_extract" where
  "shard_spec config =
     (let extract = unwrap_or (JObj []) (json_get ''_crawl_extract'' (shard_context config))
      in \<lparr>se_mode = unwrap_or ''markdown'' (get_str ''mode'' extract),
          se_delay_ms = nat (max 0 (case get_i64 ''delay_ms'' extract of Some n \<Rightarrow> n | None \<Rightarrow> unwrap_or 0 (step_delay config))),
          se_render_mode = one_of [''auto'', ''http'', ''browser''] ''auto'' (get_str ''render_mode'' extract),
          se_ocr_mode = one_of [''auto'', ''off'', ''force''] ''auto'' (get_str ''ocr_mode'' extract)\<rparr>)"

definition shard_auth :: "json \<Rightarrow> crawl_auth" where
  "shard_auth config =
     (let extract = unwrap_or (JObj []) (json_get ''_crawl_extract'' (shard_context config))
      in auth_from_session (json_get ''session_state'' config) (unwrap_or [] (get_str ''auth_domain'' extract)))"

section \<open>The batch\<close>

record lane_counts =
  ln_http :: nat
  ln_browser :: nat
  ln_doc :: nat
  ln_ocr :: nat

record shard_state =
  sh_queue :: "frontier_item list"
  sh_running :: "frontier_item list"
  sh_pages :: "json list"
  sh_failed :: "json list"
  sh_extracted :: "json list"
  sh_links :: "page_link list"
  sh_used_browser :: bool
  sh_lanes :: lane_counts
  sh_blocked :: "json list"
  sh_consec_block :: nat
  sh_agent_blocked :: bool
  sh_retry_after :: nat
  sh_progress :: "(nat \<times> nat) list"

definition fresh_shard :: "frontier_item list \<Rightarrow> shard_state" where
  "fresh_shard items = \<lparr>sh_queue = items, sh_running = [], sh_pages = [], sh_failed = [], sh_extracted = [], sh_links = [],
     sh_used_browser = False, sh_lanes = \<lparr>ln_http = 0, ln_browser = 0, ln_doc = 0, ln_ocr = 0\<rparr>, sh_blocked = [], sh_consec_block = 0,
     sh_agent_blocked = False, sh_retry_after = 0, sh_progress = []\<rparr>"

definition shard_width :: "frontier_item list \<Rightarrow> nat" where
  "shard_width items = min shard_concurrency (max 1 (length items))"

definition opt_nat :: "nat option \<Rightarrow> json" where
  "opt_nat v = (case v of Some n \<Rightarrow> JInt (int n) | None \<Rightarrow> JNull)"

definition blocked_entry :: "string \<Rightarrow> int \<Rightarrow> json \<Rightarrow> string \<Rightarrow> json \<Rightarrow> json" where
  "blocked_entry url depth status kind retry_after = JObj [(''url'', JStr url), (''depth'', JInt depth), (''status'', status),
     (''block_kind'', JStr kind), (''retry_after'', retry_after)]"

text \<open>After the abort, every address not yet fetched is handed back for another agent.\<close>

definition hand_back :: "shard_state \<Rightarrow> shard_state" where
  "hand_back s =
     (if sh_agent_blocked s
      then s\<lparr>sh_queue := [],
             sh_blocked := sh_blocked s @ map (\<lambda>it. blocked_entry (fi_url it) (fi_depth it) JNull ''host_blocked_agent'' JNull) (sh_queue s)\<rparr>
      else s)"

definition shard_refill :: "nat \<Rightarrow> shard_state \<Rightarrow> shard_state" where
  "shard_refill width s =
     (let n = width - length (sh_running s)
      in s\<lparr>sh_running := sh_running s @ take n (sh_queue s), sh_queue := drop n (sh_queue s)\<rparr>)"

definition count_lane :: "string \<Rightarrow> lane_counts \<Rightarrow> lane_counts" where
  "count_lane lane c =
     (if lane = ''browser'' then c\<lparr>ln_browser := ln_browser c + 1\<rparr>
      else if lane = ''doc'' then c\<lparr>ln_doc := ln_doc c + 1\<rparr>
      else if lane = ''ocr'' then c\<lparr>ln_ocr := ln_ocr c + 1\<rparr>
      else c\<lparr>ln_http := ln_http c + 1\<rparr>)"

definition page_entry :: "(string \<Rightarrow> string) \<Rightarrow> resolved \<Rightarrow> page_data \<Rightarrow> json" where
  "page_entry enc out p = JObj (
     [(''url'', JStr (ro_url out)), (''status'', JStr ''ok''), (''title'', JStr (pd_title p)), (''depth'', JInt (ro_depth out)),
      (''fetched_at'', JStr (ro_fetched_at out)), (''content_kind'', JStr (pd_content_kind p))]
     @ (case pd_favicon p of Some f \<Rightarrow> [(''favicon'', JStr f)] | None \<Rightarrow> [])
     @ (case pd_screenshot p of Some b \<Rightarrow> [(''screenshot_b64'', JStr (enc b))] | None \<Rightarrow> [])
     @ (case pd_file p of Some f \<Rightarrow> [(''file'', f)] | None \<Rightarrow> []))"

text \<open>Links in order of arrival, each address once, up to the cap.\<close>

fun add_links :: "page_link list \<Rightarrow> page_link list \<Rightarrow> page_link list" where
  "add_links [] acc = acc"
| "add_links (l # ls) acc =
     (if shard_discovered_cap \<le> length acc then acc
      else add_links ls (if pl_url l \<in> pl_url ` set acc then acc else acc @ [l]))"

definition bank_entry :: "(string \<Rightarrow> string) \<Rightarrow> resolved \<Rightarrow> page_data \<Rightarrow> shard_state \<Rightarrow> shard_state" where
  "bank_entry enc out p s = s\<lparr>sh_lanes := count_lane (pd_lane p) (sh_lanes s), sh_consec_block := 0,
     sh_pages := sh_pages s @ [page_entry enc out p], sh_extracted := sh_extracted s @ pd_rows p,
     sh_links := add_links (pd_links p) (sh_links s)\<rparr>"

definition bank_block :: "resolved \<Rightarrow> block_info \<Rightarrow> shard_state \<Rightarrow> shard_state" where
  "bank_block out info s =
     (let n = sh_consec_block s + 1
      in s\<lparr>sh_consec_block := n, sh_agent_blocked := sh_agent_blocked s \<or> consec_block_abort \<le> n,
           sh_retry_after := max (sh_retry_after s) (unwrap_or 0 (bi_retry_after info)),
           sh_blocked := sh_blocked s @ [blocked_entry (ro_url out) (ro_depth out) (opt_nat (bi_status info)) (bi_kind info)
                                           (opt_nat (bi_retry_after info))],
           sh_failed := sh_failed s @ [JObj [(''url'', JStr (ro_url out)), (''reason'', JStr (''blocked ('' @ bi_kind info @ '')'')),
                                        (''blocked'', JBool True), (''block_kind'', JStr (bi_kind info))]]\<rparr>)"

definition failed_entry :: "resolved \<Rightarrow> string \<Rightarrow> json" where
  "failed_entry out reason = JObj [(''url'', JStr (ro_url out)), (''reason'', JStr reason)]"

definition shard_settle :: "(string \<Rightarrow> string) \<Rightarrow> resolved \<Rightarrow> shard_state \<Rightarrow> shard_state" where
  "shard_settle enc out s =
     (let s = s\<lparr>sh_used_browser := sh_used_browser s \<or> ro_escalated out\<rparr>;
          s = (case ro_outcome out of
                 Extracted p \<Rightarrow> bank_entry enc out p s
               | Blocked info \<Rightarrow> bank_block out info s
               | Failed reason \<Rightarrow> s\<lparr>sh_consec_block := 0, sh_failed := sh_failed s @ [failed_entry out reason]\<rparr>
               | NeedsBrowser _ _ \<Rightarrow> s\<lparr>sh_failed := sh_failed s @ [failed_entry out ''no content (browser unavailable)'']\<rparr>)
      in s\<lparr>sh_progress := sh_progress s @ [(length (sh_pages s), length (sh_failed s))]\<rparr>)"

text \<open>
  One turn: which running worker finishes (an index modulo their number), in which world it fetched, none when it
  panicked. \<open>False\<close> is the loop's \<open>break\<close>.
\<close>

type_synonym shard_turn = "nat \<times> page_env option"

definition shard_step :: "(string \<Rightarrow> string) \<Rightarrow> crawl_config \<Rightarrow> crawl_auth \<Rightarrow> nat \<Rightarrow> shard_turn \<Rightarrow> shard_state \<Rightarrow> bool \<times> shard_state" where
  "shard_step enc cfg auth width t s =
     (let s = shard_refill width (hand_back s)
      in if sh_running s = [] then (False, s)
         else let i = fst t mod length (sh_running s); item = sh_running s ! i;
                  s = s\<lparr>sh_running := take i (sh_running s) @ drop (Suc i) (sh_running s)\<rparr>
              in (True, (case snd t of None \<Rightarrow> s | Some world \<Rightarrow> shard_settle enc (fetch_resolve world cfg auth item) s)))"

fun shard_loop :: "(string \<Rightarrow> string) \<Rightarrow> crawl_config \<Rightarrow> crawl_auth \<Rightarrow> nat \<Rightarrow> shard_turn list \<Rightarrow> shard_state \<Rightarrow> bool \<times> shard_state" where
  "shard_loop enc cfg auth width [] s = (False, s)"
| "shard_loop enc cfg auth width (t # ts) s =
     (let (continues, s') = shard_step enc cfg auth width t s
      in if continues then shard_loop enc cfg auth width ts s' else (True, s'))"

definition link_entry :: "page_link \<Rightarrow> json" where
  "link_entry l = JObj [(''url'', JStr (pl_url l)), (''text'', JStr (pl_text l))]"

definition lanes_json :: "lane_counts \<Rightarrow> json" where
  "lanes_json c = JObj [(''http'', JInt (int (ln_http c))), (''browser'', JInt (int (ln_browser c))), (''doc'', JInt (int (ln_doc c))),
     (''ocr'', JInt (int (ln_ocr c)))]"

definition result_data :: "shard_state \<Rightarrow> json" where
  "result_data s = JObj [(''engine'', JStr (if sh_used_browser s then ''browser'' else ''http'')), (''pages'', JArr (sh_pages s)),
     (''failed'', JArr (sh_failed s)), (''discovered_urls'', JArr (map (JStr \<circ> pl_url) (sh_links s))),
     (''discovered_links'', JArr (map link_entry (sh_links s))), (''blocked'', JArr (sh_blocked s)),
     (''agent_blocked'', JBool (sh_agent_blocked s)), (''retry_after'', JInt (int (sh_retry_after s))),
     (''extracted_data'', JArr (sh_extracted s)), (''lane_counts'', lanes_json (sh_lanes s))]"

text \<open>The batch, up to its \<open>break\<close>; \<open>None\<close> when the given turns do not suffice.\<close>

definition run_crawl_shard ::
    "(string \<Rightarrow> string) \<Rightarrow> bool \<Rightarrow> frontier_item list \<Rightarrow> shard_extract \<Rightarrow> crawl_auth \<Rightarrow> shard_turn list \<Rightarrow> shard_state option" where
  "run_crawl_shard enc has_browser items spec auth ts =
     (let (ended, s) = shard_loop enc (build_shard_config spec has_browser) auth (shard_width items) ts (fresh_shard items)
      in if ended then Some s else None)"

definition run_shard_from_message :: "(string \<Rightarrow> string) \<Rightarrow> bool \<Rightarrow> string \<Rightarrow> json \<Rightarrow> shard_turn list \<Rightarrow> json option" where
  "run_shard_from_message enc has_browser task_id config ts =
     map_option (\<lambda>s. JObj [(''type'', JStr ''task_result''), (''task_id'', JStr task_id), (''success'', JBool True),
         (''result_data'', result_data s), (''error'', JNull)])
       (run_crawl_shard enc has_browser (shard_items (shard_context config)) (shard_spec config) (shard_auth config) ts)"

section \<open>Refusals have kinds of their own\<close>

definition block_kinds :: "string list" where
  "block_kinds = [''rate_limited'', ''forbidden'', ''challenge'']"

lemma classify_block_kind: "classify_block lower status body = Some k \<Longrightarrow> k \<in> set block_kinds"
  by (auto simp: classify_block_def block_kinds_def split: if_splits)

text \<open>The block a page's outcome carries, if any.\<close>

fun carried_block :: "page_outcome \<Rightarrow> block_info option" where
  "carried_block (Blocked info) = Some info"
| "carried_block (NeedsBrowser _ info) = info"
| "carried_block _ = None"

lemma refused_carried: "carried_block (refused_or_failed env cfg f) = Some info \<Longrightarrow> bi_kind info \<in> set block_kinds"
  by (auto simp: refused_or_failed_def Let_def dest: classify_block_kind split: option.splits if_splits)

lemma html_page_carried [simp]: "carried_block (html_page ex lane shot) = None"
  by (simp add: html_page_def)

lemma http_page_carried: "carried_block (http_page env cfg depth f) = Some info \<Longrightarrow> bi_kind info \<in> set block_kinds"
  by (auto simp: http_page_def Let_def dest: classify_block_kind split: option.splits if_splits sum.splits)

lemma document_page_carried [simp]: "carried_block (document_page env cfg depth f) = None"
  by (simp add: document_page_def Let_def split: prod.split)

lemma fetch_carried: "carried_block (fetch_and_extract env cfg auth item) = Some info \<Longrightarrow> bi_kind info \<in> set block_kinds"
  by (auto simp: fetch_and_extract_def dest: refused_carried http_page_carried split: sum.splits if_splits)

lemma ocr_page_carried: "ocr_page env cfg depth u ex shot = Some o' \<Longrightarrow> carried_block o' = None"
  by (auto simp: ocr_page_def Let_def split: if_splits Option.bind_splits prod.splits option.splits)

lemma rendered_carried:
  assumes "carried_block (rendered_page env cfg depth fallback r) = Some info"
  shows "bi_kind info \<in> set block_kinds \<or> fallback = Some info"
proof -
  obtain u html shot where r: "r = (u, html, shot)" by (cases r)
  have "carried_block (unwrap_or (html_page ex lane s) (ocr_page env cfg depth u ex shot)) = None" for ex lane s
    using ocr_page_carried by (cases "ocr_page env cfg depth u ex shot") auto
  then show ?thesis using assms
    by (auto simp: rendered_page_def r dest: classify_block_kind split: option.splits sum.splits) (cases fallback; auto dest: classify_block_kind)
qed

lemma resolve_carried:
  assumes "carried_block (resolve_outcome env cfg url depth out) = Some info" "\<And>i. carried_block out = Some i \<Longrightarrow> bi_kind i \<in> set block_kinds"
  shows "bi_kind info \<in> set block_kinds"
proof (cases out)
  case (NeedsBrowser thin fallback)
  then have fb: "fallback = Some i \<Longrightarrow> bi_kind i \<in> set block_kinds" for i using assms(2) by simp
  have "carried_block (rendered_page env cfg depth fallback r) = Some info \<Longrightarrow> ?thesis" for r
    using rendered_carried[of env cfg depth fallback r info] fb by blast
  then show ?thesis
    using assms(1) NeedsBrowser fb by (auto simp: resolve_outcome_def degraded_page_def simp del: bind_eq_Some_conv split: option.splits sum.splits)
qed (use assms in \<open>auto simp: resolve_outcome_def\<close>)

lemma resolved_kind:
  "ro_outcome (fetch_resolve env cfg auth item) = Blocked info \<Longrightarrow> bi_kind info \<in> set block_kinds"
  using resolve_carried[of env cfg "fi_url item" "fi_depth item" "fetch_and_extract env cfg auth item" info]
    fetch_carried[of env cfg auth item]
  by (auto simp: fetch_resolve_def Let_def split: if_splits)

section \<open>Every address is reported once\<close>

definition entry_urls :: "json list \<Rightarrow> string option multiset" where
  "entry_urls js = image_mset (get_str ''url'') (mset js)"

definition item_urls :: "frontier_item list \<Rightarrow> string option multiset" where
  "item_urls items = image_mset (\<lambda>it. Some (fi_url it)) (mset items)"

definition handed_back :: "shard_state \<Rightarrow> json list" where
  "handed_back s = filter (\<lambda>b. get_str ''block_kind'' b = Some ''host_blocked_agent'') (sh_blocked s)"

definition reported :: "shard_state \<Rightarrow> string option multiset" where
  "reported s = entry_urls (sh_pages s) + entry_urls (sh_failed s) + entry_urls (handed_back s)"

definition accounted :: "shard_state \<Rightarrow> string option multiset" where
  "accounted s = reported s + item_urls (sh_queue s) + item_urls (sh_running s)"

lemma entry_urls_simps [simp]: "entry_urls [] = {#}" "entry_urls (xs @ ys) = entry_urls xs + entry_urls ys"
  "entry_urls (x # xs) = add_mset (get_str ''url'' x) (entry_urls xs)"
  by (simp_all add: entry_urls_def)

lemma item_urls_simps [simp]: "item_urls [] = {#}" "item_urls (xs @ ys) = item_urls xs + item_urls ys"
  "item_urls (x # xs) = add_mset (Some (fi_url x)) (item_urls xs)"
  by (simp_all add: item_urls_def)

lemma item_urls_take: "item_urls (take n xs) + item_urls (drop n xs) = item_urls xs"
  by (metis append_take_drop_id item_urls_simps(2))

lemma item_urls_pick: "i < length xs \<Longrightarrow> add_mset (Some (fi_url (xs ! i))) (item_urls (take i xs) + item_urls (drop (Suc i) xs)) = item_urls xs"
  using item_urls_take[of i xs] by (simp add: Cons_nth_drop_Suc[symmetric])

lemma hand_back_accounts: "accounted (hand_back s) = accounted s"
proof -
  have "entry_urls (filter (\<lambda>b. get_str ''block_kind'' b = Some ''host_blocked_agent'')
      (map (\<lambda>it. blocked_entry (fi_url it) (fi_depth it) JNull ''host_blocked_agent'' JNull) q)) = item_urls q" for q
    by (induction q) (simp_all add: blocked_entry_def json_simps)
  then show ?thesis by (simp add: accounted_def reported_def handed_back_def hand_back_def)
qed

lemma refill_accounts: "accounted (shard_refill width s) = accounted s"
  using item_urls_take[of "width - length (sh_running s)" "sh_queue s"]
  by (simp add: accounted_def reported_def handed_back_def shard_refill_def Let_def ac_simps)

lemma get_url_entries [simp]:
  "get_str ''url'' (page_entry enc out p) = Some (ro_url out)" "get_str ''url'' (failed_entry out reason) = Some (ro_url out)"
  "get_str ''url'' (blocked_entry u d st k ra) = Some u" "get_str ''block_kind'' (blocked_entry u d st k ra) = Some k"
  "get_str ''url'' (JObj ((''url'', JStr u) # rest)) = Some u"
  by (simp_all add: page_entry_def failed_entry_def blocked_entry_def json_simps)

lemma settle_reports:
  assumes "\<And>info. ro_outcome out = Blocked info \<Longrightarrow> bi_kind info \<in> set block_kinds"
  shows "reported (shard_settle enc out s) = add_mset (Some (ro_url out)) (reported s)"
  using assms
  by (auto simp: shard_settle_def Let_def reported_def handed_back_def bank_entry_def bank_block_def block_kinds_def
      split: page_outcome.split)

lemma settle_window: "sh_queue (shard_settle enc out s) = sh_queue s" "sh_running (shard_settle enc out s) = sh_running s"
  by (simp_all add: shard_settle_def Let_def bank_entry_def bank_block_def split: page_outcome.split)

text \<open>A turn reports the address of the worker it took; a panicked worker's address is reported nowhere.\<close>

lemma step_accounts:
  "accounted (snd (shard_step enc cfg auth width t s)) \<subseteq># accounted s"
  "snd t \<noteq> None \<Longrightarrow> accounted (snd (shard_step enc cfg auth width t s)) = accounted s"
proof -
  define r where "r = shard_refill width (hand_back s)"
  have r: "accounted r = accounted s" by (simp add: r_def refill_accounts hand_back_accounts)
  define i where "i = fst t mod length (sh_running r)"
  let ?s' = "snd (shard_step enc cfg auth width t s)"
  have "accounted ?s' \<subseteq># accounted s \<and> (snd t \<noteq> None \<longrightarrow> accounted ?s' = accounted s)"
  proof (cases "sh_running r = []")
    case True
    then show ?thesis by (simp add: shard_step_def Let_def r_def[symmetric] r)
  next
    case False
    let ?r = "r\<lparr>sh_running := take i (sh_running r) @ drop (Suc i) (sh_running r)\<rparr>"
    have taken: "add_mset (Some (fi_url (sh_running r ! i))) (accounted ?r) = accounted r"
    proof -
      have "i < length (sh_running r)" using False by (simp add: i_def)
      then have "item_urls (sh_running r) = add_mset (Some (fi_url (sh_running r ! i))) (item_urls (sh_running ?r))"
        using item_urls_pick by (simp add: item_urls_pick[symmetric])
      then show ?thesis by (simp add: accounted_def reported_def handed_back_def)
    qed
    have short: "accounted ?r \<subseteq># accounted r" by (simp add: taken[symmetric])
    show ?thesis
    proof (cases "snd t")
      case None
      then show ?thesis using False short by (simp add: shard_step_def Let_def r_def[symmetric] i_def[symmetric] r)
    next
      case (Some world)
      let ?out = "fetch_resolve world cfg auth (sh_running r ! i)"
      have "reported (shard_settle enc ?out ?r) = add_mset (Some (fi_url (sh_running r ! i))) (reported ?r)"
        using resolved_kind settle_reports[of ?out] by (simp add: fetch_resolve_def Let_def)
      then have "accounted (shard_settle enc ?out ?r) = accounted r"
        using taken by (simp add: accounted_def settle_window)
      then show ?thesis using False Some by (simp add: shard_step_def Let_def r_def[symmetric] i_def[symmetric] r)
    qed
  qed
  then show "accounted ?s' \<subseteq># accounted s" "snd t \<noteq> None \<Longrightarrow> accounted ?s' = accounted s" by simp_all
qed

section \<open>The shard ends with its report\<close>

definition pending :: "shard_state \<Rightarrow> nat" where
  "pending s = length (sh_queue s) + length (sh_running s)"

lemma pending_refill: "pending (shard_refill width s) = pending s"
  by (auto simp: pending_def shard_refill_def Let_def)

lemma pending_hand_back: "pending (hand_back s) \<le> pending s"
  by (simp add: pending_def hand_back_def)

lemma step_pending:
  assumes "shard_step enc cfg auth width t s = (True, s')"
  shows "pending s' < pending s"
proof -
  define r where "r = shard_refill width (hand_back s)"
  define i where "i = fst t mod length (sh_running r)"
  have ne: "sh_running r \<noteq> []" using assms by (auto simp: shard_step_def Let_def r_def split: if_splits)
  then have "i < length (sh_running r)" by (simp add: i_def)
  then have "Suc (pending s') = pending r" using assms ne
    by (auto simp: shard_step_def Let_def r_def[symmetric] i_def[symmetric] pending_def settle_window split: option.splits)
  moreover have "pending r \<le> pending s" using pending_hand_back by (simp add: r_def pending_refill)
  ultimately show ?thesis by simp
qed

lemma step_stops:
  assumes "shard_step enc cfg auth width t s = (False, s')" "0 < width"
  shows "pending s' = 0"
proof -
  have "s' = shard_refill width (hand_back s)" "sh_running s' = []" using assms(1) by (auto simp: shard_step_def Let_def split: if_splits)
  then show ?thesis using assms(2) by (auto simp: pending_def shard_refill_def Let_def)
qed

lemma loop_ends:
  "pending s < length ts \<Longrightarrow> 0 < width \<Longrightarrow>
    \<exists>s'. shard_loop enc cfg auth width ts s = (True, s') \<and> pending s' = 0"
proof (induction ts arbitrary: s)
  case (Cons t ts)
  obtain c s' where step: "shard_step enc cfg auth width t s = (c, s')" by fastforce
  show ?case
  proof (cases c)
    case True
    then have "pending s' < pending s" using step step_pending[of enc cfg auth width t s s'] by simp
    then have "pending s' < length ts" using Cons.prems(1) by simp
    then show ?thesis using Cons.IH Cons.prems(2) by (simp add: step True)
  next
    case False
    then show ?thesis using step step_stops[of enc cfg auth width t s s'] Cons.prems(2) by simp
  qed
qed simp

lemma loop_accounts:
  "accounted (snd (shard_loop enc cfg auth width ts s)) \<subseteq># accounted s \<and>
    (list_all (\<lambda>t. snd t \<noteq> None) ts \<longrightarrow> accounted (snd (shard_loop enc cfg auth width ts s)) = accounted s)"
proof (induction ts arbitrary: s)
  case (Cons t ts)
  obtain c s' where step: "shard_step enc cfg auth width t s = (c, s')" by fastforce
  have "accounted s' \<subseteq># accounted s" "snd t \<noteq> None \<Longrightarrow> accounted s' = accounted s"
    using step_accounts[where enc=enc and cfg=cfg and auth=auth and width=width and t=t and s=s] by (simp_all add: step)
  then show ?case using Cons.IH[of s'] subset_mset.order_trans by (auto simp: step)
qed simp

lemma pending_accounted: "pending s = 0 \<Longrightarrow> accounted s = reported s"
  by (simp add: pending_def accounted_def)

section \<open>The links it brings back\<close>

definition links_ok :: "page_link list \<Rightarrow> bool" where
  "links_ok ls \<longleftrightarrow> distinct (map pl_url ls) \<and> length ls \<le> shard_discovered_cap"

lemma add_links_ok: "links_ok acc \<Longrightarrow> links_ok (add_links ls acc)"
  by (induction ls acc rule: add_links.induct) (auto simp: links_ok_def)

lemma settle_links: "links_ok (sh_links s) \<Longrightarrow> links_ok (sh_links (shard_settle enc out s))"
  by (auto simp: shard_settle_def Let_def bank_entry_def bank_block_def add_links_ok split: page_outcome.split)

lemma step_links: "links_ok (sh_links s) \<Longrightarrow> links_ok (sh_links (snd (shard_step enc cfg auth width t s)))"
  by (auto simp: shard_step_def Let_def hand_back_def shard_refill_def split: option.split intro!: settle_links)

lemma loop_links: "links_ok (sh_links s) \<Longrightarrow> links_ok (sh_links (snd (shard_loop enc cfg auth width ts s)))"
proof (induction ts arbitrary: s)
  case (Cons t ts)
  obtain c s' where step: "shard_step enc cfg auth width t s = (c, s')" by fastforce
  then have "links_ok (sh_links s')" using step_links[OF Cons.prems, where enc=enc and cfg=cfg and auth=auth and width=width and t=t] by simp
  then show ?case using Cons.IH by (simp add: step)
qed simp

text \<open>
  C19. A shard always ends, within one turn more than it has addresses, and its report names each of its addresses at
  most once, as fetched, as failed or as handed back; unless a worker panicked it names every one of them. The links
  it brings back are distinct and at most \<open>shard_discovered_cap\<close>.
\<close>

theorem shard_reports_once:
  assumes "length items < length ts"
  shows "\<exists>s. run_crawl_shard enc has_browser items spec auth ts = Some s \<and> reported s \<subseteq># item_urls items \<and>
    (list_all (\<lambda>t. snd t \<noteq> None) ts \<longrightarrow> reported s = item_urls items) \<and>
    distinct (map pl_url (sh_links s)) \<and> length (sh_links s) \<le> shard_discovered_cap"
proof -
  let ?cfg = "build_shard_config spec has_browser" and ?s = "fresh_shard items" and ?w = "shard_width items"
  have "pending ?s < length ts" "0 < ?w"
    using assms by (simp_all add: pending_def fresh_shard_def shard_width_def shard_concurrency_def)
  from loop_ends[OF this, of enc ?cfg auth] obtain s' where
    ended: "shard_loop enc ?cfg auth ?w ts ?s = (True, s')" "pending s' = 0" by blast
  have "accounted ?s = item_urls items" by (simp add: accounted_def reported_def handed_back_def fresh_shard_def)
  then have "reported s' \<subseteq># item_urls items" "list_all (\<lambda>t. snd t \<noteq> None) ts \<Longrightarrow> reported s' = item_urls items"
    using loop_accounts[of enc ?cfg auth ?w ts ?s] ended pending_accounted[of s'] by simp_all
  moreover have "links_ok (sh_links s')"
    using loop_links[of ?s enc ?cfg auth ?w ts] ended by (simp add: fresh_shard_def links_ok_def)
  ultimately show ?thesis using ended by (simp add: run_crawl_shard_def links_ok_def)
qed

section \<open>Backing off\<close>

text \<open>
  Once a host has refused three fetches in a row, no further address is fetched from it: the next turn hands the
  whole queue back, starts nothing, and only drains what was already running.
\<close>

theorem shard_backs_off:
  assumes "consec_block_abort \<le> Suc (sh_consec_block s)" "ro_outcome out = Blocked info"
  shows "let s' = shard_settle enc out s; s'' = snd (shard_step enc cfg auth width t s')
    in sh_agent_blocked s' \<and> sh_queue s'' = [] \<and> mset (sh_running s'') \<subseteq># mset (sh_running s') \<and>
       length (handed_back s') + length (sh_queue s') \<le> length (handed_back s'')"
proof -
  define s' where "s' = shard_settle enc out s"
  have blocked: "sh_agent_blocked s'" using assms by (simp add: s'_def shard_settle_def bank_block_def Let_def)
  define r where "r = shard_refill width (hand_back s')"
  have r: "sh_queue r = []" "sh_running r = sh_running s'" "handed_back r = handed_back (hand_back s')"
    using blocked by (simp_all add: r_def shard_refill_def hand_back_def handed_back_def)
  have returns: "length (handed_back r) = length (handed_back s') + length (sh_queue s')"
    unfolding r(3) using blocked by (simp add: hand_back_def handed_back_def filter_map comp_def)
  have same: "handed_back (x\<lparr>sh_running := ws\<rparr>) = handed_back x" for x ws by (simp add: handed_back_def)
  have keep: "n \<le> length (handed_back x) \<Longrightarrow> n \<le> length (handed_back (shard_settle enc o' x))" for x o' n
    by (rule le_trans) (auto simp: handed_back_def shard_settle_def Let_def bank_entry_def bank_block_def split: page_outcome.split)
  let ?i = "fst t mod length (sh_running r)"
  have drop: "mset (take ?i xs @ drop (Suc ?i) xs) \<subseteq># mset xs" for xs :: "frontier_item list"
    by (metis append_take_drop_id drop_drop mset_append plus_1_eq_Suc subset_mset.add_left_mono subset_mset.le_add_same_cancel2 subset_mset.zero_le)
  show ?thesis
    unfolding Let_def s'_def[symmetric]
    using blocked r returns drop
    by (auto simp: shard_step_def Let_def r_def[symmetric] settle_window same intro!: keep split: option.split)
qed


lemma shard_reports_once_witness:
  "\<exists>s. run_crawl_shard (\<lambda>b. b) False [\<lparr>fi_url = ''https://a.co/x'', fi_depth = 0\<rparr>] \<lparr>se_mode = [], se_delay_ms = 0, se_render_mode = ''http'',
      se_ocr_mode = ''off''\<rparr> no_auth [(0, Some (sample_page_env 429)), (0, None)] = Some s \<and>
    reported s \<subseteq># {#Some ''https://a.co/x''#}"
  using shard_reports_once[of "[\<lparr>fi_url = ''https://a.co/x'', fi_depth = 0\<rparr>]" "[(0, Some (sample_page_env 429)), (0, None)]" "\<lambda>b. b" False
      "\<lparr>se_mode = [], se_delay_ms = 0, se_render_mode = ''http'', se_ocr_mode = ''off''\<rparr>" no_auth]
  by auto

definition sample_refusal :: resolved where
  "sample_refusal = \<lparr>ro_url = ''https://a.co/x'', ro_depth = 0, ro_outcome = Blocked \<lparr>bi_kind = ''forbidden'', bi_status = Some 403,
      bi_retry_after = None\<rparr>, ro_escalated = False, ro_fetched_at = ''t''\<rparr>"

lemma shard_backs_off_witness:
  "sh_queue (snd (shard_step (\<lambda>b. b) sample_config no_auth 2 (0, None)
    (shard_settle (\<lambda>b. b) sample_refusal ((fresh_shard [\<lparr>fi_url = ''https://a.co/y'', fi_depth = 0\<rparr>])\<lparr>sh_consec_block := 2\<rparr>)))) = []"
proof -
  let ?s = "(fresh_shard [\<lparr>fi_url = ''https://a.co/y'', fi_depth = 0\<rparr>])\<lparr>sh_consec_block := 2\<rparr>"
  have "consec_block_abort \<le> Suc (sh_consec_block ?s)" by (simp add: consec_block_abort_def)
  moreover have "ro_outcome sample_refusal = Blocked \<lparr>bi_kind = ''forbidden'', bi_status = Some 403, bi_retry_after = None\<rparr>" by (simp add: sample_refusal_def)
  ultimately show ?thesis using shard_backs_off[of ?s sample_refusal _ "\<lambda>b. b" sample_config no_auth 2 "(0, None)"] by (simp add: Let_def)
qed

text \<open>A page that could not be rendered leaves the run of refusals as it is; the other two outcomes end it.\<close>

lemma refusals_run:
  "sh_consec_block (shard_settle enc out s) =
    (case ro_outcome out of Blocked _ \<Rightarrow> Suc (sh_consec_block s) | NeedsBrowser _ _ \<Rightarrow> sh_consec_block s | _ \<Rightarrow> 0)"
  by (simp add: shard_settle_def Let_def bank_entry_def bank_block_def split: page_outcome.split)

text \<open>A worker that panics takes its address out of the report.\<close>

lemma panicked_address_lost:
  "map_option reported (run_crawl_shard (\<lambda>b. b) False [\<lparr>fi_url = ''https://a.co/x'', fi_depth = 0\<rparr>] \<lparr>se_mode = [], se_delay_ms = 0,
      se_render_mode = ''http'', se_ocr_mode = ''off''\<rparr> no_auth [(0, None), (0, None)]) = Some {#}"
  by (simp add: run_crawl_shard_def shard_width_def shard_concurrency_def shard_step_def hand_back_def shard_refill_def fresh_shard_def
      Let_def reported_def handed_back_def)

end
