(* ===== verification/CrawlJobs.thy ===== *)
theory CrawlJobs
  imports CrawlRun
begin

text \<open>
  The durable row of a crawl and what moves it: \<open>src/local/store/crawl_jobs.rs\<close>, and in
  \<open>src/crawl_shard/mod.rs\<close> the start of a crawl, the sitemap seeding and \<open>run_crawl\<close> from the row's point of view;
  from \<open>src/local/api/v1/crawl.rs\<close> the handlers that cancel and remove one.
\<close>

section \<open>Starting\<close>

record start_params =
  st_seed_url :: string
  st_name :: "string option"
  st_extract_mode :: string
  st_persona_id :: "int option"
  st_include_paths :: "string list"
  st_exclude_paths :: "string list"
  st_max_depth :: int
  st_page_budget :: int
  st_max_concurrent :: int
  st_delay_ms :: int
  st_respect_robots :: bool
  st_same_domain :: bool
  st_allow_subdomains :: bool

definition default_params :: start_params where
  "default_params = \<lparr>st_seed_url = [], st_name = None, st_extract_mode = ''markdown'', st_persona_id = None, st_include_paths = [],
     st_exclude_paths = [], st_max_depth = 3, st_page_budget = 500, st_max_concurrent = 4, st_delay_ms = 250,
     st_respect_robots = True, st_same_domain = True, st_allow_subdomains = True\<rparr>"

datatype crawl_error = BadRequest string | NotFound string | Internal string | DbError string

definition error_text :: "crawl_error \<Rightarrow> string" where
  "error_text e =
     (case e of
        BadRequest s \<Rightarrow> ''bad request: '' @ s
      | NotFound s \<Rightarrow> ''not found: '' @ s
      | Internal s \<Rightarrow> s
      | DbError s \<Rightarrow> ''database error: '' @ s)"

text \<open>\<open>safe\<close> is the navigation guard with its name resolution, \<open>parses\<close> the address parser.\<close>

definition normalize_and_vet_seed :: "(string \<Rightarrow> bool) \<Rightarrow> (string \<Rightarrow> bool) \<Rightarrow> string \<Rightarrow> crawl_error + string" where
  "normalize_and_vet_seed safe parses raw =
     (let seed = trim raw
      in if seed = [] then Inl (BadRequest ''A URL is required.'')
         else let seed = (if fetchable seed then seed else ''https://'' @ seed)
           in if \<not> safe seed then Inl (BadRequest (''URL is not allowed: '' @ seed))
              else if \<not> parses seed then Inl (BadRequest (''Invalid URL: '' @ seed))
              else Inr seed)"

text \<open>The row; a boolean column is an integer, the patterns are kept as the JSON list of their texts.\<close>

record crawl_job =
  j_id :: int
  j_name :: string
  j_seed_url :: string
  j_include_paths :: "string list"
  j_exclude_paths :: "string list"
  j_max_depth :: int
  j_same_domain :: int
  j_allow_subdomains :: int
  j_extract_mode :: string
  j_persona_id :: "int option"
  j_respect_robots :: int
  j_delay_ms :: int
  j_max_concurrent :: int
  j_page_budget :: int
  j_workflow_id :: "int option"
  j_definition_id :: "int option"
  j_status :: string
  j_discovered :: int
  j_done :: int
  j_failed :: int
  j_skipped :: int
  j_workers_active :: int
  j_depth :: int
  j_error :: "string option"
  j_cancel_requested :: int
  j_started_at :: "int option"
  j_completed_at :: "int option"

definition job_flag :: "bool \<Rightarrow> int" where
  "job_flag b = (if b then 1 else 0)"

text \<open>The row \<open>start_crawl\<close> inserts and binds to its workflow.\<close>

definition crawl_name :: "url_parser \<Rightarrow> string \<Rightarrow> string option \<Rightarrow> string" where
  "crawl_name parse seed given =
     (case given of
        Some s \<Rightarrow> if trim s \<noteq> [] then s else ''Dragnet: '' @ (if host_of parse seed = [] then seed else host_of parse seed)
      | None \<Rightarrow> ''Dragnet: '' @ (if host_of parse seed = [] then seed else host_of parse seed))"

definition new_job :: "url_parser \<Rightarrow> int \<Rightarrow> int \<Rightarrow> string \<Rightarrow> start_params \<Rightarrow> crawl_job" where
  "new_job parse job_id workflow seed p = \<lparr>j_id = job_id, j_name = crawl_name parse seed (st_name p), j_seed_url = seed,
     j_include_paths = st_include_paths p, j_exclude_paths = st_exclude_paths p, j_max_depth = clamp 0 20 (st_max_depth p),
     j_same_domain = job_flag (st_same_domain p), j_allow_subdomains = job_flag (st_allow_subdomains p),
     j_extract_mode = (if st_extract_mode p = ''schema'' then ''schema'' else ''markdown''), j_persona_id = st_persona_id p,
     j_respect_robots = job_flag (st_respect_robots p), j_delay_ms = clamp 0 60000 (st_delay_ms p),
     j_max_concurrent = clamp 1 32 (st_max_concurrent p), j_page_budget = clamp 1 50000 (st_page_budget p),
     j_workflow_id = Some workflow, j_definition_id = None, j_status = ''queued'', j_discovered = 0, j_done = 0, j_failed = 0,
     j_skipped = 0, j_workers_active = 0, j_depth = 0, j_error = None, j_cancel_requested = 0, j_started_at = None,
     j_completed_at = None\<rparr>"

definition start_crawl ::
    "url_parser \<Rightarrow> (string \<Rightarrow> bool) \<Rightarrow> (string \<Rightarrow> bool) \<Rightarrow> int \<Rightarrow> int \<Rightarrow> start_params \<Rightarrow> crawl_job list \<Rightarrow> crawl_error + (crawl_job \<times> crawl_job list)" where
  "start_crawl parse safe parses job_id workflow p jobs =
     (case normalize_and_vet_seed safe parses (st_seed_url p) of
        Inl e \<Rightarrow> Inl e
      | Inr seed \<Rightarrow> (let j = new_job parse job_id workflow seed p in Inr (j, jobs @ [j])))"

text \<open>\<open>compile\<close> is the regular-expression compiler: patterns that do not compile are left out.\<close>

definition build_config :: "url_parser \<Rightarrow> (string \<Rightarrow> (string \<Rightarrow> bool) option) \<Rightarrow> crawl_job \<Rightarrow> bool \<Rightarrow> crawl_config" where
  "build_config parse compile j has_browser =
     (let h = host_of parse (j_seed_url j)
      in \<lparr>seed_host = h, seed_reg = registrable h, same_domain = j_same_domain j \<noteq> 0, allow_subdomains = j_allow_subdomains j \<noteq> 0,
          include_res = List.map_filter compile (j_include_paths j), exclude_res = List.map_filter compile (j_exclude_paths j),
          cfg_max_depth = j_max_depth j, page_budget = j_page_budget j, delay_ms = nat (max 0 (j_delay_ms j)),
          respect_robots = j_respect_robots j \<noteq> 0, extract_mode = j_extract_mode j, render_mode = ''auto'', ocr_mode = ''auto'',
          browser_available = has_browser, want_thumbnails = False\<rparr>)"

section \<open>The rows\<close>

definition terminal_statuses :: "string list" where
  "terminal_statuses = [''completed'', ''failed'', ''cancelled'']"

definition job_terminal :: "crawl_job \<Rightarrow> bool" where
  "job_terminal j \<longleftrightarrow> j_status j \<in> set terminal_statuses"

definition get_job :: "crawl_job list \<Rightarrow> int \<Rightarrow> crawl_job option" where
  "get_job jobs i = List.find (\<lambda>j. j_id j = i) jobs"

definition update_job :: "int \<Rightarrow> (crawl_job \<Rightarrow> crawl_job) \<Rightarrow> crawl_job list \<Rightarrow> crawl_job list" where
  "update_job i f jobs = map (\<lambda>j. if j_id j = i then f j else j) jobs"

definition status_row :: "int \<Rightarrow> string \<Rightarrow> crawl_job \<Rightarrow> crawl_job" where
  "status_row now status j = j\<lparr>j_status := status,
     j_started_at := (case j_started_at j of Some t \<Rightarrow> Some t
                      | None \<Rightarrow> if status \<in> {''mapping'', ''crawling''} then Some now else None)\<rparr>"

text \<open>A statement's \<open>fault\<close> is the driver's message when it fails.\<close>

definition set_status :: "string option \<Rightarrow> int \<Rightarrow> string \<Rightarrow> int \<Rightarrow> crawl_job list \<Rightarrow> crawl_error + crawl_job list" where
  "set_status fault now status i jobs =
     (case fault of Some m \<Rightarrow> Inl (DbError m) | None \<Rightarrow> Inr (update_job i (status_row now status) jobs))"

definition counters_row :: "counters \<Rightarrow> int \<Rightarrow> crawl_job \<Rightarrow> crawl_job" where
  "counters_row c workers j = j\<lparr>j_discovered := discovered c, j_done := pages_done c, j_failed := pages_failed c,
     j_skipped := pages_skipped c, j_workers_active := workers, j_depth := max (j_depth j) (max_depth_seen c)\<rparr>"

definition set_counters :: "string option \<Rightarrow> counters \<Rightarrow> int \<Rightarrow> int \<Rightarrow> crawl_job list \<Rightarrow> crawl_error + crawl_job list" where
  "set_counters fault c workers i jobs =
     (case fault of Some m \<Rightarrow> Inl (DbError m) | None \<Rightarrow> Inr (update_job i (counters_row c workers) jobs))"

text \<open>The loop's push of its counters, which drops an error.\<close>

definition push_counters :: "string option \<Rightarrow> counters \<Rightarrow> int \<Rightarrow> int \<Rightarrow> crawl_job list \<Rightarrow> crawl_job list" where
  "push_counters fault c workers i jobs = (case set_counters fault c workers i jobs of Inl _ \<Rightarrow> jobs | Inr jobs' \<Rightarrow> jobs')"

definition cancel_row :: "crawl_job \<Rightarrow> crawl_job" where
  "cancel_row j =
     (if job_terminal j then j
      else j\<lparr>j_cancel_requested := 1,
             j_status := (if j_status j \<in> {''queued'', ''mapping'', ''crawling''} then ''stopping'' else j_status j)\<rparr>)"

definition request_cancel :: "int \<Rightarrow> crawl_job list \<Rightarrow> bool \<times> crawl_job list" where
  "request_cancel i jobs = (list_ex (\<lambda>j. j_id j = i \<and> \<not> job_terminal j) jobs, update_job i cancel_row jobs)"

definition is_cancel_requested :: "int \<Rightarrow> crawl_job list \<Rightarrow> bool" where
  "is_cancel_requested i jobs = (case get_job jobs i of Some j \<Rightarrow> j_cancel_requested j \<noteq> 0 | None \<Rightarrow> False)"

definition final_row :: "int \<Rightarrow> string \<Rightarrow> string option \<Rightarrow> crawl_job \<Rightarrow> crawl_job" where
  "final_row now status err j =
     (if job_terminal j then j
      else j\<lparr>j_status := status, j_error := err, j_workers_active := 0, j_cancel_requested := 0, j_completed_at := Some now\<rparr>)"

text \<open>The guarded update, then the row read back; either can fail.\<close>

definition finalize ::
    "string option \<Rightarrow> string option \<Rightarrow> int \<Rightarrow> int \<Rightarrow> string \<Rightarrow> string option \<Rightarrow> crawl_job list \<Rightarrow> (crawl_error + crawl_job) \<times> crawl_job list" where
  "finalize write_fault read_fault now i status err jobs =
     (case write_fault of
        Some m \<Rightarrow> (Inl (DbError m), jobs)
      | None \<Rightarrow>
          (let jobs' = update_job i (final_row now status err) jobs
           in case read_fault of
                Some m \<Rightarrow> (Inl (DbError m), jobs')
              | None \<Rightarrow>
                  (case get_job jobs' i of
                     None \<Rightarrow> (Inl (NotFound (''crawl_job '' @ show_int i)), jobs')
                   | Some j \<Rightarrow> (Inr j, jobs'))))"

definition interrupt_orphaned :: "int \<Rightarrow> crawl_job list \<Rightarrow> crawl_job list" where
  "interrupt_orphaned now = map (\<lambda>j. if j_status j \<in> {''queued'', ''mapping'', ''crawling'', ''stopping''}
     then j\<lparr>j_status := ''failed'', j_cancel_requested := 0, j_workers_active := 0,
            j_error := Some ''Interrupted: the app restarted while the crawl was running.'', j_completed_at := Some now\<rparr>
     else j)"

definition attach_run :: "int \<Rightarrow> int \<Rightarrow> crawl_job list \<Rightarrow> crawl_job list" where
  "attach_run i definition_id = update_job i (\<lambda>j. j\<lparr>j_definition_id := Some definition_id\<rparr>)"

definition delete_job :: "int \<Rightarrow> crawl_job list \<Rightarrow> crawl_job list" where
  "delete_job i = filter (\<lambda>j. j_id j \<noteq> i)"

text \<open>The handlers of another request while the crawl runs: cancel it, or remove it once it has settled.\<close>

definition cancel_handler :: "int \<Rightarrow> crawl_job list \<Rightarrow> crawl_error + (bool \<times> crawl_job list)" where
  "cancel_handler i jobs =
     (case get_job jobs i of None \<Rightarrow> Inl (NotFound (''crawl '' @ show_int i)) | Some _ \<Rightarrow> Inr (request_cancel i jobs))"

definition remove_handler :: "int \<Rightarrow> crawl_job list \<Rightarrow> crawl_error + crawl_job list" where
  "remove_handler i jobs =
     (case get_job jobs i of
        None \<Rightarrow> Inl (NotFound (''crawl '' @ show_int i))
      | Some j \<Rightarrow> if \<not> job_terminal j then Inl (BadRequest ''Stop this crawl before removing it.'') else Inr (delete_job i jobs))"

section \<open>Sitemaps\<close>

text \<open>
  \<open>fetch\<close> is a bounded read of an address that answered with success; \<open>locs\<close> the addresses the \<open>loc\<close> elements of
  a sitemap hold, in order (the regular-expression engine), of which the caller takes a bounded number.
\<close>

definition sitemap_line :: "string \<Rightarrow> string option" where
  "sitemap_line line =
     (let l = trim line
      in if starts_with (ascii_lower l) ''sitemap:''
         then let v = trim (tl (dropWhile (\<lambda>c. c \<noteq> CHR '':'') l)) in if v \<noteq> [] then Some v else None
         else None)"

definition sitemap_candidates :: "(string \<Rightarrow> bool) \<Rightarrow> (string \<Rightarrow> string option) \<Rightarrow> string \<Rightarrow> string list" where
  "sitemap_candidates safe fetch origin =
     (let robots_url = origin @ ''/robots.txt'';
          named = (if safe robots_url
                   then (case fetch robots_url of Some text \<Rightarrow> List.map_filter sitemap_line (lines text) | None \<Rightarrow> []) else [])
      in if named = [] then [origin @ ''/sitemap.xml''] else named)"

text \<open>Both loops carry the maps seen so far and the addresses found; a child's room can run out in the middle.\<close>

definition read_child ::
    "(string \<Rightarrow> bool) \<Rightarrow> (string \<Rightarrow> string option) \<Rightarrow> (string \<Rightarrow> string list) \<Rightarrow> string \<Rightarrow> string list \<Rightarrow> bool \<times> string list" where
  "read_child safe fetch locs c urls =
     (if \<not> safe c then (True, urls)
      else case fetch c of
          None \<Rightarrow> (length urls < sitemap_hard_cap, urls)
        | Some text \<Rightarrow>
            (let urls = urls @ take (sitemap_hard_cap - length urls) (locs text)
             in (length urls < sitemap_hard_cap, urls)))"

fun expand_children ::
    "(string \<Rightarrow> bool) \<Rightarrow> (string \<Rightarrow> string option) \<Rightarrow> (string \<Rightarrow> string list) \<Rightarrow> string list \<Rightarrow> string list \<times> string list \<Rightarrow> string list \<times> string list" where
  "expand_children safe fetch locs [] acc = acc"
| "expand_children safe fetch locs (c # cs) acc =
     (if c \<in> set (fst acc) then expand_children safe fetch locs cs acc
      else let r = read_child safe fetch locs c (snd acc); acc = (c # fst acc, snd r)
        in if fst r then expand_children safe fetch locs cs acc else acc)"

definition read_map ::
    "(string \<Rightarrow> bool) \<Rightarrow> (string \<Rightarrow> string option) \<Rightarrow> (string \<Rightarrow> string list) \<Rightarrow> string \<Rightarrow> string list \<times> string list \<Rightarrow> bool \<times> string list \<times> string list" where
  "read_map safe fetch locs m acc =
     (if \<not> safe m then (True, acc)
      else case fetch m of
          None \<Rightarrow> (True, acc)
        | Some text \<Rightarrow>
            (let found = take (max 1 (sitemap_hard_cap - length (snd acc))) (locs text);
                 acc = (if contains_str (ascii_lower text) ''<sitemapindex''
                        then expand_children safe fetch locs (take 20 found) acc else (fst acc, snd acc @ found))
             in (length (snd acc) < sitemap_hard_cap, acc)))"

fun expand_maps ::
    "(string \<Rightarrow> bool) \<Rightarrow> (string \<Rightarrow> string option) \<Rightarrow> (string \<Rightarrow> string list) \<Rightarrow> string list \<Rightarrow> string list \<times> string list \<Rightarrow> string list" where
  "expand_maps safe fetch locs [] acc = snd acc"
| "expand_maps safe fetch locs (m # ms) acc =
     (if m \<in> set (fst acc) then expand_maps safe fetch locs ms acc
      else let r = read_map safe fetch locs m (m # fst acc, snd acc)
        in if fst r then expand_maps safe fetch locs ms (snd r) else snd (snd r))"

definition keep_first :: "'a list \<Rightarrow> 'a list" where
  "keep_first xs = rev (remdups (rev xs))"

definition discover_sitemap_urls ::
    "(string \<Rightarrow> crawl_url option) \<Rightarrow> (string \<Rightarrow> bool) \<Rightarrow> (string \<Rightarrow> string option) \<Rightarrow> (string \<Rightarrow> string list) \<Rightarrow> string \<Rightarrow> string list" where
  "discover_sitemap_urls parse safe fetch locs seed =
     (case Option.bind (parse seed) crawl_origin of
        None \<Rightarrow> []
      | Some origin \<Rightarrow> keep_first (expand_maps safe fetch locs (take 5 (sitemap_candidates safe fetch origin)) ([], [])))"

lemma keep_first_props [simp]: "distinct (keep_first xs)" "length (keep_first xs) \<le> length xs" "set (keep_first xs) = set xs"
  by (simp_all add: keep_first_def) (metis length_remdups_leq length_rev)

text \<open>What a client that refuses unvetted addresses reads.\<close>

definition vetted_fetch :: "(string \<Rightarrow> bool) \<Rightarrow> (string \<Rightarrow> string option) \<Rightarrow> string \<Rightarrow> string option" where
  "vetted_fetch safe fetch u = (if safe u then fetch u else None)"

lemma candidates_vetted: "sitemap_candidates safe (vetted_fetch safe fetch) o' = sitemap_candidates safe fetch o'"
  by (simp add: sitemap_candidates_def vetted_fetch_def Let_def)

lemma child_vetted: "read_child safe (vetted_fetch safe fetch) locs c urls = read_child safe fetch locs c urls"
  by (simp add: read_child_def vetted_fetch_def)

lemma children_vetted: "expand_children safe (vetted_fetch safe fetch) locs cs acc = expand_children safe fetch locs cs acc"
  by (induction cs arbitrary: acc) (simp_all add: child_vetted Let_def)

lemma map_vetted: "read_map safe (vetted_fetch safe fetch) locs m acc = read_map safe fetch locs m acc"
  by (simp add: read_map_def vetted_fetch_def children_vetted Let_def split: option.split)

lemma maps_vetted: "expand_maps safe (vetted_fetch safe fetch) locs ms acc = expand_maps safe fetch locs ms acc"
  by (induction ms arbitrary: acc) (simp_all add: map_vetted Let_def)

lemma child_bounded: "length urls \<le> sitemap_hard_cap \<Longrightarrow> length (snd (read_child safe fetch locs c urls)) \<le> sitemap_hard_cap"
  by (auto simp: read_child_def Let_def split: option.split)

lemma children_bounded:
  "length (snd acc) \<le> sitemap_hard_cap \<Longrightarrow> length (snd (expand_children safe fetch locs cs acc)) \<le> sitemap_hard_cap"
  by (induction cs arbitrary: acc) (simp_all add: child_bounded Let_def)

lemma map_bounded:
  assumes "length (snd acc) < sitemap_hard_cap"
  shows "length (snd (snd (read_map safe fetch locs m acc))) \<le> sitemap_hard_cap"
    and "fst (read_map safe fetch locs m acc) \<Longrightarrow> length (snd (snd (read_map safe fetch locs m acc))) < sitemap_hard_cap"
  using assms children_bounded[of acc safe fetch locs] by (auto simp: read_map_def Let_def split: option.splits if_splits)

lemma maps_bounded: "length (snd acc) < sitemap_hard_cap \<Longrightarrow> length (expand_maps safe fetch locs ms acc) \<le> sitemap_hard_cap"
  by (induction ms arbitrary: acc) (simp_all add: map_bounded Let_def)

text \<open>
  Whatever a site's robots file and sitemaps say, the seeding reads no address the navigation guard refuses, and
  yields at most \<open>sitemap_hard_cap\<close> addresses, each once.
\<close>

theorem sitemaps_vetted:
  "discover_sitemap_urls parse safe fetch locs seed = discover_sitemap_urls parse safe (vetted_fetch safe fetch) locs seed \<and>
    distinct (discover_sitemap_urls parse safe fetch locs seed) \<and>
    length (discover_sitemap_urls parse safe fetch locs seed) \<le> sitemap_hard_cap"
proof -
  have "length (expand_maps safe fetch locs ms ([], [])) \<le> sitemap_hard_cap" for ms
    by (rule maps_bounded) (simp add: sitemap_hard_cap_def)
  then have "length (keep_first (expand_maps safe fetch locs ms ([], []))) \<le> sitemap_hard_cap" for ms
    using keep_first_props(2) le_trans by blast
  then show ?thesis by (simp add: discover_sitemap_urls_def candidates_vetted maps_vetted split: option.split)
qed

section \<open>The crawl and its row\<close>

text \<open>
  What the crawl of a row needs: admission's environment, the bounded reads of the seeding, the pattern compiler,
  whether a browser is up, the session of a persona or the reason it cannot sign in, the clock, and which statements
  of the database fail, each with the driver's message. The first of each pair of finalizing statements is the
  update, the second the read of its result: those of a refused sign-in, of the end of the loop, and of the task that
  runs the crawl.
\<close>

datatype crawl_statement = LoadRow | MarkMapping | MarkCrawling | PushCounters
  | RefuseWrite | RefuseRead | FinalWrite | FinalRead | FailWrite | FailRead

record crawl_host =
  ch_admit :: admit_env
  ch_read :: "string \<Rightarrow> string option"
  ch_locs :: "string \<Rightarrow> string list"
  ch_compile :: "string \<Rightarrow> (string \<Rightarrow> bool) option"
  ch_browser :: bool
  ch_session :: "int \<Rightarrow> string \<Rightarrow> string + crawl_auth"
  ch_now :: int
  ch_fault :: "crawl_statement \<Rightarrow> string option"

datatype request = Cancel int | Remove int | Attach int int

fun serve :: "request \<Rightarrow> crawl_job list \<Rightarrow> crawl_job list" where
  "serve (Cancel i) jobs = (case cancel_handler i jobs of Inl _ \<Rightarrow> jobs | Inr r \<Rightarrow> snd r)"
| "serve (Remove i) jobs = (case remove_handler i jobs of Inl _ \<Rightarrow> jobs | Inr jobs' \<Rightarrow> jobs')"
| "serve (Attach i d) jobs = attach_run i d jobs"

text \<open>
  Each turn of the loop reads the flag as the requests served before it left it; \<open>tn_cancel\<close> of a given turn says
  whether that read succeeds, a failed one counting as no request.
\<close>

fun with_flags :: "int \<Rightarrow> crawl_job list \<Rightarrow> (request list \<times> turn) list \<Rightarrow> turn list \<times> crawl_job list" where
  "with_flags i jobs [] = ([], jobs)"
| "with_flags i jobs ((rs, t) # ts) =
     (let jobs = fold serve rs jobs; r = with_flags i jobs ts
      in (t\<lparr>tn_cancel := tn_cancel t \<and> is_cancel_requested i jobs\<rparr> # fst r, snd r))"

definition crawl_auth_of :: "crawl_host \<Rightarrow> crawl_job \<Rightarrow> string + crawl_auth" where
  "crawl_auth_of h j = (case j_persona_id j of Some p \<Rightarrow> ch_session h p (j_seed_url j) | None \<Rightarrow> Inr no_auth)"

text \<open>
  From the seeding to the end of the loop. The result of the two status writes is passed up, that of the counters and
  of the final write is dropped. Of the counters only the last push, with no worker left, shows in the final row.
\<close>

definition crawl_row ::
    "crawl_host \<Rightarrow> crawl_job \<Rightarrow> crawl_auth \<Rightarrow> request list \<Rightarrow> (request list \<times> turn) list \<Rightarrow> bool \<Rightarrow> crawl_job list
      \<Rightarrow> ((crawl_error + unit) \<times> crawl_job list \<times> json list list) option" where
  "crawl_row h j auth seeding ts writes jobs =
     (let i = j_id j; now = ch_now h; env = ch_admit h;
          cfg = build_config (ae_parse env) (ch_compile h) j (ch_browser h)
      in case set_status (ch_fault h MarkMapping) now ''mapping'' i jobs of
           Inl e \<Rightarrow> Some (Inl e, jobs, [])
         | Inr jobs \<Rightarrow>
             (let sitemap = discover_sitemap_urls (ae_robots_parse env) (ae_safe env) (ch_read h) (ch_locs h) (j_seed_url j);
                  jobs = fold serve seeding jobs
              in case set_status (ch_fault h MarkCrawling) now ''crawling'' i jobs of
                   Inl e \<Rightarrow> Some (Inl e, jobs, [])
                 | Inr jobs \<Rightarrow>
                     (let (turns, jobs) = with_flags i jobs ts
                      in map_option (\<lambda>(status, c, batches).
                             (Inr (), snd (finalize (ch_fault h FinalWrite) (ch_fault h FinalRead) now i status None
                                             (push_counters (ch_fault h PushCounters) c 0 i jobs)), batches))
                           (crawl_outcome env cfg auth (j_max_concurrent j) (j_seed_url j) sitemap turns writes))))"

text \<open>
  A row that is gone or settled is left alone. The last component is what was saved; \<open>None\<close> when the given turns do
  not suffice.
\<close>

definition run_crawl ::
    "crawl_host \<Rightarrow> int \<Rightarrow> request list \<Rightarrow> (request list \<times> turn) list \<Rightarrow> bool \<Rightarrow> crawl_job list
      \<Rightarrow> ((crawl_error + unit) \<times> crawl_job list \<times> json list list) option" where
  "run_crawl h i seeding ts writes jobs =
     (case ch_fault h LoadRow of
        Some m \<Rightarrow> Some (Inl (DbError m), jobs, [])
      | None \<Rightarrow>
          (case get_job jobs i of
             None \<Rightarrow> Some (Inr (), jobs, [])
           | Some j \<Rightarrow>
               if job_terminal j then Some (Inr (), jobs, [])
               else if j_workflow_id j = None then Some (Inl (Internal ''crawl has no workflow''), jobs, [])
               else (case crawl_auth_of h j of
                       Inl msg \<Rightarrow>
                         (case finalize (ch_fault h RefuseWrite) (ch_fault h RefuseRead) (ch_now h) i ''failed'' (Some msg) jobs of
                            (Inl e, jobs) \<Rightarrow> Some (Inl e, jobs, [])
                          | (Inr _, jobs) \<Rightarrow> Some (Inr (), jobs, []))
                     | Inr auth \<Rightarrow> crawl_row h j auth seeding ts writes jobs)))"

text \<open>The task \<open>start_crawl\<close> spawns: an error of the crawl finalizes its row as failed, and the result of that is dropped.\<close>

definition crawl_task ::
    "crawl_host \<Rightarrow> int \<Rightarrow> request list \<Rightarrow> (request list \<times> turn) list \<Rightarrow> bool \<Rightarrow> crawl_job list \<Rightarrow> (crawl_job list \<times> json list list) option" where
  "crawl_task h i seeding ts writes jobs =
     map_option (\<lambda>(res, jobs, batches).
         (case res of
            Inl e \<Rightarrow> snd (finalize (ch_fault h FailWrite) (ch_fault h FailRead) (ch_now h) i ''failed'' (Some (error_text e)) jobs)
          | Inr _ \<Rightarrow> jobs, batches))
       (run_crawl h i seeding ts writes jobs)"

section \<open>A crawl settles, and stays settled\<close>

definition live_statuses :: "string list" where
  "live_statuses = [''queued'', ''mapping'', ''crawling'', ''stopping'']"

definition live_job :: "crawl_job \<Rightarrow> bool" where
  "live_job j \<longleftrightarrow> j_status j \<in> set live_statuses"

definition settled_job :: "crawl_job \<Rightarrow> bool" where
  "settled_job j \<longleftrightarrow> j_status j \<in> set terminal_statuses \<and> j_cancel_requested j = 0 \<and> j_workers_active j = 0"

lemma live_not_terminal: "live_job j \<Longrightarrow> \<not> job_terminal j"
  by (auto simp: live_job_def job_terminal_def live_statuses_def terminal_statuses_def)

definition live_row :: "int \<Rightarrow> crawl_job list \<Rightarrow> bool" where
  "live_row i jobs \<longleftrightarrow> (case get_job jobs i of Some j \<Rightarrow> live_job j | None \<Rightarrow> False)"

definition settled_row :: "int \<Rightarrow> crawl_job list \<Rightarrow> bool" where
  "settled_row i jobs \<longleftrightarrow> (case get_job jobs i of Some j \<Rightarrow> settled_job j | None \<Rightarrow> False)"

lemma get_update_job:
  assumes "\<And>j. j_id (f j) = j_id j"
  shows "get_job (update_job k f jobs) i = map_option (\<lambda>j. if i = k then f j else j) (get_job jobs i)"
  using assms by (induction jobs) (auto simp: get_job_def update_job_def)

lemma get_job_id: "get_job jobs i = Some j \<Longrightarrow> j_id j = i"
  by (auto simp: get_job_def find_Some_iff)

lemma get_delete_job: "i \<noteq> k \<Longrightarrow> get_job (delete_job k jobs) i = get_job jobs i"
  by (induction jobs) (auto simp: get_job_def delete_job_def)

lemma row_ids [simp]:
  "j_id (status_row now st j) = j_id j" "j_id (counters_row c w j) = j_id j" "j_id (cancel_row j) = j_id j"
  "j_id (final_row now st err j) = j_id j"
  by (simp_all add: status_row_def counters_row_def cancel_row_def final_row_def)

lemma live_update:
  assumes "live_row i jobs" "\<And>j. j_id (f j) = j_id j" "\<And>j. live_job j \<Longrightarrow> live_job (f j)"
  shows "live_row i (update_job k f jobs)"
  using assms by (auto simp: live_row_def get_update_job split: option.splits)

lemma live_cancel_row: "live_job j \<Longrightarrow> live_job (cancel_row j)"
  by (auto simp: live_job_def cancel_row_def live_statuses_def job_terminal_def terminal_statuses_def)

lemma live_updates:
  "live_row i jobs \<Longrightarrow> set_status fault now status k jobs = Inr jobs' \<Longrightarrow> status \<in> set live_statuses \<Longrightarrow> live_row i jobs'"
  "live_row i jobs \<Longrightarrow> live_row i (snd (request_cancel k jobs))"
  "live_row i jobs \<Longrightarrow> live_row i (attach_run k d jobs)"
  "live_row i jobs \<Longrightarrow> live_row i (push_counters fault c w k jobs)"
proof -
  show "live_row i jobs \<Longrightarrow> set_status fault now status k jobs = Inr jobs' \<Longrightarrow> status \<in> set live_statuses \<Longrightarrow> live_row i jobs'"
    by (auto simp: set_status_def live_job_def status_row_def split: option.splits intro!: live_update)
  show "live_row i jobs \<Longrightarrow> live_row i (snd (request_cancel k jobs))"
    by (simp add: request_cancel_def live_update live_cancel_row)
  show "live_row i jobs \<Longrightarrow> live_row i (attach_run k d jobs)"
    unfolding attach_run_def by (rule live_update) (simp_all add: live_job_def)
  show "live_row i jobs \<Longrightarrow> live_row i (push_counters fault c w k jobs)"
    by (auto simp: push_counters_def set_counters_def live_job_def counters_row_def split: option.splits intro!: live_update)
qed

lemma live_serve: "live_row i jobs \<Longrightarrow> live_row i (serve r jobs)"
proof (cases r)
  case (Remove k)
  assume live: "live_row i jobs"
  show ?thesis
  proof (cases "i = k")
    case True
    then have "serve r jobs = jobs" using live live_not_terminal by (auto simp: Remove live_row_def remove_handler_def split: option.splits)
    then show ?thesis using live by simp
  next
    case False
    then show ?thesis using live by (auto simp: Remove live_row_def remove_handler_def get_delete_job split: option.splits sum.splits)
  qed
qed (auto simp: cancel_handler_def live_updates split: option.splits sum.splits dest: live_updates(2))

lemma live_serves: "live_row i jobs \<Longrightarrow> live_row i (fold serve rs jobs)"
  by (induction rs arbitrary: jobs) (simp_all add: live_serve)

lemma live_flags: "live_row i jobs \<Longrightarrow> live_row i (snd (with_flags k jobs ts))"
  by (induction k jobs ts rule: with_flags.induct) (simp_all add: Let_def live_serves)

lemma length_flags [simp]: "length (fst (with_flags i jobs ts)) = length ts"
  by (induction i jobs ts rule: with_flags.induct) (simp_all add: Let_def)

text \<open>A row on the way: in the table, live or already settled.\<close>

abbreviation tracked_row :: "int \<Rightarrow> crawl_job list \<Rightarrow> bool" where
  "tracked_row i jobs \<equiv> live_row i jobs \<or> settled_row i jobs"

lemma settled_update_final: "settled_row i jobs \<Longrightarrow> settled_row i (update_job i (final_row now st err) jobs)"
  by (auto simp: settled_row_def get_update_job settled_job_def final_row_def job_terminal_def split: option.splits)

lemma final_update_settles:
  assumes "tracked_row i jobs" "status \<in> set terminal_statuses"
  shows "settled_row i (update_job i (final_row now status err) jobs)"
  using assms settled_update_final
  by (auto simp: live_row_def settled_row_def get_update_job settled_job_def final_row_def dest: live_not_terminal split: option.splits)

lemma finalize_settles:
  assumes "tracked_row i jobs" "status \<in> set terminal_statuses"
  shows "tracked_row i (snd (finalize w_fault r_fault now i status err jobs))"
    and "w_fault = None \<Longrightarrow> settled_row i (snd (finalize w_fault r_fault now i status err jobs))"
    and "fst (finalize w_fault r_fault now i status err jobs) = Inr j \<Longrightarrow> settled_row i (snd (finalize w_fault r_fault now i status err jobs))"
  using assms final_update_settles[OF assms] by (auto simp: finalize_def Let_def split: option.splits)

lemma crawl_status: "crawl_outcome env cfg auth n seed sitemap ts writes = Some (status, c, b) \<Longrightarrow> status \<in> set terminal_statuses"
  by (auto simp: crawl_outcome_def Let_def terminal_statuses_def split: prod.splits if_splits)

lemma crawl_row_ends:
  assumes "live_row i jobs" "j_id j = i" "nat (j_page_budget j) < length ts"
  shows "\<exists>res jobs' batches. crawl_row h j auth seeding ts writes jobs = Some (res, jobs', batches) \<and> tracked_row i jobs' \<and>
    (ch_fault h FinalWrite = None \<longrightarrow> (case res of Inl _ \<Rightarrow> True | Inr _ \<Rightarrow> settled_row i jobs'))"
proof (cases "set_status (ch_fault h MarkMapping) (ch_now h) ''mapping'' i jobs")
  case (Inl e)
  then show ?thesis using assms(1,2) by (simp add: crawl_row_def)
next
  case (Inr jobs1)
  let ?jobs2 = "fold serve seeding jobs1"
  have "live_row i jobs1" by (rule live_updates(1)[OF assms(1) Inr]) (simp add: live_statuses_def)
  then have live2: "live_row i ?jobs2" by (rule live_serves)
  show ?thesis
  proof (cases "set_status (ch_fault h MarkCrawling) (ch_now h) ''crawling'' i ?jobs2")
    case (Inl e)
    then show ?thesis using assms(2) Inr live2 by (simp add: crawl_row_def)
  next
    case (Inr jobs3)
    have "live_row i jobs3" by (rule live_updates(1)[OF live2 Inr]) (simp add: live_statuses_def)
    then have live4: "live_row i (snd (with_flags i jobs3 ts))" by (rule live_flags)
    let ?cfg = "build_config (ae_parse (ch_admit h)) (ch_compile h) j (ch_browser h)"
    have "nat (page_budget ?cfg) < length (fst (with_flags i jobs3 ts))" using assms(3) by (simp add: build_config_def Let_def)
    from crawl_outcome_some[OF this] obtain status c b where
      out: "crawl_outcome (ch_admit h) ?cfg auth (j_max_concurrent j) (j_seed_url j)
        (discover_sitemap_urls (ae_robots_parse (ch_admit h)) (ae_safe (ch_admit h)) (ch_read h) (ch_locs h) (j_seed_url j))
        (fst (with_flags i jobs3 ts)) writes = Some (status, c, b)" by blast
    note fin = finalize_settles[OF disjI1[OF live_updates(4)[OF live4, of "ch_fault h PushCounters" c 0 i]] crawl_status[OF out],
        of "ch_fault h FinalWrite" "ch_fault h FinalRead" "ch_now h" None]
    show ?thesis using fin(1,2) out assms(2) Inr \<open>set_status _ _ ''mapping'' _ _ = _\<close>
      by (auto simp: crawl_row_def Let_def case_prod_beta)
  qed
qed

lemma sweep_settles:
  assumes "tracked_row i jobs"
  shows "settled_row i (interrupt_orphaned now jobs)"
proof -
  have get: "get_job (map f jobs) i = map_option f (get_job jobs i)" if "\<And>j. j_id (f j) = j_id j" for f
    using that by (induction jobs) (simp_all add: get_job_def)
  show ?thesis using assms
    by (auto simp: interrupt_orphaned_def get settled_row_def live_row_def settled_job_def live_job_def live_statuses_def
        terminal_statuses_def split: option.splits)
qed

text \<open>
  C17. A crawl that was started settles. With one turn more than its page budget its task ends and its row is still
  there, whatever workers met, whichever statements failed, and whatever cancel, remove and attach requests were
  served meanwhile. If the two closing updates (of the loop's end and of the task's error path) do not fail, the row is
  then completed, cancelled or failed, not flagged for cancellation and with no worker counted; if one did fail, the
  row may still be live, and the sweep of the next boot settles it.
\<close>

theorem crawl_settles:
  assumes "get_job jobs i = Some j" "live_job j" "nat (j_page_budget j) < length ts"
  shows "\<exists>jobs' batches. crawl_task h i seeding ts writes jobs = Some (jobs', batches) \<and>
    (ch_fault h FinalWrite = None \<and> ch_fault h FailWrite = None \<longrightarrow> settled_row i jobs') \<and>
    settled_row i (interrupt_orphaned boot jobs')"
proof -
  have live: "live_row i jobs" and ji: "j_id j = i" using assms(1,2) get_job_id by (auto simp: live_row_def)
  have "\<exists>res jobs' batches. run_crawl h i seeding ts writes jobs = Some (res, jobs', batches) \<and> tracked_row i jobs' \<and>
    (ch_fault h FinalWrite = None \<longrightarrow> (case res of Inl _ \<Rightarrow> True | Inr _ \<Rightarrow> settled_row i jobs'))"
  proof (cases "ch_fault h LoadRow = None \<and> j_workflow_id j \<noteq> None")
    case False
    then show ?thesis using live assms(1,2) live_not_terminal by (auto simp: run_crawl_def split: option.split)
  next
    case True
    then show ?thesis
    proof (cases "crawl_auth_of h j")
      case (Inl msg)
      obtain res jobs' where fin: "finalize (ch_fault h RefuseWrite) (ch_fault h RefuseRead) (ch_now h) i ''failed'' (Some msg) jobs = (res, jobs')"
        by fastforce
      have "''failed'' \<in> set terminal_statuses" by (simp add: terminal_statuses_def)
      note refused = finalize_settles[OF disjI1[OF live] this, of "ch_fault h RefuseWrite" "ch_fault h RefuseRead" "ch_now h" "Some msg"]
      show ?thesis using True Inl fin refused(1,3) assms(1,2) live_not_terminal
        by (cases res) (auto simp: run_crawl_def)
    next
      case (Inr auth)
      then show ?thesis using True assms live_not_terminal crawl_row_ends[OF live ji assms(3), of h auth seeding writes]
        by (auto simp: run_crawl_def)
    qed
  qed
  then obtain res jobs' batches where run: "run_crawl h i seeding ts writes jobs = Some (res, jobs', batches)" "tracked_row i jobs'"
      "ch_fault h FinalWrite = None \<longrightarrow> (case res of Inl _ \<Rightarrow> True | Inr _ \<Rightarrow> settled_row i jobs')" by (elim exE conjE) (rule that)
  have "''failed'' \<in> set terminal_statuses" by (simp add: terminal_statuses_def)
  note failed = finalize_settles[OF run(2) this, of "ch_fault h FailWrite" "ch_fault h FailRead" "ch_now h"]
  show ?thesis
  proof (cases res)
    case (Inl e)
    then show ?thesis using run(1) failed(1,2) sweep_settles[OF failed(1)] by (auto simp: crawl_task_def)
  next
    case (Inr u)
    then show ?thesis using run sweep_settles[OF run(2)] by (auto simp: crawl_task_def)
  qed
qed

text \<open>
  The loop drops the result of its final write: when that fails, the crawl has ended, its automations run, and its row
  is still shown as crawling.
\<close>

lemma failed_final_write_strands:
  assumes "get_job jobs i = Some j" "live_job j" "nat (j_page_budget j) < length ts" "j_workflow_id j \<noteq> None" "crawl_auth_of h j = Inr auth"
    and "ch_fault h LoadRow = None" "ch_fault h MarkMapping = None" "ch_fault h MarkCrawling = None" "ch_fault h FinalWrite = Some m"
  shows "\<exists>jobs' batches. crawl_task h i seeding ts writes jobs = Some (jobs', batches) \<and> live_row i jobs'"
proof -
  have live: "live_row i jobs" and ji: "j_id j = i" using assms(1,2) get_job_id by (auto simp: live_row_def)
  obtain jobs1 where one: "set_status None (ch_now h) ''mapping'' i jobs = Inr jobs1" by (simp add: set_status_def)
  then have live1: "live_row i jobs1" by (rule live_updates(1)[OF live]) (simp add: live_statuses_def)
  obtain jobs3 where three: "set_status None (ch_now h) ''crawling'' i (fold serve seeding jobs1) = Inr jobs3" by (simp add: set_status_def)
  then have "live_row i jobs3" by (rule live_updates(1)[OF live_serves[OF live1]]) (simp add: live_statuses_def)
  note live4 = live_updates(4)[OF live_flags[OF this]]
  show ?thesis
    using crawl_row_ends[OF live ji assms(3), of h auth seeding writes] assms live_not_terminal one three live4
    by (auto simp: crawl_task_def run_crawl_def crawl_row_def ji finalize_def Let_def case_prod_beta)
qed

definition sample_host :: crawl_host where
  "sample_host = \<lparr>ch_admit = sample_admit, ch_read = (\<lambda>_. None), ch_locs = (\<lambda>_. []), ch_compile = (\<lambda>_. None), ch_browser = False,
     ch_session = (\<lambda>_ _. Inl ''signed out''), ch_now = 7, ch_fault = (\<lambda>stmt. if stmt = PushCounters then Some ''busy'' else None)\<rparr>"

definition sample_job :: crawl_job where
  "sample_job = new_job sample_parse 1 9 ''https://a.co/'' (default_params\<lparr>st_page_budget := 2\<rparr>)"

lemma crawl_settles_witness:
  "\<exists>jobs' batches. crawl_task sample_host 1 [] (replicate 3 ([Cancel 1], sample_turn True)) True [sample_job] = Some (jobs', batches) \<and>
    settled_row 1 jobs'"
proof -
  have j: "get_job [sample_job] 1 = Some sample_job" "live_job sample_job" "j_page_budget sample_job = 2"
    by (simp_all add: get_job_def sample_job_def new_job_def live_job_def live_statuses_def clamp_def)
  then have "nat (j_page_budget sample_job) < length (replicate 3 ([Cancel 1], sample_turn True))" by simp
  from crawl_settles[OF j(1,2) this, of sample_host "[]" True 0] show ?thesis by (auto simp: sample_host_def)
qed

lemma get_map_job: "(\<And>j. j_id (f j) = j_id j) \<Longrightarrow> get_job (map f jobs) i = map_option f (get_job jobs i)"
  by (induction jobs) (simp_all add: get_job_def)

text \<open>A settled row is moved by no request, no second finalization and no restart of the daemon.\<close>

lemma settled_stays:
  assumes "get_job jobs i = Some j" "job_terminal j"
  shows "get_job (snd (finalize w_fault r_fault now i st err jobs)) i = Some j" "get_job (snd (request_cancel i jobs)) i = Some j"
    "get_job (interrupt_orphaned now jobs) i = Some j"
proof -
  show "get_job (snd (finalize w_fault r_fault now i st err jobs)) i = Some j" "get_job (snd (request_cancel i jobs)) i = Some j"
    using assms by (simp_all add: finalize_def request_cancel_def get_update_job final_row_def cancel_row_def Let_def split: option.split)
  show "get_job (interrupt_orphaned now jobs) i = Some j"
    using assms by (auto simp: interrupt_orphaned_def get_map_job job_terminal_def terminal_statuses_def)
qed

text \<open>
  \<open>set_status\<close> alone has no such guard: a cancellation accepted while the site is being mapped shows as crawling
  again once the pages start, though its flag stays up.
\<close>

lemma mapping_cancel_overwritten:
  assumes "get_job jobs i = Some j" "j_status j = ''mapping''"
  shows "\<exists>jobs' j'. set_status None now ''crawling'' i (snd (request_cancel i jobs)) = Inr jobs' \<and> get_job jobs' i = Some j' \<and>
    j_status j' = ''crawling'' \<and> j_cancel_requested j' = 1"
  using assms
  by (simp add: set_status_def request_cancel_def get_update_job status_row_def cancel_row_def job_terminal_def terminal_statuses_def)

end
