(* ===== verification/CrawlSaved.thy ===== *)
theory CrawlSaved
  imports CrawlJobs "HOL-Library.Product_Lexorder"
begin

text \<open>
  Saved crawls (\<open>src/local/store/crawl_definitions.rs\<close>, the handlers of \<open>src/local/api/v1/crawl.rs\<close> in a build without the
  cloud): a stored configuration with a slug, which a caller runs again or answers from a run that is recent enough.
\<close>

section \<open>Slugs\<close>

definition ascii_alnum :: "char \<Rightarrow> bool" where
  "ascii_alnum c \<longleftrightarrow> is_digit c \<or> 97 \<le> (of_char c :: nat) \<and> (of_char c :: nat) \<le> 122 \<or> 65 \<le> (of_char c :: nat) \<and> (of_char c :: nat) \<le> 90"

text \<open>\<open>d\<close> is \<open>last_dash\<close>. A character outside ASCII is several bytes of a run that becomes one dash.\<close>

fun slug_body :: "bool \<Rightarrow> string \<Rightarrow> string" where
  "slug_body d [] = []"
| "slug_body d (c # cs) =
     (if ascii_alnum c then c # slug_body False cs
      else if \<not> d then CHR ''-'' # slug_body True cs
      else slug_body True cs)"

definition slugify :: "(string \<Rightarrow> string) \<Rightarrow> string \<Rightarrow> string" where
  "slugify lower v = take 100 (trim_end_matches (\<lambda>c. c = CHR ''-'') (slug_body True (lower (trim v))))"

fun mint_loop :: "string list \<Rightarrow> string \<Rightarrow> nat list \<Rightarrow> string \<Rightarrow> string option" where
  "mint_loop taken base [] candidate = None"
| "mint_loop taken base (n # ns) candidate =
     (if candidate \<notin> set taken then Some candidate else mint_loop taken base ns (base @ ''-'' @ show_nat n))"

definition mint_slug :: "(string \<Rightarrow> string) \<Rightarrow> string list \<Rightarrow> string \<Rightarrow> crawl_error + string" where
  "mint_slug lower taken desired =
     (let base = (if slugify lower desired = [] then ''crawl'' else slugify lower desired)
      in case mint_loop taken base [2..<200] base of
           Some s \<Rightarrow> Inr s
         | None \<Rightarrow> Inl (Internal ''could not mint a unique crawl slug after 200 attempts''))"

section \<open>Definitions\<close>

record saved_crawl =
  sc_id :: int
  sc_name :: string
  sc_slug :: string
  sc_description :: "string option"
  sc_config :: json
  sc_seed_url :: string
  sc_default_max_age :: "int option"
  sc_last_run_at :: "int option"

definition max_freshness_seconds :: int where
  "max_freshness_seconds = 30 * 24 * 3600"

definition clamp_freshness :: "int option \<Rightarrow> int option" where
  "clamp_freshness v = Option.bind v (\<lambda>n. if 0 \<le> n then Some (min n max_freshness_seconds) else None)"

definition by_id :: "saved_crawl list \<Rightarrow> int \<Rightarrow> saved_crawl option" where
  "by_id defs i = List.find (\<lambda>d. sc_id d = i) defs"

definition by_slug :: "saved_crawl list \<Rightarrow> string \<Rightarrow> saved_crawl option" where
  "by_slug defs s = List.find (\<lambda>d. sc_slug d = s) defs"

definition by_name :: "saved_crawl list \<Rightarrow> string \<Rightarrow> saved_crawl option" where
  "by_name defs n = (case sort_key sc_id (filter (\<lambda>d. sc_name d = n) defs) of [] \<Rightarrow> None | d # _ \<Rightarrow> Some d)"

definition or_else :: "'a option \<Rightarrow> 'a option \<Rightarrow> 'a option" where
  "or_else a b = (case a of Some x \<Rightarrow> Some x | None \<Rightarrow> b)"

text \<open>A reference is an id, a slug or an exact name, tried in this order.\<close>

definition resolve :: "saved_crawl list \<Rightarrow> string \<Rightarrow> saved_crawl option" where
  "resolve defs r = or_else (Option.bind (parse_i64 r) (by_id defs)) (or_else (by_slug defs r) (by_name defs r))"

definition resolve_definition :: "saved_crawl list \<Rightarrow> string \<Rightarrow> crawl_error + saved_crawl" where
  "resolve_definition defs r =
     (case resolve defs r of Some d \<Rightarrow> Inr d | None \<Rightarrow> Inl (NotFound (''saved crawl '' @ [CHR 0x27] @ r @ [CHR 0x27])))"

definition update_def :: "int \<Rightarrow> (saved_crawl \<Rightarrow> saved_crawl) \<Rightarrow> saved_crawl list \<Rightarrow> saved_crawl list" where
  "update_def i f defs = map (\<lambda>d. if sc_id d = i then f d else d) defs"

definition update_config :: "int \<Rightarrow> json \<Rightarrow> string \<Rightarrow> saved_crawl list \<Rightarrow> saved_crawl list" where
  "update_config i config seed = update_def i (\<lambda>d. d\<lparr>sc_config := config, sc_seed_url := seed\<rparr>)"

definition update_meta :: "int \<Rightarrow> string option \<Rightarrow> string option \<Rightarrow> int option \<Rightarrow> saved_crawl list \<Rightarrow> saved_crawl list" where
  "update_meta i name descr max_age = update_def i (\<lambda>d. d\<lparr>sc_name := unwrap_or (sc_name d) name,
     sc_description := or_else descr (sc_description d), sc_default_max_age := or_else max_age (sc_default_max_age d)\<rparr>)"

definition touch_last_run :: "int \<Rightarrow> int \<Rightarrow> saved_crawl list \<Rightarrow> saved_crawl list" where
  "touch_last_run now i = update_def i (\<lambda>d. d\<lparr>sc_last_run_at := Some now\<rparr>)"

definition delete_def :: "int \<Rightarrow> saved_crawl list \<Rightarrow> saved_crawl list" where
  "delete_def i = filter (\<lambda>d. sc_id d \<noteq> i)"

section \<open>Requests\<close>

text \<open>The tolerant readers of a boolean and of an integer; \<open>None\<close> is an absent value.\<close>

definition de_bool :: "json option \<Rightarrow> bool option" where
  "de_bool v =
     (case v of
        Some (JBool b) \<Rightarrow> Some b
      | Some (JInt n) \<Rightarrow> Some (case as_i64 (JInt n) of Some x \<Rightarrow> x \<noteq> 0 | None \<Rightarrow> False)
      | Some (JFloat _) \<Rightarrow> Some False
      | Some (JStr s) \<Rightarrow> Some (ascii_lower s \<in> {''true'', ''1'', ''yes''})
      | _ \<Rightarrow> None)"

definition de_i64 :: "json option \<Rightarrow> int option" where
  "de_i64 v =
     (case v of
        Some (JInt n) \<Rightarrow> as_i64 (JInt n)
      | Some (JStr s) \<Rightarrow> if trim s = [] then None else parse_i64 (trim s)
      | _ \<Rightarrow> None)"

text \<open>A derived reader of an optional field: \<open>None\<close> when the value has another type.\<close>

definition opt_field :: "(json \<Rightarrow> 'a option) \<Rightarrow> string \<Rightarrow> json \<Rightarrow> 'a option option" where
  "opt_field get k body =
     (case json_get k body of None \<Rightarrow> Some None | Some JNull \<Rightarrow> Some None | Some v \<Rightarrow> map_option Some (get v))"

definition as_strings :: "json \<Rightarrow> string list option" where
  "as_strings v = Option.bind (as_array v) (\<lambda>xs. if list_all (\<lambda>x. as_str x \<noteq> None) xs then Some (List.map_filter as_str xs) else None)"

definition as_number :: "json \<Rightarrow> unit option" where
  "as_number v = (case v of JInt _ \<Rightarrow> Some () | JFloat _ \<Rightarrow> Some () | _ \<Rightarrow> None)"

definition text_fields :: "string list" where
  "text_fields = [''name'', ''extract_mode'', ''executor'', ''extract_prompt'', ''render_mode'', ''ocr_mode'', ''intent'']"

text \<open>\<open>StartCrawlRequest\<close> read from a body and turned into parameters; \<open>None\<close> is a body that does not parse.\<close>

definition well_typed_request :: "json \<Rightarrow> bool" where
  "well_typed_request body \<longleftrightarrow>
     as_object body \<noteq> None \<and> list_all (\<lambda>k. opt_field as_str k body \<noteq> None) text_fields \<and>
     list_all (\<lambda>k. opt_field as_strings k body \<noteq> None) [''seed_urls'', ''include_paths'', ''exclude_paths''] \<and>
     opt_field as_number ''relevance_threshold'' body \<noteq> None \<and>
     \<not> (json_get ''content'' body \<noteq> None \<and> json_get ''content_spec'' body \<noteq> None)"

definition start_request :: "json \<Rightarrow> start_params option" where
  "start_request body =
     (if \<not> well_typed_request body then None
      else Option.bind (get_str ''url'' body) (\<lambda>url.
        let text = (\<lambda>k. Option.bind (opt_field as_str k body) (\<lambda>x. x));
            paths = (\<lambda>k. unwrap_or [] (Option.bind (opt_field as_strings k body) (\<lambda>x. x)));
            num = (\<lambda>k d. unwrap_or d (de_i64 (json_get k body)));
            yes = (\<lambda>k. unwrap_or True (de_bool (json_get k body)))
        in Some \<lparr>st_seed_url = url, st_name = text ''name'', st_extract_mode = unwrap_or ''markdown'' (text ''extract_mode''),
             st_persona_id = de_i64 (json_get ''persona_id'' body), st_include_paths = paths ''include_paths'',
             st_exclude_paths = paths ''exclude_paths'', st_max_depth = num ''max_depth'' (st_max_depth default_params),
             st_page_budget = num ''page_budget'' (st_page_budget default_params),
             st_max_concurrent = num ''max_concurrent'' (st_max_concurrent default_params),
             st_delay_ms = num ''delay_ms'' (st_delay_ms default_params), st_respect_robots = yes ''respect_robots'',
             st_same_domain = yes ''same_domain'', st_allow_subdomains = yes ''allow_subdomains''\<rparr>))"

definition config_seed_url :: "json \<Rightarrow> crawl_error + string" where
  "config_seed_url config =
     (case map_option trim (get_str ''url'' config) of
        Some s \<Rightarrow> if s \<noteq> [] then Inr s else Inl (BadRequest ''config.url is required'')
      | None \<Rightarrow> Inl (BadRequest ''config.url is required''))"

record save_request =
  sv_name :: "string option"
  sv_slug :: "string option"
  sv_description :: "string option"
  sv_max_age :: "int option"
  sv_config :: "json option"

definition object_config :: "save_request \<Rightarrow> json option" where
  "object_config body = Option.bind (sv_config body) (\<lambda>c. if as_object c \<noteq> None then Some c else None)"

definition save_label :: "save_request \<Rightarrow> string \<Rightarrow> string" where
  "save_label body seed = (case sv_name body of Some s \<Rightarrow> if trim s \<noteq> [] then s else seed | None \<Rightarrow> seed)"

text \<open>\<open>i\<close> is the id the insert returns.\<close>

definition create_definition ::
    "(string \<Rightarrow> string) \<Rightarrow> int \<Rightarrow> save_request \<Rightarrow> saved_crawl list \<Rightarrow> crawl_error + (saved_crawl \<times> saved_crawl list)" where
  "create_definition lower i body defs =
     (case object_config body of
        None \<Rightarrow> Inl (BadRequest ''config (the crawl settings) is required'')
      | Some config \<Rightarrow>
          (case config_seed_url config of
             Inl e \<Rightarrow> Inl e
           | Inr seed \<Rightarrow>
               (let label = save_label body seed
                in case mint_slug lower (map sc_slug defs) (unwrap_or label (sv_slug body)) of
                     Inl e \<Rightarrow> Inl e
                   | Inr slug \<Rightarrow>
                       (let d = \<lparr>sc_id = i, sc_name = concat (take 200 (utf8_chars label)), sc_slug = slug,
                                 sc_description = sv_description body, sc_config = config, sc_seed_url = seed,
                                 sc_default_max_age = clamp_freshness (sv_max_age body), sc_last_run_at = None\<rparr>
                        in Inr (d, defs @ [d])))))"

definition update_definition :: "string \<Rightarrow> save_request \<Rightarrow> saved_crawl list \<Rightarrow> crawl_error + saved_crawl list" where
  "update_definition r body defs =
     (case resolve_definition defs r of
        Inl e \<Rightarrow> Inl e
      | Inr d \<Rightarrow>
          (let meta = update_meta (sc_id d) (sv_name body) (sv_description body) (clamp_freshness (sv_max_age body))
           in case object_config body of
                None \<Rightarrow> Inr (meta defs)
              | Some config \<Rightarrow>
                  (case config_seed_url config of
                     Inl e \<Rightarrow> Inl e
                   | Inr seed \<Rightarrow> Inr (meta (update_config (sc_id d) config seed defs)))))"

definition delete_definition :: "string \<Rightarrow> saved_crawl list \<Rightarrow> crawl_error + saved_crawl list" where
  "delete_definition r defs =
     (case resolve_definition defs r of Inl e \<Rightarrow> Inl e | Inr d \<Rightarrow> Inr (delete_def (sc_id d) defs))"

section \<open>Running a saved crawl\<close>

text \<open>Times are milliseconds; the query compares the same difference in days as a float.\<close>

definition reusable :: "int \<Rightarrow> int \<Rightarrow> int \<Rightarrow> crawl_job \<Rightarrow> bool" where
  "reusable now definition_id max_age j \<longleftrightarrow>
     j_definition_id j = Some definition_id \<and> j_status j = ''completed'' \<and> 0 < j_done j \<and>
     (case j_completed_at j of Some t \<Rightarrow> now - t \<le> 1000 * max_age | None \<Rightarrow> False)"

definition newest_first :: "crawl_job \<Rightarrow> int \<times> int" where
  "newest_first j = (- unwrap_or 0 (j_completed_at j), - j_id j)"

definition find_fresh_run :: "int \<Rightarrow> crawl_job list \<Rightarrow> int \<Rightarrow> int \<Rightarrow> crawl_job option" where
  "find_fresh_run now jobs definition_id max_age =
     (if max_age \<le> 0 then None
      else case sort_key newest_first (filter (reusable now definition_id max_age) jobs) of
          [] \<Rightarrow> None
        | j # _ \<Rightarrow> Some j)"

record saved_run_request =
  rr_max_age :: "int option"
  rr_wait :: "bool option"
  rr_timeout :: "int option"

definition effective_max_age :: "saved_run_request \<Rightarrow> saved_crawl \<Rightarrow> int" where
  "effective_max_age opts d = unwrap_or 0 (or_else (clamp_freshness (rr_max_age opts)) (sc_default_max_age d))"

text \<open>\<open>Served\<close> answers from a past run; \<open>Launched\<close> starts one: its row, the rows and the definitions afterwards.\<close>

datatype run_reply = Served crawl_job | Launched crawl_job "crawl_job list" "saved_crawl list"

definition launch :: "(string \<Rightarrow> bool) \<Rightarrow> (string \<Rightarrow> bool) \<Rightarrow> url_parser \<Rightarrow> int \<Rightarrow> int \<Rightarrow> json \<Rightarrow> crawl_job list \<Rightarrow> crawl_error + (crawl_job \<times> crawl_job list)" where
  "launch safe parses parse job_id workflow config jobs =
     (case start_request config of
        None \<Rightarrow> Inl (BadRequest ''saved crawl config is invalid'')
      | Some p \<Rightarrow> CrawlJobs.start_crawl parse safe parses job_id workflow p jobs)"

definition run_definition ::
    "(string \<Rightarrow> bool) \<Rightarrow> (string \<Rightarrow> bool) \<Rightarrow> url_parser \<Rightarrow> int \<Rightarrow> int \<Rightarrow> int \<Rightarrow> string \<Rightarrow> saved_run_request \<Rightarrow> crawl_job list \<Rightarrow> saved_crawl list \<Rightarrow> crawl_error + run_reply" where
  "run_definition safe parses parse now job_id workflow r opts jobs defs =
     (if rr_wait opts = Some True \<or> rr_timeout opts \<noteq> None
      then Inl (BadRequest ''wait/timeout are not supported on a self-host crawl'')
      else case resolve_definition defs r of
          Inl e \<Rightarrow> Inl e
        | Inr d \<Rightarrow>
            (case find_fresh_run now jobs (sc_id d) (effective_max_age opts d) of
               Some j \<Rightarrow> Inr (Served j)
             | None \<Rightarrow>
                 (case launch safe parses parse job_id workflow (sc_config d) jobs of
                    Inl e \<Rightarrow> Inl e
                  | Inr (j, jobs') \<Rightarrow> Inr (Launched j (attach_run (j_id j) (sc_id d) jobs') (touch_last_run now (sc_id d) defs)))))"

text \<open>The data a saved crawl already has: the newest usable run of any age.\<close>

definition definition_data :: "int \<Rightarrow> string \<Rightarrow> crawl_job list \<Rightarrow> saved_crawl list \<Rightarrow> crawl_error + (saved_crawl \<times> crawl_job option)" where
  "definition_data now r jobs defs =
     (case resolve_definition defs r of
        Inl e \<Rightarrow> Inl e
      | Inr d \<Rightarrow> Inr (d, find_fresh_run now jobs (sc_id d) (i64_max div 4)))"

section \<open>A slug is always found and never shared\<close>

lemma slug_body_chars: "c \<in> set (slug_body d s) \<Longrightarrow> ascii_alnum c \<or> c = CHR ''-''"
  by (induction d s rule: slug_body.induct) (auto split: if_splits)

lemma slugify_chars: "c \<in> set (slugify lower v) \<Longrightarrow> ascii_alnum c \<or> c = CHR ''-''"
proof -
  assume "c \<in> set (slugify lower v)"
  then have "c \<in> set (trim_end_matches (\<lambda>c. c = CHR ''-'') (slug_body True (lower (trim v))))"
    unfolding slugify_def using in_set_takeD by fast
  then have "c \<in> set (slug_body True (lower (trim v)))" by (auto simp: trim_end_matches_def dest: set_dropWhileD)
  then show ?thesis by (rule slug_body_chars)
qed

lemma length_slugify: "length (slugify lower v) \<le> 100"
  by (simp add: slugify_def)

lemma mint_loop_fresh: "mint_loop taken base ns c = Some s \<Longrightarrow> s \<notin> set taken \<and> (s = c \<or> (\<exists>n \<in> set ns. s = base @ ''-'' @ show_nat n))"
  by (induction taken base ns c rule: mint_loop.induct) (auto split: if_splits)

text \<open>When the loop gives up, it has met as many different taken slugs as it made attempts.\<close>

definition numbered :: "string \<Rightarrow> nat list \<Rightarrow> string list" where
  "numbered base ns = map (\<lambda>n. base @ ''-'' @ show_nat n) ns"

lemma mint_loop_none: "mint_loop taken base ns c = None \<Longrightarrow> ns \<noteq> [] \<Longrightarrow> insert c (set (numbered base (butlast ns))) \<subseteq> set taken"
proof (induction taken base ns c rule: mint_loop.induct)
  case (2 taken base n ns c)
  then show ?case by (cases ns) (auto simp: numbered_def split: if_splits)
qed simp

lemma numbered_distinct: "distinct ns \<Longrightarrow> distinct (base # numbered base ns)"
  by (auto simp: numbered_def distinct_map inj_on_def show_nat_eq_iff)

lemma mint_loop_succeeds:
  assumes "distinct ns" "length taken < length ns"
  shows "mint_loop taken base ns base \<noteq> None"
proof
  assume none: "mint_loop taken base ns base = None"
  have ns: "ns \<noteq> []" using assms(2) by auto
  let ?slugs = "base # numbered base (butlast ns)"
  have "distinct ?slugs" by (rule numbered_distinct) (simp add: assms(1) distinct_butlast)
  then have "card (set ?slugs) = length ns" using ns by (simp only: distinct_card) (simp add: numbered_def)
  moreover have "card (set ?slugs) \<le> card (set taken)" using mint_loop_none[OF none ns] by (intro card_mono) simp_all
  moreover have "card (set taken) \<le> length taken" by (rule card_length)
  ultimately show False using assms(2) by simp
qed

text \<open>
  Saving a crawl gives it a slug that no other saved crawl has, of ASCII letters, digits and dashes; and as long as
  fewer than 198 crawls are saved, a save with an address never fails for want of one.
\<close>

theorem saved_slug_minted:
  assumes "distinct (map sc_slug defs)" "length defs < 198" "object_config body = Some config" "config_seed_url config = Inr seed"
  shows "\<exists>d. create_definition lower i body defs = Inr (d, defs @ [d]) \<and> distinct (map sc_slug (defs @ [d])) \<and>
    sc_slug d \<noteq> [] \<and> list_all (\<lambda>c. ascii_alnum c \<or> c = CHR ''-'') (sc_slug d)"
proof -
  let ?taken = "map sc_slug defs" and ?desired = "unwrap_or (save_label body seed) (sv_slug body)"
  define base where "base = (if slugify lower ?desired = [] then ''crawl'' else slugify lower ?desired)"
  have base: "base \<noteq> []" "list_all (\<lambda>c. ascii_alnum c \<or> c = CHR ''-'') base"
    using slugify_chars[of _ lower ?desired] by (auto simp: base_def list_all_iff ascii_alnum_def)
  have "mint_loop ?taken base [2..<200] base \<noteq> None" using assms(2) by (intro mint_loop_succeeds) simp_all
  then obtain s where s: "mint_loop ?taken base [2..<200] base = Some s" by blast
  have fresh: "s \<notin> set ?taken" "s = base \<or> (\<exists>n. s = base @ ''-'' @ show_nat n)" using mint_loop_fresh[OF s] by blast+
  have "list_all (\<lambda>c. ascii_alnum c \<or> c = CHR ''-'') (show_nat n)" for n
    using show_nat_digits[of n] by (auto simp: list_all_iff ascii_alnum_def)
  then have "s \<noteq> []" "list_all (\<lambda>c. ascii_alnum c \<or> c = CHR ''-'') s" using fresh(2) base by auto
  moreover have "mint_slug lower ?taken ?desired = Inr s" using s by (simp add: mint_slug_def Let_def base_def)
  ultimately show ?thesis using assms(1,3,4) fresh(1) by (simp add: create_definition_def Let_def)
qed

section \<open>What may answer for a fresh crawl\<close>

lemma find_fresh_run_newest:
  assumes "find_fresh_run now jobs d a = Some j"
  shows "0 < a" "j \<in> set jobs" "reusable now d a j" "\<And>k. k \<in> set jobs \<Longrightarrow> reusable now d a k \<Longrightarrow> newest_first j \<le> newest_first k"
proof -
  let ?fs = "filter (reusable now d a) jobs"
  obtain js where s: "sort_key newest_first ?fs = j # js" and a: "0 < a"
    using assms by (auto simp: find_fresh_run_def split: if_splits list.splits)
  show "0 < a" by (rule a)
  have set: "set (j # js) = set ?fs" using s by (metis set_sort)
  then show "j \<in> set jobs" "reusable now d a j" by auto
  fix k assume "k \<in> set jobs" "reusable now d a k"
  then have "k = j \<or> k \<in> set js" using set by auto
  moreover have "sorted (map newest_first (j # js))" by (metis s sorted_sort_key)
  ultimately show "newest_first j \<le> newest_first k" by auto
qed

lemma clamp_freshness_bound: "clamp_freshness v = Some n \<Longrightarrow> 0 \<le> n \<and> n \<le> max_freshness_seconds"
  by (auto simp: clamp_freshness_def max_freshness_seconds_def split: Option.bind_splits if_splits)

text \<open>
  A saved crawl is answered from a past run only where the caller's own age limit, or else the saved one, allows
  it: the run belongs to it, completed with at least one page, is no older than that limit, and no usable run is
  newer. Asking for age zero always crawls again.
\<close>

theorem served_run_is_fresh:
  assumes "run_definition safe parses parse now job_id workflow r opts jobs defs = Inr (Served j)"
  shows "\<exists>d t. resolve defs r = Some d \<and> j \<in> set jobs \<and> j_definition_id j = Some (sc_id d) \<and> j_status j = ''completed'' \<and> 0 < j_done j \<and>
    j_completed_at j = Some t \<and> now - t \<le> 1000 * effective_max_age opts d \<and> 0 < effective_max_age opts d \<and> rr_max_age opts \<noteq> Some 0 \<and>
    list_all (\<lambda>k. \<not> reusable now (sc_id d) (effective_max_age opts d) k \<or> newest_first j \<le> newest_first k) jobs"
proof -
  obtain d where d: "resolve defs r = Some d" and f: "find_fresh_run now jobs (sc_id d) (effective_max_age opts d) = Some j"
    using assms by (auto simp: run_definition_def resolve_definition_def split: if_splits option.splits sum.splits prod.splits)
  note fresh = find_fresh_run_newest[OF f]
  have "rr_max_age opts \<noteq> Some 0"
    using fresh(1) by (auto simp: effective_max_age_def clamp_freshness_def or_else_def max_freshness_seconds_def)
  then show ?thesis using d fresh by (auto simp: reusable_def list_all_iff split: option.splits)
qed

definition sample_save :: save_request where
  "sample_save = \<lparr>sv_name = None, sv_slug = None, sv_description = None, sv_max_age = None,
     sv_config = Some (JObj [(''url'', JStr ''https://a.co/'')])\<rparr>"

lemma saved_slug_minted_witness:
  "\<exists>d. create_definition ascii_lower 1 sample_save [] = Inr (d, [d]) \<and> sc_slug d \<noteq> []"
proof -
  have "object_config sample_save = Some (JObj [(''url'', JStr ''https://a.co/'')])"
    by (simp add: object_config_def sample_save_def)
  moreover have "trim ''https://a.co/'' = ''https://a.co/''" by (rule trim_printable) (simp add: printable_def)
  then have "config_seed_url (JObj [(''url'', JStr ''https://a.co/'')]) = Inr ''https://a.co/''"
    by (simp add: config_seed_url_def json_simps)
  ultimately show ?thesis using saved_slug_minted[of "[]" sample_save _ _ ascii_lower 1] by auto
qed

definition sample_saved :: "int \<Rightarrow> string \<Rightarrow> saved_crawl" where
  "sample_saved i slug = \<lparr>sc_id = i, sc_name = ''docs'', sc_slug = slug, sc_description = None, sc_config = JObj [], sc_seed_url = ''https://a.co/'',
     sc_default_max_age = Some 60, sc_last_run_at = None\<rparr>"

lemma served_run_is_fresh_witness:
  "\<exists>d t. resolve [sample_saved 1 ''docs''] ''docs'' = Some d \<and> 50000 - t \<le> 1000 * effective_max_age \<lparr>rr_max_age = None, rr_wait = None, rr_timeout = None\<rparr> d"
proof -
  let ?j = "sample_job\<lparr>j_definition_id := Some 1, j_status := ''completed'', j_done := 3, j_completed_at := Some 10000\<rparr>"
  let ?o = "\<lparr>rr_max_age = None, rr_wait = None, rr_timeout = None\<rparr>"
  have "parse_i64 ''docs'' = None" by (simp add: parse_i64_def parse_digits_def is_digit_def)
  then have r: "resolve [sample_saved 1 ''docs''] ''docs'' = Some (sample_saved 1 ''docs'')"
    by (simp add: resolve_def or_else_def by_slug_def sample_saved_def)
  have "effective_max_age ?o (sample_saved 1 ''docs'') = 60"
    by (simp add: effective_max_age_def clamp_freshness_def or_else_def sample_saved_def)
  then have "run_definition (\<lambda>_. True) (\<lambda>_. True) sample_parse 50000 2 9 ''docs'' ?o [?j] [sample_saved 1 ''docs''] = Inr (Served ?j)"
    by (simp add: run_definition_def resolve_definition_def r find_fresh_run_def reusable_def) (simp add: sample_saved_def)
  from served_run_is_fresh[OF this] show ?thesis by blast
qed

text \<open>
  An all-digit slug is shadowed by the id it spells: with the crawl of slug \<open>2\<close> saved first, deleting by that slug
  deletes the crawl of id 2.
\<close>

lemma numeric_slug_shadowed:
  "delete_definition ''2'' [sample_saved 1 ''2'', sample_saved 2 ''docs''] = Inr [sample_saved 1 ''2'']"
proof -
  have "parse_i64 ''2'' = Some 2" by code_simp
  then show ?thesis
    by (simp add: delete_definition_def resolve_definition_def resolve_def or_else_def by_id_def delete_def_def sample_saved_def)
qed

end
