(* ===== verification/FileStore.thy ===== *)
theory FileStore
  imports Vault "HOL-Library.List_Lexorder" "HOL-Library.Char_ord"
begin

text \<open>
  Stored files (\<open>src/local/storage/files.rs\<close>, \<open>src/local/store/stored_files.rs\<close>): a metadata row per file and an encrypted
  blob on disk, written through the vault's file envelope.
\<close>

section \<open>Rows and blobs\<close>

record stored_file =
  sf_id :: string
  sf_storage_key :: string
  sf_filename :: string
  sf_content_type :: string
  sf_size :: nat
  sf_sha :: "string option"
  sf_source :: string
  sf_run :: "int option"
  sf_status :: string
  sf_expires_at :: "string option"
  sf_deleted_at :: "string option"
  sf_created_at :: string

record file_store =
  fs_rows :: "stored_file list"
  fs_disk :: "string \<rightharpoonup> bytes"

datatype file_error = UnsafeKey string | FileMissing string | BytesMissing string | StoreFailed | VaultFailed vault_error

definition validate_storage_key :: "string \<Rightarrow> bool" where
  "validate_storage_key key \<longleftrightarrow>
     key \<noteq> [] \<and> CHR ''/'' \<notin> set key \<and> CHR 0x5C \<notin> set key \<and> \<not> contains_str key ''..'' \<and> CHR 0x00 \<notin> set key"

definition store_dir_for_source :: "string \<Rightarrow> string" where
  "store_dir_for_source source = (if source = ''workflow_output'' then ''artifacts/workflow_output'' else ''files'')"

definition storage_path_for_key :: "string \<Rightarrow> string \<Rightarrow> file_error + string" where
  "storage_path_for_key source key =
     (if \<not> validate_storage_key key then Inl (UnsafeKey key) else Inr (store_dir_for_source source @ ''/'' @ key))"

definition live :: "stored_file \<Rightarrow> bool" where
  "live r \<longleftrightarrow> sf_deleted_at r = None"

definition get_active :: "stored_file list \<Rightarrow> string \<Rightarrow> stored_file option" where
  "get_active rows i = List.find (\<lambda>r. sf_id r = i \<and> live r) rows"

text \<open>\<open>ORDER BY created_at DESC LIMIT 1\<close>; among equal stamps the earlier row.\<close>

fun latest :: "stored_file list \<Rightarrow> stored_file option" where
  "latest [] = None"
| "latest (r # rs) = (case latest rs of None \<Rightarrow> Some r | Some q \<Rightarrow> if sf_created_at r < sf_created_at q then Some q else Some r)"

definition get_by_sha256 :: "stored_file list \<Rightarrow> string \<Rightarrow> stored_file option" where
  "get_by_sha256 rows h = latest (filter (\<lambda>r. sf_sha r = Some h \<and> live r) rows)"

definition soft_delete :: "string \<Rightarrow> string \<Rightarrow> stored_file list \<Rightarrow> bool \<times> stored_file list" where
  "soft_delete now i rows =
     (list_ex (\<lambda>r. sf_id r = i \<and> live r) rows,
      map (\<lambda>r. if sf_id r = i \<and> live r then r\<lparr>sf_deleted_at := Some now, sf_status := ''deleted''\<rparr> else r) rows)"

definition delete_file :: "string \<Rightarrow> stored_file list \<Rightarrow> stored_file list" where
  "delete_file i rows = filter (\<lambda>r. sf_id r \<noteq> i) rows"

definition gc_candidate :: "string \<Rightarrow> stored_file \<Rightarrow> bool" where
  "gc_candidate now r \<longleftrightarrow> sf_deleted_at r \<noteq> None \<or> (case sf_expires_at r of Some t \<Rightarrow> t \<le> now | None \<Rightarrow> False)"

section \<open>Creating and reading\<close>

text \<open>The vault's cipher and root, the hash, and what one creation draws and meets: a fresh id, key and nonce, whether the
  blob can be written and the row inserted, and the clock.\<close>

record file_env =
  fe_crypto :: crypto
  fe_root :: bytes
  fe_sha :: "bytes \<Rightarrow> string"

record draw =
  dr_id :: string
  dr_key :: string
  dr_base :: bytes
  dr_written :: bool
  dr_inserted :: bool
  dr_now :: string

definition default_content_type :: string where
  "default_content_type = ''application/octet-stream''"

definition content_type_of :: "string option \<Rightarrow> string" where
  "content_type_of ct = (case ct of Some s \<Rightarrow> if s \<noteq> [] then s else default_content_type | None \<Rightarrow> default_content_type)"

definition dedup_hit :: "file_env \<Rightarrow> bytes \<Rightarrow> string \<Rightarrow> stored_file list \<Rightarrow> stored_file option" where
  "dedup_hit env plain source rows =
     Option.bind (get_by_sha256 rows (fe_sha env plain)) (\<lambda>r. if sf_source r = source \<and> live r then Some r else None)"

definition new_row :: "file_env \<Rightarrow> draw \<Rightarrow> bytes \<Rightarrow> string \<Rightarrow> string option \<Rightarrow> string \<Rightarrow> int option \<Rightarrow> stored_file" where
  "new_row env d plain filename ct source run = \<lparr>sf_id = dr_id d, sf_storage_key = dr_key d, sf_filename = filename,
     sf_content_type = content_type_of ct, sf_size = length plain, sf_sha = Some (fe_sha env plain), sf_source = source, sf_run = run,
     sf_status = ''ready'', sf_expires_at = None, sf_deleted_at = None, sf_created_at = dr_now d\<rparr>"

definition write_new ::
    "file_env \<Rightarrow> draw \<Rightarrow> bytes \<Rightarrow> string \<Rightarrow> string option \<Rightarrow> string \<Rightarrow> int option \<Rightarrow> file_store \<Rightarrow> (file_error + stored_file) \<times> file_store" where
  "write_new env d plain filename ct source run s =
     (case encrypt_file (fe_crypto env) (fe_root env) (dr_base d) plain of
        Inl e \<Rightarrow> (Inl (VaultFailed e), s)
      | Inr blob \<Rightarrow>
          (case storage_path_for_key source (dr_key d) of
             Inl e \<Rightarrow> (Inl e, s)
           | Inr path \<Rightarrow>
               if \<not> dr_written d then (Inl StoreFailed, s)
               else if \<not> dr_inserted d \<or> dr_id d \<in> sf_id ` set (fs_rows s) then (Inl StoreFailed, s\<lparr>fs_disk := (fs_disk s)(path := None)\<rparr>)
               else let row = new_row env d plain filename ct source run
                 in (Inr row, \<lparr>fs_rows = fs_rows s @ [row], fs_disk = (fs_disk s)(path \<mapsto> blob)\<rparr>)))"

definition create_file_inner ::
    "file_env \<Rightarrow> draw \<Rightarrow> bytes \<Rightarrow> string \<Rightarrow> string option \<Rightarrow> string \<Rightarrow> int option \<Rightarrow> file_store \<Rightarrow> (file_error + stored_file) \<times> file_store" where
  "create_file_inner env d plain filename ct source run s =
     (case dedup_hit env plain source (fs_rows s) of
        Some r \<Rightarrow> (Inr r, s)
      | None \<Rightarrow> write_new env d plain filename ct source run s)"

definition create_file :: "file_env \<Rightarrow> draw \<Rightarrow> bytes \<Rightarrow> string \<Rightarrow> string option \<Rightarrow> string \<Rightarrow> file_store \<Rightarrow> (file_error + stored_file) \<times> file_store" where
  "create_file env d plain filename ct source s = create_file_inner env d plain filename ct source None s"

text \<open>The artifact a run left at a temporary path, as a file of that run.\<close>

definition capture_output :: "file_env \<Rightarrow> draw \<Rightarrow> bytes \<Rightarrow> string \<Rightarrow> string option \<Rightarrow> int \<Rightarrow> file_store \<Rightarrow> (file_error + stored_file) \<times> file_store" where
  "capture_output env d plain filename ct run s = create_file_inner env d plain filename ct ''workflow_output'' (Some run) s"

definition read_file_bytes :: "file_env \<Rightarrow> string \<Rightarrow> file_store \<Rightarrow> file_error + bytes" where
  "read_file_bytes env i s =
     (case get_active (fs_rows s) i of
        None \<Rightarrow> Inl (FileMissing i)
      | Some r \<Rightarrow>
          (case storage_path_for_key (sf_source r) (sf_storage_key r) of
             Inl e \<Rightarrow> Inl e
           | Inr path \<Rightarrow>
               (case fs_disk s path of
                  None \<Rightarrow> Inl (BytesMissing i)
                | Some blob \<Rightarrow> map_sum VaultFailed id (decrypt_file (fe_crypto env) (fe_root env) blob))))"

definition remove_handler :: "string \<Rightarrow> string \<Rightarrow> file_store \<Rightarrow> (file_error + bool) \<times> file_store" where
  "remove_handler now i s =
     (let (removed, rows) = soft_delete now i (fs_rows s)
      in if removed then (Inr True, s\<lparr>fs_rows := rows\<rparr>) else (Inl (FileMissing i), s))"

text \<open>The bare file name a decrypted copy gets in its own directory; \<open>base\<close> is \<open>Path::file_name\<close>.\<close>

definition bare_name :: "(string \<Rightarrow> string option) \<Rightarrow> string \<Rightarrow> string" where
  "bare_name base filename =
     (case base filename of
        Some s \<Rightarrow> if s \<noteq> [] \<and> \<not> contains_str s ''..'' \<and> CHR ''/'' \<notin> set s \<and> CHR 0x5C \<notin> set s then s else ''input.bin''
      | None \<Rightarrow> ''input.bin'')"

section \<open>What was stored is read back\<close>

definition row_backed :: "file_env \<Rightarrow> (string \<rightharpoonup> bytes) \<Rightarrow> stored_file \<Rightarrow> bool" where
  "row_backed env disk r \<longleftrightarrow>
     (\<exists>path blob plain. storage_path_for_key (sf_source r) (sf_storage_key r) = Inr path \<and> disk path = Some blob \<and>
        decrypt_file (fe_crypto env) (fe_root env) blob = Inr plain \<and> sf_sha r = Some (fe_sha env plain) \<and> sf_size r = length plain)"

definition store_ok :: "file_env \<Rightarrow> file_store \<Rightarrow> bool" where
  "store_ok env s \<longleftrightarrow> distinct (map sf_id (fs_rows s)) \<and> (\<forall>r \<in> set (fs_rows s). live r \<longrightarrow> row_backed env (fs_disk s) r)"

lemma get_active_iff:
  assumes "distinct (map sf_id rows)" "r \<in> set rows" "live r"
  shows "get_active rows (sf_id r) = Some r"
  using assms
proof (induction rows)
  case (Cons q rows)
  then show ?case by (cases "q = r") (auto simp: get_active_def rev_image_eqI)
qed simp

lemma latest_in: "latest rs = Some r \<Longrightarrow> r \<in> set rs"
  by (induction rs arbitrary: r) (auto split: option.splits if_splits)

lemma dedup_hit_row:
  assumes "dedup_hit env plain source rows = Some r"
  shows "r \<in> set rows" "live r" "sf_source r = source" "sf_sha r = Some (fe_sha env plain)"
  using assms latest_in by (fastforce simp: dedup_hit_def get_by_sha256_def split: Option.bind_splits if_splits)+

lemma read_backed:
  assumes "store_ok env s" "r \<in> set (fs_rows s)" "live r"
  shows "\<exists>plain. read_file_bytes env (sf_id r) s = Inr plain \<and> sf_sha r = Some (fe_sha env plain)"
  using assms get_active_iff[of "fs_rows s" r] by (auto simp: store_ok_def row_backed_def read_file_bytes_def)

lemma backed_write:
  assumes "row_backed env disk r" "disk path = None"
  shows "row_backed env (disk(path \<mapsto> blob)) r"
  using assms by (fastforce simp: row_backed_def)

text \<open>
  C21. A file that was stored is read back byte for byte, whether a new blob was written or an equal one reused, and
  the store stays one whose every live row has its blob: decryptable under the vault's root, of the recorded size and
  hash. The cipher opens what it sealed, the hash separates the file from every other, and the drawn key is unused.
\<close>

theorem stored_file_reads_back:
  assumes "aead_ok (fe_crypto env)" "length (dr_base d) = 24" "store_ok env s"
    and "\<And>other. fe_sha env other = fe_sha env plain \<Longrightarrow> other = plain"
    and "\<And>path. storage_path_for_key source (dr_key d) = Inr path \<Longrightarrow> fs_disk s path = None"
    and "create_file_inner env d plain filename ct source run s = (Inr row, s')"
  shows "read_file_bytes env (sf_id row) s' = Inr plain \<and> store_ok env s'"
proof (cases "dedup_hit env plain source (fs_rows s)")
  case (Some r)
  then have "row = r" "s' = s" using assms(6) by (simp_all add: create_file_inner_def)
  then show ?thesis using read_backed[OF assms(3), of r] dedup_hit_row[OF Some] assms(3,4) by auto
next
  case None
  obtain blob path where w: "encrypt_file (fe_crypto env) (fe_root env) (dr_base d) plain = Inr blob"
      "storage_path_for_key source (dr_key d) = Inr path" "dr_id d \<notin> sf_id ` set (fs_rows s)"
      "row = new_row env d plain filename ct source run" "s' = \<lparr>fs_rows = fs_rows s @ [row], fs_disk = (fs_disk s)(path \<mapsto> blob)\<rparr>"
    using None assms(6) by (auto simp: create_file_inner_def write_new_def Let_def split: sum.splits if_splits)
  have dec: "decrypt_file (fe_crypto env) (fe_root env) blob = Inr plain" by (rule decrypt_encrypted[OF assms(1,2) w(1)])
  then have backed: "row_backed env (fs_disk s') row" using w by (simp add: row_backed_def new_row_def)
  have free: "fs_disk s path = None" by (rule assms(5)[OF w(2)])
  have kept: "row_backed env (fs_disk s) r \<Longrightarrow> row_backed env (fs_disk s') r" for r
    using backed_write[of env "fs_disk s" r path blob] free by (simp add: w(5))
  have ok: "store_ok env s'" using assms(3) w(3) backed kept
    by (auto simp: store_ok_def w(4,5) new_row_def)
  have "row \<in> set (fs_rows s')" "live row" by (simp_all add: w(4,5) live_def new_row_def)
  then have "get_active (fs_rows s') (sf_id row) = Some row" using ok by (intro get_active_iff) (simp_all add: store_ok_def)
  then have "read_file_bytes env (sf_id row) s' = Inr plain" using w(2) dec by (simp add: read_file_bytes_def w(4,5) new_row_def)
  then show ?thesis using ok by simp
qed

lemma soft_delete_ids: "map sf_id (snd (soft_delete now i rows)) = map sf_id rows"
  by (simp add: soft_delete_def)

lemma remove_handler_ok: "store_ok env s \<Longrightarrow> store_ok env (snd (remove_handler now i s))"
  using soft_delete_ids[of now i "fs_rows s"]
  by (auto simp: remove_handler_def store_ok_def split: prod.split) (auto simp: soft_delete_def live_def)

text \<open>No key, however a row came by it, leads out of the store's directories.\<close>

lemma path_is_child:
  assumes "storage_path_for_key source key = Inr path"
  shows "path = store_dir_for_source source @ ''/'' @ key" "CHR ''/'' \<notin> set key" "\<not> contains_str key ''..''"
  using assms by (auto simp: storage_path_for_key_def validate_storage_key_def split: if_splits)

definition sample_file_env :: file_env where
  "sample_file_env = \<lparr>fe_crypto = tag_crypto, fe_root = [], fe_sha = (\<lambda>b. if b = [1, 2, 3] then ''one'' else ''other'')\<rparr>"

definition sample_draw :: "string \<Rightarrow> draw" where
  "sample_draw i = \<lparr>dr_id = ''file_'' @ i, dr_key = ''blob_'' @ i, dr_base = replicate 24 0, dr_written = True, dr_inserted = True,
     dr_now = ''2026-01-01T00:00:00.000Z''\<rparr>"

lemma stored_file_reads_back_witness:
  "\<exists>row s'. create_file_inner sample_file_env (sample_draw ''a'') [1, 2, 3] ''n.txt'' None ''upload'' None \<lparr>fs_rows = [], fs_disk = Map.empty\<rparr> = (Inr row, s') \<and>
     read_file_bytes sample_file_env (sf_id row) s' = Inr [1, 2, 3]"
proof -
  let ?s = "\<lparr>fs_rows = [], fs_disk = Map.empty\<rparr>"
  obtain blob where blob: "encrypt_file tag_crypto [] (replicate 24 0) [1, 2, 3] = Inr blob"
    by (simp add: encrypt_file_def chunks_of_short file_chunk_size_def tag_crypto_def)
  have key: "validate_storage_key ''blob_a''" by code_simp
  obtain row s' where made: "create_file_inner sample_file_env (sample_draw ''a'') [1, 2, 3] ''n.txt'' None ''upload'' None ?s = (Inr row, s')"
    using blob key by (simp add: create_file_inner_def dedup_hit_def get_by_sha256_def write_new_def sample_file_env_def sample_draw_def
        storage_path_for_key_def Let_def)
  have ok: "aead_ok (fe_crypto sample_file_env)" "length (dr_base (sample_draw ''a'')) = 24" "store_ok sample_file_env ?s"
    using tag_crypto_ok by (simp_all add: sample_file_env_def sample_draw_def store_ok_def)
  have hash: "fe_sha sample_file_env other = fe_sha sample_file_env [1, 2, 3] \<Longrightarrow> other = [1, 2, 3]" for other
    by (simp add: sample_file_env_def split: if_splits)
  have free: "fs_disk ?s path = None" for path by simp
  have "read_file_bytes sample_file_env (sf_id row) s' = Inr [1, 2, 3] \<and> store_ok sample_file_env s'"
    by (rule stored_file_reads_back[OF ok hash free made])
  then show ?thesis using made by blast
qed

end
