(* ===== verification/Retention.thy ===== *)
theory Retention
  imports FileStore ScheduledLane
begin

text \<open>
  Data retention (\<open>src/local/retention.rs\<close>, the retention lane of \<open>src/local/scheduler/tick.rs\<close>): what one purge removes
  from run history, stored run outputs and logs, the size cap on logs, and when a purge is due.
\<close>

section \<open>State\<close>

record run_row =
  rn_id :: int
  rn_created :: string

record log_file =
  lg_name :: string
  lg_regular :: bool
  lg_mtime :: "int option"
  lg_data :: string

text \<open>The tables a purge may touch; a stamp is the text the column holds, compared as text, as SQL does.\<close>

record retained =
  hy_files :: file_store
  hy_runs :: "run_row list"
  hy_changes :: "string list"
  hy_uptime :: "string list"
  hy_steps :: "string list"
  hy_logs :: "log_file list"

datatype purge_step = OutputFiles | OldRuns | OldChanges | OldUptime | OldSteps

text \<open>What a pass meets: which statements succeed, which blobs, rows and logs can be removed or rewritten, the instant a
  cutoff's text denotes, and the modification time a rewritten log gets.\<close>

record purge_env =
  pg_step :: "purge_step \<Rightarrow> bool"
  pg_blob :: "string \<Rightarrow> bool"
  pg_row :: "string \<Rightarrow> bool"
  pg_unlink :: "string \<Rightarrow> bool"
  pg_rewrite :: "string \<Rightarrow> bool"
  pg_instant :: "string \<Rightarrow> int option"
  pg_clock :: int

record purge_report =
  pr_cutoff :: "string option"
  pr_runs :: nat
  pr_changes :: nat
  pr_uptime :: nat
  pr_steps :: nat
  pr_outputs :: nat
  pr_logs :: nat
  pr_log_bytes :: nat

definition empty_report :: purge_report where
  "empty_report = \<lparr>pr_cutoff = None, pr_runs = 0, pr_changes = 0, pr_uptime = 0, pr_steps = 0, pr_outputs = 0, pr_logs = 0, pr_log_bytes = 0\<rparr>"

section \<open>Rows\<close>

definition run_expired :: "run_row list \<Rightarrow> string \<Rightarrow> int \<Rightarrow> bool" where
  "run_expired runs cutoff i \<longleftrightarrow> list_ex (\<lambda>r. rn_id r = i \<and> rn_created r < cutoff) runs"

definition expired_output :: "run_row list \<Rightarrow> string \<Rightarrow> stored_file \<Rightarrow> bool" where
  "expired_output runs cutoff f \<longleftrightarrow>
     sf_source f = ''workflow_output'' \<and> live f \<and> (case sf_run f of Some i \<Rightarrow> run_expired runs cutoff i | None \<Rightarrow> False)"

definition purge_file :: "purge_env \<Rightarrow> stored_file \<Rightarrow> nat \<times> file_store \<Rightarrow> nat \<times> file_store" where
  "purge_file env f acc =
     (let s = snd acc;
          disk = (case storage_path_for_key (sf_source f) (sf_storage_key f) of
                    Inl _ \<Rightarrow> fs_disk s
                  | Inr path \<Rightarrow> if pg_blob env path then (fs_disk s)(path := None) else fs_disk s)
      in if pg_row env (sf_id f)
         then (fst acc + 1, \<lparr>fs_rows = delete_file (sf_id f) (fs_rows s), fs_disk = disk\<rparr>)
         else (fst acc, s\<lparr>fs_disk := disk\<rparr>))"

definition purge_expired_output_files :: "purge_env \<Rightarrow> run_row list \<Rightarrow> string \<Rightarrow> file_store \<Rightarrow> nat \<times> file_store" where
  "purge_expired_output_files env runs cutoff s = fold (purge_file env) (filter (expired_output runs cutoff) (fs_rows s)) (0, s)"

text \<open>Deleting a run clears the link of the files it produced (\<open>ON DELETE SET NULL\<close>).\<close>

definition unlink_runs :: "run_row list \<Rightarrow> string \<Rightarrow> stored_file \<Rightarrow> stored_file" where
  "unlink_runs runs cutoff f = (case sf_run f of Some i \<Rightarrow> if run_expired runs cutoff i then f\<lparr>sf_run := None\<rparr> else f | None \<Rightarrow> f)"

definition purge_old_runs :: "string \<Rightarrow> retained \<Rightarrow> nat \<times> retained" where
  "purge_old_runs cutoff h =
     (length (filter (\<lambda>r. rn_created r < cutoff) (hy_runs h)),
      h\<lparr>hy_runs := filter (\<lambda>r. \<not> rn_created r < cutoff) (hy_runs h),
        hy_files := (hy_files h)\<lparr>fs_rows := map (unlink_runs (hy_runs h) cutoff) (fs_rows (hy_files h))\<rparr>\<rparr>)"

definition prune_older_than :: "string \<Rightarrow> string list \<Rightarrow> nat \<times> string list" where
  "prune_older_than cutoff ts = (length (filter (\<lambda>t. t < cutoff) ts), filter (\<lambda>t. \<not> t < cutoff) ts)"

section \<open>Logs\<close>

definition log_file_size_cap :: nat where
  "log_file_size_cap = 32 * 1024 * 1024"

definition log_file_tail_keep :: nat where
  "log_file_tail_keep = 4 * 1024 * 1024"

definition truncation_notice :: string where
  "truncation_notice = ''[writ retention] earlier lines were truncated to reclaim disk space'' @ [CHR 10]"

definition is_capturable_log :: "string \<Rightarrow> bool" where
  "is_capturable_log name \<longleftrightarrow> ends_with name ''.log'' \<or> ends_with name ''.err'' \<or> ends_with name ''.out''"

definition is_prunable_log :: "string \<Rightarrow> bool" where
  "is_prunable_log name \<longleftrightarrow>
     starts_with name ''crash-'' \<and> ends_with name ''.json'' \<or> is_capturable_log name \<or> contains_str name ''.log.''"

definition log_expired :: "int \<Rightarrow> log_file \<Rightarrow> bool" where
  "log_expired cutoff l \<longleftrightarrow>
     is_prunable_log (lg_name l) \<and> lg_regular l \<and> (case lg_mtime l of Some t \<Rightarrow> t < cutoff | None \<Rightarrow> False)"

definition prune_expired_logs :: "purge_env \<Rightarrow> int \<Rightarrow> log_file list \<Rightarrow> nat \<times> nat \<times> log_file list" where
  "prune_expired_logs env cutoff logs =
     (let gone = filter (\<lambda>l. log_expired cutoff l \<and> pg_unlink env (lg_name l)) logs
      in (length gone, sum_list (map (\<lambda>l. length (lg_data l)) gone),
          filter (\<lambda>l. \<not> (log_expired cutoff l \<and> pg_unlink env (lg_name l))) logs))"

definition keep_tail :: "nat \<Rightarrow> string \<Rightarrow> string" where
  "keep_tail keep d =
     (let tail = drop (length d - min keep (length d)) d
      in truncation_notice @ (if CHR 10 \<in> set tail then tl (dropWhile (\<lambda>c. c \<noteq> CHR 10) tail) else tail))"

definition truncate_keeping_tail :: "nat \<Rightarrow> string \<Rightarrow> nat \<times> string" where
  "truncate_keeping_tail keep d = (length d - length (keep_tail keep d), keep_tail keep d)"

definition cap_log :: "purge_env \<Rightarrow> log_file \<Rightarrow> nat \<times> log_file" where
  "cap_log env l =
     (if is_capturable_log (lg_name l) \<and> lg_regular l \<and> log_file_size_cap < length (lg_data l) \<and> pg_rewrite env (lg_name l)
      then (let (n, d) = truncate_keeping_tail log_file_tail_keep (lg_data l) in (n, l\<lparr>lg_data := d, lg_mtime := Some (pg_clock env)\<rparr>))
      else (0, l))"

definition cap_oversized_logs :: "purge_env \<Rightarrow> log_file list \<Rightarrow> nat \<times> log_file list" where
  "cap_oversized_logs env logs = (sum_list (map (fst \<circ> cap_log env) logs), map (snd \<circ> cap_log env) logs)"

section \<open>One pass\<close>

definition outputs_pass :: "purge_env \<Rightarrow> string \<Rightarrow> purge_report \<times> retained \<Rightarrow> purge_report \<times> retained" where
  "outputs_pass env cutoff = (\<lambda>(rep, h).
     if pg_step env OutputFiles
     then (let (n, s) = purge_expired_output_files env (hy_runs h) cutoff (hy_files h) in (rep\<lparr>pr_outputs := n\<rparr>, h\<lparr>hy_files := s\<rparr>))
     else (rep, h))"

definition runs_pass :: "purge_env \<Rightarrow> string \<Rightarrow> purge_report \<times> retained \<Rightarrow> purge_report \<times> retained" where
  "runs_pass env cutoff = (\<lambda>(rep, h).
     if pg_step env OldRuns then (let (n, h) = purge_old_runs cutoff h in (rep\<lparr>pr_runs := n\<rparr>, h)) else (rep, h))"

definition rows_pass :: "purge_env \<Rightarrow> string \<Rightarrow> purge_report \<times> retained \<Rightarrow> purge_report \<times> retained" where
  "rows_pass env cutoff = (\<lambda>(rep, h).
     (let drop = (\<lambda>st ts. if pg_step env st then prune_older_than cutoff ts else (0, ts));
          (c, changes) = drop OldChanges (hy_changes h);
          (u, uptime) = drop OldUptime (hy_uptime h);
          (p, steps) = drop OldSteps (hy_steps h)
      in (rep\<lparr>pr_changes := c, pr_uptime := u, pr_steps := p\<rparr>, h\<lparr>hy_changes := changes, hy_uptime := uptime, hy_steps := steps\<rparr>)))"

definition logs_pass :: "purge_env \<Rightarrow> string \<Rightarrow> purge_report \<times> retained \<Rightarrow> purge_report \<times> retained" where
  "logs_pass env cutoff = (\<lambda>(rep, h).
     (let (files, bytes, logs) = (case pg_instant env cutoff of Some t \<Rightarrow> prune_expired_logs env t (hy_logs h) | None \<Rightarrow> (0, 0, hy_logs h));
          (capped, logs) = cap_oversized_logs env logs
      in (rep\<lparr>pr_logs := files, pr_log_bytes := bytes + capped\<rparr>, h\<lparr>hy_logs := logs\<rparr>)))"

definition purge_older_than :: "purge_env \<Rightarrow> string \<Rightarrow> retained \<Rightarrow> purge_report \<times> retained" where
  "purge_older_than env cutoff h =
     logs_pass env cutoff (rows_pass env cutoff (runs_pass env cutoff (outputs_pass env cutoff (empty_report\<lparr>pr_cutoff := Some cutoff\<rparr>, h))))"

text \<open>\<open>stamp\<close> formats an instant in milliseconds; zero days keep everything.\<close>

definition purge_with_config :: "(int \<Rightarrow> string) \<Rightarrow> purge_env \<Rightarrow> int \<Rightarrow> nat \<Rightarrow> retained \<Rightarrow> purge_report \<times> retained" where
  "purge_with_config stamp env now days h =
     (if days = 0 then (empty_report, h) else purge_older_than env (stamp (now - int days * 86400000)) h)"

section \<open>When a pass is due\<close>

text \<open>The lane of the scheduler tick: its gate of one day, then the purge.\<close>

definition retention_lane ::
    "(int \<Rightarrow> string) \<Rightarrow> purge_env \<Rightarrow> nat \<Rightarrow> int \<Rightarrow> int \<times> retained \<Rightarrow> int \<times> retained" where
  "retention_lane stamp env days now = (\<lambda>(last_ms, h).
     (let (mark, runs) = maybe_run_retention days last_ms now
      in (mark, if runs then snd (purge_with_config stamp env now days h) else h)))"


definition sanitized_cadence :: "nat \<times> nat \<Rightarrow> nat \<times> nat" where
  "sanitized_cadence = (\<lambda>(tick, every). (max 50 tick, max (max 50 tick) every))"


section \<open>What a pass leaves\<close>

definition path_of :: "stored_file \<Rightarrow> file_error + string" where
  "path_of f = storage_path_for_key (sf_source f) (sf_storage_key f)"

definition rows_distinct :: "stored_file list \<Rightarrow> bool" where
  "rows_distinct rows \<longleftrightarrow> distinct (map sf_id rows) \<and> distinct (map path_of rows)"

lemma fold_purge_file:
  "fold (purge_file env) fs (n, s) =
     (n + length (filter (\<lambda>f. pg_row env (sf_id f)) fs),
      \<lparr>fs_rows = filter (\<lambda>r. \<not> (sf_id r \<in> sf_id ` set fs \<and> pg_row env (sf_id r))) (fs_rows s),
       fs_disk = (\<lambda>p. if Inr p \<in> path_of ` set fs \<and> pg_blob env p then None else fs_disk s p)\<rparr>)"
proof (induction fs arbitrary: n s)
  case (Cons f fs)
  let ?disk = "\<lambda>p. if path_of f = Inr p \<and> pg_blob env p then None else fs_disk s p"
  let ?rows = "if pg_row env (sf_id f) then filter (\<lambda>r. sf_id r \<noteq> sf_id f) (fs_rows s) else fs_rows s"
  have step: "purge_file env f (n, s) = (n + (if pg_row env (sf_id f) then 1 else 0), \<lparr>fs_rows = ?rows, fs_disk = ?disk\<rparr>)"
    by (cases "path_of f") (auto simp: purge_file_def Let_def delete_file_def path_of_def fun_eq_iff)
  have disk: "(if Inr p \<in> path_of ` set fs \<and> pg_blob env p then None else ?disk p) =
      (if Inr p \<in> path_of ` set (f # fs) \<and> pg_blob env p then None else fs_disk s p)" for p
    by auto
  have rows: "filter (\<lambda>r. \<not> (sf_id r \<in> sf_id ` set fs \<and> pg_row env (sf_id r))) ?rows =
      filter (\<lambda>r. \<not> (sf_id r \<in> sf_id ` set (f # fs) \<and> pg_row env (sf_id r))) (fs_rows s)"
    by (auto intro!: filter_cong)
  show ?case unfolding fold_simps step Cons.IH file_store.simps rows disk by simp
qed simp

lemma purge_outputs_exact:
  "purge_expired_output_files env runs cutoff s =
     (let old = filter (expired_output runs cutoff) (fs_rows s)
      in (length (filter (\<lambda>f. pg_row env (sf_id f)) old),
          \<lparr>fs_rows = filter (\<lambda>r. \<not> (sf_id r \<in> sf_id ` set old \<and> pg_row env (sf_id r))) (fs_rows s),
           fs_disk = (\<lambda>p. if Inr p \<in> path_of ` set old \<and> pg_blob env p then None else fs_disk s p)\<rparr>))"
  by (simp add: purge_expired_output_files_def fold_purge_file Let_def)

lemma unlink_fields [simp]:
  "sf_id (unlink_runs runs cutoff f) = sf_id f" "live (unlink_runs runs cutoff f) = live f"
  "sf_source (unlink_runs runs cutoff f) = sf_source f" "sf_storage_key (unlink_runs runs cutoff f) = sf_storage_key f"
  by (simp_all add: unlink_runs_def live_def split: option.split)

lemma get_active_unlinked:
  "get_active (map (unlink_runs runs cutoff) rows) i = map_option (unlink_runs runs cutoff) (get_active rows i)"
  by (induction rows) (simp_all add: get_active_def)

lemma read_unlinked:
  "read_file_bytes fe i (s\<lparr>fs_rows := map (unlink_runs runs cutoff) (fs_rows s)\<rparr>) = read_file_bytes fe i s"
  by (simp add: read_file_bytes_def get_active_unlinked split: option.split sum.split)

lemma same_row:
  assumes "rows_distinct rows" "f \<in> set rows" "g \<in> set rows"
  shows "sf_id f = sf_id g \<longleftrightarrow> f = g" "path_of f = path_of g \<longleftrightarrow> f = g"
  using assms by (auto simp: rows_distinct_def distinct_map inj_on_eq_iff)

lemma get_active_filter:
  assumes "get_active rows i = Some f" "P f" "\<And>r. sf_id r = i \<Longrightarrow> r \<in> set rows \<Longrightarrow> P r"
  shows "get_active (filter P rows) i = Some f"
  using assms by (induction rows) (auto simp: get_active_def split: if_splits)

lemma get_active_some:
  assumes "get_active rows i = Some f"
  shows "f \<in> set rows" "sf_id f = i" "live f"
  using assms by (auto simp: get_active_def find_Some_iff)

lemma read_after_outputs:
  assumes "rows_distinct (fs_rows s)" "get_active (fs_rows s) i = Some f" "\<not> expired_output runs cutoff f"
  shows "read_file_bytes fe i (snd (purge_expired_output_files env runs cutoff s)) = read_file_bytes fe i s"
proof -
  let ?old = "filter (expired_output runs cutoff) (fs_rows s)"
  have f: "f \<in> set (fs_rows s)" "sf_id f = i" using get_active_some[OF assms(2)] by simp_all
  have ids: "i \<notin> sf_id ` set ?old" using same_row(1)[OF assms(1) f(1)] assms(3) f(2) by auto
  have paths: "path_of f \<notin> path_of ` set ?old" using same_row(2)[OF assms(1) f(1)] assms(3) by auto
  have row: "get_active (filter (\<lambda>r. \<not> (sf_id r \<in> sf_id ` set ?old \<and> pg_row env (sf_id r))) (fs_rows s)) i = Some f"
    by (rule get_active_filter[OF assms(2)]) (use ids f(2) in simp_all)
  show ?thesis
  proof (cases "path_of f")
    case (Inr p)
    then have disk: "fs_disk (snd (purge_expired_output_files env runs cutoff s)) p = fs_disk s p"
      using paths by (auto simp: purge_outputs_exact Let_def)
    then show ?thesis using row assms(2) Inr by (simp add: read_file_bytes_def path_of_def purge_outputs_exact Let_def)
  qed (use row assms(2) in \<open>simp add: read_file_bytes_def path_of_def purge_outputs_exact Let_def\<close>)
qed

lemma outputs_pass_kept:
  "hy_runs (snd (outputs_pass env cutoff x)) = hy_runs (snd x)" "hy_changes (snd (outputs_pass env cutoff x)) = hy_changes (snd x)"
  "hy_uptime (snd (outputs_pass env cutoff x)) = hy_uptime (snd x)" "hy_steps (snd (outputs_pass env cutoff x)) = hy_steps (snd x)"
  "hy_logs (snd (outputs_pass env cutoff x)) = hy_logs (snd x)"
  by (auto simp: outputs_pass_def split: prod.split)

lemma runs_pass_kept:
  "hy_changes (snd (runs_pass env cutoff x)) = hy_changes (snd x)" "hy_uptime (snd (runs_pass env cutoff x)) = hy_uptime (snd x)"
  "hy_steps (snd (runs_pass env cutoff x)) = hy_steps (snd x)" "hy_logs (snd (runs_pass env cutoff x)) = hy_logs (snd x)"
  by (auto simp: runs_pass_def purge_old_runs_def split: prod.split)

lemma rows_pass_kept:
  "hy_runs (snd (rows_pass env cutoff x)) = hy_runs (snd x)" "hy_files (snd (rows_pass env cutoff x)) = hy_files (snd x)"
  "hy_logs (snd (rows_pass env cutoff x)) = hy_logs (snd x)"
  by (auto simp: rows_pass_def Let_def split: prod.split)

lemma logs_pass_kept:
  "hy_runs (snd (logs_pass env cutoff x)) = hy_runs (snd x)" "hy_files (snd (logs_pass env cutoff x)) = hy_files (snd x)"
  "hy_changes (snd (logs_pass env cutoff x)) = hy_changes (snd x)" "hy_uptime (snd (logs_pass env cutoff x)) = hy_uptime (snd x)"
  "hy_steps (snd (logs_pass env cutoff x)) = hy_steps (snd x)"
  by (auto simp: logs_pass_def Let_def split: prod.split option.split)

lemmas pass_kept = outputs_pass_kept runs_pass_kept rows_pass_kept logs_pass_kept

lemma purge_runs_rows:
  "hy_runs (snd (runs_pass env cutoff x)) = (if pg_step env OldRuns then filter (\<lambda>r. \<not> rn_created r < cutoff) (hy_runs (snd x)) else hy_runs (snd x))"
  "fs_disk (hy_files (snd (runs_pass env cutoff x))) = fs_disk (hy_files (snd x))"
  by (auto simp: runs_pass_def purge_old_runs_def split: prod.split)

lemma read_runs_pass: "read_file_bytes fe i (hy_files (snd (runs_pass env cutoff x))) = read_file_bytes fe i (hy_files (snd x))"
  using read_unlinked[of fe i _ _ "hy_files (snd x)"] by (auto simp: runs_pass_def purge_old_runs_def split: prod.split)

lemma rows_pass_texts:
  "hy_changes (snd (rows_pass env cutoff x)) = (if pg_step env OldChanges then filter (\<lambda>t. \<not> t < cutoff) (hy_changes (snd x)) else hy_changes (snd x))"
  "hy_uptime (snd (rows_pass env cutoff x)) = (if pg_step env OldUptime then filter (\<lambda>t. \<not> t < cutoff) (hy_uptime (snd x)) else hy_uptime (snd x))"
  "hy_steps (snd (rows_pass env cutoff x)) = (if pg_step env OldSteps then filter (\<lambda>t. \<not> t < cutoff) (hy_steps (snd x)) else hy_steps (snd x))"
  by (auto simp: rows_pass_def prune_older_than_def Let_def split: prod.split)

lemma cap_log_name [simp]: "lg_name (snd (cap_log env l)) = lg_name l"
  by (simp add: cap_log_def split: prod.split)

lemma cap_other: "\<not> is_prunable_log (lg_name l) \<Longrightarrow> cap_log env l = (0, l)"
  by (simp add: cap_log_def is_prunable_log_def)

lemma capped_others:
  "filter (\<lambda>l. \<not> is_prunable_log (lg_name l)) (snd (cap_oversized_logs env logs)) = filter (\<lambda>l. \<not> is_prunable_log (lg_name l)) logs"
  by (induction logs) (auto simp: cap_oversized_logs_def cap_other)

lemma pruned_others:
  "filter (\<lambda>l. \<not> is_prunable_log (lg_name l)) (snd (snd (prune_expired_logs env t logs))) = filter (\<lambda>l. \<not> is_prunable_log (lg_name l)) logs"
  by (auto simp: prune_expired_logs_def log_expired_def Let_def intro: filter_cong)

lemma logs_pass_others:
  "filter (\<lambda>l. \<not> is_prunable_log (lg_name l)) (hy_logs (snd (logs_pass env cutoff x))) =
     filter (\<lambda>l. \<not> is_prunable_log (lg_name l)) (hy_logs (snd x))"
proof (cases "pg_instant env cutoff")
  case None
  then show ?thesis using capped_others by (auto simp: logs_pass_def Let_def split: prod.splits) (metis snd_conv)
next
  case (Some t)
  obtain files bytes logs where p: "prune_expired_logs env t (hy_logs (snd x)) = (files, bytes, logs)" by (cases "prune_expired_logs env t (hy_logs (snd x))") auto
  obtain n capped where c: "cap_oversized_logs env logs = (n, capped)" by (cases "cap_oversized_logs env logs")
  have "hy_logs (snd (logs_pass env cutoff x)) = capped" by (cases x) (use Some p c in \<open>simp add: logs_pass_def\<close>)
  then show ?thesis using pruned_others[of env t "hy_logs (snd x)"] capped_others[of env logs] p c by simp
qed

lemma kept_sets:
  "{r \<in> set (hy_runs h). cutoff \<le> rn_created r} \<subseteq> set (hy_runs (snd (purge_older_than env cutoff h)))"
  "{t \<in> set (hy_changes h). cutoff \<le> t} \<subseteq> set (hy_changes (snd (purge_older_than env cutoff h)))"
  "{t \<in> set (hy_uptime h). cutoff \<le> t} \<subseteq> set (hy_uptime (snd (purge_older_than env cutoff h)))"
  "{t \<in> set (hy_steps h). cutoff \<le> t} \<subseteq> set (hy_steps (snd (purge_older_than env cutoff h)))"
  by (auto simp: purge_older_than_def pass_kept purge_runs_rows rows_pass_texts)

text \<open>
  C22. A purge spares what retention does not own: a stored file that is not the live output of a run older than the
  cutoff reads back exactly as before, runs, changes, checks and keyframes stamped at or after the cutoff stay, and a
  file under \<open>logs/\<close> it does not recognise is not touched, whichever statements and removals fail on the way.
\<close>

theorem retention_spares:
  assumes "rows_distinct (fs_rows (hy_files h))" "get_active (fs_rows (hy_files h)) i = Some f"
    and "\<not> expired_output (hy_runs h) cutoff f"
  shows "read_file_bytes fe i (hy_files (snd (purge_older_than env cutoff h))) = read_file_bytes fe i (hy_files h) \<and>
    {r \<in> set (hy_runs h). cutoff \<le> rn_created r} \<subseteq> set (hy_runs (snd (purge_older_than env cutoff h))) \<and>
    {t \<in> set (hy_changes h). cutoff \<le> t} \<subseteq> set (hy_changes (snd (purge_older_than env cutoff h))) \<and>
    {t \<in> set (hy_uptime h). cutoff \<le> t} \<subseteq> set (hy_uptime (snd (purge_older_than env cutoff h))) \<and>
    {t \<in> set (hy_steps h). cutoff \<le> t} \<subseteq> set (hy_steps (snd (purge_older_than env cutoff h))) \<and>
    filter (\<lambda>l. \<not> is_prunable_log (lg_name l)) (hy_logs (snd (purge_older_than env cutoff h))) =
      filter (\<lambda>l. \<not> is_prunable_log (lg_name l)) (hy_logs h)"
proof -
  have "read_file_bytes fe i (hy_files (snd (outputs_pass env cutoff (rep, h)))) = read_file_bytes fe i (hy_files h)" for rep
    using read_after_outputs[OF assms, of fe env] by (auto simp: outputs_pass_def split: prod.split)
  then have "read_file_bytes fe i (hy_files (snd (purge_older_than env cutoff h))) = read_file_bytes fe i (hy_files h)"
    by (simp add: purge_older_than_def pass_kept read_runs_pass)
  moreover have "filter (\<lambda>l. \<not> is_prunable_log (lg_name l)) (hy_logs (snd (purge_older_than env cutoff h))) =
      filter (\<lambda>l. \<not> is_prunable_log (lg_name l)) (hy_logs h)"
    by (simp add: purge_older_than_def logs_pass_others pass_kept)
  ultimately show ?thesis using kept_sets by blast
qed

definition sample_purge_env :: purge_env where
  "sample_purge_env = \<lparr>pg_step = (\<lambda>_. True), pg_blob = (\<lambda>_. True), pg_row = (\<lambda>_. True), pg_unlink = (\<lambda>_. True),
     pg_rewrite = (\<lambda>_. True), pg_instant = (\<lambda>_. Some 0), pg_clock = 0\<rparr>"

definition sample_row :: "string \<Rightarrow> string \<Rightarrow> int option \<Rightarrow> stored_file" where
  "sample_row i source run = \<lparr>sf_id = i, sf_storage_key = i, sf_filename = ''n'', sf_content_type = ''t'', sf_size = 0, sf_sha = None,
     sf_source = source, sf_run = run, sf_status = ''ready'', sf_expires_at = None, sf_deleted_at = None, sf_created_at = ''2025''\<rparr>"

definition sample_history :: retained where
  "sample_history = \<lparr>hy_files = \<lparr>fs_rows = [sample_row ''a'' ''upload'' None, sample_row ''b'' ''workflow_output'' (Some 1)],
       fs_disk = [''files/a'' \<mapsto> [1], ''artifacts/workflow_output/b'' \<mapsto> [2]]\<rparr>,
     hy_runs = [\<lparr>rn_id = 1, rn_created = ''2024''\<rparr>, \<lparr>rn_id = 2, rn_created = ''2026''\<rparr>], hy_changes = [''2024'', ''2026''],
     hy_uptime = [''2026''], hy_steps = [], hy_logs = []\<rparr>"

lemma sample_keys: "validate_storage_key ''a''" "validate_storage_key ''b''"
  by code_simp+

lemma sample_rows_distinct: "rows_distinct (fs_rows (hy_files sample_history))"
  by (simp add: sample_history_def rows_distinct_def path_of_def sample_row_def storage_path_for_key_def sample_keys store_dir_for_source_def)

lemma sample_active: "get_active (fs_rows (hy_files sample_history)) ''a'' = Some (sample_row ''a'' ''upload'' None)"
  by (simp add: sample_history_def get_active_def sample_row_def live_def)

lemma retention_spares_witness:
  "read_file_bytes sample_file_env ''a'' (hy_files (snd (purge_older_than sample_purge_env ''2025'' sample_history))) =
     read_file_bytes sample_file_env ''a'' (hy_files sample_history)"
  using retention_spares[OF sample_rows_distinct sample_active, of "''2025''" sample_file_env sample_purge_env]
  by (simp add: expired_output_def sample_row_def)

section \<open>What a pass reclaims\<close>







section \<open>The size cap on logs\<close>

lemma notice_short: "length truncation_notice = 68"
  by (simp add: truncation_notice_def)

lemma keep_tail_suffix: "\<exists>n. length d - min keep (length d) \<le> n \<and> keep_tail keep d = truncation_notice @ drop n d"
proof -
  let ?m = "length d - min keep (length d)"
  have "\<exists>k. tl (dropWhile (\<lambda>c. c \<noteq> CHR 10) (drop ?m d)) = drop k (drop ?m d)"
    by (metis dropWhile_eq_drop drop_Suc drop_tl)
  then obtain k where "tl (dropWhile (\<lambda>c. c \<noteq> CHR 10) (drop ?m d)) = drop (k + ?m) d" by auto
  then show ?thesis by (auto simp: keep_tail_def Let_def intro: exI[of _ "k + ?m"])
qed

lemma keep_tail_length: "length (keep_tail keep d) \<le> keep + 68"
  using keep_tail_suffix[of d keep] by (auto simp: notice_short)

lemma capped_short: "length (keep_tail log_file_tail_keep d) \<le> log_file_size_cap"
  using keep_tail_length[of log_file_tail_keep d] by (simp add: log_file_tail_keep_def log_file_size_cap_def)

definition cappable :: "purge_env \<Rightarrow> log_file \<Rightarrow> bool" where
  "cappable env l \<longleftrightarrow> is_capturable_log (lg_name l) \<and> lg_regular l \<and> pg_rewrite env (lg_name l)"

text \<open>
  The size cap bounds every live log it can rewrite by 32 MiB, whatever the retention window; what it keeps is the
  notice followed by a suffix of the log, the bytes it reports are exactly those the file lost, every other file is
  left as it was, and a second pass finds nothing to cap.
\<close>

theorem cap_bounds_log:
  "length (lg_data (snd (cap_log env l))) \<le> (if cappable env l then log_file_size_cap else length (lg_data l)) \<and>
   (snd (cap_log env l) = l \<or> (\<exists>n. lg_data (snd (cap_log env l)) = truncation_notice @ drop n (lg_data l))) \<and>
   fst (cap_log env l) + length (lg_data (snd (cap_log env l))) = length (lg_data l) \<and>
   cap_log env (snd (cap_log env l)) = (0, snd (cap_log env l))"
proof (cases "cappable env l \<and> log_file_size_cap < length (lg_data l)")
  case True
  let ?d = "keep_tail log_file_tail_keep (lg_data l)"
  have capped: "cap_log env l = (length (lg_data l) - length ?d, l\<lparr>lg_data := ?d, lg_mtime := Some (pg_clock env)\<rparr>)"
    using True by (simp add: cap_log_def cappable_def truncate_keeping_tail_def)
  have short: "length ?d \<le> log_file_size_cap" by (rule capped_short)
  moreover have "\<exists>n. ?d = truncation_notice @ drop n (lg_data l)" using keep_tail_suffix by blast
  moreover have "cap_log env (snd (cap_log env l)) = (0, snd (cap_log env l))"
    using short unfolding capped by (simp add: cap_log_def)
  ultimately show ?thesis using True by (simp add: capped)
next
  case False
  then have "cap_log env l = (0, l)" by (auto simp: cap_log_def cappable_def)
  then show ?thesis using False by auto
qed

text \<open>Under a window of zero days the purge returns before the cap, so only the fleet worker's loop caps its logs; the
  scheduler's lane, the desktop daemon's one driver, leaves a log of any size alone.\<close>

lemma keep_all_never_caps:
  "snd (retention_lane stamp env 0 now (t, h)) = h"
  by (simp add: retention_lane_def maybe_run_retention_def)

section \<open>Keeping up\<close>













section \<open>What a pass loses or leaves behind\<close>

lemma read_missing: "get_active (fs_rows s) i = None \<Longrightarrow> read_file_bytes fe i s = Inl (FileMissing i)"
  by (simp add: read_file_bytes_def)

lemma purged_row_missing:
  assumes "rows_distinct (fs_rows s)" "f \<in> set (fs_rows s)" "expired_output runs cutoff f" "pg_row env (sf_id f)"
  shows "get_active (fs_rows (snd (purge_expired_output_files env runs cutoff s))) (sf_id f) = None"
  using assms by (auto simp: purge_outputs_exact Let_def get_active_def find_None_iff)

text \<open>A recent run whose artifact equals one an old run produced gets the old run's file: the row stays linked to the old
  run, so the purge of that run takes the recent run's output with it.\<close>

lemma shared_output_lost:
  assumes "rows_distinct (fs_rows (hy_files h))" "dedup_hit fe plain ''workflow_output'' (fs_rows (hy_files h)) = Some f"
    and "expired_output (hy_runs h) cutoff f" "pg_step env OutputFiles" "pg_row env (sf_id f)"
  shows "capture_output fe d plain filename ct recent (hy_files h) = (Inr f, hy_files h) \<and>
    read_file_bytes fe (sf_id f) (hy_files (snd (purge_older_than env cutoff h))) = Inl (FileMissing (sf_id f))"
proof -
  have f: "f \<in> set (fs_rows (hy_files h))" by (rule dedup_hit_row(1)[OF assms(2)])
  have "get_active (fs_rows (hy_files (snd (outputs_pass env cutoff (rep, h))))) (sf_id f) = None" for rep
    using purged_row_missing[OF assms(1) f assms(3,5)] assms(4) by (auto simp: outputs_pass_def split: prod.split)
  then have "read_file_bytes fe (sf_id f) (hy_files (snd (purge_older_than env cutoff h))) = Inl (FileMissing (sf_id f))"
    by (simp add: purge_older_than_def pass_kept read_runs_pass read_missing)
  then show ?thesis using assms(2) by (simp add: capture_output_def create_file_inner_def)
qed

text \<open>A blob that cannot be removed still loses its row, so nothing names it any more.\<close>

lemma denied_blob_orphaned:
  assumes "rows_distinct (fs_rows s)" "f \<in> set (fs_rows s)" "expired_output runs cutoff f" "pg_row env (sf_id f)"
    and "path_of f = Inr p" "\<not> pg_blob env p"
  shows "fs_disk (snd (purge_expired_output_files env runs cutoff s)) p = fs_disk s p \<and>
    (\<forall>g \<in> set (fs_rows (snd (purge_expired_output_files env runs cutoff s))). path_of g \<noteq> Inr p)"
proof -
  let ?old = "filter (expired_output runs cutoff) (fs_rows s)"
  have "path_of g \<noteq> Inr p" if "g \<in> set (fs_rows s)" "\<not> (sf_id g \<in> sf_id ` set ?old \<and> pg_row env (sf_id g))" for g
    using that assms(2-5) same_row(2)[OF assms(1,2), of g] by auto
  then show ?thesis using assms(6) by (simp add: purge_outputs_exact Let_def)
qed

text \<open>An output whose run is gone is in no list: no later purge takes it, and the store's own collection does not name
  it unless it was deleted or expires.\<close>

lemma unlinked_never_reclaimed:
  assumes "live f" "sf_expires_at f = None" "sf_run f = None"
  shows "\<not> expired_output runs cutoff f \<and> \<not> gc_candidate now f"
  using assms by (simp add: expired_output_def gc_candidate_def live_def)

end
