(* ===== verification/AuthImport.thy ===== *)
theory AuthImport
  imports VaultRotate
begin

text \<open>
  Import of one-time-code seeds (\<open>src/local/authenticator_import.rs\<close>, \<open>import_parse\<close> and \<open>import_commit\<close> of
  \<open>src/local/api/v1/personas.rs\<close>): the reader of a phone's export and of single URIs, the staging of what was read, and
  the commit that seals the chosen seeds into personas.
\<close>

section \<open>Wire format\<close>

text \<open>A result of the source, or the panic of an index out of range.\<close>

datatype 'a parsed = Parsed 'a | Refused string | Panics

definition bind_parsed :: "'a parsed \<Rightarrow> ('a \<Rightarrow> 'b parsed) \<Rightarrow> 'b parsed" where
  "bind_parsed r f = (case r of Parsed x \<Rightarrow> f x | Refused e \<Rightarrow> Refused e | Panics \<Rightarrow> Panics)"

lemma bind_parsed_simps [simp]:
  "bind_parsed (Parsed x) f = f x" "bind_parsed (Refused e) f = Refused e" "bind_parsed Panics f = Panics"
  by (simp_all add: bind_parsed_def)

lemma bind_parsed_Parsed: "bind_parsed r f = Parsed y \<longleftrightarrow> (\<exists>x. r = Parsed x \<and> f x = Parsed y)"
  by (cases r) simp_all

text \<open>A cursor is the rest of the buffer; its position is what the buffer has beyond it.\<close>

fun read_varint :: "nat \<Rightarrow> 64 word \<Rightarrow> bytes \<Rightarrow> (64 word \<times> bytes) parsed" where
  "read_varint shift acc [] = Refused ''truncated varint''"
| "read_varint shift acc (b # rest) =
     (let acc' = or acc (push_bit shift (ucast (and b 0x7F)))
      in if and b 0x80 = 0 then Parsed (acc', rest)
         else if 63 < shift + 7 then Refused ''varint too long''
         else read_varint (shift + 7) acc' rest)"

datatype proto_value = Varint "64 word" | Chunk bytes | Fixed nat

text \<open>\<open>n\<close> is the length of the buffer; the end of a chunk is computed in a \<open>usize\<close>, which wraps in the release build.\<close>

definition read_chunk :: "nat \<Rightarrow> bytes \<Rightarrow> (proto_value \<times> bytes) parsed" where
  "read_chunk n rest = bind_parsed (read_varint 0 0 rest) (\<lambda>(len, rest).
     (let i = n - length rest; end = (i + unat len) mod 2 ^ 64
      in if n < end then Refused ''truncated protobuf field''
         else if end < i then Panics
         else Parsed (Chunk (take (end - i) rest), drop (end - i) rest)))"

definition read_fixed :: "nat \<Rightarrow> bytes \<Rightarrow> (proto_value \<times> bytes) parsed" where
  "read_fixed w rest =
     (if length rest < w then Refused ''truncated protobuf field'' else Parsed (Fixed (le_value (take w rest)), drop w rest))"

definition read_field :: "nat \<Rightarrow> nat \<Rightarrow> bytes \<Rightarrow> (proto_value \<times> bytes) parsed" where
  "read_field n wire rest =
     (if wire = 0 then bind_parsed (read_varint 0 0 rest) (\<lambda>(v, rest). Parsed (Varint v, rest))
      else if wire = 2 then read_chunk n rest
      else if wire = 5 then read_fixed 4 rest
      else if wire = 1 then read_fixed 8 rest
      else Refused (''unsupported protobuf wire type '' @ show_nat wire))"

lemma read_varint_shorter: "read_varint shift acc bs = Parsed (v, rest) \<Longrightarrow> length rest < length bs"
  by (induction shift acc bs rule: read_varint.induct) (auto simp: Let_def split: if_splits)

lemma read_field_shorter: "read_field n wire bs = Parsed (v, rest) \<Longrightarrow> length rest \<le> length bs"
  by (auto simp: read_field_def read_chunk_def read_fixed_def bind_parsed_Parsed Let_def split: if_splits
      dest!: read_varint_shorter)

function iter_protobuf_fields :: "nat \<Rightarrow> bytes \<Rightarrow> (64 word \<times> nat \<times> proto_value) list parsed" where
  "iter_protobuf_fields n rest =
     (if rest = [] then Parsed []
      else case read_varint 0 0 rest of
          Refused e \<Rightarrow> Refused e
        | Panics \<Rightarrow> Panics
        | Parsed (tag, rest1) \<Rightarrow>
            (let wire = unat (and tag 7)
             in case read_field n wire rest1 of
                  Refused e \<Rightarrow> Refused e
                | Panics \<Rightarrow> Panics
                | Parsed (v, rest2) \<Rightarrow>
                    bind_parsed (iter_protobuf_fields n rest2) (\<lambda>fs. Parsed ((drop_bit 3 tag, wire, v) # fs))))"
  by pat_completeness auto
termination
  by (relation "measure (length \<circ> snd)") (auto dest!: read_varint_shorter read_field_shorter)

declare iter_protobuf_fields.simps [simp del]

definition protobuf_fields :: "bytes \<Rightarrow> (64 word \<times> nat \<times> proto_value) list parsed" where
  "protobuf_fields buf = iter_protobuf_fields (length buf) buf"

section \<open>Accounts\<close>

text \<open>What the foreign crates do: the URI parser, base64 in its two alphabets, base32, text from bytes and lower case.\<close>

record uri =
  ur_scheme :: string
  ur_host :: "string option"
  ur_path :: string
  ur_pairs :: "(string \<times> string) list"

record import_env =
  ie_uri :: "string \<Rightarrow> uri option"
  ie_b64_std :: "string \<Rightarrow> bytes option"
  ie_b64_url :: "string \<Rightarrow> bytes option"
  ie_b32_encode :: "bytes \<Rightarrow> string"
  ie_crypto :: crypto
  ie_lossy :: "bytes \<Rightarrow> string"
  ie_lower :: "string \<Rightarrow> string"

record import_entry =
  en_secret :: string
  en_issuer :: "string option"
  en_label :: "string option"
  en_algorithm :: string
  en_digits :: nat
  en_period :: int

definition decode_lossy :: "import_env \<Rightarrow> bytes \<Rightarrow> string option" where
  "decode_lossy env b = (if ie_lossy env b = [] then None else Some (ie_lossy env b))"

record otp_fields =
  of_secret :: "bytes option"
  of_name :: "string option"
  of_issuer :: "string option"
  of_algorithm :: string
  of_digits :: nat
  of_type :: "64 word"

definition no_fields :: otp_fields where
  "no_fields = \<lparr>of_secret = None, of_name = None, of_issuer = None, of_algorithm = ''SHA1'', of_digits = 6, of_type = 2\<rparr>"

fun otp_field :: "import_env \<Rightarrow> 64 word \<times> nat \<times> proto_value \<Rightarrow> otp_fields \<Rightarrow> otp_fields" where
  "otp_field env (num, wire, Chunk b) p =
     (if wire \<noteq> 2 then p
      else if num = 1 then p\<lparr>of_secret := Some b\<rparr>
      else if num = 2 then p\<lparr>of_name := decode_lossy env b\<rparr>
      else if num = 3 then p\<lparr>of_issuer := decode_lossy env b\<rparr>
      else p)"
| "otp_field env (num, wire, Varint v) p =
     (if wire \<noteq> 0 then p
      else if num = 4 then p\<lparr>of_algorithm := if v = 2 then ''SHA256'' else if v = 3 then ''SHA512'' else ''SHA1''\<rparr>
      else if num = 5 then p\<lparr>of_digits := if v = 2 then 8 else 6\<rparr>
      else if num = 6 then p\<lparr>of_type := v\<rparr>
      else p)"
| "otp_field env (num, wire, Fixed v) p = p"

definition otp_entry :: "import_env \<Rightarrow> otp_fields \<Rightarrow> import_entry option" where
  "otp_entry env p =
     (if of_type p \<noteq> 2 then None
      else case of_secret p of
          None \<Rightarrow> None
        | Some s \<Rightarrow>
            if s = [] then None
            else Some \<lparr>en_secret = ie_b32_encode env s, en_issuer = of_issuer p, en_label = of_name p,
                       en_algorithm = of_algorithm p, en_digits = of_digits p, en_period = 30\<rparr>)"

definition parse_otp_parameters :: "import_env \<Rightarrow> bytes \<Rightarrow> import_entry option parsed" where
  "parse_otp_parameters env buf =
     (case protobuf_fields buf of
        Refused e \<Rightarrow> Parsed None
      | Panics \<Rightarrow> Panics
      | Parsed fs \<Rightarrow> Parsed (otp_entry env (fold (otp_field env) fs no_fields)))"

fun export_entries :: "import_env \<Rightarrow> (64 word \<times> nat \<times> proto_value) list \<Rightarrow> import_entry list parsed" where
  "export_entries env [] = Parsed []"
| "export_entries env (f # fs) =
     bind_parsed
       (case snd (snd f) of
          Chunk b \<Rightarrow> if fst f = 1 \<and> fst (snd f) = 2 then parse_otp_parameters env b else Parsed None
        | _ \<Rightarrow> Parsed None)
       (\<lambda>e. bind_parsed (export_entries env fs) (\<lambda>es. Parsed ((case e of None \<Rightarrow> [] | Some x \<Rightarrow> [x]) @ es)))"

definition parse_export :: "import_env \<Rightarrow> bytes \<Rightarrow> import_entry list parsed" where
  "parse_export env raw =
     bind_parsed (bind_parsed (protobuf_fields raw) (export_entries env))
       (\<lambda>es. if es = [] then Refused ''no TOTP accounts in the Google Authenticator export'' else Parsed es)"

section \<open>Text\<close>

definition upper_ascii :: "string \<Rightarrow> string" where
  "upper_ascii = map (\<lambda>x. if 97 \<le> (of_char x :: nat) \<and> (of_char x :: nat) \<le> 122 then char_of ((of_char x :: nat) - 32) else x)"

text \<open>Strip blanks, dashes and padding, and require what base32 can decode.\<close>

definition normalize_base32 :: "crypto \<Rightarrow> string \<Rightarrow> string option" where
  "normalize_base32 c secret =
     (let cleaned = upper_ascii (trim_end_matches (\<lambda>x. x = CHR ''='')
            (concat (filter (\<lambda>x. x \<notin> set ws_seqs \<and> x \<noteq> ''-'') (utf8_chars secret))))
      in if cleaned = [] then None else if base32_decode c cleaned = None then None else Some cleaned)"

definition b64_decode_loose :: "import_env \<Rightarrow> string \<Rightarrow> bytes option" where
  "b64_decode_loose env d =
     (let s = trim (filter (\<lambda>c. c \<noteq> CHR 0x0A \<and> c \<noteq> CHR 0x0D) d);
          padded = s @ replicate ((4 - length s mod 4) mod 4) (CHR ''='')
      in case ie_b64_std env padded of Some b \<Rightarrow> Some b | None \<Rightarrow> ie_b64_url env padded)"

definition plain_byte :: "char \<Rightarrow> char" where
  "plain_byte c = (if c = CHR ''+'' then CHR '' '' else c)"

text \<open>Two hexadecimal digits are read as \<open>hex_pair\<close> reads them, by \<open>u8::from_str_radix\<close>.\<close>

fun percent_bytes :: "string \<Rightarrow> string" where
  "percent_bytes (c # d # e # rest) =
     (case (if c = CHR ''%'' then hex_pair d e else None) of
        Some v \<Rightarrow> char_of (unat v) # percent_bytes rest
      | None \<Rightarrow> plain_byte c # percent_bytes (d # e # rest))"
| "percent_bytes (c # cs) = plain_byte c # percent_bytes cs"
| "percent_bytes [] = []"

definition percent_decode :: "import_env \<Rightarrow> string \<Rightarrow> string" where
  "percent_decode env s = ie_lossy env (bytes_of (percent_bytes s))"

section \<open>Parsing\<close>

definition pair_value :: "string \<Rightarrow> uri \<Rightarrow> string option" where
  "pair_value k u = map_of (rev (ur_pairs u)) k"

definition non_empty :: "string option \<Rightarrow> string option" where
  "non_empty v = Option.bind v (\<lambda>s. if s = [] then None else Some s)"

text \<open>The issuer and the label of a path \<open>Issuer:account\<close>; the query's issuer wins.\<close>

definition issuer_label :: "string option \<Rightarrow> string option \<Rightarrow> string option \<times> string option" where
  "issuer_label q raw =
     (case Option.bind raw (split_once (CHR '':'')) of
        None \<Rightarrow> (q, raw)
      | Some (issuer, rest) \<Rightarrow>
          (if q = None \<and> trim issuer \<noteq> [] then Some (trim issuer) else q,
           if trim rest = [] then raw else Some (trim rest)))"

definition uri_algorithm :: "uri \<Rightarrow> string" where
  "uri_algorithm u =
     (case map_option upper_ascii (pair_value ''algorithm'' u) of
        Some a \<Rightarrow> if a = ''SHA256'' \<or> a = ''SHA512'' then a else ''SHA1''
      | None \<Rightarrow> ''SHA1'')"

definition uri_digits :: "uri \<Rightarrow> nat" where
  "uri_digits u = (case Option.bind (pair_value ''digits'' u) parse_i64 of Some d \<Rightarrow> if d = 8 then 8 else 6 | None \<Rightarrow> 6)"

definition uri_period :: "uri \<Rightarrow> int" where
  "uri_period u = (case Option.bind (pair_value ''period'' u) parse_i64 of Some p \<Rightarrow> if 0 < p then p else 30 | None \<Rightarrow> 30)"

definition totp_of_uri :: "import_env \<Rightarrow> uri \<Rightarrow> import_entry option parsed" where
  "totp_of_uri env u =
     (let raw = trim (unwrap_or [] (pair_value ''secret'' u))
      in if raw = [] then Refused ''otpauth URI missing secret''
         else case normalize_base32 (ie_crypto env) raw of
             None \<Rightarrow> Refused ''otpauth secret is not valid base32''
           | Some secret \<Rightarrow>
               (let label = non_empty (Some (percent_decode env (trim_start_matches (\<lambda>c. c = CHR ''/'') (ur_path u))));
                    (issuer, label) = issuer_label (non_empty (map_option trim (pair_value ''issuer'' u))) label
                in Parsed (Some \<lparr>en_secret = secret, en_issuer = issuer, en_label = label, en_algorithm = uri_algorithm u,
                                en_digits = uri_digits u, en_period = uri_period u\<rparr>)))"

definition parse_otpauth_uri :: "import_env \<Rightarrow> string \<Rightarrow> import_entry option parsed" where
  "parse_otpauth_uri env text =
     (case ie_uri env text of
        None \<Rightarrow> Refused ''not an otpauth:// URI''
      | Some u \<Rightarrow>
          if ur_scheme u \<noteq> ''otpauth'' then Refused ''not an otpauth:// URI''
          else (let kind = ascii_lower (unwrap_or [] (ur_host u))
                in if kind = ''hotp'' then Parsed None
                   else if kind \<noteq> ''totp'' then Refused (''unsupported otpauth type '' @ [CHR 0x27] @ kind @ [CHR 0x27])
                   else totp_of_uri env u))"

definition migration_data :: "import_env \<Rightarrow> string \<Rightarrow> string parsed" where
  "migration_data env payload =
     (if contains_str (ascii_lower payload) ''otpauth-migration://'' \<or> contains_str payload ''data=''
      then (case ie_uri env payload of
              None \<Rightarrow> Refused ''migration URI is not a valid URI''
            | Some u \<Rightarrow>
                (let d = trim (unwrap_or [] (map_of (ur_pairs u) ''data''))
                 in if d = [] then Refused ''migration URI missing data= parameter'' else Parsed d))
      else Parsed payload)"

definition parse_migration_payload :: "import_env \<Rightarrow> string \<Rightarrow> import_entry list parsed" where
  "parse_migration_payload env payload =
     bind_parsed (migration_data env (trim payload)) (\<lambda>d.
       case b64_decode_loose env (percent_decode env d) of
         None \<Rightarrow> Refused ''migration data is not valid base64''
       | Some raw \<Rightarrow> parse_export env raw)"

text \<open>What one source adds to the entries and the errors so far.\<close>

definition add_source :: "import_entry list parsed \<Rightarrow> import_entry list \<times> string list \<Rightarrow> (import_entry list \<times> string list) parsed" where
  "add_source r acc =
     (case r of Parsed es \<Rightarrow> Parsed (fst acc @ es, snd acc) | Refused e \<Rightarrow> Parsed (fst acc, snd acc @ [e]) | Panics \<Rightarrow> Panics)"

definition parse_uri_line :: "import_env \<Rightarrow> string \<Rightarrow> import_entry list parsed" where
  "parse_uri_line env uri =
     (if uri = [] then Parsed []
      else if starts_with (ascii_lower uri) ''otpauth-migration://'' then parse_migration_payload env uri
      else bind_parsed (parse_otpauth_uri env uri) (\<lambda>e. Parsed (case e of None \<Rightarrow> [] | Some x \<Rightarrow> [x])))"

fun collect_uris :: "import_env \<Rightarrow> string list \<Rightarrow> import_entry list \<times> string list \<Rightarrow> (import_entry list \<times> string list) parsed" where
  "collect_uris env [] acc = Parsed acc"
| "collect_uris env (u # us) acc = bind_parsed (add_source (parse_uri_line env (trim u)) acc) (collect_uris env us)"

definition entry_key :: "import_env \<Rightarrow> import_entry \<Rightarrow> string \<times> string \<times> string" where
  "entry_key env e = (en_secret e, ie_lower env (unwrap_or [] (en_issuer e)), ie_lower env (unwrap_or [] (en_label e)))"

fun dedupe :: "import_env \<Rightarrow> (string \<times> string \<times> string) list \<Rightarrow> import_entry list \<Rightarrow> import_entry list" where
  "dedupe env seen [] = []"
| "dedupe env seen (e # es) =
     (if entry_key env e \<in> set seen then dedupe env seen es else e # dedupe env (entry_key env e # seen) es)"

definition max_entries :: nat where
  "max_entries = 200"

definition settle_import :: "import_env \<Rightarrow> import_entry list \<times> string list \<Rightarrow> import_entry list parsed" where
  "settle_import env acc =
     (let es = dedupe env [] (fst acc)
      in if es = [] then Refused (if snd acc = [] then ''no TOTP accounts found in the import'' else join_with ''; '' (take 3 (snd acc)))
         else if max_entries < length es
           then Refused (''import has too many accounts ('' @ show_nat (length es) @ '' > '' @ show_nat max_entries @ '')'')
         else Parsed es)"

definition parse_payloads :: "import_env \<Rightarrow> string list \<Rightarrow> string option \<Rightarrow> import_entry list parsed" where
  "parse_payloads env uris payload =
     bind_parsed (collect_uris env uris ([], [])) (\<lambda>acc.
       bind_parsed
         (case non_empty (map_option trim payload) of
            None \<Rightarrow> Parsed acc
          | Some p \<Rightarrow> add_source (parse_migration_payload env p) acc)
         (settle_import env))"

section \<open>Preview\<close>

definition issuer_domain_hints :: "(string \<times> string) list" where
  "issuer_domain_hints =
     [(''google'', ''google.com''), (''github'', ''github.com''), (''gitlab'', ''gitlab.com''), (''amazon'', ''amazon.com''),
      (''amazon web services'', ''aws.amazon.com''), (''aws'', ''aws.amazon.com''), (''microsoft'', ''microsoft.com''),
      (''facebook'', ''facebook.com''), (''instagram'', ''instagram.com''), (''twitter'', ''twitter.com''), (''x'', ''x.com''),
      (''dropbox'', ''dropbox.com''), (''slack'', ''slack.com''), (''discord'', ''discord.com''), (''cloudflare'', ''cloudflare.com''),
      (''digitalocean'', ''digitalocean.com''), (''stripe'', ''stripe.com''), (''paypal'', ''paypal.com''),
      (''coinbase'', ''coinbase.com''), (''linkedin'', ''linkedin.com''), (''shopify'', ''shopify.com''), (''namecheap'', ''namecheap.com'')]"

definition em_dash :: string where
  "em_dash = [CHR 0x20, CHR 0xE2, CHR 0x80, CHR 0x94, CHR 0x20]"

definition suggested_name :: "string option \<Rightarrow> string option \<Rightarrow> string" where
  "suggested_name issuer label =
     (let i = trim (unwrap_or [] issuer); l = trim (unwrap_or [] label)
      in if i \<noteq> [] \<and> l \<noteq> [] then i @ em_dash @ l
         else if i \<noteq> [] then i
         else if l \<noteq> [] then l
         else ''Imported account'')"

text \<open>A candidate that looks like a host or an address names itself; otherwise the table is asked.\<close>

definition domain_of :: "string \<Rightarrow> string option" where
  "domain_of c =
     (if c = [] then None
      else if CHR ''.'' \<in> set c \<and> CHR '' '' \<notin> set c then Some (hd (split_byte (CHR ''/'') (List.last (split_byte (CHR ''@'') c))))
      else map_of issuer_domain_hints c)"

definition guess_domain :: "import_env \<Rightarrow> string option \<Rightarrow> string option \<Rightarrow> string option" where
  "guess_domain env issuer label =
     (let candidate = (\<lambda>v. domain_of (ie_lower env (trim (unwrap_or [] v))))
      in case candidate issuer of Some d \<Rightarrow> Some d | None \<Rightarrow> candidate label)"

definition opt_json :: "string option \<Rightarrow> json" where
  "opt_json v = (case v of None \<Rightarrow> JNull | Some s \<Rightarrow> JStr s)"

definition preview :: "import_env \<Rightarrow> nat \<Rightarrow> import_entry \<Rightarrow> json" where
  "preview env i e = JObj [(''idx'', JInt (int i)), (''issuer'', opt_json (en_issuer e)), (''label'', opt_json (en_label e)),
     (''suggested_name'', JStr (suggested_name (en_issuer e) (en_label e))),
     (''suggested_domain'', opt_json (guess_domain env (en_issuer e) (en_label e))), (''algorithm'', JStr (en_algorithm e)),
     (''digits'', JInt (int (en_digits e))), (''period'', JInt (en_period e))]"

section \<open>Staging\<close>

text \<open>Times are nanoseconds, as the lock counts them.\<close>

record staged =
  sg_token :: string
  sg_entries :: "import_entry list"
  sg_expires :: nat

definition stage_ttl :: nat where
  "stage_ttl = secs 600"

definition max_staged :: nat where
  "max_staged = 16"

definition unexpired :: "nat \<Rightarrow> staged list \<Rightarrow> staged list" where
  "unexpired now m = filter (\<lambda>s. now < sg_expires s) m"

definition drop_oldest :: "staged list \<Rightarrow> staged list" where
  "drop_oldest m = remove_first (\<lambda>s. sg_expires s = Min (set (map sg_expires m))) m"

lemma remove_first_shorter: "x \<in> set xs \<Longrightarrow> P x \<Longrightarrow> length (remove_first P xs) < length xs"
  by (induction xs) auto

lemma drop_oldest_shorter: "m \<noteq> [] \<Longrightarrow> length (drop_oldest m) < length m"
proof -
  assume "m \<noteq> []"
  then have "Min (set (map sg_expires m)) \<in> set (map sg_expires m)" by (intro Min_in) auto
  then show ?thesis unfolding drop_oldest_def by (auto intro!: remove_first_shorter)
qed

function evict :: "staged list \<Rightarrow> staged list" where
  "evict m = (if max_staged \<le> length m then evict (drop_oldest m) else m)"
  by pat_completeness auto
termination
  by (relation "measure length") (auto simp: max_staged_def intro!: drop_oldest_shorter)

declare evict.simps [simp del]

definition stage_entries :: "nat \<Rightarrow> string \<Rightarrow> import_entry list \<Rightarrow> staged list \<Rightarrow> staged list" where
  "stage_entries now token es m =
     filter (\<lambda>s. sg_token s \<noteq> token) (evict (unexpired now m)) @ [\<lparr>sg_token = token, sg_entries = es, sg_expires = now + stage_ttl\<rparr>]"

definition load_staged :: "nat \<Rightarrow> string \<Rightarrow> staged list \<Rightarrow> import_entry list option \<times> staged list" where
  "load_staged now token m =
     (if token = [] then (None, m)
      else (map_option sg_entries (List.find (\<lambda>s. sg_token s = token) (unexpired now m)), unexpired now m))"

definition consume_staged :: "string \<Rightarrow> staged list \<Rightarrow> staged list" where
  "consume_staged token m = filter (\<lambda>s. sg_token s \<noteq> token) m"

section \<open>Handlers\<close>

datatype import_error = ImportLocked | ImportBadRequest string | ImportNotFound string | ImportStore | ImportPanic

text \<open>The reply to a parse: the token, and one preview per account.\<close>

definition import_parse ::
    "import_env \<Rightarrow> nat \<Rightarrow> string \<Rightarrow> string list \<Rightarrow> string option \<Rightarrow> machine \<times> staged list \<Rightarrow>
     (import_error + (string \<times> json list)) \<times> machine \<times> staged list" where
  "import_parse env now token uris payload st =
     (case lock_guard now (fst st) of
        (Inl _, m) \<Rightarrow> (Inl ImportLocked, m, snd st)
      | (Inr _, m) \<Rightarrow>
          if list_all (\<lambda>u. trim u = []) uris \<and> non_empty (map_option trim payload) = None
          then (Inl (ImportBadRequest ''Provide otpauth_uris and/or a migration_payload''), m, snd st)
          else case parse_payloads env uris payload of
              Refused e \<Rightarrow> (Inl (ImportBadRequest (''Could not read the authenticator import: '' @ e)), m, snd st)
            | Panics \<Rightarrow> (Inl ImportPanic, m, snd st)
            | Parsed es \<Rightarrow> (Inr (token, map (\<lambda>(i, e). preview env i e) (enumerate 0 es)), m, stage_entries now token es (snd st)))"

record selection =
  sl_idx :: int
  sl_name :: "string option"
  sl_domain :: "string option"
  sl_login :: "string option"

record totp_persona =
  tp_id :: int
  tp_name :: string
  tp_domain :: "string option"
  tp_login :: "string option"
  tp_digits :: nat
  tp_period :: int
  tp_algorithm :: string
  tp_seed :: "string option"

text \<open>What one selection meets: the id the insert returns, the nonce, and whether the update and the delete take.\<close>

record commit_step =
  cs_id :: "int option"
  cs_nonce :: bytes
  cs_stored :: bool
  cs_deleted :: bool

text \<open>\<open>cm_table\<close> in the order of insertion.\<close>

record committing =
  cm_taken :: "string list"
  cm_table :: "totp_persona list"
  cm_created :: "int list"
  cm_skipped :: "(int \<times> string) list"

definition take_chars :: "nat \<Rightarrow> string \<Rightarrow> string" where
  "take_chars n s = concat (take n (utf8_chars s))"

definition numbered_name :: "string \<Rightarrow> nat \<Rightarrow> string" where
  "numbered_name base i = (let suffix = '' ('' @ show_nat i @ '')'' in take_chars (120 - length suffix) base @ suffix)"

definition unique_name :: "(string \<Rightarrow> string) \<Rightarrow> string \<Rightarrow> string list \<Rightarrow> string" where
  "unique_name lower base taken =
     (let base = (if base = [] then ''Imported account'' else base)
      in if lower base \<notin> set taken then base
         else case List.find (\<lambda>i. lower (numbered_name base i) \<notin> set taken) [2..<1000] of
             Some i \<Rightarrow> numbered_name base i
           | None \<Rightarrow> take_chars 116 base @ '' (x)'')"

definition insert_persona :: "commit_step \<Rightarrow> (int \<Rightarrow> totp_persona) \<Rightarrow> totp_persona list \<Rightarrow> totp_persona option" where
  "insert_persona se row table =
     Option.bind (cs_id se) (\<lambda>i. if i \<in> tp_id ` set table \<or> tp_name (row i) \<in> tp_name ` set table then None else Some (row i))"

definition remove_persona :: "bool \<Rightarrow> int \<Rightarrow> totp_persona list \<Rightarrow> totp_persona list" where
  "remove_persona ok i table = (if ok then filter (\<lambda>p. tp_id p \<noteq> i) table else table)"

definition skip_selection :: "selection \<Rightarrow> string \<Rightarrow> committing \<Rightarrow> committing" where
  "skip_selection sel why s = s\<lparr>cm_skipped := cm_skipped s @ [(sl_idx sel, why)]\<rparr>"

definition chosen :: "import_entry list \<Rightarrow> selection \<Rightarrow> import_entry option" where
  "chosen es sel = (if 0 \<le> sl_idx sel \<and> nat (sl_idx sel) < length es then Some (es ! nat (sl_idx sel)) else None)"

definition entry_name :: "import_env \<Rightarrow> selection \<Rightarrow> import_entry \<Rightarrow> string list \<Rightarrow> string" where
  "entry_name env sel e taken =
     (let base = (case non_empty (map_option trim (sl_name sel)) of Some n \<Rightarrow> n | None \<Rightarrow> suggested_name (en_issuer e) (en_label e))
      in unique_name (ie_lower env) (take_chars 120 base) taken)"

definition entry_row :: "import_env \<Rightarrow> selection \<Rightarrow> import_entry \<Rightarrow> string \<Rightarrow> int \<Rightarrow> totp_persona" where
  "entry_row env sel e name i = \<lparr>tp_id = i, tp_name = name,
     tp_domain = (case non_empty (map_option trim (sl_domain sel)) of Some d \<Rightarrow> Some d | None \<Rightarrow> guess_domain env (en_issuer e) (en_label e)),
     tp_login = non_empty (map_option trim (sl_login sel)), tp_digits = en_digits e, tp_period = en_period e,
     tp_algorithm = en_algorithm e, tp_seed = None\<rparr>"

text \<open>The seed goes into a row that exists, bound to its id; when that fails the row is taken back.\<close>

definition seal_row :: "import_env \<Rightarrow> bytes \<Rightarrow> commit_step \<Rightarrow> selection \<Rightarrow> import_entry \<Rightarrow> totp_persona \<Rightarrow> committing \<Rightarrow> committing" where
  "seal_row env rk se sel e row s =
     (case seal_field (ie_crypto env) rk (cs_nonce se) (bytes_of (en_secret e)) (persona_aad ''totp_seed_encrypted'' (tp_id row)) of
        Inl _ \<Rightarrow> skip_selection sel ''could not seal the seed'' (s\<lparr>cm_table := remove_persona (cs_deleted se) (tp_id row) (cm_table s)\<rparr>)
      | Inr blob \<Rightarrow>
          if cs_stored se
          then s\<lparr>cm_table := map (\<lambda>p. if tp_id p = tp_id row then p\<lparr>tp_seed := Some blob\<rparr> else p) (cm_table s),
                 cm_created := cm_created s @ [tp_id row]\<rparr>
          else skip_selection sel ''could not store the seed'' (s\<lparr>cm_table := remove_persona (cs_deleted se) (tp_id row) (cm_table s)\<rparr>))"

text \<open>False when the insert fails, which ends the loop.\<close>

definition commit_one :: "import_env \<Rightarrow> bytes \<Rightarrow> import_entry list \<Rightarrow> selection \<times> commit_step \<Rightarrow> committing \<Rightarrow> bool \<times> committing" where
  "commit_one env rk es x s =
     (case chosen es (fst x) of
        None \<Rightarrow> (True, skip_selection (fst x) ''invalid index'' s)
      | Some e \<Rightarrow>
          (let name = entry_name env (fst x) e (cm_taken s);
               s = s\<lparr>cm_taken := ie_lower env name # cm_taken s\<rparr>
           in case insert_persona (snd x) (entry_row env (fst x) e name) (cm_table s) of
                None \<Rightarrow> (False, s)
              | Some row \<Rightarrow> (True, seal_row env rk (snd x) (fst x) e row (s\<lparr>cm_table := cm_table s @ [row]\<rparr>))))"

fun commit_all :: "import_env \<Rightarrow> bytes \<Rightarrow> import_entry list \<Rightarrow> (selection \<times> commit_step) list \<Rightarrow> committing \<Rightarrow> bool \<times> committing" where
  "commit_all env rk es [] s = (True, s)"
| "commit_all env rk es (x # xs) s =
     (if fst (commit_one env rk es x s) then commit_all env rk es xs (snd (commit_one env rk es x s)) else commit_one env rk es x s)"

definition taken_names :: "import_env \<Rightarrow> totp_persona list \<Rightarrow> string list" where
  "taken_names env table = map (ie_lower env \<circ> tp_name) (take 500 (rev table))"

record import_state =
  im_lock :: machine
  im_staged :: "staged list"
  im_table :: "totp_persona list"

text \<open>\<open>listed\<close>: the table could be read.\<close>

definition import_commit ::
    "import_env \<Rightarrow> bytes \<Rightarrow> nat \<Rightarrow> bool \<Rightarrow> string \<Rightarrow> (selection \<times> commit_step) list \<Rightarrow> import_state \<Rightarrow>
     (import_error + (int list \<times> (int \<times> string) list)) \<times> import_state" where
  "import_commit env rk now listed token xs st =
     (case lock_guard now (im_lock st) of
        (Inl _, m) \<Rightarrow> (Inl ImportLocked, st\<lparr>im_lock := m\<rparr>)
      | (Inr _, m) \<Rightarrow>
          (case load_staged now token (im_staged st) of
             (None, sg) \<Rightarrow> (Inl (ImportNotFound (''Import session expired or not found'' @ em_dash @ ''re-run the import'')), st\<lparr>im_lock := m, im_staged := sg\<rparr>)
           | (Some es, sg) \<Rightarrow>
               if xs = [] then (Inl (ImportBadRequest ''No accounts selected to import''), st\<lparr>im_lock := m, im_staged := sg\<rparr>)
               else if \<not> listed then (Inl ImportStore, st\<lparr>im_lock := m, im_staged := sg\<rparr>)
               else case commit_all env rk es xs \<lparr>cm_taken = taken_names env (im_table st), cm_table = im_table st, cm_created = [], cm_skipped = []\<rparr> of
                   (False, s) \<Rightarrow> (Inl ImportStore, st\<lparr>im_lock := m, im_staged := sg, im_table := cm_table s\<rparr>)
                 | (True, s) \<Rightarrow>
                     if cm_created s = [] then (Inl (ImportBadRequest ''No valid accounts to import''), st\<lparr>im_lock := m, im_staged := sg, im_table := cm_table s\<rparr>)
                     else (Inr (cm_created s, cm_skipped s), st\<lparr>im_lock := m, im_staged := consume_staged token sg, im_table := cm_table s\<rparr>)))"

section \<open>A phone's export is read back\<close>



























section \<open>What is refused, and what breaks\<close>

text \<open>A chunk whose length is near \<open>2^64\<close> passes the bounds check, which wraps, and the slice panics.\<close>

lemma crafted_length: "read_varint 0 0 [255, 255, 255, 255, 255, 255, 255, 255, 255, 1] = Parsed (- 1, [])"
  by (simp add: Let_def)

lemma crafted_length_panics: "protobuf_fields [0x0A, 255, 255, 255, 255, 255, 255, 255, 255, 255, 1] = Panics"
proof -
  have tag: "read_varint 0 0 (0x0A # bs) = Parsed (0x0A, bs)" for bs by (simp add: Let_def)
  have chunk: "read_chunk 11 [255, 255, 255, 255, 255, 255, 255, 255, 255, 1] = Panics"
    by (simp add: read_chunk_def crafted_length Let_def unsigned_minus_1_eq_mask mask_eq_exp_minus_1)
  have "protobuf_fields [0x0A, 255, 255, 255, 255, 255, 255, 255, 255, 255, 1] =
      iter_protobuf_fields 11 [0x0A, 255, 255, 255, 255, 255, 255, 255, 255, 255, 1]"
    by (simp add: protobuf_fields_def eval_nat_numeral)
  then show ?thesis by (subst (asm) iter_protobuf_fields.simps) (simp add: tag chunk read_field_def del: read_varint.simps)
qed

lemma crafted_export_panics: "parse_export env [0x0A, 255, 255, 255, 255, 255, 255, 255, 255, 255, 1] = Panics"
  by (simp only: parse_export_def crafted_length_panics bind_parsed_simps)

text \<open>A plus sign never survives the second decoding, although base64 and account names contain it.\<close>

lemma percent_bytes_no_plus: "CHR ''%'' \<notin> set s \<Longrightarrow> percent_bytes s = map plain_byte s"
  by (induction s rule: percent_bytes.induct) auto

lemma plus_export_refused:
  assumes "contains_str (ascii_lower payload) ''otpauth-migration://'' = False" "contains_str payload ''data='' = False"
    and "trim payload = payload" "CHR ''%'' \<notin> set payload" "CHR ''+'' \<in> set payload"
    and "\<And>b. ie_lossy env (bytes_of (map plain_byte b)) = map plain_byte b"
    and "\<And>s. CHR '' '' \<in> set s \<Longrightarrow> ie_b64_std env s = None \<and> ie_b64_url env s = None"
    and "CHR '' '' \<in> set (trim (filter (\<lambda>c. c \<noteq> CHR 0x0A \<and> c \<noteq> CHR 0x0D) (map plain_byte payload)))"
  shows "parse_migration_payload env payload = Refused ''migration data is not valid base64''"
proof -
  have d: "percent_decode env payload = map plain_byte payload"
    using assms(4,6) by (simp add: percent_decode_def percent_bytes_no_plus)
  have "b64_decode_loose env (map plain_byte payload) = None"
    using assms(7,8) by (simp add: b64_decode_loose_def Let_def)
  then show ?thesis using assms(1-3) d by (simp add: parse_migration_payload_def migration_data_def)
qed

lemma label_plus_lost: "percent_bytes ''me+tag%40x.org'' = ''me tag@x.org''"
  by code_simp

section \<open>What an import accepts\<close>

definition usable :: "import_env \<Rightarrow> import_entry \<Rightarrow> bool" where
  "usable env e \<longleftrightarrow> en_secret e \<noteq> [] \<and> base32_decode (ie_crypto env) (en_secret e) \<noteq> None \<and>
     en_algorithm e \<in> {''SHA1'', ''SHA256'', ''SHA512''} \<and> en_digits e \<in> {6, 8} \<and> 0 < en_period e"

text \<open>What base32 is documented to do: it decodes what it encoded, and encodes something to something.\<close>

definition base32_ok :: "import_env \<Rightarrow> bool" where
  "base32_ok env \<longleftrightarrow> (\<forall>b. b \<noteq> [] \<longrightarrow> ie_b32_encode env b \<noteq> [] \<and> base32_decode (ie_crypto env) (ie_b32_encode env b) = Some b)"

lemma normalize_base32_usable: "normalize_base32 c s = Some t \<Longrightarrow> t \<noteq> [] \<and> base32_decode c t \<noteq> None"
  by (auto simp: normalize_base32_def Let_def split: if_splits)

lemma totp_of_uri_usable: "totp_of_uri env u = Parsed (Some e) \<Longrightarrow> usable env e"
  using normalize_base32_usable
  by (auto simp: totp_of_uri_def usable_def uri_algorithm_def uri_digits_def uri_period_def Let_def
      split: if_splits option.splits prod.splits)

lemma parse_otpauth_uri_usable: "parse_otpauth_uri env t = Parsed (Some e) \<Longrightarrow> usable env e"
  using totp_of_uri_usable by (auto simp: parse_otpauth_uri_def Let_def split: option.splits if_splits)

lemma otp_field_ok:
  "of_algorithm p \<in> {''SHA1'', ''SHA256'', ''SHA512''} \<and> of_digits p \<in> {6, 8} \<Longrightarrow>
   of_algorithm (otp_field env f p) \<in> {''SHA1'', ''SHA256'', ''SHA512''} \<and> of_digits (otp_field env f p) \<in> {6, 8}"
  by (cases "(env, f, p)" rule: otp_field.cases) auto

lemma otp_fields_ok:
  "of_algorithm p \<in> {''SHA1'', ''SHA256'', ''SHA512''} \<and> of_digits p \<in> {6, 8} \<Longrightarrow>
   of_algorithm (fold (otp_field env) fs p) \<in> {''SHA1'', ''SHA256'', ''SHA512''} \<and> of_digits (fold (otp_field env) fs p) \<in> {6, 8}"
  by (induction fs arbitrary: p) (use otp_field_ok in \<open>force+\<close>)

lemma parse_otp_parameters_usable:
  assumes "base32_ok env" "parse_otp_parameters env b = Parsed (Some e)"
  shows "usable env e"
proof -
  obtain fs where "otp_entry env (fold (otp_field env) fs no_fields) = Some e"
    using assms(2) by (auto simp: parse_otp_parameters_def split: parsed.splits)
  then show ?thesis using otp_fields_ok[of no_fields env fs] assms(1)
    by (auto simp: otp_entry_def usable_def base32_ok_def no_fields_def split: if_splits option.splits)
qed

lemma export_entries_usable:
  assumes "base32_ok env"
  shows "export_entries env fs = Parsed es \<Longrightarrow> e \<in> set es \<Longrightarrow> usable env e"
proof (induction fs arbitrary: es)
  case (Cons f fs)
  then show ?case using parse_otp_parameters_usable[OF assms]
    by (auto simp: bind_parsed_Parsed split: proto_value.splits if_splits option.splits)
qed simp

lemma migration_usable:
  assumes "base32_ok env" "parse_migration_payload env p = Parsed es" "e \<in> set es"
  shows "usable env e"
  using assms(2,3) export_entries_usable[OF assms(1)]
  by (auto simp: parse_migration_payload_def parse_export_def bind_parsed_Parsed split: option.splits if_splits)

lemma parse_uri_line_usable:
  assumes "base32_ok env" "parse_uri_line env u = Parsed es" "e \<in> set es"
  shows "usable env e"
  using assms(2,3) migration_usable[OF assms(1)] parse_otpauth_uri_usable
  by (auto simp: parse_uri_line_def bind_parsed_Parsed split: if_splits option.splits)

lemma add_source_usable:
  assumes "add_source r acc = Parsed acc'" "\<And>es e. r = Parsed es \<Longrightarrow> e \<in> set es \<Longrightarrow> usable env e"
    and "list_all (usable env) (fst acc)"
  shows "list_all (usable env) (fst acc')"
  using assms by (cases r) (auto simp: add_source_def list_all_iff)

lemma collect_uris_usable:
  assumes "base32_ok env" "collect_uris env us acc = Parsed acc'" "list_all (usable env) (fst acc)"
  shows "list_all (usable env) (fst acc')"
  using assms(2,3)
proof (induction us arbitrary: acc)
  case (Cons u us)
  then obtain acc1 where "add_source (parse_uri_line env (trim u)) acc = Parsed acc1" "collect_uris env us acc1 = Parsed acc'"
    by (auto simp: bind_parsed_Parsed)
  then show ?case using Cons.IH add_source_usable[of _ acc acc1 env] parse_uri_line_usable[OF assms(1)] Cons.prems(2) by metis
qed simp

lemma dedupe_subset: "set (dedupe env seen es) \<subseteq> set es"
  by (induction env seen es rule: dedupe.induct) auto

lemma dedupe_distinct: "distinct (map (entry_key env) (dedupe env seen es)) \<and> entry_key env ` set (dedupe env seen es) \<inter> set seen = {}"
  by (induction env seen es rule: dedupe.induct) auto

lemma dedupe_complete: "entry_key env ` set es \<subseteq> entry_key env ` set (dedupe env seen es) \<union> set seen"
  by (induction env seen es rule: dedupe.induct) auto

text \<open>
  C27. What an import accepts can be used: between one and two hundred accounts, no two the same, each with a seed that
  base32 opens, an algorithm, a length and a period the code minter knows. Whatever text was pasted, nothing else
  reaches the staging area.
\<close>

theorem import_accepts_usable:
  assumes "base32_ok env" "parse_payloads env uris payload = Parsed es"
  shows "es \<noteq> [] \<and> length es \<le> max_entries \<and> distinct (map (entry_key env) es) \<and> list_all (usable env) es"
proof -
  obtain acc acc' where a: "collect_uris env uris ([], []) = Parsed acc" "settle_import env acc' = Parsed es"
    "(case non_empty (map_option trim payload) of None \<Rightarrow> Parsed acc | Some p \<Rightarrow> add_source (parse_migration_payload env p) acc) = Parsed acc'"
    using assms(2) by (auto simp: parse_payloads_def bind_parsed_Parsed)
  have "list_all (usable env) (fst acc)" by (rule collect_uris_usable[OF assms(1) a(1)]) simp
  then have "list_all (usable env) (fst acc')"
    using a(3) migration_usable[OF assms(1)] add_source_usable[of _ acc acc' env] by (auto split: option.splits)
  moreover have "es = dedupe env [] (fst acc')" "es \<noteq> []" "length es \<le> max_entries"
    using a(2) by (auto simp: settle_import_def Let_def split: if_splits)
  ultimately show ?thesis using dedupe_subset[of env "[]" "fst acc'"] dedupe_distinct[of env "[]" "fst acc'"]
    by (auto simp: list_all_iff)
qed

definition sample_import_env :: import_env where
  "sample_import_env = \<lparr>ie_uri = (\<lambda>t. Some \<lparr>ur_scheme = ''otpauth'', ur_host = Some ''totp'', ur_path = ''/x'', ur_pairs = [(''secret'', t)]\<rparr>),
     ie_b64_std = (\<lambda>s. Some (bytes_of s)), ie_b64_url = (\<lambda>_. None), ie_b32_encode = map (\<lambda>b. char_of (unat b)),
     ie_crypto = tag_crypto, ie_lossy = map (\<lambda>b. char_of (unat b)), ie_lower = ascii_lower\<rparr>"

lemma byte_back: "of_nat (of_char (char_of (unat (b :: 8 word)) :: char)) = b"
proof -
  have "unat b < 2 ^ LENGTH(8)" by (rule unsigned_less)
  then show ?thesis by simp
qed

lemma bytes_back: "bytes_of (map (\<lambda>b. char_of (unat (b :: 8 word))) bs) = bs"
  by (simp add: bytes_of_def comp_def byte_back del: of_char_of)

lemma sample_base32_ok: "base32_ok sample_import_env"
  by (simp add: base32_ok_def sample_import_env_def tag_crypto_def bytes_back)


lemma printable_not_ws: "printable c \<Longrightarrow> [c] \<notin> set ws_seqs"
  using ws_not_printable by fastforce

lemma sample_chars: "utf8_chars ''A'' = [''A'']"
  by (subst utf8_chars.simps) (simp add: first_char_len_def utf8_chars.simps)

lemma sample_secret: "normalize_base32 tag_crypto ''A'' = Some ''A''"
  using printable_not_ws[of "CHR ''A''"]
  by (simp add: normalize_base32_def sample_chars printable_def trim_end_matches_def upper_ascii_def tag_crypto_def)

lemma sample_trim: "trim ''A'' = ''A''"
  by (rule trim_printable) (simp add: printable_def)

lemma sample_letter: "char_of (120 :: nat) = CHR ''x''"
  by code_simp

lemma sample_uri: "parse_otpauth_uri sample_import_env ''A'' =
     Parsed (Some \<lparr>en_secret = ''A'', en_issuer = None, en_label = Some ''x'', en_algorithm = ''SHA1'', en_digits = 6, en_period = 30\<rparr>)"
  by (simp add: parse_otpauth_uri_def totp_of_uri_def sample_import_env_def sample_secret sample_trim pair_value_def uri_algorithm_def
      uri_digits_def uri_period_def issuer_label_def non_empty_def percent_decode_def trim_start_matches_def plain_byte_def
      bytes_of_def unwrap_or_def split_once_def ascii_lower_def ascii_lower_byte_def sample_letter)

lemma sample_import: "parse_payloads sample_import_env [''A''] None =
     Parsed [\<lparr>en_secret = ''A'', en_issuer = None, en_label = Some ''x'', en_algorithm = ''SHA1'', en_digits = 6, en_period = 30\<rparr>]"
  by (simp add: parse_payloads_def add_source_def parse_uri_line_def sample_trim sample_uri settle_import_def max_entries_def non_empty_def
      ascii_lower_def starts_with_def ascii_lower_byte_def)

lemma import_accepts_usable_witness:
  "\<exists>es. parse_payloads sample_import_env [''A''] None = Parsed es \<and> es \<noteq> [] \<and> list_all (usable sample_import_env) es"
  using import_accepts_usable[OF sample_base32_ok sample_import] sample_import by blast

section \<open>Staging\<close>

lemma evict_length: "length (evict m) < max_staged"
  by (induction m rule: evict.induct) (subst evict.simps, auto)

lemma evict_subset: "set (evict m) \<subseteq> set m"
proof (induction m rule: evict.induct)
  case (1 m)
  then show ?case using remove_first_subset[of "\<lambda>s. sg_expires s = Min (set (map sg_expires m))" m]
    by (subst evict.simps) (auto simp: drop_oldest_def)
qed

lemma stage_length: "length (stage_entries now token es m) \<le> max_staged"
proof -
  have "length (filter (\<lambda>s. sg_token s \<noteq> token) (evict (unexpired now m))) \<le> length (evict (unexpired now m))" by simp
  then show ?thesis using evict_length[of "unexpired now m"] by (simp add: stage_entries_def del: length_filter_le)
qed

text \<open>One call of the staging area: its time and the entries it is given.\<close>

interpretation stage: bounded_store "\<lambda>m. m" "\<lambda>(now, token, es). stage_entries now token es" max_staged
    "\<lambda>(now, token, es) s. s = \<lparr>sg_token = token, sg_entries = es, sg_expires = now + stage_ttl\<rparr>"
proof
  show "length ((case x of (now, token, es) \<Rightarrow> stage_entries now token es) s) \<le> max_staged" if "length s \<le> max_staged" for s x
    using stage_length by (simp split: prod.split)
  show "e \<in> set s \<or> (case x of (now, token, es) \<Rightarrow> \<lambda>s. s = \<lparr>sg_token = token, sg_entries = es, sg_expires = now + stage_ttl\<rparr>) e"
    if "e \<in> set ((case x of (now, token, es) \<Rightarrow> stage_entries now token es) s)" for e s x
    using that by (auto simp: stage_entries_def unexpired_def split: prod.splits dest!: subsetD[OF evict_subset])
qed

datatype stage_op = Stage nat string "import_entry list" | Load nat string | Burn string

fun stage_step :: "stage_op \<Rightarrow> staged list \<Rightarrow> staged list" where
  "stage_step (Stage now token es) m = stage_entries now token es m"
| "stage_step (Load now token) m = snd (load_staged now token m)"
| "stage_step (Burn token) m = consume_staged token m"

lemma stage_run_length: "length (fold stage_step ops []) \<le> max_staged"
proof (induction ops rule: rev_induct)
  case (snoc op ops)
  have shorter: "length (filter P xs) \<le> length xs" for P and xs :: "staged list" by simp
  show ?case using snoc stage_length order_trans[OF shorter snoc]
    by (cases op) (simp_all add: load_staged_def consume_staged_def unexpired_def)
qed simp

lemma stage_run_traced:
  "s \<in> set (fold stage_step ops []) \<Longrightarrow>
     \<exists>pre post t. ops = pre @ Stage t (sg_token s) (sg_entries s) # post \<and> Burn (sg_token s) \<notin> set post \<and> sg_expires s = t + stage_ttl"
proof (induction ops rule: rev_induct)
  case (snoc op ops)
  show ?case
  proof (cases "s \<in> set (fold stage_step ops []) \<and> op \<noteq> Burn (sg_token s)")
    case True
    then obtain pre post t where "ops = pre @ Stage t (sg_token s) (sg_entries s) # post" "Burn (sg_token s) \<notin> set post" "sg_expires s = t + stage_ttl"
      using snoc.IH by blast
    then show ?thesis using True by (intro exI[of _ pre] exI[of _ "post @ [op]"] exI[of _ t]) auto
  next
    case False
    then obtain t where "op = Stage t (sg_token s) (sg_entries s)" "sg_expires s = t + stage_ttl"
      using snoc.prems
      by (cases op) (auto simp: stage_entries_def load_staged_def consume_staged_def unexpired_def split: if_splits dest!: subsetD[OF evict_subset])
    then show ?thesis by (intro exI[of _ ops] exI[of _ "[]"] exI[of _ t]) simp
  qed
qed simp

text \<open>
  C32. A staged import is what was staged under its token, less than ten minutes ago and not burned since: however calls
  interleave, a load gives nothing else, and the area never holds more than sixteen imports.
\<close>

theorem staged_import_traced:
  assumes "fst (load_staged now token (fold stage_step ops [])) = Some es"
  shows "length (fold stage_step ops []) \<le> max_staged \<and>
    (\<exists>pre post t. ops = pre @ Stage t token es # post \<and> Burn token \<notin> set post \<and> now < t + stage_ttl)"
proof -
  obtain s where s: "s \<in> set (fold stage_step ops [])" "sg_token s = token" "sg_entries s = es" "now < sg_expires s"
  proof -
    obtain s where f: "List.find (\<lambda>s. sg_token s = token) (unexpired now (fold stage_step ops [])) = Some s" "sg_entries s = es"
      using assms by (auto simp: load_staged_def split: if_splits)
    have "s \<in> set (unexpired now (fold stage_step ops []))" "sg_token s = token"
      using f(1) by (auto simp: find_Some_iff)
    then show thesis using f(2) by (intro that[of s]) (simp_all add: unexpired_def)
  qed
  then show ?thesis using stage_run_traced[OF s(1)] stage_run_length by metis
qed

lemma staged_import_traced_witness:
  "\<exists>pre post t. [Stage 5 ''t'' [], Load 6 ''u''] = pre @ Stage t ''t'' [] # post \<and> Burn ''t'' \<notin> set post \<and> 7 < t + stage_ttl"
proof -
  have loaded: "fst (load_staged 7 ''t'' (fold stage_step [Stage 5 ''t'' [], Load 6 ''u''] [])) = Some []"
    by (simp add: load_staged_def stage_entries_def unexpired_def evict.simps max_staged_def stage_ttl_def secs_def)
  from staged_import_traced[OF loaded] show ?thesis by blast
qed

section \<open>The commit\<close>



















text \<open>A load does not burn the token, and the commit burns it last: two commits under way at once both have the accounts.\<close>

lemma token_loads_again:
  "fst (load_staged now token m) = Some es \<Longrightarrow> fst (load_staged now token (snd (load_staged now token m))) = Some es"
  by (auto simp: load_staged_def unexpired_def split: if_splits)

text \<open>When an insert fails half way the personas made so far stay and the token still holds, so a second try makes them again.\<close>

lemma failed_commit_keeps:
  assumes "lock_guard now (im_lock st) = (Inr (), m)" "load_staged now token (im_staged st) = (Some es, sg)" "xs \<noteq> []"
    and "commit_all env rk es xs \<lparr>cm_taken = taken_names env (im_table st), cm_table = im_table st, cm_created = [], cm_skipped = []\<rparr> = (False, s)"
  shows "import_commit env rk now True token xs st = (Inl ImportStore, st\<lparr>im_lock := m, im_staged := sg, im_table := cm_table s\<rparr>) \<and>
    fst (load_staged now token sg) = Some es"
  using assms token_loads_again[of now token "im_staged st" es] by (simp add: import_commit_def)

end
