(* ===== verification/Hooks.thy ===== *)
theory Hooks
  imports Flow VaultRotate "HOL-Library.Product_Lexorder"
begin

text \<open>
  Webhooks (\<open>src/local/api/v1/hooks.rs\<close>, \<open>src/local/store/webhook_triggers.rs\<close>): the one route without a bearer. A token
  selects a trigger, a signature over the exact body admits the call when the trigger has a secret, the body is mapped
  to inputs, and an automation or a workflow is run.
\<close>

section \<open>Triggers\<close>

record webhook_trigger =
  wt_id :: int
  wt_token :: string
  wt_enabled :: int
  wt_secret :: "string option"
  wt_workflow :: "int option"
  wt_action :: string
  wt_mapping :: "string option"
  wt_wait :: int
  wt_last :: "string option"
  wt_count :: "int option"

definition get_by_token :: "webhook_trigger list \<Rightarrow> string \<Rightarrow> webhook_trigger option" where
  "get_by_token ts token = List.find (\<lambda>t. wt_token t = token) ts"

definition mark_hook :: "bool \<Rightarrow> string \<Rightarrow> int \<Rightarrow> webhook_trigger list \<Rightarrow> webhook_trigger list" where
  "mark_hook ok clock i ts =
     (if ok then map (\<lambda>t. if wt_id t = i then t\<lparr>wt_last := Some clock, wt_count := Some (unwrap_or 0 (wt_count t) + 1)\<rparr> else t) ts else ts)"

text \<open>An automation's row as the ingress looks for it: what it is bound to, its priority, and its id.\<close>

record hook_binding =
  hb_automation :: int
  hb_enabled :: int
  hb_event :: string
  hb_trigger :: "int option"
  hb_priority :: int

definition find_by_webhook_trigger :: "hook_binding list \<Rightarrow> automation list \<Rightarrow> int \<Rightarrow> automation option" where
  "find_by_webhook_trigger bs autos i =
     (case sort_key (\<lambda>b. (- hb_priority b, - hb_automation b))
             (filter (\<lambda>b. hb_enabled b = 1 \<and> hb_event b = ''webhook_received'' \<and> hb_trigger b = Some i) bs) of
        [] \<Rightarrow> None
      | b # _ \<Rightarrow> List.find (\<lambda>a. au_id a = hb_automation b) autos)"

section \<open>The signature\<close>

definition secret_aad :: "int \<Rightarrow> string" where
  "secret_aad i = ''webhook_triggers|secret_encrypted|'' @ show_int i"

fun decode_pairs :: "string \<Rightarrow> bytes option" where
  "decode_pairs (a # b # r) =
     (case (hex_value a, hex_value b) of
        (Some x, Some y) \<Rightarrow> map_option ((#) (of_nat (x * 16 + y))) (decode_pairs r)
      | _ \<Rightarrow> None)"
| "decode_pairs r = (if r = [] then Some [] else None)"

definition decode_hex :: "string \<Rightarrow> bytes option" where
  "decode_hex s = (if s = [] \<or> odd (length s) then None else decode_pairs s)"

definition bytes_eq :: "bytes \<Rightarrow> bytes \<Rightarrow> bool" where
  "bytes_eq a b \<longleftrightarrow> length a = length b \<and> fold (\<lambda>(x, y) d. or d (xor x y)) (zip a b) 0 = 0"

definition presented_mac :: "string option \<Rightarrow> bytes option" where
  "presented_mac header = Option.bind header (\<lambda>h. decode_hex (unwrap_or (trim h) (strip_prefix ''sha256='' (trim h))))"

definition verify_hook_signature :: "crypto \<Rightarrow> bytes \<Rightarrow> webhook_trigger \<Rightarrow> string option \<Rightarrow> string \<Rightarrow> bool" where
  "verify_hook_signature c rk t header body =
     (case wt_secret t of
        None \<Rightarrow> True
      | Some blob \<Rightarrow>
          if blob = [] then True
          else (case open_field c rk blob (secret_aad (wt_id t)) of
                  Inl _ \<Rightarrow> False
                | Inr secret \<Rightarrow>
                    (case presented_mac header of
                       None \<Rightarrow> False
                     | Some mac \<Rightarrow> bytes_eq mac (hmac c ''SHA256'' secret (bytes_of body)))))"

section \<open>Inputs\<close>

definition mapped_inputs :: "(string \<times> json) list \<Rightarrow> json \<Rightarrow> (string \<times> json) list" where
  "mapped_inputs m payload =
     fold (\<lambda>(name, source) acc. case Option.bind (as_str source) (\<lambda>p. lookup_segs payload (split_byte (CHR ''.'') p)) of
             Some v \<Rightarrow> map_insert name v acc
           | None \<Rightarrow> acc) m []"

definition map_payload :: "(string \<Rightarrow> json option) \<Rightarrow> string option \<Rightarrow> json \<Rightarrow> json" where
  "map_payload parse mapping payload =
     (case Option.bind (Option.bind mapping (\<lambda>s. if trim s = [] then None else parse s)) as_object of
        Some m \<Rightarrow> JObj (mapped_inputs m payload)
      | None \<Rightarrow> (case payload of JObj _ \<Rightarrow> payload | v \<Rightarrow> JObj [(''payload'', v)]))"

section \<open>The ingress\<close>

text \<open>What one call meets: the parsers, the vault, the clock, and which statements succeed.\<close>

record hook_env =
  he_json :: "string \<Rightarrow> json option"
  he_time :: "string \<Rightarrow> int option"
  he_text :: text_env
  he_crypto :: crypto
  he_root :: bytes
  he_now :: int
  he_clock :: string
  he_db :: db_env
  he_found :: bool
  he_marked :: bool

record 'w hooks =
  hk_triggers :: "webhook_trigger list"
  hk_bound :: "hook_binding list"
  hk_flow :: flow_db
  hk_world :: 'w

datatype hook_error = HookNotFound | HookUnauthorized | HookBadRequest string | HookFailed | HookPanic

datatype hook_reply = FlowAccepted "execution option" bool | RunAccepted run_result bool

definition bound_flow :: "hook_env \<Rightarrow> webhook_trigger \<Rightarrow> 'w hooks \<Rightarrow> automation option" where
  "bound_flow env t st =
     (if \<not> he_found env then None
      else Option.bind (find_by_webhook_trigger (hk_bound st) (automations (hk_flow st)) (wt_id t))
             (\<lambda>a. if has_executable_tree (he_json env) (au_blocks a) then Some a else None))"

definition hook_trigger :: "json \<Rightarrow> json \<Rightarrow> flow_trigger" where
  "hook_trigger inputs payload = \<lparr>tr_event = ''webhook_received'', change_id = None, tr_base_inputs = inputs,
     tr_context = JObj [(''event'', JStr ''webhook_received''), (''payload'', payload)], tr_source = Webhook, tr_lane = Background\<rparr>"

definition marked :: "hook_env \<Rightarrow> webhook_trigger \<Rightarrow> 'w hooks \<Rightarrow> 'w hooks" where
  "marked env t st = st\<lparr>hk_triggers := mark_hook (he_marked env) (he_clock env) (wt_id t) (hk_triggers st)\<rparr>"

definition run_flow ::
    "nat \<Rightarrow> hook_env \<Rightarrow> 'w services \<Rightarrow> webhook_trigger \<Rightarrow> automation \<Rightarrow> json \<Rightarrow> json \<Rightarrow> 'w hooks \<Rightarrow> ((hook_error + hook_reply) \<times> 'w hooks) option" where
  "run_flow n env sv t a inputs payload st =
     map_option (\<lambda>(out, db, w).
         let st = st\<lparr>hk_flow := db, hk_world := w\<rparr>
         in case out of
              FlowErr \<Rightarrow> (Inl HookFailed, st)
            | FlowPanic \<Rightarrow> (Inl HookPanic, st)
            | FlowSkipped \<Rightarrow> (Inr (FlowAccepted None (wt_wait t \<noteq> 0)), marked env t st)
            | FlowDone row \<Rightarrow> (Inr (FlowAccepted row (wt_wait t \<noteq> 0)), marked env t st))
       (run_automation n (he_text env) sv (he_json env) (he_time env) (he_now env) (he_db env) a (hook_trigger inputs payload)
          (hk_flow st, hk_world st))"

definition hook_request :: "int \<Rightarrow> json \<Rightarrow> run_request" where
  "hook_request i inputs = \<lparr>req_workflow_id = i, req_inputs = inputs, req_source = Webhook, req_lane = Background, req_dry_run = False,
     req_persona_id = None, allow_local_secret_refs = True\<rparr>"

definition run_single :: "hook_env \<Rightarrow> 'w services \<Rightarrow> webhook_trigger \<Rightarrow> json \<Rightarrow> 'w hooks \<Rightarrow> (hook_error + hook_reply) \<times> 'w hooks" where
  "run_single env sv t inputs st =
     (case wt_workflow t of
        None \<Rightarrow> (Inl (HookBadRequest ''webhook trigger has no linked workflow''), st)
      | Some i \<Rightarrow>
          (case engine_run sv (hook_request i inputs) (hk_world st) of
             (Inl _, w) \<Rightarrow> (Inl HookFailed, st\<lparr>hk_world := w\<rparr>)
           | (Inr r, w) \<Rightarrow> (Inr (RunAccepted r (wt_wait t \<noteq> 0)), marked env t (st\<lparr>hk_world := w\<rparr>))))"

definition hook_payload :: "hook_env \<Rightarrow> string \<Rightarrow> json option" where
  "hook_payload env body = (if body = [] then Some (JObj []) else he_json env body)"

text \<open>\<open>None\<close> is a flow still running when its fuel is spent.\<close>

definition ingress ::
    "nat \<Rightarrow> hook_env \<Rightarrow> 'w services \<Rightarrow> string \<Rightarrow> string option \<Rightarrow> string \<Rightarrow> 'w hooks \<Rightarrow> ((hook_error + hook_reply) \<times> 'w hooks) option" where
  "ingress n env sv token header body st =
     (case Option.bind (get_by_token (hk_triggers st) token) (\<lambda>t. if wt_enabled t \<noteq> 0 then Some t else None) of
        None \<Rightarrow> Some (Inl HookNotFound, st)
      | Some t \<Rightarrow>
          if \<not> verify_hook_signature (he_crypto env) (he_root env) t header body then Some (Inl HookUnauthorized, st)
          else if wt_action t \<noteq> ''run_workflow''
            then Some (Inl (HookBadRequest (''webhook action '' @ [CHR 0x27] @ wt_action t @ [CHR 0x27] @ '' is not supported by the local ingress'')), st)
          else (case hook_payload env body of
                  None \<Rightarrow> Some (Inl (HookBadRequest ''webhook body is not valid JSON''), st)
                | Some payload \<Rightarrow>
                    (let inputs = map_payload (he_json env) (wt_mapping t) payload
                     in case bound_flow env t st of
                          Some a \<Rightarrow> run_flow n env sv t a inputs payload st
                        | None \<Rightarrow> Some (run_single env sv t inputs st))))"

section \<open>Who is let in\<close>

lemma same_bytes: "xor a b = 0 \<longleftrightarrow> a = (b :: 8 word)"
  by (metis bit.xor_self xor.right_neutral xor.assoc)

lemma xor_fold_zero: "fold (\<lambda>(x, y) d. or d (xor x y)) ps d = 0 \<longleftrightarrow> d = (0 :: 8 word) \<and> (\<forall>(x, y) \<in> set ps. x = y)"
proof (induction ps arbitrary: d)
  case (Cons p ps)
  then show ?case by (cases p) (auto simp: or_eq_0_iff same_bytes)
qed simp

lemma bytes_eq_iff: "bytes_eq a b \<longleftrightarrow> a = b"
  by (auto simp: bytes_eq_def xor_fold_zero list_eq_iff_zip_eq)

text \<open>The hexadecimal form of a digest, as a caller writes it.\<close>

definition hex_char :: "nat \<Rightarrow> char" where
  "hex_char n = (if n < 10 then char_of (48 + n) else char_of (87 + n))"

definition hex_text :: "bytes \<Rightarrow> string" where
  "hex_text bs = concat (map (\<lambda>b. [hex_char (unat b div 16), hex_char (unat b mod 16)]) bs)"

lemma hex_char_value: "n < 16 \<Longrightarrow> hex_value (hex_char n) = Some n"
  by (auto simp: hex_char_def hex_value_def Let_def)

lemma decode_hex_pairs: "decode_pairs (hex_text bs) = Some bs"
proof (induction bs)
  case (Cons b bs)
  have "unat b < 2 ^ LENGTH(8)" by (rule unsigned_less)
  then have "unat b div 16 < 16" "unat b div 16 * 16 + unat b mod 16 = unat b" by simp_all
  moreover have "of_nat (unat b) = b" by simp
  ultimately have "of_nat (unat b div 16 * 16 + unat b mod 16) = b" "hex_value (hex_char (unat b div 16)) = Some (unat b div 16)"
    "hex_value (hex_char (unat b mod 16)) = Some (unat b mod 16)" by (simp_all only: hex_char_value)
  then show ?case using Cons.IH by (simp add: hex_text_def)
qed (simp add: hex_text_def)

lemma hex_text_length: "length (hex_text bs) = 2 * length bs"
  by (induction bs) (simp_all add: hex_text_def)

lemma decode_hex_text: "bs \<noteq> [] \<Longrightarrow> decode_hex (hex_text bs) = Some bs"
  using hex_text_length[of bs] decode_hex_pairs[of bs] by (auto simp: decode_hex_def)

lemma hex_printable: "list_all printable (hex_text bs)"
proof (induction bs)
  case (Cons b bs)
  have "unat b < 2 ^ LENGTH(8)" by (rule unsigned_less)
  moreover have "n < 16 \<Longrightarrow> printable (hex_char n)" for n by (auto simp: hex_char_def printable_def)
  ultimately show ?case using Cons.IH by (simp add: hex_text_def)
qed (simp add: hex_text_def)

lemma presented_hex:
  assumes "mac \<noteq> []"
  shows "presented_mac (Some (''sha256='' @ hex_text mac)) = Some mac"
proof -
  have "list_all printable (''sha256='' @ hex_text mac)" using hex_printable by (simp add: printable_def)
  then have "trim (''sha256='' @ hex_text mac) = ''sha256='' @ hex_text mac" by (rule trim_printable)
  moreover have "strip_prefix ''sha256='' (''sha256='' @ hex_text mac) = Some (hex_text mac)" by (simp only: strip_prefix_Some)
  ultimately show ?thesis using decode_hex_text[OF assms] by (simp add: presented_mac_def)
qed

definition admitted :: "hook_env \<Rightarrow> webhook_trigger list \<Rightarrow> string \<Rightarrow> string option \<Rightarrow> string \<Rightarrow> webhook_trigger \<Rightarrow> bool" where
  "admitted env ts token header body t \<longleftrightarrow> t \<in> set ts \<and> wt_token t = token \<and> wt_enabled t \<noteq> 0 \<and> wt_action t = ''run_workflow'' \<and>
     (wt_secret t = None \<or> wt_secret t = Some [] \<or>
      (\<exists>blob secret. wt_secret t = Some blob \<and> open_field (he_crypto env) (he_root env) blob (secret_aad (wt_id t)) = Inr secret \<and>
         presented_mac header = Some (hmac (he_crypto env) ''SHA256'' secret (bytes_of body))))"

lemma verify_admits:
  assumes "verify_hook_signature (he_crypto env) (he_root env) t header body" "get_by_token ts token = Some t" "wt_enabled t \<noteq> 0" "wt_action t = ''run_workflow''"
  shows "admitted env ts token header body t"
  using assms by (auto simp: admitted_def verify_hook_signature_def get_by_token_def find_Some_iff bytes_eq_iff split: option.splits if_splits sum.splits)

text \<open>
  C28. Whatever a webhook call does, it was let in: when it runs anything, writes anything or is answered with a result,
  its token is that of an enabled trigger for workflows, and when the trigger has a secret, the header carries the
  digest of exactly the body received under the secret sealed for that very row. Every other call is refused and
  leaves the triggers, the automations and the world as they were.
\<close>

theorem hook_effects_admitted:
  assumes "ingress n env sv token header body st = Some (r, st')" "st' \<noteq> st \<or> (\<exists>reply. r = Inr reply)"
  shows "\<exists>t. admitted env (hk_triggers st) token header body t"
proof -
  obtain t where t: "get_by_token (hk_triggers st) token = Some t" "wt_enabled t \<noteq> 0" "verify_hook_signature (he_crypto env) (he_root env) t header body"
      "wt_action t = ''run_workflow''"
    using assms by (auto simp: ingress_def split: option.splits if_splits Option.bind_splits)
  then show ?thesis using verify_admits[OF t(3,1,2,4)] by blast
qed

lemma signed_hook_verified:
  assumes "wt_secret t = Some blob" "open_field c rk blob (secret_aad (wt_id t)) = Inr secret"
    and "hmac c ''SHA256'' secret (bytes_of body) \<noteq> []"
  shows "verify_hook_signature c rk t (Some (''sha256='' @ hex_text (hmac c ''SHA256'' secret (bytes_of body)))) body"
  using assms by (simp add: verify_hook_signature_def presented_hex bytes_eq_iff del: append.simps)

lemma ingress_ends:
  assumes "\<And>t a. bound_flow env t st = Some a \<Longrightarrow>
      distinct (map fb_id (parse_blocks (he_json env) (au_blocks a))) \<and> length (parse_blocks (he_json env) (au_blocks a)) \<le> n"
  shows "ingress n env sv token header body st \<noteq> None"
proof -
  have "run_flow n env sv t a inputs payload st \<noteq> None" if "bound_flow env t st = Some a" for t a inputs payload
    using run_automation_ends[of "he_json env" a n] assms[OF that] by (simp add: run_flow_def)
  then show ?thesis by (auto simp: ingress_def Let_def split: option.split)
qed

section \<open>What gets past the guardrails\<close>

text \<open>When the lookup of the bound automation fails, its error is dropped and the trigger's workflow runs on its own: no
  condition, branch or guardrail of the automation is asked.\<close>

lemma failed_lookup_runs_bare:
  assumes "\<not> he_found env" "get_by_token (hk_triggers st) token = Some t" "wt_enabled t \<noteq> 0" "wt_action t = ''run_workflow''"
    and "verify_hook_signature (he_crypto env) (he_root env) t header body" "hook_payload env body = Some payload"
  shows "ingress n env sv token header body st = Some (run_single env sv t (map_payload (he_json env) (wt_mapping t) payload) st)"
  using assms by (simp add: ingress_def bound_flow_def)

section \<open>Example\<close>

definition sample_hook :: webhook_trigger where
  "sample_hook = \<lparr>wt_id = 1, wt_token = ''tok'', wt_enabled = 1, wt_secret = None, wt_workflow = Some 5, wt_action = ''run_workflow'',
     wt_mapping = None, wt_wait = 0, wt_last = None, wt_count = None\<rparr>"

definition sample_hook_env :: hook_env where
  "sample_hook_env = \<lparr>he_json = (\<lambda>_. None), he_time = (\<lambda>_. None), he_text = bare_env, he_crypto = tag_crypto, he_root = [], he_now = 0,
     he_clock = ''now'', he_db = demo_db, he_found = True, he_marked = True\<rparr>"

definition sample_hooks :: "nat hooks" where
  "sample_hooks = \<lparr>hk_triggers = [sample_hook], hk_bound = [], hk_flow = \<lparr>automations = [], executions = []\<rparr>, hk_world = 0\<rparr>"

definition counting_services :: "nat services" where
  "counting_services = \<lparr>
     engine_run = (\<lambda>req w. (Inr \<lparr>res_run_id = req_workflow_id req, res_status = Success, res_success = True, res_error = None,
       extracted_data = JNull, duration_ms = 0\<rparr>, w + 1)),
     notification_action = (\<lambda>b sc w. (JNull, w)), export_action = (\<lambda>b sc w. ((JNull, sc), w)), send_file_action = (\<lambda>b sc w. (JNull, w)),
     streaming_action = (\<lambda>b sc w. ((JNull, sc), w)), ai_action = (\<lambda>b sc w. ((JNull, sc), w))\<rparr>"

lemma sample_call: "\<exists>r st'. ingress 0 sample_hook_env counting_services ''tok'' None [] sample_hooks = Some (Inr r, st') \<and> hk_world st' = 1"
  by (simp add: ingress_def get_by_token_def sample_hooks_def sample_hook_def verify_hook_signature_def hook_payload_def bound_flow_def
      find_by_webhook_trigger_def run_single_def counting_services_def marked_def map_payload_def)

lemma hook_effects_admitted_witness:
  "\<exists>r st'. ingress 0 sample_hook_env counting_services ''tok'' None [] sample_hooks = Some (r, st') \<and> hk_world st' = 1 \<and>
     (\<exists>t. admitted sample_hook_env (hk_triggers sample_hooks) ''tok'' None [] t)"
proof -
  obtain r st' where call: "ingress 0 sample_hook_env counting_services ''tok'' None [] sample_hooks = Some (Inr r, st')" "hk_world st' = 1"
    using sample_call by blast
  then have "\<exists>t. admitted sample_hook_env (hk_triggers sample_hooks) ''tok'' None [] t"
    by (intro hook_effects_admitted[OF call(1)]) blast
  then show ?thesis using call by blast
qed

end
