(* ===== verification/Resolve.thy ===== *)
theory Resolve
  imports VaultRotate "HOL-Library.List_Lexorder" "HOL-Library.Char_ord"
begin

text \<open>
  Placeholders of a recipe (\<open>src/util/value_resolver.rs\<close>, \<open>src/local/engine/resolve.rs\<close>): the passes that fill them in,
  and the maps a run fills them from, the secret channel and the other. Regular expressions are written out as the
  scans they denote; text from JSON is a parameter.
\<close>

section \<open>The passes\<close>

text \<open>\<open>marker_at tag s\<close>: the marker \<open>{{tag key}}\<close> at the start of \<open>s\<close>, with its key and what follows it. A key is any
  text without a closing brace.\<close>

definition marker_at :: "string \<Rightarrow> string \<Rightarrow> (string \<times> string) option" where
  "marker_at tag s = Option.bind (strip_prefix (''{{'' @ tag) s) (\<lambda>r.
     let key = takeWhile (\<lambda>c. c \<noteq> CHR ''}'') r
     in if key = [] then None else map_option (\<lambda>rest. (key, rest)) (strip_prefix ''}}'' (drop (length key) r)))"

lemma marker_at_text: "marker_at tag s = Some (key, rest) \<Longrightarrow> s = ''{{'' @ tag @ key @ ''}}'' @ rest \<and> key \<noteq> [] \<and> CHR ''}'' \<notin> set key"
proof -
  assume m: "marker_at tag s = Some (key, rest)"
  then obtain r where r: "strip_prefix (''{{'' @ tag) s = Some r" "key = takeWhile (\<lambda>c. c \<noteq> CHR ''}'') r" "key \<noteq> []"
      "strip_prefix ''}}'' (drop (length key) r) = Some rest"
    by (auto simp: marker_at_def Let_def split: Option.bind_splits if_splits)
  have "s = (''{{'' @ tag) @ r" "drop (length key) r = ''}}'' @ rest"
    using r(1,4) by (simp_all add: strip_prefix_Some)
  moreover have "r = key @ drop (length key) r" using r(2) by (metis append_take_drop_id takeWhile_eq_take)
  moreover have "CHR ''}'' \<notin> set key" using r(2) by (auto dest: set_takeWhileD)
  ultimately show ?thesis using r(3) by (metis append.assoc)
qed

lemma marker_at_shorter: "marker_at tag s = Some (key, rest) \<Longrightarrow> length rest < length s"
  using marker_at_text by fastforce

text \<open>A pass replaces the markers it has a value for, left to right, and leaves the others as they are. What it puts in is
  not looked at again.\<close>

function replace_markers :: "string \<Rightarrow> (string \<Rightarrow> string option) \<Rightarrow> string \<Rightarrow> string" where
  "replace_markers tag f s =
     (case s of
        [] \<Rightarrow> []
      | c # cs \<Rightarrow>
          (case marker_at tag s of
             Some (key, rest) \<Rightarrow> (case f key of Some v \<Rightarrow> v | None \<Rightarrow> ''{{'' @ tag @ key @ ''}}'') @ replace_markers tag f rest
           | None \<Rightarrow> c # replace_markers tag f cs))"
  by pat_completeness auto
termination
  by (relation "measure (\<lambda>(tag, f, s). length s)") (auto dest: marker_at_shorter)

declare replace_markers.simps [simp del]

definition extracted_to_string :: "(json \<Rightarrow> string) \<Rightarrow> json \<Rightarrow> string option" where
  "extracted_to_string show v =
     (case v of
        JNull \<Rightarrow> None
      | JStr s \<Rightarrow> Some s
      | JBool b \<Rightarrow> Some (if b then ''true'' else ''false'')
      | _ \<Rightarrow> Some (show v))"

definition pass :: "string \<Rightarrow> (string \<Rightarrow> string option) option \<Rightarrow> string \<Rightarrow> string" where
  "pass tag m s = (case m of None \<Rightarrow> s | Some f \<Rightarrow> replace_markers tag f s)"

definition resolve_value_full ::
    "(json \<Rightarrow> string) \<Rightarrow> string \<Rightarrow> (string \<rightharpoonup> string) \<Rightarrow> (string \<rightharpoonup> string) option \<Rightarrow> (string \<rightharpoonup> string) option \<Rightarrow> (string \<rightharpoonup> json) option \<Rightarrow> string" where
  "resolve_value_full show s creds form files extracted =
     pass [] form
       (replace_markers ''secret:'' creds
         (pass ''extracted:'' (map_option (\<lambda>ex k. Option.bind (ex (trim k)) (extracted_to_string show)) extracted)
           (pass ''file:'' (map_option (\<lambda>fm k. fm (trim k)) files) s)))"

definition resolve_value_with_files ::
    "(json \<Rightarrow> string) \<Rightarrow> string \<Rightarrow> (string \<rightharpoonup> string) \<Rightarrow> (string \<rightharpoonup> string) option \<Rightarrow> (string \<rightharpoonup> string) option \<Rightarrow> string" where
  "resolve_value_with_files show s creds form files = resolve_value_full show s creds form files None"

definition resolve_value :: "(json \<Rightarrow> string) \<Rightarrow> string \<Rightarrow> (string \<rightharpoonup> string) \<Rightarrow> (string \<rightharpoonup> string) option \<Rightarrow> string" where
  "resolve_value show s creds form = resolve_value_with_files show s creds form None"

section \<open>The maps of a run\<close>

definition key_char :: "char \<Rightarrow> bool" where
  "key_char c \<longleftrightarrow> is_digit c \<or> 65 \<le> (of_char c :: nat) \<and> (of_char c :: nat) \<le> 90 \<or> 97 \<le> (of_char c :: nat) \<and> (of_char c :: nat) \<le> 122 \<or>
     c \<in> {CHR ''_'', CHR ''.'', CHR ''-''}"

text \<open>\<open>{{ tag:key }}\<close> with blanks around: the leading blanks, the key, the blanks after it and the rest.\<close>

definition ref_at :: "string \<Rightarrow> string \<Rightarrow> (string \<times> string \<times> string \<times> string) option" where
  "ref_at tag s = Option.bind (strip_prefix ''{{'' s) (\<lambda>r0.
     let r1 = trim_start r0
     in Option.bind (strip_prefix tag r1) (\<lambda>r2.
       let key = takeWhile key_char r2; r3 = drop (length key) r2; r4 = trim_start r3
       in if key = [] then None
          else map_option (\<lambda>rest. (take (length r0 - length r1) r0, key, take (length r3 - length r4) r3, rest)) (strip_prefix ''}}'' r4)))"

lemma strip_prefix_length: "strip_prefix p s = Some r \<Longrightarrow> length s = length p + length r"
  by (simp add: strip_prefix_Some)

lemma trim_with_length: "length (trim_with ps s) \<le> length s"
proof (induction ps s rule: trim_with.induct)
  case (1 ps s)
  then show ?case by (subst trim_with.simps) (auto split: option.split)
qed

lemma ref_at_shorter: "ref_at tag s = Some (a, key, b, rest) \<Longrightarrow> length rest < length s"
proof -
  assume r: "ref_at tag s = Some (a, key, b, rest)"
  then obtain r0 r2 where "strip_prefix ''{{'' s = Some r0" "strip_prefix tag (trim_start r0) = Some r2"
      "strip_prefix ''}}'' (trim_start (drop (length key) r2)) = Some rest"
    by (auto simp: ref_at_def Let_def split: Option.bind_splits if_splits)
  note l = this[THEN strip_prefix_length]
  show ?thesis using l trim_with_length[of ws_seqs r0] trim_with_length[of ws_seqs "drop (length key) r2"]
    by (simp add: trim_start_def)
qed

function rename_vault :: "string \<Rightarrow> string" where
  "rename_vault s =
     (case s of
        [] \<Rightarrow> []
      | c # cs \<Rightarrow>
          (case ref_at ''vault:'' s of
             Some (a, key, b, rest) \<Rightarrow> ''{{'' @ a @ ''secret:'' @ key @ b @ ''}}'' @ rename_vault rest
           | None \<Rightarrow> c # rename_vault cs))"
  by pat_completeness auto
termination
  by (relation "measure length") (auto dest: ref_at_shorter)

declare rename_vault.simps [simp del]

definition normalize_vault_aliases :: "string \<Rightarrow> string" where
  "normalize_vault_aliases s = (if contains_str s ''vault:'' then rename_vault s else s)"

definition strip_file_markers :: "string \<Rightarrow> string" where
  "strip_file_markers s = (if contains_str s ''file:'' then replace_markers ''file:'' (\<lambda>_. Some []) s else s)"

function secret_refs :: "string \<Rightarrow> string list" where
  "secret_refs s =
     (case s of
        [] \<Rightarrow> []
      | c # cs \<Rightarrow> (case ref_at ''secret:'' s of Some (a, key, b, rest) \<Rightarrow> key # secret_refs rest | None \<Rightarrow> secret_refs cs))"
  by pat_completeness auto
termination
  by (relation "measure length") (auto dest: ref_at_shorter)

declare secret_refs.simps [simp del]

definition scan_secret_keys :: "string \<Rightarrow> string list" where
  "scan_secret_keys s = sort (remdups (secret_refs s))"

text \<open>The parsers of JSON text and bytes, the check of UTF-8, the vault, and the table of secrets with the keys it can be asked for.\<close>

record resolve_env =
  rv_json :: "string \<Rightarrow> json option"
  rv_bytes :: "bytes \<Rightarrow> json option"
  rv_utf8 :: "bytes \<Rightarrow> string option"
  rv_crypto :: crypto
  rv_root :: bytes
  rv_secrets :: "secret_row list"
  rv_readable :: "string \<Rightarrow> bool"

record workflow_recipe =
  wr_id :: int
  wr_steps :: string
  wr_form :: "string option"
  wr_credentials :: "string option"

record resolved_refs =
  rf_credentials :: "string \<rightharpoonup> string"
  rf_form :: "string \<rightharpoonup> string"
  rf_steps :: string

definition string_pairs :: "(string \<times> json) list \<Rightarrow> (string \<times> string) list" where
  "string_pairs m = List.map_filter (\<lambda>(k, v). map_option (Pair k) (as_str v)) m"

definition stored_form :: "(string \<Rightarrow> json option) \<Rightarrow> string option \<Rightarrow> string \<rightharpoonup> string" where
  "stored_form parse text =
     (case Option.bind (Option.bind text parse) as_object of
        Some m \<Rightarrow> if list_all (\<lambda>(k, v). as_str v \<noteq> None) m then map_of (rev (string_pairs m)) else Map.empty
      | None \<Rightarrow> Map.empty)"

fun overlay_inputs :: "(string \<times> json) list \<Rightarrow> (string \<rightharpoonup> string) \<Rightarrow> string \<rightharpoonup> string" where
  "overlay_inputs [] form = form"
| "overlay_inputs ((name, JStr s) # xs) form = overlay_inputs xs (form(''input.'' @ name \<mapsto> s, name \<mapsto> s))"
| "overlay_inputs ((name, _) # xs) form = overlay_inputs xs form"

definition build_form_data :: "(string \<Rightarrow> json option) \<Rightarrow> workflow_recipe \<Rightarrow> json \<Rightarrow> string \<rightharpoonup> string" where
  "build_form_data parse recipe inputs = overlay_inputs (unwrap_or [] (as_object inputs)) (stored_form parse (wr_form recipe))"

definition credentials_aad :: "int \<Rightarrow> string" where
  "credentials_aad i = ''workflows|credentials_encrypted|'' @ show_int i"

definition decrypt_workflow_credentials :: "resolve_env \<Rightarrow> workflow_recipe \<Rightarrow> string \<rightharpoonup> string" where
  "decrypt_workflow_credentials env recipe =
     (case wr_credentials recipe of
        None \<Rightarrow> Map.empty
      | Some blob \<Rightarrow>
          if blob = [] then Map.empty
          else (case open_field (rv_crypto env) (rv_root env) blob (credentials_aad (wr_id recipe)) of
                  Inl _ \<Rightarrow> Map.empty
                | Inr b \<Rightarrow>
                    (case Option.bind (rv_bytes env b) as_object of
                       None \<Rightarrow> Map.empty
                     | Some m \<Rightarrow> map_of (rev (string_pairs (filter (\<lambda>(k, v). k \<noteq> ''__proxy__'') m))))))"

definition get_by_key :: "secret_row list \<Rightarrow> string \<Rightarrow> secret_row option" where
  "get_by_key rows k = List.find (\<lambda>r. sr_key r = k) rows"

definition rsplit_once :: "char \<Rightarrow> string \<Rightarrow> (string \<times> string) option" where
  "rsplit_once c s = map_option (\<lambda>i. (take i s, drop (Suc i) s)) (rfind_byte c s)"

text \<open>The rows a key names and the value it gets: the secret of that key, or a text field of the secret before the last
  dot.\<close>

definition flat_value :: "resolve_env \<Rightarrow> string \<Rightarrow> secret_row \<Rightarrow> string option" where
  "flat_value env key row =
     (case open_field (rv_crypto env) (rv_root env) (sr_blob row) (secret_value_aad key) of Inl _ \<Rightarrow> None | Inr b \<Rightarrow> rv_utf8 env b)"

definition field_value :: "resolve_env \<Rightarrow> string \<Rightarrow> string \<Rightarrow> secret_row \<Rightarrow> string option" where
  "field_value env base field row =
     (case open_field (rv_crypto env) (rv_root env) (sr_blob row) (secret_value_aad base) of
        Inl _ \<Rightarrow> None
      | Inr b \<Rightarrow> Option.bind (rv_bytes env b) (get_str field))"

type_synonym channel = "(string \<rightharpoonup> string) \<times> int list"

definition put_secret :: "string \<Rightarrow> secret_row \<Rightarrow> string option \<Rightarrow> channel \<Rightarrow> channel" where
  "put_secret key row v ch = (case v of None \<Rightarrow> ch | Some x \<Rightarrow> ((fst ch)(key \<mapsto> x), snd ch @ [sr_id row]))"

text \<open>\<open>None\<close> when the table cannot be read. The second component lists the secrets marked as used.\<close>

definition resolve_key :: "resolve_env \<Rightarrow> string \<Rightarrow> channel \<Rightarrow> channel option" where
  "resolve_key env key ch =
     (if fst ch key \<noteq> None then Some ch
      else if \<not> rv_readable env key then None
      else case get_by_key (rv_secrets env) key of
          Some row \<Rightarrow> Some (put_secret key row (flat_value env key row) ch)
        | None \<Rightarrow>
            (case rsplit_once (CHR ''.'') key of
               None \<Rightarrow> Some ch
             | Some (base, field) \<Rightarrow>
                 if \<not> rv_readable env base then None
                 else (case get_by_key (rv_secrets env) base of
                         None \<Rightarrow> Some ch
                       | Some row \<Rightarrow> Some (put_secret key row (field_value env base field row) ch))))"

fun resolve_keys :: "resolve_env \<Rightarrow> string list \<Rightarrow> channel \<Rightarrow> channel option" where
  "resolve_keys env [] ch = Some ch"
| "resolve_keys env (k # ks) ch = Option.bind (resolve_key env k ch) (resolve_keys env ks)"

definition resolve_run_refs :: "resolve_env \<Rightarrow> workflow_recipe \<Rightarrow> json \<Rightarrow> bool \<Rightarrow> (resolved_refs \<times> int list) option" where
  "resolve_run_refs env recipe inputs allow_local =
     (let steps = normalize_vault_aliases (wr_steps recipe);
          form = build_form_data (rv_json env) recipe inputs;
          creds = decrypt_workflow_credentials env recipe
      in if \<not> allow_local then Some (\<lparr>rf_credentials = creds, rf_form = form, rf_steps = strip_file_markers steps\<rparr>, [])
         else map_option (\<lambda>ch. (\<lparr>rf_credentials = fst ch, rf_form = form, rf_steps = steps\<rparr>, snd ch))
                (resolve_keys env (scan_secret_keys steps) (creds, [])))"

section \<open>What enters the secret channel\<close>

text \<open>The value a key is documented to have.\<close>

definition secret_value :: "resolve_env \<Rightarrow> string \<Rightarrow> string option" where
  "secret_value env key =
     (case get_by_key (rv_secrets env) key of
        Some row \<Rightarrow> flat_value env key row
      | None \<Rightarrow>
          Option.bind (rsplit_once (CHR ''.'') key) (\<lambda>(base, field).
            Option.bind (get_by_key (rv_secrets env) base) (field_value env base field)))"

lemma resolve_key_value:
  assumes "resolve_key env k ch = Some ch'"
  shows "fst ch' = (\<lambda>q. if q = k \<and> fst ch k = None then secret_value env k else fst ch q)"
  using assms
  by (auto simp: resolve_key_def secret_value_def put_secret_def fun_eq_iff split: if_splits option.splits)

lemma resolve_keys_value:
  "resolve_keys env ks ch = Some ch' \<Longrightarrow>
     fst ch' = (\<lambda>q. case fst ch q of Some v \<Rightarrow> Some v | None \<Rightarrow> if q \<in> set ks then secret_value env q else None)"
proof (induction ks arbitrary: ch)
  case Nil
  then show ?case by (auto simp: fun_eq_iff split: option.split)
next
  case (Cons k ks)
  then obtain ch1 where one: "resolve_key env k ch = Some ch1" "resolve_keys env ks ch1 = Some ch'" by (auto split: Option.bind_splits)
  show ?case using Cons.IH[OF one(2)] resolve_key_value[OF one(1)]
    by (auto simp: fun_eq_iff split: option.splits if_splits)
qed

text \<open>
  C29. The secret channel of a run is exactly what its recipe names: a key has the value the recipe pins under it, and
  otherwise, when the steps refer to it, the secret of that key or the field of the secret before its last dot.
  No other secret is opened into the run. A recipe written in the cloud has only what it pins itself, whatever the
  table of secrets holds, and no secret is marked as used.
\<close>

theorem channel_is_what_is_named:
  assumes "resolve_run_refs env recipe inputs allow_local = Some (refs, used)"
  shows "rf_credentials refs = (\<lambda>k. case decrypt_workflow_credentials env recipe k of
      Some v \<Rightarrow> Some v
    | None \<Rightarrow> if allow_local \<and> k \<in> set (scan_secret_keys (normalize_vault_aliases (wr_steps recipe))) then secret_value env k else None) \<and>
    (allow_local \<or> used = [])"
proof (cases allow_local)
  case True
  then show ?thesis using assms resolve_keys_value by (fastforce simp: resolve_run_refs_def Let_def)
next
  case False
  then show ?thesis using assms by (auto simp: resolve_run_refs_def Let_def fun_eq_iff split: option.split)
qed

text \<open>
  C30. Secrets stay in their channel: the form values and the text of the steps do not depend on any secret. Under
  another vault, another root and another table of secrets the same recipe and inputs give the same two.
\<close>

theorem secrets_stay_in_channel:
  assumes "resolve_run_refs env recipe inputs allow_local = Some (refs, used)" "resolve_run_refs env' recipe inputs allow_local = Some (refs', used')"
    and "rv_json env' = rv_json env"
  shows "rf_form refs' = rf_form refs \<and> rf_steps refs' = rf_steps refs"
  using assms by (auto simp: resolve_run_refs_def Let_def split: if_splits)

section \<open>What a pass does to a text\<close>

lemma marker_here: "key \<noteq> [] \<Longrightarrow> CHR ''}'' \<notin> set key \<Longrightarrow> marker_at tag (''{{'' @ tag @ key @ ''}}'' @ rest) = Some (key, rest)"
proof -
  assume k: "key \<noteq> []" "CHR ''}'' \<notin> set key"
  have pre: "strip_prefix (''{{'' @ tag) (''{{'' @ tag @ key @ ''}}'' @ rest) = Some (key @ ''}}'' @ rest)" by (simp add: strip_prefix_Some)
  have t: "takeWhile (\<lambda>c. c \<noteq> CHR ''}'') (key @ ''}}'' @ rest) = key"
    using k(2) by (subst takeWhile_append2) auto
  have post: "strip_prefix ''}}'' (''}}'' @ rest) = Some rest" by (simp only: strip_prefix_Some)
  show ?thesis using k(1) post by (simp only: marker_at_def pre Option.bind.simps Let_def t if_False) simp
qed

lemma no_marker: "hd s \<noteq> CHR ''{'' \<Longrightarrow> marker_at tag s = None"
  using marker_at_text[of tag s] by (cases "marker_at tag s") fastforce+

lemma replace_nil: "replace_markers tag f [] = []"
  by (simp add: replace_markers.simps)

lemma replace_other: "c \<noteq> CHR ''{'' \<Longrightarrow> replace_markers tag f (c # cs) = c # replace_markers tag f cs"
  by (subst replace_markers.simps) (simp add: no_marker)

lemma replace_plain: "CHR ''{'' \<notin> set a \<Longrightarrow> replace_markers tag f (a @ b) = a @ replace_markers tag f b"
  by (induction a) (auto simp: replace_other)

lemma replace_marker:
  assumes "key \<noteq> []" "CHR ''}'' \<notin> set key"
  shows "replace_markers tag f (''{{'' @ tag @ key @ ''}}'' @ rest) =
    (case f key of Some v \<Rightarrow> v | None \<Rightarrow> ''{{'' @ tag @ key @ ''}}'') @ replace_markers tag f rest"
  by (subst replace_markers.simps) (use marker_here[OF assms, of tag rest] in simp)

lemma replace_none: "replace_markers tag (\<lambda>_. None) s = s"
proof (induction s rule: length_induct)
  case (1 s)
  show ?case
  proof (cases s)
    case (Cons c cs)
    show ?thesis
    proof (cases "marker_at tag s")
      case None
      then show ?thesis using 1 Cons by (subst replace_markers.simps) simp
    next
      case (Some m)
      obtain key rest where m: "m = (key, rest)" by (cases m)
      have s: "s = ''{{'' @ tag @ key @ ''}}'' @ rest" using marker_at_text Some m by blast
      have "replace_markers tag (\<lambda>_. None) rest = rest" using 1 s by simp
      then show ?thesis using Some m s Cons by (subst replace_markers.simps) simp
    qed
  qed (simp add: replace_nil)
qed

lemma replace_rest: "CHR ''{'' \<notin> set b \<Longrightarrow> replace_markers tag f b = b"
  using replace_plain[of b tag f "[]"] by (simp add: replace_nil split: option.split)

lemma other_tag:
  assumes "\<forall>r. key \<noteq> tag @ r" "CHR ''}'' \<notin> set tag" "CHR ''}'' \<notin> set key"
  shows "marker_at tag (''{{'' @ key @ ''}}'' @ b) = None"
proof (rule ccontr)
  assume "marker_at tag (''{{'' @ key @ ''}}'' @ b) \<noteq> None"
  then obtain k rest where m: "marker_at tag (''{{'' @ key @ ''}}'' @ b) = Some (k, rest)" by auto
  have eq: "key @ ''}}'' @ b = (tag @ k) @ ''}}'' @ rest" and k: "CHR ''}'' \<notin> set k" using marker_at_text[OF m] by simp_all
  have cut: "takeWhile (\<lambda>c. c \<noteq> CHR ''}'') (x @ ''}}'' @ y) = x" if "CHR ''}'' \<notin> set x" for x y
    using that by (subst takeWhile_append2) auto
  have "key = tag @ k" using cut[OF assms(3), of b] cut[of "tag @ k" rest] k assms(2) eq by simp
  then show False using assms(1) by simp
qed

lemma other_pass:
  assumes "\<forall>r. key \<noteq> tag @ r" "CHR ''}'' \<notin> set tag" "CHR ''}'' \<notin> set key" "CHR ''{'' \<notin> set key" "key \<noteq> []"
  shows "replace_markers tag f (''{{'' @ key @ ''}}'' @ b) = ''{{'' @ key @ ''}}'' @ replace_markers tag f b"
proof -
  have first: "replace_markers tag f (''{{'' @ key @ ''}}'' @ b) = CHR ''{'' # replace_markers tag f (''{'' @ key @ ''}}'' @ b)"
    using other_tag[OF assms(1-3), of b] by (subst replace_markers.simps) simp
  have none: "marker_at tag (''{'' @ key @ ''}}'' @ b) = None"
  proof (rule ccontr)
    assume "marker_at tag (''{'' @ key @ ''}}'' @ b) \<noteq> None"
    then have "hd (key @ ''}}'' @ b) = CHR ''{''" using marker_at_text[of tag "''{'' @ key @ ''}}'' @ b"] by fastforce
    then show False using assms(4,5) by (cases key) auto
  qed
  have second: "replace_markers tag f (''{'' @ key @ ''}}'' @ b) = CHR ''{'' # replace_markers tag f (key @ ''}}'' @ b)"
    using none by (subst replace_markers.simps) simp
  have "replace_markers tag f ((key @ ''}}'') @ b) = (key @ ''}}'') @ replace_markers tag f b" using assms(4) by (intro replace_plain) simp
  then show ?thesis by (simp add: first[simplified] second[simplified])
qed

text \<open>A recipe text in pieces: text of the author's in which no marker opens, the markers of form values, and the markers
  of secrets the run has.\<close>

datatype piece = Written string | Ask string | Sealed string

fun piece_text :: "piece \<Rightarrow> string" where
  "piece_text (Written a) = a"
| "piece_text (Ask key) = ''{{'' @ key @ ''}}''"
| "piece_text (Sealed key) = ''{{secret:'' @ key @ ''}}''"

fun opens_none :: "string \<Rightarrow> bool" where
  "opens_none [] = True"
| "opens_none [c] = (c \<noteq> CHR ''{'')"
| "opens_none (c # d # cs) = (\<not> (c = CHR ''{'' \<and> d = CHR ''{'') \<and> opens_none (d # cs))"

definition key_ok :: "string \<Rightarrow> bool" where
  "key_ok key \<longleftrightarrow> key \<noteq> [] \<and> set key \<inter> {CHR ''{'', CHR ''}'', CHR '':''} = {}"

fun piece_ok :: "(string \<rightharpoonup> string) \<Rightarrow> piece \<Rightarrow> bool" where
  "piece_ok creds (Written a) = opens_none a"
| "piece_ok creds (Ask key) = key_ok key"
| "piece_ok creds (Sealed key) = (key_ok key \<and> (case creds key of Some v \<Rightarrow> opens_none v | None \<Rightarrow> False))"

fun piece_value :: "(string \<rightharpoonup> string) \<Rightarrow> (string \<rightharpoonup> string) \<Rightarrow> piece \<Rightarrow> string" where
  "piece_value creds form (Written a) = a"
| "piece_value creds form (Ask key) = (case form key of Some v \<Rightarrow> v | None \<Rightarrow> ''{{'' @ key @ ''}}'')"
| "piece_value creds form (Sealed key) = unwrap_or [] (creds key)"

text \<open>The pieces once the secrets are in.\<close>

fun unsealed :: "(string \<rightharpoonup> string) \<Rightarrow> piece \<Rightarrow> piece" where
  "unsealed creds (Sealed key) = Written (unwrap_or [] (creds key))"
| "unsealed creds p = p"

abbreviation recipe_text :: "piece list \<Rightarrow> string" where
  "recipe_text ps \<equiv> concat (map piece_text ps)"

lemma replace_written: "opens_none a \<Longrightarrow> replace_markers tag f (a @ b) = a @ replace_markers tag f b"
proof (induction a rule: opens_none.induct)
  case (3 c d cs)
  have "marker_at tag (c # d # cs @ b) = None"
    using marker_at_text[of tag "c # d # cs @ b"] 3(2) by (cases "marker_at tag (c # d # cs @ b)") auto
  then show ?case using 3 by (subst replace_markers.simps) simp
qed (simp_all add: replace_other)

lemma file_pass:
  assumes "\<forall>p \<in> set ps. piece_ok creds p" "tag \<in> {''file:'', ''extracted:''}"
  shows "replace_markers tag f (recipe_text ps) = recipe_text ps"
  using assms(1)
proof (induction ps)
  case (Cons p ps)
  have form: "\<forall>r. key \<noteq> tag @ r" if "CHR '':'' \<notin> set key" for key using that assms(2) by auto
  have secret: "\<forall>r. ''secret:'' @ key \<noteq> tag @ r" for key using assms(2) by auto
  show ?case
  proof (cases p)
    case (Ask key)
    then show ?thesis using Cons other_pass[of key tag f "recipe_text ps"] form assms(2) by (auto simp: key_ok_def)
  next
    case (Sealed key)
    then show ?thesis using Cons other_pass[of "''secret:'' @ key" tag f "recipe_text ps"] secret assms(2) by (auto simp: key_ok_def)
  qed (use Cons in \<open>simp add: replace_written\<close>)
qed (simp add: replace_nil)

lemma secret_pass:
  "\<forall>p \<in> set ps. piece_ok creds p \<Longrightarrow> replace_markers ''secret:'' creds (recipe_text ps) = recipe_text (map (unsealed creds) ps)"
proof (induction ps)
  case (Cons p ps)
  show ?case
  proof (cases p)
    case (Ask key)
    then have "\<forall>r. key \<noteq> ''secret:'' @ r" using Cons.prems by (auto simp: key_ok_def)
    then show ?thesis using Ask Cons other_pass[of key "''secret:''" creds "recipe_text ps"] by (auto simp: key_ok_def)
  next
    case (Sealed key)
    then show ?thesis using Cons replace_marker[of key "''secret:''" creds "recipe_text ps"]
      by (auto simp: key_ok_def split: option.splits)
  qed (use Cons in \<open>simp add: replace_written\<close>)
qed (simp add: replace_nil)

lemma form_pass:
  "\<forall>p \<in> set ps. piece_ok creds p \<Longrightarrow>
    replace_markers [] form (recipe_text (map (unsealed creds) ps)) = concat (map (piece_value creds form) ps)"
proof (induction ps)
  case (Cons p ps)
  show ?case
  proof (cases p)
    case (Ask key)
    then show ?thesis using Cons replace_marker[of key "[]" form "recipe_text (map (unsealed creds) ps)"]
      by (auto simp: key_ok_def split: option.splits)
  qed (use Cons in \<open>auto simp: replace_written split: option.splits\<close>)
qed (simp add: replace_nil)

text \<open>
  C31. Form values are inert: in a text of the author's own words (in which no marker opens), markers of form values and
  markers of secrets the run has (none of which opens a marker itself), however many and in whatever order, every form
  marker becomes its form value as it is and every secret marker its secret. A form value is not read again, so what a
  caller sends, markers of secrets and files included, reaches the page or the request as text. A form marker with no
  value stays as it was written.
\<close>

theorem form_value_inert:
  assumes "\<forall>p \<in> set ps. piece_ok creds p"
  shows "resolve_value_full show (recipe_text ps) creds (Some form) files extracted = concat (map (piece_value creds form) ps)"
proof -
  have "pass tag m (recipe_text ps) = recipe_text ps" if "tag \<in> {''file:'', ''extracted:''}" for tag m
    using file_pass[OF assms that] by (cases m) (simp_all add: pass_def)
  then have "pass ''file:'' m (recipe_text ps) = recipe_text ps" "pass ''extracted:'' m' (recipe_text ps) = recipe_text ps" for m m'
    by blast+
  then show ?thesis
    by (simp add: resolve_value_full_def secret_pass[OF assms, unfolded map_map] form_pass[OF assms, unfolded map_map] pass_def[of "[]"])
qed

lemma form_value_inert_witness:
  "resolve_value_full (\<lambda>_. []) (recipe_text [Written ''{q:'', Ask ''n'', Written '','', Ask ''m'', Written '','', Sealed ''k'', Written ''}''])
     [''k'' \<mapsto> ''S''] (Some [''n'' \<mapsto> ''{{secret:k}}'', ''m'' \<mapsto> ''2'']) None None = ''{q:{{secret:k}},2,S}''"
  by (subst form_value_inert) (simp_all add: key_ok_def)

section \<open>What the passes let through\<close>

text \<open>A value read off a page is put in before the secrets are, so a page that shows \<open>{{secret:k}}\<close> gets the secret back.\<close>

lemma extracted_value_opens_secret:
  "resolve_value_full show ''{{extracted:x}}'' [''k'' \<mapsto> secret] None None (Some [''x'' \<mapsto> JStr ''{{secret:k}}'']) = secret"
proof -
  have x: "trim ''x'' = ''x''" by (rule trim_printable) (simp add: printable_def)
  have "replace_markers ''extracted:'' f ''{{extracted:x}}'' = (case f ''x'' of Some v \<Rightarrow> v | None \<Rightarrow> ''{{extracted:x}}'')" for f
    using replace_marker[of "''x''" "''extracted:''" f "[]"] by (simp add: replace_nil split: option.split)
  moreover have "replace_markers ''secret:'' f ''{{secret:k}}'' = (case f ''k'' of Some v \<Rightarrow> v | None \<Rightarrow> ''{{secret:k}}'')" for f
    using replace_marker[of "''k''" "''secret:''" f "[]"] by (simp add: replace_nil split: option.split)
  ultimately show ?thesis by (simp add: resolve_value_full_def pass_def x extracted_to_string_def)
qed

text \<open>A secret that contains a marker is changed by the last pass.\<close>

lemma secret_value_expanded:
  "resolve_value_full show ''{{secret:k}}'' [''k'' \<mapsto> ''a{{n}}''] (Some [''n'' \<mapsto> v]) None None = ''a'' @ v"
proof -
  have "replace_markers ''secret:'' f ''{{secret:k}}'' = (case f ''k'' of Some v \<Rightarrow> v | None \<Rightarrow> ''{{secret:k}}'')" for f
    using replace_marker[of "''k''" "''secret:''" f "[]"] by (simp add: replace_nil split: option.split)
  moreover have "replace_markers [] f ''a{{n}}'' = ''a'' @ (case f ''n'' of Some v \<Rightarrow> v | None \<Rightarrow> ''{{n}}'')" for f
    using replace_marker[of "''n''" "[]" f "[]"] by (simp add: replace_nil replace_other split: option.split)
  ultimately show ?thesis by (simp add: resolve_value_full_def pass_def)
qed

text \<open>Stripping looks at the text once, so a marker around a marker leaves a marker: the barrier for recipes written in the
  cloud does not hold.\<close>

lemma nested_file_marker_survives: "strip_file_markers ''{{fi{{file:x}}le:slot}}'' = ''{{file:slot}}''"
proof -
  have far: "marker_at ''file:'' ''{{fi{{file:x}}le:slot}}'' = None" "marker_at ''file:'' ''{fi{{file:x}}le:slot}}'' = None"
    by (simp_all add: marker_at_def strip_prefix_def starts_with_def)
  have near: "replace_markers ''file:'' (\<lambda>_. Some []) ''{{file:x}}le:slot}}'' = ''le:slot}}''"
    using replace_marker[of "''x''" "''file:''" "\<lambda>_. Some []" "''le:slot}}''"] by (simp add: replace_rest)
  have "replace_markers ''file:'' (\<lambda>_. Some []) ''{{fi{{file:x}}le:slot}}'' = ''{{file:slot}}''"
    by (subst replace_markers.simps, simp add: far, subst replace_markers.simps, simp add: far replace_other near)
  moreover have "contains_str ''{{fi{{file:x}}le:slot}}'' ''file:''" by code_simp
  ultimately show ?thesis by (simp add: strip_file_markers_def)
qed

text \<open>The scan allows blanks around a key and the resolver does not, so a marker written with blanks is looked up and never
  filled in.\<close>

lemma blank_marker_scanned: "scan_secret_keys ''{{ secret:k }}'' = [''k'']"
proof -
  have t: "trim_start '' secret:k }}'' = ''secret:k }}''" "trim_start '' }}'' = ''}}''" by code_simp+
  have "ref_at ''secret:'' ''{{ secret:k }}'' = Some ('' '', ''k'', '' '', [])"
    by (simp add: ref_at_def strip_prefix_def starts_with_def t key_char_def is_digit_def Let_def)
  then have "secret_refs ''{{ secret:k }}'' = [''k'']" by (subst secret_refs.simps) (simp add: secret_refs.simps)
  then show ?thesis by (simp add: scan_secret_keys_def)
qed

lemma blank_marker_unresolved: "resolve_value_full show ''{{ secret:k }}'' [''k'' \<mapsto> v] None None None = ''{{ secret:k }}''"
proof -
  have "marker_at ''secret:'' ''{{ secret:k }}'' = None" "marker_at ''secret:'' ''{ secret:k }}'' = None"
    by (simp_all add: marker_at_def strip_prefix_def starts_with_def)
  then have "replace_markers ''secret:'' f ''{{ secret:k }}'' = ''{{ secret:k }}''" for f
    by (subst replace_markers.simps, simp, subst replace_markers.simps, simp add: replace_other replace_nil)
  then show ?thesis by (simp add: resolve_value_full_def pass_def)
qed

section \<open>Examples\<close>

definition sample_recipe :: workflow_recipe where
  "sample_recipe = \<lparr>wr_id = 1, wr_steps = ''{{secret:k}}'', wr_form = None, wr_credentials = None\<rparr>"

definition sample_refs_env :: "secret_row list \<Rightarrow> resolve_env" where
  "sample_refs_env rows = \<lparr>rv_json = (\<lambda>_. None), rv_bytes = (\<lambda>_. None), rv_utf8 = (\<lambda>b. Some (map (\<lambda>x. char_of (unat x)) b)),
     rv_crypto = tag_crypto, rv_root = [], rv_secrets = rows, rv_readable = (\<lambda>_. True)\<rparr>"

lemma sample_scan: "scan_secret_keys (normalize_vault_aliases ''{{secret:k}}'') = [''k'']"
proof -
  have t: "trim_start ''secret:k}}'' = ''secret:k}}''" "trim_start ''}}'' = ''}}''" by code_simp+
  have "ref_at ''secret:'' ''{{secret:k}}'' = Some ([], ''k'', [], [])"
    by (simp add: ref_at_def strip_prefix_def starts_with_def t key_char_def is_digit_def Let_def)
  then have "secret_refs ''{{secret:k}}'' = [''k'']" by (subst secret_refs.simps) (simp add: secret_refs.simps)
  moreover have "contains_str ''{{secret:k}}'' ''vault:'' = False" by code_simp
  ultimately show ?thesis by (simp add: scan_secret_keys_def normalize_vault_aliases_def)
qed

lemma sample_resolved: "resolve_run_refs (sample_refs_env []) sample_recipe JNull True =
     Some (\<lparr>rf_credentials = Map.empty, rf_form = Map.empty, rf_steps = ''{{secret:k}}''\<rparr>, [])"
proof -
  have "rsplit_once CHR ''.'' ''k'' = None" by (simp add: rsplit_once_def rfind_byte_def)
  moreover have "normalize_vault_aliases ''{{secret:k}}'' = ''{{secret:k}}''"
    by (simp add: normalize_vault_aliases_def) code_simp
  ultimately show ?thesis using sample_scan
    by (simp add: resolve_run_refs_def sample_recipe_def sample_refs_env_def build_form_data_def stored_form_def
        decrypt_workflow_credentials_def resolve_key_def get_by_key_def unwrap_or_def Let_def)
qed

lemma channel_is_what_is_named_witness:
  "rf_credentials (fst (the (resolve_run_refs (sample_refs_env []) sample_recipe JNull True))) ''other'' = None"
  using fun_cong[OF conjunct1[OF channel_is_what_is_named[OF sample_resolved]], of "''other''"]
  by (simp add: sample_resolved)

lemma secrets_stay_in_channel_witness:
  "rf_steps (fst (the (resolve_run_refs (sample_refs_env []) sample_recipe JNull True))) = ''{{secret:k}}''"
  using secrets_stay_in_channel[OF sample_resolved sample_resolved refl] by (simp add: sample_resolved)

end
