(* ===== verification/Spec2Isabelle.thy ===== *)
theory Spec2Isabelle
  imports Prelude F64 Governor MonModels TimeSlots MonUpdates NetAddr UrlGuard CookieJar Robots
    SessionRelay Update WsTicket RunRegistry Recurrence ScheduledLane
    FlowExpr Flow ApiAuth OAuth AuthGate Vault VaultLock VaultRotate DataRows DataLineage
    ScheduledProgress CrawlFetch CrawlRun CrawlShard CrawlJobs CrawlSaved
    FileStore Retention AuthImport Hooks Resolve
begin

text \<open>
  A verification library of the Writ agent, a Rust daemon that runs browser automations on the user's
  machine. Paths below are relative to \<open>src/src/\<close>.

  The program. A local daemon keeps workflows, automations, secrets and run history in an encrypted database,
  serves an HTTP API on the loopback interface, runs workflows in a browser or over plain HTTP when a client, a
  schedule or a monitored change asks for it, relays browser sessions to remote clients, and keeps itself up to
  date. The parts modelled here are those that decide: who may call, what may run and when, where a request may
  go, which data are kept and under which key.

  \<^bold>\<open>Conventions.\<close> A struct is a \<open>record\<close> and an enum a \<open>datatype\<close>, an operation is a function that returns the
  updated state, a fallible one returns a sum or an option, text is a list of bytes, machine integers are words or
  carry their wrap-around explicitly. What the source calls and does not define is an argument: the clock,
  random bytes, hash functions and ciphers, the parsers of foreign crates, DNS, the browser engine, and whether
  each read or write of the database, the keyring and the file system succeeds. Concurrent callers are
  interleavings of the atomic steps of the source, as an inductive step relation.

  \<^bold>\<open>Shared theories.\<close>
  \<^item> \<open>Prelude\<close>: strings, trimming and searching, decimal text, JSON values, 64-bit arithmetic, and three interfaces:
    \<open>invariant_system\<close> (a start predicate, a step relation and an invariant every step keeps), \<open>bounded_store\<close> (a store
    whose operations never exceed a cap) and \<open>one_shot\<close> (a claim that succeeds at most once per token). \<open>F64\<close>:
    rounding of binary64 values. \<open>NetAddr\<close>: IP addresses.

  \<^bold>\<open>Scheduling and execution.\<close>
  \<^item> \<open>Governor\<close> (\<open>local/governor.rs\<close>): admission of runs under a global and a background ceiling with memory shedding. The
    lock-free code is a step relation over any number of callers; the ceilings hold in every reachable state, no
    permit leaks, and the sequential functions are sequences of its steps.
  \<^item> \<open>MonModels\<close>, \<open>TimeSlots\<close>, \<open>MonUpdates\<close> (\<open>monitor/models.rs\<close>, \<open>monitor/scheduler.rs\<close>, \<open>monitor/incremental.rs\<close> and the
    workflow reconciliation): the periodic slots of monitored targets, their partition and rate floors, and the
    versioned queue of live changes.
  \<^item> \<open>Recurrence\<close> and \<open>ScheduledLane\<close> (\<open>local/scheduler/\<close>): the next occurrence of interval, daily and weekly schedules
    over an abstract calendar with clock changes, and one tick of the lane that marks due workflows and launches
    them. A launched workflow was advanced first and is not selected again before its next time. \<open>ScheduledProgress\<close>: over
    repeated ticks every due workflow is launched, within the ticks that those ahead of it need.
  \<^item> \<open>FlowExpr\<close> and \<open>Flow\<close> (\<open>local/flow.rs\<close> and the automation tables): conditions, templates and filters, the block tree, the
    walk with retries, loops and error handling, the guardrails. The walk carries fuel for its recursion over the
    tree; the number of blocks is enough when block ids are distinct, which the termination theorem shows, and a
    block that is its own parent shows the need.
  \<^item> \<open>RunRegistry\<close> (\<open>local/engine/registry.rs\<close>, \<open>local/engine/events.rs\<close>): live runs, cancellation, and one terminal event
    per run.

  \<^bold>\<open>Network.\<close>
  \<^item> \<open>UrlGuard\<close> (\<open>security/url_guard.rs\<close>): the server-side request forgery guard, as intervals of addresses, the synchronous and
    the cached asynchronous checks.
  \<^item> \<open>CookieJar\<close> (\<open>automation/http_lane/jar.rs\<close>), \<open>Robots\<close> (\<open>crawl_shard/robots.rs\<close>): cookies and robots rules of the browserless lane.
  \<^item> \<open>SessionRelay\<close> (\<open>bridge/session_relay.rs\<close>): the bounded, coalescing queue of a relayed session and its frames; it is
    the instance of the interface \<open>unget_queue\<close>.

  \<^bold>\<open>Crawling\<close> (\<open>crawl_shard/mod.rs\<close>).
  \<^item> \<open>CrawlFetch\<close> (with \<open>crawl_shard/body_limit.rs\<close>): one page. The session headers and cookies a request may carry, the pacing per site, the
    bounded reads, what counts as a refusal, documents, and the escalation to a browser, down to the outcome
    \<open>fetch_resolve\<close> gives. A refusal is never banked as content, and a session header stays on its own domain.
  \<^item> \<open>CrawlRun\<close>: admission and the worker pool of the crawl on this machine. A turn of the loop is given the worker that finishes
    and the world it fetched in, so the theorems hold for every order of completion and for workers that panic. The
    turns are the fuel: one more than the page budget is enough, which the termination theorem shows, and what is
    fetched is permitted, distinct and within the budget for any number of them.
  \<^item> \<open>CrawlJobs\<close> (with \<open>local/store/crawl_jobs.rs\<close> and handlers of \<open>local/api/v1/crawl.rs\<close>): the crawl's row, the start of a crawl, the
    sitemaps, and the run of a row to its terminal status while other requests cancel and remove rows.
  \<^item> \<open>CrawlSaved\<close> (\<open>local/store/crawl_definitions.rs\<close> and the definition handlers of the same file): saved crawls, their slugs and
    references, and when a run answers from an earlier one. The 198 attempts at a slug are the bound of the source.
  \<^item> \<open>CrawlShard\<close>: the batch of a coordinator. Its report names each address once; a worker that panics loses its address.

  \<^bold>\<open>Access.\<close>
  \<^item> \<open>WsTicket\<close> (\<open>local/ws_ticket.rs\<close>): single-use connect tickets.
  \<^item> \<open>ApiAuth\<close> (\<open>local/auth.rs\<close>, \<open>local/runtime_token.rs\<close>, \<open>local/store/local_api_keys.rs\<close>): origins, scopes, the runtime token
    and the client keys. \<open>OAuth\<close> (\<open>local/api/v1/oauth.rs\<close>, \<open>local/store/oauth.rs\<close>): the authorization server; three instances of
    \<open>one_shot\<close>, and a run of the server with the log of its events, over which every token is traced to a consent.
    \<open>AuthGate\<close> (\<open>auth_mw\<close> of \<open>local/server.rs\<close>) composes the two: what is admitted, and that a token from consent never
    reaches a management route.
  \<^item> \<open>Hooks\<close> (\<open>local/api/v1/hooks.rs\<close>): the one route without a bearer. Its flow is \<open>run_automation\<close> of \<open>Flow\<close>, with the same fuel; no call
    has an effect unless its token and, where there is a secret, its signature were accepted.
  \<^item> \<open>Update\<close> (\<open>local/update/\<close>): the signed manifest, the decision to update, the rollback gate.

  \<^bold>\<open>Secrets.\<close>
  \<^item> \<open>Vault\<close> (\<open>local/vault.rs\<close>): sealed fields, the chunked file envelope, one-time codes, custody of the root between
    keyring and file. \<open>VaultLock\<close> (\<open>local/vault_lock.rs\<close>, \<open>local/vault_recovery.rs\<close>, \<open>local/api/v1/vault.rs\<close>): the app-lock and the
    recovery code.
  \<^item> \<open>VaultRotate\<close> (\<open>local/vault_rotate.rs\<close> and the boot sequence of \<open>local/app/lifecycle.rs\<close>): rotation of the root on a disk with
    a budget of durable writes. The program is written over combinators for writes, errors and crashes, with a
    weakest precondition that also states what every crash leaves; the theorem covers a crash at each write of
    the rotation and of any number of boots after it. The run without a budget is total, so the theorem gives
    the boot that returns, not only what holds if it does.

  \<^item> \<open>AuthImport\<close> (\<open>local/authenticator_import.rs\<close> and the import handlers of \<open>local/api/v1/personas.rs\<close>): the import of one-time-code
    seeds, from the wire format of a phone's export through the staging area, an instance of \<open>bounded_store\<close>, to seeds
    sealed under their personas. A chunk's end is computed modulo \<open>2 ^ 64\<close>, as the release build does, and a slice out
    of range is the value \<open>Panics\<close>. The reader inverts the format, and an imported persona mints the phone's codes.
  \<^item> \<open>Resolve\<close> (\<open>util/value_resolver.rs\<close>, \<open>local/engine/resolve.rs\<close>): the placeholders of a recipe. Regular expressions are the scans they
    denote. What enters the secret channel is exactly what the recipe names, the other channel depends on no secret,
    and form values are inert; lemmas show a value from a page, and a nested file marker, that are not.

  \<^bold>\<open>Data.\<close>
  \<^item> \<open>DataRows\<close> (\<open>local/data_query.rs\<close>): from the stored result of a run to records, the removal of internal and secret keys, the flat
    table with its search, filters, order and pages, and CSV. The rows are well typed, nothing internal surfaces, a
    page is a window of the sorted matching rows, and an RFC 4180 reader gets every cell back. A sort whose
    comparison is no total order is \<open>None\<close>.
  \<^item> \<open>DataLineage\<close> (the same file): normal forms, record uids, the choice of an identity, the difference of two versions, and the walk
    along the snapshots. The walk is refined by the appearances of each record: the histories, the current dataset and the
    counts of every snapshot are functions of them.

  \<^bold>\<open>Files and retention.\<close>
  \<^item> \<open>FileStore\<close> (\<open>local/storage/files.rs\<close>, \<open>local/store/stored_files.rs\<close>): rows and encrypted blobs over the envelope of \<open>Vault\<close>. Every live
    row keeps a blob that opens to the recorded bytes, also under deduplication.
  \<^item> \<open>Retention\<close> (\<open>local/retention.rs\<close>): the purge by age with every failure it tolerates, the cap on logs, and the fleet worker's
    loop. What is not its own is spared whatever fails, what is its own is reclaimed when nothing does, and a
    lemma each shows what is lost or left behind otherwise.

  \<^bold>\<open>Not modelled.\<close> The command line, the HTTP handlers that only move rows, the SQL text and migrations, browser control and
  recording, the language-model sessions and their prompts, code generation, streaming transports, backup
  archives, cloud synchronisation and the MCP tool catalogue: these are input and output around foreign systems,
  or text whose meaning lies outside the program. The manifest lists them part by part.

  \<^bold>\<open>Next.\<close> Selection of due monitors and the device's capacity budget, the facets of the data
  table, and the comparison of page snapshots.
\<close>

end
